(* ===== verification/Prelude.thy ===== *)
theory Prelude
  imports Main "HOL-Library.Word" "HOL-Library.AList"
begin

text \<open>
  The vocabulary every other theory shares: the machine integers of the Go program, its
  error values (\<open>errors.New\<close>, \<open>fmt.Errorf\<close> with \<open>%w\<close>, \<open>errors.Join\<close>, \<open>errors.Is\<close>), the parts of
  the \<open>strings\<close> and \<open>strconv\<close> packages the sources call, and Go maps as association lists.
  Strings are lists of bytes, as a Go string is.
\<close>

named_theorems go_simps \<open>equations of the Go library functions\<close>
named_theorems frame_simps \<open>fields an operation of the program leaves alone\<close>

unbundle bit_operations_syntax

section \<open>Machine integers\<close>

type_synonym byte = "8 word"
type_synonym u8 = "8 word"
type_synonym u16 = "16 word"
type_synonym u32 = "32 word"
type_synonym u64 = "64 word"

text \<open>A closed check of a mask's 32 bits determines the mask's bits at every index.\<close>

lemma bit_u32_cases:
  fixes w :: u32
  assumes "\<And>n. n < 32 \<Longrightarrow> bit w n = P n" and "\<And>n. P n \<Longrightarrow> n < 32"
  shows "bit w n = P n"
  using assms bit_imp_le_length [of w n] by (cases "n < 32") auto

lemma and_mask_bits:
  fixes w :: "'a::len word"
  assumes "uint w < 2 ^ k" and "bit w n"
  shows "n < k"
proof -
  from assms(1) have "w AND mask k = w" by (simp add: mask_eq_iff)
  with assms(2) have "bit (w AND mask k) n" by simp
  then show ?thesis by (simp add: bit_simps)
qed

section \<open>Error values\<close>

datatype sentinel =
    ErrInvalidStrategy | ErrGenerationNotFound | ErrLifecycleConflict
  | ErrPayloadTooLarge | DeadlineExceeded | Canceled | ErrStateCompatibility
  | ENOBUFS | EAGAIN | ErrDeadlineExceeded \<comment> \<open>\<open>unix.ENOBUFS\<close>, \<open>unix.EAGAIN\<close>, \<open>os.ErrDeadlineExceeded\<close>\<close>

text \<open>
  \<open>Msg\<close> is \<open>errors.New\<close>, \<open>Sent\<close> a package-level sentinel, \<open>Wrap\<close> is \<open>fmt.Errorf\<close> with the
  errors its \<open>%w\<close> verbs name. The variable parts of a message are left out.
\<close>

datatype err = Msg string | Sent sentinel | Wrap string "err list"

type_synonym 'a res = "err + 'a"

text \<open>\<open>errors.Is\<close> walks the wrapped errors; \<open>errors.Join\<close> drops nil errors and is nil when all are.\<close>

fun errors_Is :: "err \<Rightarrow> sentinel \<Rightarrow> bool" where
  "errors_Is (Msg m) s = False"
| "errors_Is (Sent t) s = (t = s)"
| "errors_Is (Wrap m es) s = list_ex (\<lambda>e. errors_Is e s) es"

definition errors_Join :: "err option list \<Rightarrow> err option" where
  "errors_Join es =
     (let present = List.map_filter (\<lambda>e. e) es
      in if present = [] then None else Some (Wrap [] present))"

fun err_Error :: "err \<Rightarrow> string" where
  "err_Error (Msg m) = m"
| "err_Error (Sent t) =
     (case t of ErrInvalidStrategy \<Rightarrow> ''invalid strategy''
      | ErrGenerationNotFound \<Rightarrow> ''engine generation not found''
      | ErrLifecycleConflict \<Rightarrow> ''adapter lifecycle conflict''
      | ErrPayloadTooLarge \<Rightarrow> ''artifact payload too large''
      | DeadlineExceeded \<Rightarrow> ''context deadline exceeded''
      | Canceled \<Rightarrow> ''context canceled''
      | ErrStateCompatibility \<Rightarrow> ''persisted artifact compatibility check failed''
      | ENOBUFS \<Rightarrow> ''no buffer space available''
      | EAGAIN \<Rightarrow> ''resource temporarily unavailable''
      | ErrDeadlineExceeded \<Rightarrow> ''i/o timeout'')"
| "err_Error (Wrap m es) = m @ concat (map err_Error es)"

lemma errors_Join_None [simp, go_simps]:
  "errors_Join es = None \<longleftrightarrow> (\<forall>e\<in>set es. e = None)"
  by (induction es) (auto simp: errors_Join_def map_filter_simps Let_def split: if_splits option.splits)

section \<open>Strings\<close>

definition HasPrefix :: "string \<Rightarrow> string \<Rightarrow> bool" where
  "HasPrefix s p = (take (length p) s = p)"

definition HasSuffix :: "string \<Rightarrow> string \<Rightarrow> bool" where
  "HasSuffix s p = (length p \<le> length s \<and> drop (length s - length p) s = p)"

definition TrimPrefix :: "string \<Rightarrow> string \<Rightarrow> string" where
  "TrimPrefix s p = (if HasPrefix s p then drop (length p) s else s)"

definition TrimSuffix :: "string \<Rightarrow> string \<Rightarrow> string" where
  "TrimSuffix s p = (if HasSuffix s p then take (length s - length p) s else s)"

text \<open>\<open>strings.Cut(s, sep)\<close> for a one-byte separator.\<close>

fun Cut :: "string \<Rightarrow> char \<Rightarrow> (string \<times> string) option" where
  "Cut [] c = None"
| "Cut (x # xs) c =
     (if x = c then Some ([], xs)
      else map_option (\<lambda>(a, b). (x # a, b)) (Cut xs c))"

text \<open>\<open>strings.SplitN(s, sep, n)\<close> for a one-byte separator and \<open>n > 0\<close>: at most \<open>n\<close> parts.\<close>

fun SplitN :: "string \<Rightarrow> char \<Rightarrow> nat \<Rightarrow> string list" where
  "SplitN s c 0 = []"
| "SplitN s c (Suc 0) = [s]"
| "SplitN s c (Suc (Suc n)) =
     (case Cut s c of None \<Rightarrow> [s] | Some (a, b) \<Rightarrow> a # SplitN b c (Suc n))"

text \<open>\<open>strings.LastIndex\<close> for one byte: \<open>Some i\<close> of the last occurrence, \<open>None\<close> for -1.\<close>

fun LastIndex :: "string \<Rightarrow> char \<Rightarrow> nat option" where
  "LastIndex [] c = None"
| "LastIndex (x # xs) c =
     (case LastIndex xs c of Some i \<Rightarrow> Some (Suc i) | None \<Rightarrow> if x = c then Some 0 else None)"


lemma TrimPrefix_append [simp, go_simps]: "TrimPrefix (p @ s) p = s"
  by (simp add: TrimPrefix_def HasPrefix_def)

lemma HasSuffix_append [simp, go_simps]: "HasSuffix (s @ p) p"
  by (simp add: HasSuffix_def)

lemma TrimSuffix_append [simp, go_simps]: "TrimSuffix (s @ p) p = s"
  by (simp add: TrimSuffix_def HasSuffix_def)

lemma HasSuffix_single: "HasSuffix s [c] \<longleftrightarrow> s \<noteq> [] \<and> last s = c"
  by (cases s rule: rev_cases) (auto simp: HasSuffix_def)

lemma Cut_append [go_simps]: "c \<notin> set a \<Longrightarrow> Cut (a @ c # b) c = Some (a, b)"
  by (induction a) auto

lemma LastIndex_None [go_simps]: "LastIndex s c = None \<longleftrightarrow> c \<notin> set s"
  by (induction s) (auto split: option.splits)

lemma LastIndex_append [go_simps]: "c \<notin> set b \<Longrightarrow> LastIndex (a @ c # b) c = Some (length a)"
  by (induction a) (auto simp: LastIndex_None split: option.splits)

fun join_with :: "string \<Rightarrow> string list \<Rightarrow> string" where
  "join_with sep [] = []"
| "join_with sep [x] = x"
| "join_with sep (x # y # xs) = x @ sep @ join_with sep (y # xs)"

definition digit_char :: "nat \<Rightarrow> char" where
  "digit_char d = ''0123456789abcdef'' ! d"

text \<open>The \<open>%d\<close> and \<open>%x\<close> verbs, most significant digit first.\<close>

fun show_base :: "nat \<Rightarrow> nat \<Rightarrow> string" where
  "show_base b n =
     (if b < 2 \<or> n < b then [digit_char n] else show_base b (n div b) @ [digit_char (n mod b)])"

declare show_base.simps [simp del]

definition show_dec :: "nat \<Rightarrow> string" where "show_dec = show_base 10"
definition show_hex :: "nat \<Rightarrow> string" where "show_hex n = ''0x'' @ show_base 16 n"

definition newline :: string where "newline = [CHR 0x0A]"
definition tab :: string where "tab = [CHR 0x09]"

text \<open>The UTF-8 encodings of the runes \<open>unicode.IsSpace\<close> accepts, which \<open>strings.TrimSpace\<close> strips.\<close>

definition space_runes :: "string list" where
  "space_runes =
     [[CHR 0x09], [CHR 0x0A], [CHR 0x0B], [CHR 0x0C], [CHR 0x0D], [CHR 0x20],
      [CHR 0xC2, CHR 0x85], [CHR 0xC2, CHR 0xA0], [CHR 0xE1, CHR 0x9A, CHR 0x80],
      [CHR 0xE2, CHR 0x80, CHR 0x80], [CHR 0xE2, CHR 0x80, CHR 0x81],
      [CHR 0xE2, CHR 0x80, CHR 0x82], [CHR 0xE2, CHR 0x80, CHR 0x83],
      [CHR 0xE2, CHR 0x80, CHR 0x84], [CHR 0xE2, CHR 0x80, CHR 0x85],
      [CHR 0xE2, CHR 0x80, CHR 0x86], [CHR 0xE2, CHR 0x80, CHR 0x87],
      [CHR 0xE2, CHR 0x80, CHR 0x88], [CHR 0xE2, CHR 0x80, CHR 0x89],
      [CHR 0xE2, CHR 0x80, CHR 0x8A], [CHR 0xE2, CHR 0x80, CHR 0xA8],
      [CHR 0xE2, CHR 0x80, CHR 0xA9], [CHR 0xE2, CHR 0x80, CHR 0xAF],
      [CHR 0xE2, CHR 0x81, CHR 0x9F], [CHR 0xE3, CHR 0x80, CHR 0x80]]"

lemma space_runes_nonempty: "r \<in> set space_runes \<Longrightarrow> r \<noteq> []"
  by (auto simp: space_runes_def)

text \<open>
  \<open>strings.TrimSpace\<close>: one loop strips encodings of space from the left, one from the right.
\<close>

function trim_left :: "string \<Rightarrow> string" where
  "trim_left s =
     (if s = [] then []
      else case find (\<lambda>r. HasPrefix s r) space_runes of
             None \<Rightarrow> s
           | Some r \<Rightarrow> trim_left (drop (length r) s))"
  by pat_completeness auto
termination
  by (relation "measure length") (auto simp: find_Some_iff space_runes_nonempty)

function trim_right :: "string \<Rightarrow> string" where
  "trim_right s =
     (if s = [] then []
      else case find (\<lambda>r. HasSuffix s r) space_runes of
             None \<Rightarrow> s
           | Some r \<Rightarrow> trim_right (take (length s - length r) s))"
  by pat_completeness auto
termination
  by (relation "measure length") (auto simp: find_Some_iff space_runes_nonempty)

declare trim_left.simps [simp del] trim_right.simps [simp del]

definition TrimSpace :: "string \<Rightarrow> string" where
  "TrimSpace s = trim_right (trim_left s)"

abbreviation blank :: "string \<Rightarrow> bool" where
  "blank s \<equiv> TrimSpace s = []"

text \<open>\<open>strconv.Atoi\<close>: an optional sign, at least one decimal digit, and the range of \<open>int\<close>.\<close>

definition digit_value :: "char \<Rightarrow> nat option" where
  "digit_value c =
     (let n = (of_char c :: nat) in if 48 \<le> n \<and> n \<le> 57 then Some (n - 48) else None)"

fun digits_value :: "nat \<Rightarrow> string \<Rightarrow> nat option" where
  "digits_value acc [] = Some acc"
| "digits_value acc (c # cs) =
     (case digit_value c of None \<Rightarrow> None | Some d \<Rightarrow> digits_value (10 * acc + d) cs)"

definition Atoi :: "string \<Rightarrow> int option" where
  "Atoi s =
     (let (sign, ds) = (case s of [] \<Rightarrow> (1, [])
                        | c # cs \<Rightarrow> if c = CHR ''-'' then (- 1, cs)
                                   else if c = CHR ''+'' then (1, cs) else (1, c # cs))
      in if ds = [] then None
         else case digits_value 0 ds of None \<Rightarrow> None
              | Some n \<Rightarrow>
                  (let i = sign * int n
                   in if - (2 ^ 63) \<le> i \<and> i < 2 ^ 63 then Some i else None))"

text \<open>\<open>strconv.ParseUint(s, 10, bits)\<close>.\<close>

definition ParseUint :: "nat \<Rightarrow> string \<Rightarrow> nat option" where
  "ParseUint bits s =
     (if s = [] then None
      else case digits_value 0 s of None \<Rightarrow> None
           | Some n \<Rightarrow> if n < 2 ^ bits then Some n else None)"

lemma digits_value_no_colon: "digits_value acc ds = Some n \<Longrightarrow> CHR '':'' \<notin> set ds"
proof (induction ds arbitrary: acc)
  case (Cons c ds)
  have "digit_value (CHR '':'') = None" by (simp add: digit_value_def)
  with Cons show ?case by (auto split: option.splits)
qed simp

lemma digit_value_colon [simp]: "digit_value (CHR '':'') = None"
  by (simp add: digit_value_def)

lemma Atoi_no_colon:
  assumes "Atoi g = Some i"
  shows "CHR '':'' \<notin> set g"
proof (cases g)
  case (Cons c cs)
  show ?thesis
  proof (cases "c = CHR ''-'' \<or> c = CHR ''+''")
    case True
    with assms Cons obtain n where "digits_value 0 cs = Some n"
      by (auto simp: Atoi_def Let_def split: if_splits option.splits)
    with True Cons show ?thesis by (auto dest: digits_value_no_colon)
  next
    case False
    with assms Cons obtain n where "digits_value 0 g = Some n"
      by (auto simp: Atoi_def Let_def split: if_splits option.splits)
    then show ?thesis by (rule digits_value_no_colon)
  qed
qed simp

section \<open>Go maps\<close>

text \<open>
  A Go map is an association list with distinct keys, in the order one iteration visits it:
  \<open>map_of\<close> reads, \<open>AList.update\<close> stores and \<open>AList.delete\<close> deletes. A statement about every
  association list is one about every iteration order.
\<close>

abbreviation keys :: "('k \<times> 'v) list \<Rightarrow> 'k list" where
  "keys m \<equiv> map fst m"

abbreviation wf_map :: "('k \<times> 'v) list \<Rightarrow> bool" where
  "wf_map m \<equiv> distinct (keys m)"

lemma map_of_update [simp, go_simps]: "map_of (AList.update k v m) = (map_of m)(k \<mapsto> v)"
  by (simp add: update_conv')

lemma map_of_delete [simp, go_simps]: "map_of (AList.delete k m) = (map_of m)(k := None)"
  by (simp add: delete_conv')

lemma wf_map_update [simp]: "wf_map m \<Longrightarrow> wf_map (AList.update k v m)"
  by (rule distinct_update)

lemma wf_map_delete [simp]: "wf_map m \<Longrightarrow> wf_map (AList.delete k m)"
  by (rule distinct_delete)

declare map_of_eq_Some_iff [simp del] Some_eq_map_of_iff [simp del]

lemma wf_map_mem: "wf_map m \<Longrightarrow> (k, v) \<in> set m \<longleftrightarrow> map_of m k = Some v"
  by (rule map_of_is_SomeI [THEN iffI]) (auto dest: map_of_SomeD)

lemma set_keys_update: "set (keys (AList.update k v m)) = insert k (set (keys m))"
  by (metis dom_map_of_conv_image_fst dom_update image_set list.set_map update_conv' dom_fun_upd option.distinct(1))

lemma length_update_new: "k \<notin> set (keys m) \<Longrightarrow> length (AList.update k v m) = Suc (length m)"
  by (induction m) auto

lemma length_update_old: "k \<in> set (keys m) \<Longrightarrow> length (AList.update k v m) = length m"
  by (induction m) auto

lemma length_delete_le: "length (AList.delete k m) \<le> length m"
  by (simp add: AList.delete_eq)

end
