(* ===== verification/Generation_Mark.thy ===== *)
theory Generation_Mark
  imports Prelude
begin

text \<open>
  \<open>internal/generation/mark.go\<close>: the conntrack-mark namespace. The high byte of a mark names
  Geneva, the next 12 bits carry the generation, the low 12 bits belong to other mark users.
\<close>

definition Mask :: u32 where "Mask = 0xfffff000"
definition Namespace :: u32 where "Namespace = 0x67000000"
definition HighByte :: u32 where "HighByte = 0xff000000" \<comment> \<open>the literal of \<open>ID\<close> and of \<open>Counts\<close>\<close>
definition MaxID :: u32 where "MaxID = 0x0fff"

definition Mark :: "u32 \<Rightarrow> u32 res" where
  "Mark gid =
     (if gid = 0 \<or> gid > MaxID then Inl (Msg ''generation must be between 1 and MaxID'')
      else Inr (Namespace OR push_bit 12 gid))"

definition ID :: "u32 \<Rightarrow> u32 \<times> bool" where
  "ID m =
     (if m AND HighByte \<noteq> Namespace then (0, False)
      else let gid = drop_bit 12 m AND MaxID in (gid, gid \<noteq> 0))"

subsection \<open>The bits of the constants\<close>

lemma bit_Mask: "bit Mask n \<longleftrightarrow> 12 \<le> n \<and> n < 32"
proof (rule bit_u32_cases)
  have "\<forall>n<32. bit Mask n = (12 \<le> n)" unfolding Mask_def by code_simp
  then show "n < 32 \<Longrightarrow> bit Mask n = (12 \<le> n \<and> n < 32)" for n by auto
qed auto

lemma bit_HighByte: "bit HighByte n \<longleftrightarrow> 24 \<le> n \<and> n < 32"
proof (rule bit_u32_cases)
  have "\<forall>n<32. bit HighByte n = (24 \<le> n)" unfolding HighByte_def by code_simp
  then show "n < 32 \<Longrightarrow> bit HighByte n = (24 \<le> n \<and> n < 32)" for n by auto
qed auto

lemma bit_Namespace_high: "bit Namespace n \<Longrightarrow> 24 \<le> n \<and> n < 32"
proof -
  assume b: "bit Namespace n"
  have "\<forall>n<24. \<not> bit Namespace n" unfolding Namespace_def by code_simp
  with b have "24 \<le> n" by (meson not_le)
  moreover from b have "n < 32" using bit_imp_le_length [of Namespace n] by simp
  ultimately show ?thesis by simp
qed

lemma MaxID_mask: "MaxID = mask 12"
  unfolding MaxID_def by code_simp

lemma bit_MaxID: "bit MaxID n \<longleftrightarrow> n < 12"
  by (auto simp: MaxID_mask bit_simps)

lemma gid_bits:
  assumes "gid \<le> MaxID" and "bit gid n"
  shows "n < 12"
proof -
  from assms(1) have "uint gid < 2 ^ 12"
    by (simp add: MaxID_def word_le_def)
  then show ?thesis using assms(2) by (rule and_mask_bits)
qed

subsection \<open>Packing and reading back\<close>

lemma gid_or_mark_low:
  assumes "gid \<le> MaxID" and "low AND Mask = 0"
  shows "(low OR (Namespace OR push_bit 12 gid)) AND HighByte = Namespace"
    and "drop_bit 12 (low OR (Namespace OR push_bit 12 gid)) AND MaxID = gid"
    and "(low OR (Namespace OR push_bit 12 gid)) AND NOT Mask = low"
proof -
  have low: "n < 12" if "bit low n" for n
  proof -
    from assms(2) have "\<not> (bit low n \<and> bit Mask n)"
      by (metis bit_and_iff bit_0_eq bot_apply bot_bool_def)
    with that bit_imp_le_length [OF that] show ?thesis by (auto simp: bit_Mask)
  qed
  show "(low OR (Namespace OR push_bit 12 gid)) AND HighByte = Namespace"
    by (rule bit_word_eqI)
      (auto simp: bit_simps bit_HighByte dest: low gid_bits [OF assms(1)] bit_Namespace_high)
  show "drop_bit 12 (low OR (Namespace OR push_bit 12 gid)) AND MaxID = gid"
    by (rule bit_word_eqI)
      (auto simp: bit_simps bit_MaxID dest: low gid_bits [OF assms(1)] bit_Namespace_high)
  show "(low OR (Namespace OR push_bit 12 gid)) AND NOT Mask = low"
    by (rule bit_word_eqI)
      (auto simp: bit_simps bit_Mask dest: low gid_bits [OF assms(1)] bit_Namespace_high)
qed

lemma Mark_Inr: "Mark gid = Inr m \<longleftrightarrow> gid \<noteq> 0 \<and> gid \<le> MaxID \<and> m = Namespace OR push_bit 12 gid"
  by (auto simp: Mark_def not_less)

lemma Mark_valid: "(\<exists>m. Mark gid = Inr m) \<longleftrightarrow> gid \<noteq> 0 \<and> gid \<le> MaxID"
  by (auto simp: Mark_def not_less)

lemma ID_of_Mark:
  assumes "Mark gid = Inr m" and "low AND Mask = 0"
  shows "ID (low OR m) = (gid, True)"
  using assms gid_or_mark_low [of gid low] by (auto simp: Mark_Inr ID_def Let_def)

lemma Mark_keeps_low:
  assumes "Mark gid = Inr m" and "low AND Mask = 0"
  shows "(low OR m) AND NOT Mask = low"
  using assms gid_or_mark_low [of gid low] by (auto simp: Mark_Inr)

lemma ID_sound:
  assumes "ID m = (gid, True)"
  shows "Mark gid = Inr (m AND Mask)"
proof -
  from assms have ns: "m AND HighByte = Namespace"
    and g: "gid = drop_bit 12 m AND MaxID" and nz: "gid \<noteq> 0"
    by (auto simp: ID_def Let_def split: if_splits)
  have "uint gid \<le> uint MaxID"
    unfolding g by (metis word_and_le1 word_le_def)
  then have le: "gid \<le> MaxID" by (simp add: word_le_def)
  have "m AND Mask = Namespace OR push_bit 12 gid"
    unfolding g ns [symmetric]
    by (rule bit_word_eqI) (auto simp: bit_simps bit_Mask bit_HighByte bit_MaxID)
  with le nz show ?thesis by (simp add: Mark_Inr)
qed

section \<open>Properties\<close>

text \<open>A generation's mark, written into the adapter's bits of a conntrack mark next to any
  low bits of other users, is read back as exactly that generation and leaves those low bits
  unchanged.\<close>

theorem mark_roundtrip:
  assumes "Mark gid = Inr m" and "low AND Mask = 0"
  shows "ID (low OR m) = (gid, True) \<and> (low OR m) AND NOT Mask = low"
  using assms by (simp add: ID_of_Mark Mark_keeps_low)

theorem mark_roundtrip_witness:
  "ID (0xabc OR 0x67007000) = (7, True) \<and> (0xabc OR 0x67007000) AND NOT Mask = 0xabc"
  by (rule mark_roundtrip) (simp_all add: Mark_def MaxID_def Namespace_def Mask_def)

end
