(* ===== verification/Nft_Rules.thy ===== *)
theory Nft_Rules
  imports Generation_Mark
begin

text \<open>
  The pure half of \<open>internal/nftables/manager.go\<close>: the configuration of the steering table, the
  text of its rules, and when the table is idle. The commands that install it are in
  \<open>Nft_Manager\<close>.
\<close>

section \<open>Selectors\<close>

datatype FlagMatch = FlagMatch (fm_Mask: u8) (fm_Value: u8)

record Selector =
  sel_Any :: bool
  sel_Flags :: "FlagMatch list"

definition sel_Empty :: "Selector \<Rightarrow> bool" where
  "sel_Empty s \<longleftrightarrow> \<not> sel_Any s \<and> sel_Flags s = []"

abbreviation no_selector :: Selector where
  "no_selector \<equiv> \<lparr>sel_Any = False, sel_Flags = []\<rparr>"

abbreviation any_selector :: Selector where
  "any_selector \<equiv> \<lparr>sel_Any = True, sel_Flags = []\<rparr>"

text \<open>\<open>FlagMatch\<close> matches the packets for which \<open>tcp flags & Mask == Value\<close>.\<close>

definition flag_matches :: "FlagMatch \<Rightarrow> u8 \<Rightarrow> bool" where
  "flag_matches m flags \<longleftrightarrow> flags AND fm_Mask m = fm_Value m"

definition selects :: "Selector \<Rightarrow> u8 \<Rightarrow> bool" where
  "selects s flags \<longleftrightarrow> sel_Any s \<or> (\<exists>m\<in>set (sel_Flags s). flag_matches m flags)"

lemma selects_no_selector [simp]: "selects no_selector flags \<longleftrightarrow> False"
  by (simp add: selects_def)

lemma selects_any_selector [simp]: "selects any_selector flags"
  by (simp add: selects_def)

lemma sel_Empty_simps [simp]: "sel_Empty no_selector" "\<not> sel_Empty any_selector"
  by (simp_all add: sel_Empty_def)

lemma sel_Empty_selects_nothing: "sel_Empty s \<Longrightarrow> \<not> selects s flags"
  by (simp add: sel_Empty_def selects_def)

text \<open>The order \<open>sort.Slice\<close> uses in \<open>canonicalFlags\<close>: mask first, then value.\<close>

instantiation FlagMatch :: linorder
begin

definition less_eq_FlagMatch :: "FlagMatch \<Rightarrow> FlagMatch \<Rightarrow> bool" where
  "less_eq_FlagMatch a b \<longleftrightarrow>
     (if fm_Mask a \<noteq> fm_Mask b then fm_Mask a < fm_Mask b else fm_Value a \<le> fm_Value b)"

definition less_FlagMatch :: "FlagMatch \<Rightarrow> FlagMatch \<Rightarrow> bool" where
  "less_FlagMatch a b \<longleftrightarrow>
     (if fm_Mask a \<noteq> fm_Mask b then fm_Mask a < fm_Mask b else fm_Value a < fm_Value b)"

instance
  by standard
    (auto simp: less_eq_FlagMatch_def less_FlagMatch_def FlagMatch.expand split: if_splits)

end

section \<open>Configuration\<close>

record Generation =
  gn_ID :: u32
  gn_Outbound :: Selector
  gn_Inbound :: Selector

record Config =
  nf_Table :: string
  nf_Port :: u16
  nf_Outbound :: Selector
  nf_Inbound :: Selector
  nf_Generations :: "Generation list"
  nf_ActiveGeneration :: u32
  nf_NeutralizeNew :: bool
  nf_Censor :: bool
  nf_OutQueue :: u16
  nf_InQueue :: u16
  nf_BypassUID :: u32
  nf_NFTPath :: string

text \<open>\<open>New\<close> fills in the defaults. A \<open>Manager\<close> holds nothing but its configuration.\<close>

definition nft_New :: "Config \<Rightarrow> Config" where
  "nft_New cfg =
     (let cfg = (if nf_Table cfg = [] then cfg\<lparr>nf_Table := ''geneva_server''\<rparr> else cfg)
      in if nf_NFTPath cfg = [] then cfg\<lparr>nf_NFTPath := ''nft''\<rparr> else cfg)"

lemma nft_New_fields [simp]:
  "nf_Generations (nft_New c) = nf_Generations c"
  "nf_ActiveGeneration (nft_New c) = nf_ActiveGeneration c"
  "nf_NeutralizeNew (nft_New c) = nf_NeutralizeNew c"
  "nf_Outbound (nft_New c) = nf_Outbound c"
  "nf_Inbound (nft_New c) = nf_Inbound c"
  "nf_Port (nft_New c) = nf_Port c"
  by (simp_all add: nft_New_def Let_def)

lemma nft_New_idem [simp]: "nft_New (nft_New c) = nft_New c"
  by (simp add: nft_New_def Let_def)

definition generations :: "Config \<Rightarrow> Generation list" where
  "generations cfg =
     (if nf_Generations cfg \<noteq> [] then nf_Generations cfg
      else if sel_Empty (nf_Outbound cfg) \<and> sel_Empty (nf_Inbound cfg) then []
      else [\<lparr>gn_ID = 1, gn_Outbound = nf_Outbound cfg, gn_Inbound = nf_Inbound cfg\<rparr>])"

definition gen_steers :: "Generation \<Rightarrow> bool" where
  "gen_steers g \<longleftrightarrow> \<not> sel_Empty (gn_Outbound g) \<or> \<not> sel_Empty (gn_Inbound g)"

definition Idle :: "Config \<Rightarrow> bool" where
  "Idle cfg \<longleftrightarrow>
     (if nf_NeutralizeNew cfg then False
      else if list_ex gen_steers (generations cfg) then False
      else nf_ActiveGeneration cfg = 0)"

section \<open>Rule text\<close>

definition nftFlagNames :: "(u8 \<times> string) list" where
  "nftFlagNames =
     [(0x01, ''fin''), (0x02, ''syn''), (0x04, ''rst''), (0x08, ''psh''),
      (0x10, ''ack''), (0x20, ''urg''), (0x40, ''ecn''), (0x80, ''cwr'')]"

definition names_of :: "u8 \<Rightarrow> string list" where
  "names_of bits = map snd (filter (\<lambda>f. bits AND fst f \<noteq> 0) nftFlagNames)"

text \<open>\<open>names[0]\<close> is read only when \<open>bits\<close> is nonzero; \<open>names_of_nonempty\<close> shows it is in range.\<close>

definition flagNames :: "u8 \<Rightarrow> string" where
  "flagNames bits =
     (if bits = 0 then ''0x0''
      else let names = names_of bits
           in if length names > 1 then ''('' @ join_with ''|'' names @ '')'' else hd names)"

definition flagExpr :: "FlagMatch \<Rightarrow> string" where
  "flagExpr m =
     (if fm_Mask m = 0xff then ''tcp flags & 0xff == '' @ flagNames (fm_Value m)
      else ''tcp flags & '' @ flagNames (fm_Mask m) @ '' == '' @ flagNames (fm_Value m))"

definition generationQueueRules ::
  "Generation \<Rightarrow> Selector \<Rightarrow> string \<Rightarrow> u16 \<Rightarrow> u16 \<Rightarrow> string list" where
  "generationQueueRules gen sel portKeyword port queue =
     (case Mark (gn_ID gen) of
        Inl _ \<Rightarrow> []
      | Inr mark \<Rightarrow>
          if sel_Empty sel then []
          else
            let base = ''meta nfproto ipv4 meta l4proto tcp tcp '' @ portKeyword @ '' '' @
                         show_dec (unat port) @ '' ct mark & '' @ show_hex (unat Mask) @
                         '' == '' @ show_hex (unat mark);
                verdict = ''queue num '' @ show_dec (unat queue) @ '' bypass''
            in if sel_Any sel then [base @ '' '' @ verdict]
               else map (\<lambda>f. base @ '' '' @ flagExpr f @ '' '' @ verdict) (sel_Flags sel))"

definition censorDataMinLength :: nat where "censorDataMinLength = 80"
definition censorChain :: string where "censorChain = ''censor_in''"

definition CensorCounters :: "string list" where
  "CensorCounters = [''rst'', ''syn'', ''fin'', ''data'', ''ack_only'']"

definition quoted :: "string \<Rightarrow> string" where
  "quoted s = [CHR 0x22] @ s @ [CHR 0x22]"

definition censorRules :: "string list" where
  "censorRules =
     [''chain '' @ censorChain @ '' {'',
      tab @ tab @ ''tcp flags & rst == rst counter name '' @ quoted ''rst'' @ '' return'',
      tab @ tab @ ''tcp flags & (syn|ack) == syn counter name '' @ quoted ''syn'' @ '' return'',
      tab @ tab @ ''tcp flags & fin == fin counter name '' @ quoted ''fin'' @ '' return'',
      tab @ tab @ ''meta length > '' @ show_dec censorDataMinLength @ '' counter name '' @
        quoted ''data'' @ '' return'',
      tab @ tab @ ''counter name '' @ quoted ''ack_only'' @ '' return'',
      tab @ ''}'']"

text \<open>Which generation new SYNs are assigned; \<open>None\<close> when no assignment rule is written.\<close>

definition assigned_mark :: "Config \<Rightarrow> u32 option" where
  "assigned_mark cfg =
     (let activeGeneration =
            (if nf_ActiveGeneration cfg = 0 \<and> \<not> nf_NeutralizeNew cfg \<and> nf_Generations cfg = [] \<and>
                (\<not> sel_Empty (nf_Outbound cfg) \<or> \<not> sel_Empty (nf_Inbound cfg))
             then 1 else nf_ActiveGeneration cfg)
      in if activeGeneration \<noteq> 0 \<or> nf_NeutralizeNew cfg then
           (if activeGeneration \<noteq> 0 then
              (case Mark activeGeneration of Inl _ \<Rightarrow> Some 0 | Inr mark \<Rightarrow> Some mark)
            else Some Namespace)
         else None)"

definition assignment_rule :: "u16 \<Rightarrow> u32 \<Rightarrow> string" where
  "assignment_rule port mark =
     ''meta nfproto ipv4 meta l4proto tcp tcp dport '' @ show_dec (unat port) @
     '' ct state new tcp flags & (syn|ack) == syn ct mark & '' @ show_hex (unat Mask) @
     '' == 0 ct mark set (ct mark & '' @ show_hex (unat (NOT Mask)) @ '') | '' @ show_hex (unat mark)"

text \<open>
  The fingerprint of the configuration, hex of a SHA-256 prefix over its JSON, is the
  parameter \<open>fp\<close>.
\<close>

definition revisionChain :: "(Config \<Rightarrow> string) \<Rightarrow> Config \<Rightarrow> string" where
  "revisionChain fp cfg = ''geneva_config_'' @ fp cfg"

definition output_chain :: "Config \<Rightarrow> string list" where
  "output_chain cfg =
     [tab @ ''chain output {'',
      tab @ tab @ ''type route hook output priority mangle; policy accept;'',
      tab @ tab @ ''meta skuid '' @ show_dec (unat (nf_BypassUID cfg)) @ '' accept''] @
     map (\<lambda>r. tab @ tab @ r)
       (concat (map (\<lambda>g. generationQueueRules g (gn_Outbound g) ''sport'' (nf_Port cfg) (nf_OutQueue cfg))
          (generations cfg))) @
     [tab @ ''}'']"

definition input_chain :: "Config \<Rightarrow> string list" where
  "input_chain cfg =
     [tab @ ''chain input {'',
      tab @ tab @ ''type filter hook input priority 0; policy accept;''] @
     (if nf_Censor cfg then
        [tab @ tab @ ''meta nfproto ipv4 meta l4proto tcp tcp dport '' @
           show_dec (unat (nf_Port cfg)) @ '' jump '' @ censorChain] else []) @
     (case assigned_mark cfg of None \<Rightarrow> []
      | Some mark \<Rightarrow> [tab @ tab @ assignment_rule (nf_Port cfg) mark]) @
     map (\<lambda>r. tab @ tab @ r)
       (concat (map (\<lambda>g. generationQueueRules g (gn_Inbound g) ''dport'' (nf_Port cfg) (nf_InQueue cfg))
          (generations cfg))) @
     [tab @ ''}'']"

definition ruleset_lines :: "(Config \<Rightarrow> string) \<Rightarrow> Config \<Rightarrow> string list" where
  "ruleset_lines fp cfg =
     [''table inet '' @ nf_Table cfg @ '' {''] @
     (if nf_Censor cfg then
        map (\<lambda>c. tab @ ''counter '' @ c @ '' {}'') CensorCounters @ map (\<lambda>l. tab @ l) censorRules
      else []) @
     output_chain cfg @ input_chain cfg @
     [tab @ ''chain '' @ revisionChain fp cfg @ '' {}'', ''}'']"

definition Ruleset :: "(Config \<Rightarrow> string) \<Rightarrow> Config \<Rightarrow> string" where
  "Ruleset fp cfg =
     (if Idle cfg then [] else concat (map (\<lambda>l. l @ newline) (ruleset_lines fp cfg)))"

end
