(* ===== verification/Nft_Manager.thy ===== *)
theory Nft_Manager
  imports Nft_Rules
begin

text \<open>
  The half of \<open>internal/nftables/manager.go\<close> that runs \<open>nft\<close>. The kernel's table and the
  command's behaviour are an explicit world: every command consumes one outcome of a script
  that is universally quantified in the theorems, so a command may work, fail without
  effect, or take effect and still report an error (a timeout after the commit). Replacement
  of the table is atomic, as \<open>nft -f\<close> is.
\<close>

section \<open>The outside world\<close>

datatype outcome = OK | Fail | FailAfter

record ext_world =
  w_script :: "outcome list"

definition pop :: "'z ext_world_scheme \<Rightarrow> outcome \<times> 'z ext_world_scheme" where
  "pop w = (case w_script w of [] \<Rightarrow> (OK, w) | x # xs \<Rightarrow> (x, w\<lparr>w_script := xs\<rparr>))"

record nft_world = ext_world +
  w_table :: "Config option"

lemma pop_table [simp, frame_simps]: "w_table (snd (pop w)) = w_table w"
  by (simp add: pop_def split: list.splits)

section \<open>Commands\<close>

text \<open>
  A script for \<open>nft -f -\<close>: whether it deletes the old table first, and the configuration
  whose ruleset follows (none when the manager is idle). The script text is empty exactly
  when both are missing.
\<close>

datatype nft_script = NftScript (ns_delete: bool) (ns_rules: "Config option")

definition script_empty :: "nft_script \<Rightarrow> bool" where
  "script_empty s \<longleftrightarrow> \<not> ns_delete s \<and> ns_rules s = None"

definition run_effect :: "nft_script \<Rightarrow> Config option \<Rightarrow> Config option" where
  "run_effect s t = (case ns_rules s of Some c \<Rightarrow> Some c | None \<Rightarrow> if ns_delete s then None else t)"

definition nft_exists :: "'z nft_world_scheme \<Rightarrow> bool res \<times> 'z nft_world_scheme" where
  "nft_exists w =
     (case pop w of
        (OK, w) \<Rightarrow> (Inr (w_table w \<noteq> None), w)
      | (_, w) \<Rightarrow> (Inl (Msg ''nft list table''), w))"

definition replaceScript :: "Config \<Rightarrow> 'z nft_world_scheme \<Rightarrow> nft_script res \<times> 'z nft_world_scheme" where
  "replaceScript cfg w =
     (case nft_exists w of
        (Inl e, w) \<Rightarrow> (Inl e, w)
      | (Inr present, w) \<Rightarrow>
          (Inr (NftScript present (if Idle cfg then None else Some cfg)), w))"

definition nft_run :: "nft_script \<Rightarrow> 'z nft_world_scheme \<Rightarrow> err option \<times> 'z nft_world_scheme" where
  "nft_run s w =
     (case pop w of
        (OK, w) \<Rightarrow> (None, w\<lparr>w_table := run_effect s (w_table w)\<rparr>)
      | (Fail, w) \<Rightarrow> (Some (Msg ''nft -f -''), w)
      | (FailAfter, w) \<Rightarrow> (Some (Msg ''nft -f -''), w\<lparr>w_table := run_effect s (w_table w)\<rparr>))"

definition nft_check :: "nft_script \<Rightarrow> 'z nft_world_scheme \<Rightarrow> err option \<times> 'z nft_world_scheme" where
  "nft_check s w =
     (case pop w of (OK, w) \<Rightarrow> (None, w) | (_, w) \<Rightarrow> (Some (Msg ''nft -c -f -''), w))"

definition Install :: "Config \<Rightarrow> 'z nft_world_scheme \<Rightarrow> err option \<times> 'z nft_world_scheme" where
  "Install cfg w =
     (case replaceScript cfg w of
        (Inl e, w) \<Rightarrow> (Some e, w)
      | (Inr script, w) \<Rightarrow>
          if script_empty script then (None, w)
          else
            (case nft_run script w of
               (None, w) \<Rightarrow> (None, w)
             | (Some e, w) \<Rightarrow> (Some (Wrap ''install nftables rules'' [e]), w)))"

text \<open>
  \<open>fp\<close> is the fingerprint \<open>revisionChain\<close> renders; reading the table back compares the
  fingerprint in the kernel with the wanted one.
\<close>

definition VerifyInstalled ::
  "(Config \<Rightarrow> 'h) \<Rightarrow> Config \<Rightarrow> 'z nft_world_scheme \<Rightarrow> err option \<times> 'z nft_world_scheme" where
  "VerifyInstalled fp cfg w =
     (if Idle cfg then
        (case nft_exists w of
           (Inl e, w) \<Rightarrow> (Some e, w)
         | (Inr present, w) \<Rightarrow>
             (if present then Some (Msg ''inactive Geneva table still exists'') else None, w))
      else
        (case pop w of
           (OK, w) \<Rightarrow>
             (case w_table w of
                None \<Rightarrow> (Some (Msg ''read back nftables rules''), w)
              | Some t \<Rightarrow>
                  (if fp t = fp cfg then None
                   else Some (Msg ''nftables readback lacks desired transaction fingerprint''), w))
         | (_, w) \<Rightarrow> (Some (Msg ''read back nftables rules''), w)))"

definition InstallVerified ::
  "(Config \<Rightarrow> 'h) \<Rightarrow> Config \<Rightarrow> 'z nft_world_scheme \<Rightarrow> err option \<times> 'z nft_world_scheme" where
  "InstallVerified fp cfg w =
     (let (installErr, w) =
            (case Install cfg w of
               (Some e, w) \<Rightarrow> (Some e, w)
             | (None, w) \<Rightarrow>
                 (case VerifyInstalled fp cfg w of
                    (None, w) \<Rightarrow> (None, w)
                  | (Some e, w) \<Rightarrow> (Some (Wrap ''verify installed nftables transaction'' [e]), w)))
      in case installErr of
           None \<Rightarrow> (None, w)
         | Some e \<Rightarrow>
             (case VerifyInstalled fp cfg w of
                (None, w) \<Rightarrow> (None, w)
              | (Some v, w) \<Rightarrow>
                  (errors_Join [Some e, Some (Wrap ''reconcile ambiguous nftables transaction'' [v])], w)))"

definition nft_Verify :: "Config \<Rightarrow> 'z nft_world_scheme \<Rightarrow> err option \<times> 'z nft_world_scheme" where
  "nft_Verify cfg w =
     (case replaceScript cfg w of
        (Inl e, w) \<Rightarrow> (Some e, w)
      | (Inr script, w) \<Rightarrow>
          if script_empty script then (None, w)
          else
            (case nft_check script w of
               (None, w) \<Rightarrow> (None, w)
             | (Some e, w) \<Rightarrow> (Some (Wrap ''verify nftables rules'' [e]), w)))"

text \<open>\<open>Remove\<close> treats a missing table as success, as deleting it leaves the same state.\<close>

definition Remove :: "'z nft_world_scheme \<Rightarrow> err option \<times> 'z nft_world_scheme" where
  "Remove w = nft_run (NftScript True None) w"

section \<open>What a table holds\<close>

text \<open>
  \<open>target\<close> is the table a configuration asks for; \<open>holds\<close> is what a readback can establish:
  the same fingerprint. With a collision-free fingerprint the two agree.
\<close>

definition target :: "Config \<Rightarrow> Config option" where
  "target cfg = (if Idle cfg then None else Some cfg)"

definition holds :: "(Config \<Rightarrow> 'h) \<Rightarrow> Config \<Rightarrow> Config option \<Rightarrow> bool" where
  "holds fp cfg t \<longleftrightarrow> (if Idle cfg then t = None else map_option fp t = Some (fp cfg))"

lemma holds_inj: "inj fp \<Longrightarrow> holds fp cfg t \<longleftrightarrow> t = target cfg"
  by (auto simp: holds_def target_def inj_eq)

lemma holds_target [simp]: "holds fp cfg (target cfg)"
  by (simp add: holds_def target_def)

lemma nft_exists_table [simp, frame_simps]: "w_table (snd (nft_exists w)) = w_table w"
proof (cases "pop w")
  case (Pair x w')
  with pop_table [of w] show ?thesis by (cases x) (simp_all add: nft_exists_def)
qed

lemma nft_exists_Inr: "nft_exists w = (Inr p, w') \<Longrightarrow> p = (w_table w \<noteq> None) \<and> w_table w' = w_table w"
proof (cases "pop w")
  case (Pair x w'')
  assume "nft_exists w = (Inr p, w')"
  with Pair pop_table [of w] show ?thesis by (cases x) (auto simp: nft_exists_def)
qed

lemma replaceScript_table [simp, frame_simps]: "w_table (snd (replaceScript cfg w)) = w_table w"
proof (cases "nft_exists w")
  case (Pair x w')
  with nft_exists_table [of w] show ?thesis by (cases x) (simp_all add: replaceScript_def)
qed

lemma replaceScript_Inr:
  assumes "replaceScript cfg w = (Inr s, w')"
  shows "w_table w' = w_table w" and "ns_delete s = (w_table w \<noteq> None)"
    and "ns_rules s = target cfg"
proof -
  obtain x w'' where x: "nft_exists w = (x, w'')" by (cases "nft_exists w")
  with assms obtain p where "x = Inr p" by (cases x) (auto simp: replaceScript_def)
  with x nft_exists_Inr [of w p w''] assms
  show "w_table w' = w_table w" and "ns_delete s = (w_table w \<noteq> None)" and "ns_rules s = target cfg"
    by (auto simp: replaceScript_def target_def)
qed

lemma run_effect_replace:
  "ns_delete s = (t \<noteq> None) \<Longrightarrow> ns_rules s = target cfg \<Longrightarrow> run_effect s t = target cfg"
  by (auto simp: run_effect_def split: option.splits)

lemma nft_run_table:
  "w_table (snd (nft_run s w)) \<in> {w_table w, run_effect s (w_table w)}"
proof (cases "pop w")
  case (Pair x w')
  with pop_table [of w] show ?thesis by (cases x) (simp_all add: nft_run_def)
qed

lemma nft_check_table [simp, frame_simps]: "w_table (snd (nft_check s w)) = w_table w"
proof (cases "pop w")
  case (Pair x w')
  with pop_table [of w] show ?thesis by (cases x) (simp_all add: nft_check_def)
qed

lemma nft_Verify_table [simp, frame_simps]: "w_table (snd (nft_Verify cfg w)) = w_table w"
proof (cases "replaceScript cfg w")
  case (Pair x w')
  with replaceScript_table [of cfg w] have "w_table w' = w_table w" by simp
  with Pair show ?thesis
    by (cases x) (auto simp: nft_Verify_def split: prod.splits option.splits
        dest: arg_cong [where f = "\<lambda>p. w_table (snd p)"])
qed

lemma VerifyInstalled_table [simp, frame_simps]:
  "w_table (snd (VerifyInstalled fp cfg w)) = w_table w"
proof -
  obtain x w1 where 1: "pop w = (x, w1)" by (cases "pop w")
  obtain y w2 where 2: "nft_exists w = (y, w2)" by (cases "nft_exists w")
  from 1 pop_table [of w] have "w_table w1 = w_table w" by simp
  moreover from 2 nft_exists_table [of w] have "w_table w2 = w_table w" by simp
  ultimately show ?thesis using 1 2
    by (cases x; cases y) (auto simp: VerifyInstalled_def split: option.splits)
qed

lemma VerifyInstalled_holds:
  assumes "VerifyInstalled fp cfg w = (None, w')"
  shows "holds fp cfg (w_table w')"
proof (cases "Idle cfg")
  case True
  obtain y w2 where 2: "nft_exists w = (y, w2)" by (cases "nft_exists w")
  with True assms nft_exists_Inr [of w] show ?thesis
    by (cases y) (auto simp: VerifyInstalled_def holds_def split: if_splits)
next
  case False
  obtain x w1 where 1: "pop w = (x, w1)" by (cases "pop w")
  with False assms show ?thesis
    by (cases x) (auto simp: VerifyInstalled_def holds_def split: if_splits option.splits)
qed

lemma Install_table: "w_table (snd (Install cfg w)) \<in> {w_table w, target cfg}"
proof -
  obtain x w1 where r: "replaceScript cfg w = (x, w1)" by (cases "replaceScript cfg w")
  show ?thesis
  proof (cases x)
    case (Inl e)
    with r replaceScript_table [of cfg w] show ?thesis by (simp add: Install_def)
  next
    case (Inr sc)
    note s = replaceScript_Inr [OF r [unfolded Inr]]
    have "w_table (snd (nft_run sc w1)) \<in> {w_table w, target cfg}"
      using nft_run_table [of sc w1] run_effect_replace [of sc "w_table w" cfg] s by auto
    moreover obtain e w2 where "nft_run sc w1 = (e, w2)" by (cases "nft_run sc w1")
    ultimately show ?thesis using r Inr s
      by (cases e) (auto simp: Install_def)
  qed
qed

text \<open>A successful install is one whose readback agreed; any other leaves the old or the wanted table.\<close>

lemma InstallVerified_ok:
  assumes "InstallVerified fp cfg w = (None, w')"
  shows "holds fp cfg (w_table w')"
proof -
  have joined: "errors_Join [Some a, Some b] \<noteq> None" for a b by simp
  obtain e1 w1 where 1: "Install cfg w = (e1, w1)" by (cases "Install cfg w")
  obtain e2 w2 where 2: "VerifyInstalled fp cfg w1 = (e2, w2)" by (cases "VerifyInstalled fp cfg w1")
  obtain e3 w3 where 3: "VerifyInstalled fp cfg w2 = (e3, w3)" by (cases "VerifyInstalled fp cfg w2")
  show ?thesis
    using assms 1 2 3 VerifyInstalled_holds [of fp cfg w1] VerifyInstalled_holds [of fp cfg w2] joined
    by (cases e1; cases e2; cases e3) (auto simp: InstallVerified_def)
qed

lemma InstallVerified_table: "w_table (snd (InstallVerified fp cfg w)) \<in> {w_table w, target cfg}"
proof -
  obtain e1 w1 where 1: "Install cfg w = (e1, w1)" by (cases "Install cfg w")
  obtain e2 w2 where 2: "VerifyInstalled fp cfg w1 = (e2, w2)" by (cases "VerifyInstalled fp cfg w1")
  obtain e3 w3 where 3: "VerifyInstalled fp cfg w2 = (e3, w3)" by (cases "VerifyInstalled fp cfg w2")
  have "w_table w3 = w_table w1" "w_table w2 = w_table w1"
    using 2 3 VerifyInstalled_table [of fp cfg w1] VerifyInstalled_table [of fp cfg w2] by simp_all
  moreover have "w_table w1 \<in> {w_table w, target cfg}" using 1 Install_table [of cfg w] by simp
  ultimately show ?thesis using 1 2 3
    by (cases e1; cases e2; cases e3) (auto simp: InstallVerified_def)
qed

section \<open>The interface its clients rely on\<close>

text \<open>
  A table programmer: programming a configuration returns no error only when the table then
  agrees with it, and whatever it returns the table is the old one or the wanted one. A
  client that compensates a failed transaction with a second one needs nothing else.
\<close>

locale table_programmer =
  fixes program :: "'c \<Rightarrow> 'w \<Rightarrow> 'e option \<times> 'w"
    and table :: "'w \<Rightarrow> 't"
    and want :: "'c \<Rightarrow> 't"
    and agrees :: "'c \<Rightarrow> 't \<Rightarrow> bool"
  assumes success_agrees: "fst (program c w) = None \<Longrightarrow> agrees c (table (snd (program c w)))"
    and old_or_wanted: "table (snd (program c w)) = table w \<or> table (snd (program c w)) = want c"
begin

lemma keeps:
  assumes "P (table w)" and "P (want c)"
  shows "P (table (snd (program c w)))"
  using old_or_wanted [of c w] assms by metis

lemma compensation:
  assumes "fst (program old (snd (program new w))) = None"
  shows "agrees old (table (snd (program old (snd (program new w)))))"
  using assms by (rule success_agrees)

lemma two_steps:
  "table (snd (program old (snd (program new w)))) \<in> {table w, want new, want old}"
  using old_or_wanted [of new w] old_or_wanted [of old "snd (program new w)"] by auto

end

interpretation nft: table_programmer "InstallVerified fp" w_table target "holds fp"
  for fp :: "Config \<Rightarrow> 'h"
proof unfold_locales
  fix c w
  assume "fst (InstallVerified fp c w) = None"
  then show "holds fp c (w_table (snd (InstallVerified fp c w)))"
    using InstallVerified_ok [of fp c w] by (cases "InstallVerified fp c w") auto
next
  fix c w
  show "w_table (snd (InstallVerified fp c w)) = w_table w \<or>
        w_table (snd (InstallVerified fp c w)) = target c"
    using InstallVerified_table [of fp c w] by auto
qed

end
