(* ===== verification/Flowtrack.thy ===== *)
theory Flowtrack
  imports Nft_Manager
begin

text \<open>
  \<open>internal/flowtrack/counter_linux.go\<close>: counting and neutralizing conntrack entries. The
  kernel's table is the list \<open>w_flows\<close> of the world; netlink calls and context checks consume
  outcomes of the world's script. The sysctl files are the parameter \<open>proc\<close>, from a path to
  its contents. Durations are the code's nanoseconds; \<open>readTimeout_bound\<close> shows they stay within
  an \<open>int64\<close>.
\<close>

section \<open>Flows\<close>

text \<open>The fields of a conntrack entry the code reads, and the tuple an update is addressed to.\<close>

record Flow =
  fl_SourceAddress :: "byte list"
  fl_DestinationAddress :: "byte list"
  fl_Protocol :: u8
  fl_SourcePort :: u16
  fl_DestinationPort :: u16
  fl_Mark :: u32
  fl_Timeout :: u32
  fl_TCPState :: "u8 option"

record flow_world = nft_world +
  w_flows :: "Flow list"

definition fl_tuple :: "Flow \<Rightarrow> byte list \<times> byte list \<times> u8 \<times> u16 \<times> u16" where
  "fl_tuple f = (fl_SourceAddress f, fl_DestinationAddress f, fl_Protocol f, fl_SourcePort f,
     fl_DestinationPort f)"

text \<open>\<open>net.IP.To4\<close>: a 4-byte address, or a 16-byte one with the IPv4-mapped prefix.\<close>

definition To4 :: "byte list \<Rightarrow> byte list option" where
  "To4 ip =
     (if length ip = 4 then Some ip
      else if length ip = 16 \<and> take 12 ip = replicate 10 0 @ [0xff, 0xff] then Some (drop 12 ip)
      else None)"

definition IPPROTO_TCP :: u8 where "IPPROTO_TCP = 6"

definition adapterFlow :: "Flow \<Rightarrow> u16 \<Rightarrow> bool" where
  "adapterFlow flow port \<longleftrightarrow>
     To4 (fl_SourceAddress flow) \<noteq> None \<and>
     To4 (fl_DestinationAddress flow) \<noteq> None \<and>
     fl_Protocol flow = IPPROTO_TCP \<and>
     fl_DestinationPort flow = port"

definition neutralMark :: "u32 \<Rightarrow> u32" where
  "neutralMark m = (m AND NOT Mask) OR Namespace"

section \<open>Idleness\<close>

definition Second :: int where "Second = 1000000000"

definition tcpConntrackEstablished :: u8 where "tcpConntrackEstablished = 3"

definition establishedTimeoutPath :: string where
  "establishedTimeoutPath = ''/proc/sys/net/netfilter/nf_conntrack_tcp_timeout_established''"

definition maxRetransTimeoutPath :: string where
  "maxRetransTimeoutPath = ''/proc/sys/net/netfilter/nf_conntrack_tcp_timeout_max_retrans''"

definition unacknowledgedTimeoutPath :: string where
  "unacknowledgedTimeoutPath = ''/proc/sys/net/netfilter/nf_conntrack_tcp_timeout_unacknowledged''"

record liveness =
  lv_idleAfter :: int
  lv_established :: int
  lv_shortTimer :: int

abbreviation no_liveness :: liveness where
  "no_liveness \<equiv> \<lparr>lv_idleAfter = 0, lv_established = 0, lv_shortTimer = 0\<rparr>"

definition readTimeout :: "(string \<Rightarrow> string option) \<Rightarrow> string \<Rightarrow> int option" where
  "readTimeout proc path =
     (case proc path of
        None \<Rightarrow> None
      | Some raw \<Rightarrow>
          (case ParseUint 32 (TrimSpace raw) of
             None \<Rightarrow> None
           | Some seconds \<Rightarrow> if seconds = 0 then None else Some (int seconds * Second)))"

definition newLiveness :: "(string \<Rightarrow> string option) \<Rightarrow> int \<Rightarrow> liveness" where
  "newLiveness proc idleAfter =
     (if idleAfter \<le> 0 then no_liveness
      else case readTimeout proc establishedTimeoutPath of
             None \<Rightarrow> no_liveness
           | Some established \<Rightarrow>
               (case readTimeout proc maxRetransTimeoutPath of
                  None \<Rightarrow> no_liveness
                | Some maxRetrans \<Rightarrow>
                    (case readTimeout proc unacknowledgedTimeoutPath of
                       None \<Rightarrow> no_liveness
                     | Some unacknowledged \<Rightarrow>
                         \<lparr>lv_idleAfter = idleAfter, lv_established = established,
                          lv_shortTimer = max maxRetrans unacknowledged\<rparr>)))"

definition live :: "liveness \<Rightarrow> Flow \<Rightarrow> bool" where
  "live l flow =
     (if lv_idleAfter l \<le> 0 \<or> lv_established l \<le> 0 then True
      else if fl_TCPState flow \<noteq> Some tcpConntrackEstablished then True
      else
        let remaining = int (unat (fl_Timeout flow)) * Second
        in if remaining \<ge> lv_established l \<or> remaining \<le> lv_shortTimer l then True
           else lv_established l - remaining < lv_idleAfter l)"

section \<open>Dumps\<close>

text \<open>A context check, and a wait that the context may end.\<close>

definition ctx_Err :: "'z ext_world_scheme \<Rightarrow> err option \<times> 'z ext_world_scheme" where
  "ctx_Err w =
     (case pop w of (OK, w) \<Rightarrow> (None, w) | (_, w) \<Rightarrow> (Some (Sent DeadlineExceeded), w))"

text \<open>The kernel returns the entries whose mark agrees with the filter under its mask.\<close>

definition filterFlows :: "u32 \<Rightarrow> u32 \<Rightarrow> Flow list \<Rightarrow> Flow list" where
  "filterFlows mark fmask = filter (\<lambda>f. fl_Mark f AND fmask = mark)"

definition dumpNetlink ::
  "u32 \<Rightarrow> u32 \<Rightarrow> 'z flow_world_scheme \<Rightarrow> Flow list res \<times> 'z flow_world_scheme" where
  "dumpNetlink mark fmask w =
     (case pop w of
        (OK, w) \<Rightarrow>
          (case pop w of
             (OK, w) \<Rightarrow> (Inr (filterFlows mark fmask (w_flows w)), w)
           | (_, w) \<Rightarrow> (Inl (Msg ''dump conntrack''), w))
      | (_, w) \<Rightarrow> (Inl (Msg ''dial conntrack netlink''), w))"

text \<open>
  \<open>dump\<close> checks its context, waits for the one dump slot, and waits for the dump; any of the
  three may end in the context's error.
\<close>

definition dump ::
  "u32 \<Rightarrow> u32 \<Rightarrow> 'z flow_world_scheme \<Rightarrow> Flow list res \<times> 'z flow_world_scheme" where
  "dump mark fmask w =
     (case ctx_Err w of
        (Some e, w) \<Rightarrow> (Inl e, w)
      | (None, w) \<Rightarrow>
          (case ctx_Err w of
             (Some e, w) \<Rightarrow> (Inl e, w)
           | (None, w) \<Rightarrow>
               (case dumpNetlink mark fmask w of
                  (r, w) \<Rightarrow>
                    (case ctx_Err w of (Some e, w) \<Rightarrow> (Inl e, w) | (None, w) \<Rightarrow> (r, w)))))"

fun countFlows :: "u16 \<Rightarrow> liveness \<Rightarrow> Flow list \<Rightarrow> int \<Rightarrow> int" where
  "countFlows port alive [] n = n"
| "countFlows port alive (flow # flows) n =
     countFlows port alive flows (if adapterFlow flow port \<and> live alive flow then n + 1 else n)"

definition Count ::
  "(string \<Rightarrow> string option) \<Rightarrow> int \<Rightarrow> u32 \<Rightarrow> u16 \<Rightarrow> 'z flow_world_scheme \<Rightarrow>
     int res \<times> 'z flow_world_scheme" where
  "Count proc idleAfter gid port w =
     (case Mark gid of
        Inl e \<Rightarrow> (Inl e, w)
      | Inr mark \<Rightarrow>
          (let alive = newLiveness proc idleAfter
           in case dump mark Mask w of
                (Inl e, w) \<Rightarrow> (Inl e, w)
              | (Inr flows, w) \<Rightarrow> (Inr (countFlows port alive flows 0), w)))"

fun countsFlows :: "u16 \<Rightarrow> Flow list \<Rightarrow> (u32 \<times> int) list \<Rightarrow> (u32 \<times> int) list" where
  "countsFlows port [] counts = counts"
| "countsFlows port (flow # flows) counts =
     (let (gid, ok) = ID (fl_Mark flow)
      in countsFlows port flows
           (if ok \<and> adapterFlow flow port
            then AList.update gid
                   ((case map_of counts gid of Some n \<Rightarrow> n | None \<Rightarrow> 0) + 1) counts
            else counts))"

definition Counts :: "u16 \<Rightarrow> 'z flow_world_scheme \<Rightarrow> (u32 \<times> int) list res \<times> 'z flow_world_scheme" where
  "Counts port w =
     (case dump Namespace HighByte w of
        (Inl e, w) \<Rightarrow> (Inl e, w)
      | (Inr flows, w) \<Rightarrow> (Inr (countsFlows port flows []), w))"

section \<open>The neutral boundary\<close>

text \<open>An update addresses the entry with the flow's tuple and writes its mark.\<close>

definition ct_set_mark :: "Flow \<Rightarrow> Flow list \<Rightarrow> Flow list" where
  "ct_set_mark flow =
     map (\<lambda>f. if fl_tuple f = fl_tuple flow then f\<lparr>fl_Mark := fl_Mark flow\<rparr> else f)"

definition ct_Update :: "Flow \<Rightarrow> 'z flow_world_scheme \<Rightarrow> err option \<times> 'z flow_world_scheme" where
  "ct_Update flow w =
     (case pop w of
        (OK, w) \<Rightarrow> (None, w\<lparr>w_flows := ct_set_mark flow (w_flows w)\<rparr>)
      | (Fail, w) \<Rightarrow> (Some (Msg ''neutralize conntrack''), w)
      | (FailAfter, w) \<Rightarrow>
          (Some (Msg ''neutralize conntrack''), w\<lparr>w_flows := ct_set_mark flow (w_flows w)\<rparr>))"

fun neutralizeLoop ::
  "u16 \<Rightarrow> Flow list \<Rightarrow> int \<Rightarrow> 'z flow_world_scheme \<Rightarrow> (int \<times> err option) \<times> 'z flow_world_scheme" where
  "neutralizeLoop port [] updated w = ((updated, None), w)"
| "neutralizeLoop port (flow # flows) updated w =
     (if \<not> adapterFlow flow port \<or> fl_Mark flow AND Mask \<noteq> 0
      then neutralizeLoop port flows updated w
      else case ctx_Err w of
             (Some e, w) \<Rightarrow> ((updated, Some e), w)
           | (None, w) \<Rightarrow>
               (case ct_Update (flow\<lparr>fl_Mark := neutralMark (fl_Mark flow)\<rparr>) w of
                  (Some e, w) \<Rightarrow>
                    (case ctx_Err w of
                       (Some c, w) \<Rightarrow> ((updated, Some c), w)
                     | (None, w) \<Rightarrow> ((updated, Some e), w))
                | (None, w) \<Rightarrow> neutralizeLoop port flows (updated + 1) w))"

definition neutralizeNetlinkTransaction ::
  "u16 \<Rightarrow> 'z flow_world_scheme \<Rightarrow> (int \<times> err option) \<times> 'z flow_world_scheme" where
  "neutralizeNetlinkTransaction port w =
     (case ctx_Err w of
        (Some e, w) \<Rightarrow> ((0, Some e), w)
      | (None, w) \<Rightarrow>
          (case pop w of
             (OK, w) \<Rightarrow>
               (case ctx_Err w of
                  (Some e, w) \<Rightarrow> ((0, Some e), w)
                | (None, w) \<Rightarrow>
                    (case pop w of
                       (OK, w) \<Rightarrow>
                         (case ctx_Err w of
                            (Some e, w) \<Rightarrow> ((0, Some e), w)
                          | (None, w) \<Rightarrow> neutralizeLoop port (filterFlows 0 0 (w_flows w)) 0 w)
                     | (_, w) \<Rightarrow>
                         (case ctx_Err w of
                            (Some e, w) \<Rightarrow> ((0, Some e), w)
                          | (None, w) \<Rightarrow>
                              ((0, Some (Msg ''dump conntrack for neutral boundary'')), w))))
           | (_, w) \<Rightarrow> ((0, Some (Msg ''dial conntrack netlink'')), w)))"

text \<open>
  \<open>updateNeutral\<close> may leave when its context ends while the transaction still runs; its
  result is then the context's error, whatever the transaction did.
\<close>

definition Neutralize ::
  "u16 \<Rightarrow> 'z flow_world_scheme \<Rightarrow> (int \<times> err option) \<times> 'z flow_world_scheme" where
  "Neutralize port w =
     (case ctx_Err w of
        (Some e, w) \<Rightarrow> ((0, Some e), w)
      | (None, w) \<Rightarrow>
          (case ctx_Err w of
             (Some e, w) \<Rightarrow> ((0, Some e), w)
           | (None, w) \<Rightarrow>
               (case neutralizeNetlinkTransaction port w of
                  (r, w) \<Rightarrow>
                    (case ctx_Err w of (Some e, w) \<Rightarrow> ((0, Some e), w) | (None, w) \<Rightarrow> (r, w)))))"

section \<open>Frames\<close>

lemma pop_more [simp, frame_simps]: "ext_world.more (snd (pop w)) = ext_world.more w"
  by (simp add: pop_def split: list.splits)

lemma ctx_Err_more [simp, frame_simps]: "ext_world.more (snd (ctx_Err w)) = ext_world.more w"
proof (cases "pop w")
  case (Pair x w')
  with pop_more [of w] show ?thesis by (cases x) (simp_all add: ctx_Err_def)
qed

lemma more_flow_fields:
  fixes w w' :: "'z flow_world_scheme"
  assumes "ext_world.more w' = ext_world.more w"
  shows "w_table w' = w_table w" and "w_flows w' = w_flows w"
    and "flow_world.more w' = flow_world.more w"
  using assms by (cases w; cases w'; simp)+

lemma ctx_Err_flows: "ctx_Err w = (e, w') \<Longrightarrow> w_flows w' = w_flows w \<and> w_table w' = w_table w
    \<and> flow_world.more w' = flow_world.more w"
  for w w' :: "'z flow_world_scheme"
  using more_flow_fields [OF ctx_Err_more [of w]] by auto

lemma pop_flows: "pop w = (e, w') \<Longrightarrow> w_flows w' = w_flows w \<and> w_table w' = w_table w
    \<and> flow_world.more w' = flow_world.more w"
  for w w' :: "'z flow_world_scheme"
  using more_flow_fields [OF pop_more [of w]] by auto

text \<open>Reading the table changes nothing but the script.\<close>

lemma dump_world:
  fixes w :: "'z flow_world_scheme"
  assumes "dump m k w = (r, w')"
  shows "w_flows w' = w_flows w \<and> w_table w' = w_table w \<and> flow_world.more w' = flow_world.more w"
  using assms
  by (auto simp: dump_def dumpNetlink_def split: prod.splits option.splits outcome.splits
      dest!: ctx_Err_flows pop_flows)

lemma dump_Inr:
  fixes w :: "'z flow_world_scheme"
  assumes "dump m k w = (Inr fs, w')"
  shows "fs = filterFlows m k (w_flows w)"
  using assms
  by (auto simp: dump_def dumpNetlink_def split: prod.splits option.splits outcome.splits
      dest!: ctx_Err_flows pop_flows)

lemma Count_world:
  fixes w :: "'z flow_world_scheme"
  assumes "Count proc idle gid port w = (r, w')"
  shows "w_flows w' = w_flows w \<and> w_table w' = w_table w \<and> flow_world.more w' = flow_world.more w"
  using assms by (auto simp: Count_def Let_def split: sum.splits prod.splits dest: dump_world)

lemma Counts_world:
  fixes w :: "'z flow_world_scheme"
  assumes "Counts port w = (r, w')"
  shows "w_flows w' = w_flows w \<and> w_table w' = w_table w \<and> flow_world.more w' = flow_world.more w"
  using assms by (auto simp: Counts_def split: sum.splits prod.splits dest: dump_world)

section \<open>What the counts mean\<close>

text \<open>The flows a generation owns: the adapter's TCP flows whose mark reads back as it.\<close>

definition owned_by :: "u16 \<Rightarrow> u32 \<Rightarrow> Flow \<Rightarrow> bool" where
  "owned_by port gid f \<longleftrightarrow> adapterFlow f port \<and> ID (fl_Mark f) = (gid, True)"

lemma countFlows_filter:
  "countFlows port l fs n = n + int (length (filter (\<lambda>f. adapterFlow f port \<and> live l f) fs))"
  by (induction fs arbitrary: n) simp_all

lemma mark_and_Mask_iff:
  assumes "Mark gid = Inr m"
  shows "x AND Mask = m \<longleftrightarrow> ID x = (gid, True)"
proof
  assume m: "x AND Mask = m"
  have "x = (x AND NOT Mask) OR (x AND Mask)"
    by (rule bit_word_eqI) (auto simp: bit_simps)
  moreover have "(x AND NOT Mask) AND Mask = 0"
    by (rule bit_word_eqI) (auto simp: bit_simps)
  ultimately show "ID x = (gid, True)" using ID_of_Mark [OF assms, of "x AND NOT Mask"] m by metis
next
  assume "ID x = (gid, True)"
  then have "Mark gid = Inr (x AND Mask)" by (rule ID_sound)
  with assms show "x AND Mask = m" by simp
qed

lemma Count_exact:
  fixes w :: "'z flow_world_scheme"
  assumes "Count proc idle gid port w = (Inr n, w')"
  shows "n = int (length (filter (\<lambda>f. owned_by port gid f \<and> live (newLiveness proc idle) f) (w_flows w)))"
proof -
  obtain m where m: "Mark gid = Inr m"
    using assms by (auto simp: Count_def split: sum.splits)
  obtain r where r: "dump m Mask w = (r, w')"
    using assms m by (auto simp: Count_def Let_def split: sum.splits prod.splits)
  with assms m obtain fs where fs: "r = Inr fs"
    and n: "n = countFlows port (newLiveness proc idle) fs 0"
    by (auto simp: Count_def Let_def split: sum.splits)
  show ?thesis
    unfolding n countFlows_filter dump_Inr [OF r [unfolded fs]] filterFlows_def owned_by_def
    by (simp add: mark_and_Mask_iff [OF m] conj_ac)
qed

lemma countsFlows_lookup:
  "map_of (countsFlows port fs counts) gid =
     (let k = int (length (filter (owned_by port gid) fs))
      in if k = 0 then map_of counts gid
         else Some ((case map_of counts gid of Some n \<Rightarrow> n | None \<Rightarrow> 0) + k))"
  by (induction fs arbitrary: counts)
    (auto simp: Let_def owned_by_def split: prod.splits option.splits)

lemma owned_in_namespace: "ID x = (gid, True) \<Longrightarrow> x AND HighByte = Namespace"
  by (auto simp: ID_def split: if_splits)

lemma Counts_exact:
  fixes w :: "'z flow_world_scheme"
  assumes "Counts port w = (Inr counts, w')"
  shows "map_of counts gid =
     (let k = int (length (filter (owned_by port gid) (w_flows w)))
      in if k = 0 then None else Some k)"
proof -
  obtain r where r: "dump Namespace HighByte w = (r, w')"
    using assms by (auto simp: Counts_def split: sum.splits prod.splits)
  with assms obtain fs where fs: "r = Inr fs" and c: "counts = countsFlows port fs []"
    by (auto simp: Counts_def split: sum.splits)
  have "filter (owned_by port gid) fs = filter (owned_by port gid) (w_flows w)"
    unfolding dump_Inr [OF r [unfolded fs]] filterFlows_def filter_filter
    by (rule filter_cong) (auto simp: owned_by_def owned_in_namespace)
  then show ?thesis by (simp add: c countsFlows_lookup Let_def)
qed

section \<open>Idleness\<close>

lemma digits_value_le: "digits_value acc ds = Some n \<Longrightarrow> acc \<le> n"
proof (induction ds arbitrary: acc)
  case (Cons c ds)
  then obtain d where "digits_value (10 * acc + d) ds = Some n" by (auto split: option.splits)
  with Cons.IH have "10 * acc + d \<le> n" by blast
  then show ?case by simp
qed simp

lemma readTimeout_bound:
  assumes "readTimeout proc path = Some d"
  shows "0 < d" and "d < 2 ^ 63"
proof -
  from assms obtain k where k: "k < 2 ^ 32" "k \<noteq> 0" "d = int k * Second"
    by (auto simp: readTimeout_def ParseUint_def split: option.splits if_splits)
  then show "0 < d" by (simp add: Second_def)
  from k(1) have "int k < 2 ^ 32" by simp
  with k(3) show "d < 2 ^ 63" by (simp add: Second_def)
qed

lemma newLiveness_cases:
  "newLiveness proc idle = no_liveness \<or>
   (0 < idle \<and> lv_idleAfter (newLiveness proc idle) = idle \<and>
    0 < lv_established (newLiveness proc idle) \<and> 0 < lv_shortTimer (newLiveness proc idle))"
  by (auto simp: newLiveness_def less_max_iff_disj dest!: readTimeout_bound(1) split: option.split)

text \<open>A flow stops counting only when its timer proves that no packet came for \<open>idleAfter\<close>.\<close>

lemma not_live_iff:
  "\<not> live l f \<longleftrightarrow>
     0 < lv_idleAfter l \<and> 0 < lv_established l \<and> fl_TCPState f = Some tcpConntrackEstablished \<and>
     (let remaining = int (unat (fl_Timeout f)) * Second
      in lv_shortTimer l < remaining \<and> remaining < lv_established l \<and>
         lv_idleAfter l \<le> lv_established l - remaining)"
  by (auto simp: live_def Let_def not_le not_less)

section \<open>Neutralizing\<close>

definition unowned :: "u16 \<Rightarrow> Flow \<Rightarrow> bool" where
  "unowned port f \<longleftrightarrow> adapterFlow f port \<and> fl_Mark f AND Mask = 0"

definition neutralized :: "Flow \<Rightarrow> Flow" where
  "neutralized f = f\<lparr>fl_Mark := neutralMark (fl_Mark f)\<rparr>"

lemma neutralMark_bits:
  "neutralMark m AND NOT Mask = m AND NOT Mask"
  "neutralMark m AND Mask = Namespace"
  "neutralMark m AND Mask \<noteq> 0"
  "ID (neutralMark m) = (0, False)"
proof -
  show low: "neutralMark m AND NOT Mask = m AND NOT Mask"
    unfolding neutralMark_def
    by (rule bit_word_eqI) (auto simp: bit_simps bit_Mask dest: bit_Namespace_high)
  show mask: "neutralMark m AND Mask = Namespace"
    unfolding neutralMark_def
    by (rule bit_word_eqI) (auto simp: bit_simps bit_Mask dest: bit_Namespace_high)
  then show "neutralMark m AND Mask \<noteq> 0" by (simp add: Namespace_def)
  have "drop_bit 12 (neutralMark m) AND MaxID = 0"
    unfolding neutralMark_def
    by (rule bit_word_eqI)
      (auto simp: bit_simps bit_Mask bit_MaxID dest: bit_Namespace_high)
  then show "ID (neutralMark m) = (0, False)" by (simp add: ID_def Let_def)
qed

lemma neutralized_fields [simp]:
  "fl_tuple (neutralized f) = fl_tuple f"
  "adapterFlow (neutralized f) port = adapterFlow f port"
  "fl_Mark (neutralized f) = neutralMark (fl_Mark f)"
  by (simp_all add: neutralized_def fl_tuple_def adapterFlow_def)

lemma neutralized_not_unowned: "\<not> unowned port (neutralized f)"
  using neutralMark_bits(3) [of "fl_Mark f"] by (simp add: unowned_def)

definition distinct_flows :: "Flow list \<Rightarrow> bool" where
  "distinct_flows fs \<longleftrightarrow> distinct (map fl_tuple fs)"

lemma same_tuple_same_flow:
  assumes "distinct_flows fs" and "f \<in> set fs" and "g \<in> set fs" and "fl_tuple f = fl_tuple g"
  shows "f = g"
  using assms unfolding distinct_flows_def by (simp add: distinct_map inj_on_def)

lemma ct_set_mark_one:
  assumes "distinct_flows fs" and "flow \<in> set fs"
  shows "ct_set_mark (neutralized flow) fs = map (\<lambda>f. if f = flow then neutralized f else f) fs"
  unfolding ct_set_mark_def
proof (rule map_cong [OF refl])
  fix f
  assume f: "f \<in> set fs"
  have "fl_tuple f = fl_tuple (neutralized flow) \<longleftrightarrow> f = flow"
    using same_tuple_same_flow [OF assms(1) f assms(2)] by auto
  then show "(if fl_tuple f = fl_tuple (neutralized flow) then f\<lparr>fl_Mark := fl_Mark (neutralized flow)\<rparr> else f)
      = (if f = flow then neutralized f else f)"
    by (auto simp: neutralized_def)
qed

lemma distinct_flows_map:
  "distinct_flows fs \<Longrightarrow> distinct_flows (map (\<lambda>f. if P f then neutralized f else f) fs)"
  by (simp add: distinct_flows_def o_def if_distrib [of fl_tuple] cong: if_cong)

text \<open>
  The loop keeps three facts: the tuples are distinct, the remaining snapshot entries are still
  in the table as they were read, and what is already neutral stays.
\<close>

lemma neutralizeLoop_effect:
  fixes w :: "'z flow_world_scheme"
  assumes "neutralizeLoop port fs n w = ((u, e), w')"
    and "distinct_flows (w_flows w)" and "distinct fs" and "set fs \<subseteq> set (w_flows w)"
  shows "\<exists>D \<subseteq> {f \<in> set fs. unowned port f}.
      w_flows w' = map (\<lambda>f. if f \<in> D then neutralized f else f) (w_flows w) \<and>
      (e = None \<longrightarrow> D = {f \<in> set fs. unowned port f} \<and> u = n + int (card D))"
  using assms
proof (induction port fs n w arbitrary: u e w' rule: neutralizeLoop.induct)
  case (1 port n w)
  then show ?case by simp
next
  case (2 port flow fs n w)
  from "2.prems" have d: "distinct_flows (w_flows w)" "distinct fs" "flow \<notin> set fs"
    and sub: "set fs \<subseteq> set (w_flows w)" and flow: "flow \<in> set (w_flows w)" by auto
  show ?case
  proof (cases "unowned port flow")
    case False
    then have skip: "\<not> adapterFlow flow port \<or> fl_Mark flow AND Mask \<noteq> 0" by (auto simp: unowned_def)
    with "2.prems"(1) have run: "neutralizeLoop port fs n w = ((u, e), w')" by simp
    have "{f \<in> set (flow # fs). unowned port f} = {f \<in> set fs. unowned port f}" using False by auto
    with "2.IH"(1) [OF skip run d(1,2) sub] show ?thesis by simp
  next
    case True
    then have el: "\<not> (\<not> adapterFlow flow port \<or> fl_Mark flow AND Mask \<noteq> 0)" by (auto simp: unowned_def)
    let ?one = "\<lambda>g. map (\<lambda>f. if f = flow then neutralized f else f) g"
    obtain c w1 where c: "ctx_Err w = (c, w1)" by (cases "ctx_Err w")
    note w1 = ctx_Err_flows [OF c]
    show ?thesis
    proof (cases c)
      case (Some x)
      with "2.prems"(1) el c have "e \<noteq> None" "w' = w1" by auto
      with w1 show ?thesis by (intro exI [of _ "{}"]) auto
    next
      case None
      obtain o' w2 where o': "ct_Update (neutralized flow) w1 = (o', w2)"
        by (cases "ct_Update (neutralized flow) w1")
      have upd: "w_flows w2 = w_flows w1 \<or> w_flows w2 = ?one (w_flows w)"
        using o' ct_set_mark_one [OF d(1) flow] w1
        by (auto simp: ct_Update_def split: prod.splits outcome.splits dest!: pop_flows)
      show ?thesis
      proof (cases o')
        case (Some x)
        with "2.prems"(1) el c None o' have "e \<noteq> None \<and> w_flows w' = w_flows w2"
          by (auto simp: neutralized_def split: prod.splits option.splits dest: ctx_Err_flows)
        then obtain y where e: "e = Some y" and fl: "w_flows w' = w_flows w2" by auto
        from upd show ?thesis
        proof
          assume "w_flows w2 = w_flows w1"
          with e fl w1 show ?thesis by (intro exI [of _ "{}"]) simp
        next
          assume "w_flows w2 = ?one (w_flows w)"
          with e fl True show ?thesis by (intro exI [of _ "{flow}"]) simp
        qed
      next
        case ok: None
        have fl2: "w_flows w2 = ?one (w_flows w)"
          using o' ok ct_set_mark_one [OF d(1) flow] w1
          by (auto simp: ct_Update_def split: prod.splits outcome.splits dest!: pop_flows)
        have run: "neutralizeLoop port fs (n + 1) w2 = ((u, e), w')"
          using "2.prems"(1) el c None o' ok by (simp add: neutralized_def)
        have d2: "distinct_flows (w_flows w2)" using distinct_flows_map [OF d(1)] fl2 by simp
        have sub2: "set fs \<subseteq> set (w_flows w2)"
        proof
          fix f
          assume "f \<in> set fs"
          with sub d(3) have "f \<in> set (w_flows w)" "f \<noteq> flow" by auto
          then show "f \<in> set (w_flows w2)" unfolding fl2 by force
        qed
        have "o' = None" using ok by simp
        from "2.IH"(2) [OF el, of c w1 o' w2] c None o' ok
        have "\<exists>D \<subseteq> {f \<in> set fs. unowned port f}.
            w_flows w' = map (\<lambda>f. if f \<in> D then neutralized f else f) (w_flows w2) \<and>
            (e = None \<longrightarrow> D = {f \<in> set fs. unowned port f} \<and> u = n + 1 + int (card D))"
          using run d2 d(2) sub2 by (simp add: neutralized_def)
        then obtain D where D: "D \<subseteq> {f \<in> set fs. unowned port f}"
          "w_flows w' = map (\<lambda>f. if f \<in> D then neutralized f else f) (w_flows w2)"
          "e = None \<longrightarrow> D = {f \<in> set fs. unowned port f} \<and> u = n + 1 + int (card D)" by auto
        have notD: "flow \<notin> D" "neutralized flow \<notin> D"
          using D(1) d(3) neutralized_not_unowned by auto
        have "w_flows w' = map (\<lambda>f. if f \<in> insert flow D then neutralized f else f) (w_flows w)"
          unfolding D(2) fl2 map_map by (rule map_cong) (auto simp: notD)
        moreover have "finite D" using D(1) finite_subset by fastforce
        then have "card (insert flow D) = card D + 1" using notD by simp
        moreover have "{f \<in> set (flow # fs). unowned port f} = insert flow {f \<in> set fs. unowned port f}"
          using True by auto
        ultimately show ?thesis using D(1,3) by (intro exI [of _ "insert flow D"]) auto
      qed
    qed
  qed
qed

lemma filterFlows_all [simp]: "filterFlows 0 0 fs = fs"
  by (simp add: filterFlows_def)

lemma distinct_flows_distinct: "distinct_flows fs \<Longrightarrow> distinct fs"
  by (simp add: distinct_flows_def distinct_map)

lemma neutralizeNetlinkTransaction_effect:
  fixes w :: "'z flow_world_scheme"
  assumes "neutralizeNetlinkTransaction port w = ((u, e), w')" and "distinct_flows (w_flows w)"
  shows "\<exists>D \<subseteq> {f \<in> set (w_flows w). unowned port f}.
      w_flows w' = map (\<lambda>f. if f \<in> D then neutralized f else f) (w_flows w) \<and>
      (e = None \<longrightarrow> D = {f \<in> set (w_flows w). unowned port f} \<and> u = int (card D))"
proof (cases "\<exists>w1 :: 'z flow_world_scheme. w_flows w1 = w_flows w \<and> neutralizeLoop port (w_flows w1) 0 w1 = ((u, e), w')")
  case True
  then obtain w1 :: "'z flow_world_scheme" where w1: "w_flows w1 = w_flows w"
    "neutralizeLoop port (w_flows w1) 0 w1 = ((u, e), w')" by blast
  show ?thesis
    using neutralizeLoop_effect [OF w1(2)] assms(2) w1(1) distinct_flows_distinct by simp
next
  case False
  then have "e \<noteq> None \<and> w_flows w' = w_flows w"
    using assms(1)
    by (auto simp: neutralizeNetlinkTransaction_def
        split: prod.splits option.splits outcome.splits dest!: ctx_Err_flows pop_flows)
  then show ?thesis by (intro exI [of _ "{}"]) auto
qed

lemma Neutralize_effect:
  fixes w :: "'z flow_world_scheme"
  assumes "Neutralize port w = ((u, e), w')" and "distinct_flows (w_flows w)"
  shows "\<exists>D \<subseteq> {f \<in> set (w_flows w). unowned port f}.
      w_flows w' = map (\<lambda>f. if f \<in> D then neutralized f else f) (w_flows w) \<and>
      (e = None \<longrightarrow> D = {f \<in> set (w_flows w). unowned port f} \<and> u = int (card D))"
proof (cases "\<exists>(w1 :: 'z flow_world_scheme) (w2 :: 'z flow_world_scheme) u' e'. w_flows w1 = w_flows w \<and> w_flows w' = w_flows w2 \<and>
    neutralizeNetlinkTransaction port w1 = ((u', e'), w2) \<and> (e = None \<longrightarrow> e' = None \<and> u' = u)")
  case True
  then obtain w1 w2 :: "'z flow_world_scheme" and u' e' where w1: "w_flows w1 = w_flows w" "w_flows w' = w_flows w2"
    "neutralizeNetlinkTransaction port w1 = ((u', e'), w2)" "e = None \<longrightarrow> e' = None \<and> u' = u" by blast
  show ?thesis
    using neutralizeNetlinkTransaction_effect [OF w1(3)] assms(2) w1(1,2,4) by auto
next
  case False
  then have "e \<noteq> None \<and> w_flows w' = w_flows w"
    using assms(1)
    by (auto simp: Neutralize_def split: prod.splits option.splits dest!: ctx_Err_flows)
  then show ?thesis by (intro exI [of _ "{}"]) auto
qed

text \<open>Neutralizing touches nothing but the flows and the script.\<close>

lemma neutralizeLoop_world:
  fixes w :: "'z flow_world_scheme"
  assumes "neutralizeLoop port fs n w = (r, w')"
  shows "w_table w' = w_table w \<and> flow_world.more w' = flow_world.more w"
  using assms
proof (induction fs arbitrary: n w)
  case (Cons flow fs)
  have upd: "ct_Update f v = (o', v') \<Longrightarrow> w_table v' = w_table v \<and> flow_world.more v' = flow_world.more v"
    for f o' and v v' :: "'z flow_world_scheme"
    by (auto simp: ct_Update_def split: prod.splits outcome.splits dest!: pop_flows)
  from Cons.prems show ?case
    by (auto split: if_splits prod.splits option.splits dest!: Cons.IH ctx_Err_flows upd)
qed simp

lemma Neutralize_world:
  fixes w :: "'z flow_world_scheme"
  assumes "Neutralize port w = (r, w')"
  shows "w_table w' = w_table w \<and> flow_world.more w' = flow_world.more w"
proof -
  have "w_table v' = w_table v \<and> flow_world.more v' = flow_world.more v"
    if "neutralizeNetlinkTransaction port v = (q, v')" for q and v v' :: "'z flow_world_scheme"
    using that
    by (auto simp: neutralizeNetlinkTransaction_def split: prod.splits option.splits outcome.splits
        dest!: ctx_Err_flows pop_flows neutralizeLoop_world)
  with assms show ?thesis
    by (fastforce simp: Neutralize_def split: prod.splits option.splits dest!: ctx_Err_flows)
qed

text \<open>And the commands of the rule manager leave the flows alone.\<close>

lemma nft_exists_more [simp, frame_simps]: "nft_world.more (snd (nft_exists w)) = nft_world.more w"
proof (cases "pop w")
  case (Pair x w')
  with pop_more [of w] show ?thesis
    by (cases x; cases w; cases w') (simp_all add: nft_exists_def)
qed

lemma replaceScript_more [simp, frame_simps]:
  "nft_world.more (snd (replaceScript cfg w)) = nft_world.more w"
proof (cases "nft_exists w")
  case (Pair x w')
  with nft_exists_more [of w] show ?thesis by (cases x) (simp_all add: replaceScript_def)
qed

lemma nft_run_more [simp, frame_simps]: "nft_world.more (snd (nft_run s w)) = nft_world.more w"
proof (cases "pop w")
  case (Pair x w')
  with pop_more [of w] show ?thesis
    by (cases x; cases w; cases w') (simp_all add: nft_run_def)
qed

lemma nft_check_more [simp, frame_simps]: "nft_world.more (snd (nft_check s w)) = nft_world.more w"
proof (cases "pop w")
  case (Pair x w')
  with pop_more [of w] show ?thesis
    by (cases x; cases w; cases w') (simp_all add: nft_check_def)
qed

lemma nft_Verify_more [simp, frame_simps]: "nft_world.more (snd (nft_Verify cfg w)) = nft_world.more w"
proof -
  obtain r w1 where 1: "replaceScript cfg w = (r, w1)" by (cases "replaceScript cfg w")
  show ?thesis
  proof (cases r)
    case (Inl e)
    with 1 replaceScript_more [of cfg w] show ?thesis by (simp add: nft_Verify_def)
  next
    case (Inr sc)
    obtain e w2 where 2: "nft_check sc w1 = (e, w2)" by (cases "nft_check sc w1")
    with 1 Inr replaceScript_more [of cfg w] nft_check_more [of sc w1] show ?thesis
      by (cases e) (simp_all add: nft_Verify_def)
  qed
qed

lemma VerifyInstalled_more [simp, frame_simps]:
  "nft_world.more (snd (VerifyInstalled fp cfg w)) = nft_world.more w"
proof -
  obtain x w1 where 1: "pop w = (x, w1)" by (cases "pop w")
  obtain y w2 where 2: "nft_exists w = (y, w2)" by (cases "nft_exists w")
  from 1 pop_more [of w] have "nft_world.more w1 = nft_world.more w" by (cases w; cases w1) simp
  moreover from 2 nft_exists_more [of w] have "nft_world.more w2 = nft_world.more w" by simp
  ultimately show ?thesis using 1 2
    by (cases x; cases y) (auto simp: VerifyInstalled_def split: option.splits)
qed

lemma Install_more [simp, frame_simps]: "nft_world.more (snd (Install cfg w)) = nft_world.more w"
proof -
  obtain r w1 where 1: "replaceScript cfg w = (r, w1)" by (cases "replaceScript cfg w")
  show ?thesis
  proof (cases r)
    case (Inl e)
    with 1 replaceScript_more [of cfg w] show ?thesis by (simp add: Install_def)
  next
    case (Inr sc)
    obtain e w2 where 2: "nft_run sc w1 = (e, w2)" by (cases "nft_run sc w1")
    with 1 Inr replaceScript_more [of cfg w] nft_run_more [of sc w1] show ?thesis
      by (cases e) (simp_all add: Install_def)
  qed
qed

lemma InstallVerified_more [simp, frame_simps]:
  "nft_world.more (snd (InstallVerified fp cfg w)) = nft_world.more w"
proof -
  obtain e1 w1 where 1: "Install cfg w = (e1, w1)" by (cases "Install cfg w")
  obtain e2 w2 where 2: "VerifyInstalled fp cfg w1 = (e2, w2)" by (cases "VerifyInstalled fp cfg w1")
  obtain e3 w3 where 3: "VerifyInstalled fp cfg w2 = (e3, w3)" by (cases "VerifyInstalled fp cfg w2")
  have "nft_world.more w3 = nft_world.more w" "nft_world.more w2 = nft_world.more w"
    "nft_world.more w1 = nft_world.more w"
    using 1 2 3 Install_more [of cfg w] VerifyInstalled_more [of fp cfg w1]
      VerifyInstalled_more [of fp cfg w2] by simp_all
  with 1 2 3 show ?thesis by (cases e1; cases e2; cases e3) (auto simp: InstallVerified_def)
qed

section \<open>Properties\<close>

text \<open>The exact effect of a boundary that completed, and that it leaves every owned flow alone.\<close>

lemma Neutralize_complete:
  fixes w :: "'z flow_world_scheme"
  assumes "Neutralize port w = ((u, None), w')" and "distinct_flows (w_flows w)"
  shows "w_flows w' = map (\<lambda>f. if unowned port f then neutralized f else f) (w_flows w)"
    and "u = int (length (filter (unowned port) (w_flows w)))"
proof -
  from Neutralize_effect [OF assms]
  show "w_flows w' = map (\<lambda>f. if unowned port f then neutralized f else f) (w_flows w)"
    by (auto intro: map_cong)
  have "card {f \<in> set (w_flows w). unowned port f} = length (filter (unowned port) (w_flows w))"
    using distinct_card [OF distinct_filter [OF distinct_flows_distinct [OF assms(2)]], of "unowned port"]
    by simp
  with Neutralize_effect [OF assms] show "u = int (length (filter (unowned port) (w_flows w)))" by auto
qed

lemma owned_not_unowned: "owned_by port gid f \<Longrightarrow> \<not> unowned port f"
proof
  assume "owned_by port gid f" and "unowned port f"
  then have "Mark gid = Inr 0" using ID_sound [of "fl_Mark f" gid] by (auto simp: owned_by_def unowned_def)
  moreover have "Namespace OR push_bit 12 gid \<noteq> 0"
  proof
    assume "Namespace OR push_bit 12 gid = 0"
    then have "bit (Namespace OR push_bit 12 gid) 24 = bit (0 :: u32) 24" by simp
    moreover have "bit Namespace 24" unfolding Namespace_def by code_simp
    ultimately show False by (simp add: bit_or_iff)
  qed
  ultimately show False by (auto simp: Mark_Inr)
qed

lemma owned_by_neutralized: "\<not> owned_by port gid (neutralized f)"
  by (simp add: owned_by_def neutralMark_bits)

lemma owned_kept:
  "filter (owned_by port gid) (map (\<lambda>f. if f \<in> D then neutralized f else f) fs) = filter (owned_by port gid) fs"
  if "\<And>f. f \<in> D \<Longrightarrow> unowned port f"
  using that owned_not_unowned owned_by_neutralized by (induction fs) auto

text \<open>A table with one unowned client flow and one that generation 1 owns, for the witnesses.\<close>

definition client_flow :: "u8 \<Rightarrow> u32 \<Rightarrow> Flow" where
  "client_flow n m =
     \<lparr>fl_SourceAddress = [198, 51, 100, n], fl_DestinationAddress = [192, 0, 2, 1],
      fl_Protocol = IPPROTO_TCP, fl_SourcePort = 40000, fl_DestinationPort = 443, fl_Mark = m,
      fl_Timeout = 300, fl_TCPState = Some tcpConntrackEstablished\<rparr>"

definition two_flows :: flow_world where
  "two_flows = \<lparr>w_script = [], w_table = None, w_flows = [client_flow 7 5, client_flow 8 0x67001000]\<rparr>"

lemma two_flows_distinct: "distinct_flows (w_flows two_flows)"
  by code_simp

text \<open>C19: A neutral boundary that reports success leaves no adapter flow without an owner: every
  flow that had none now carries generation zero, the reported number is how many there
  were, and every other entry and every mark bit outside the adapter's is as it was.\<close>

theorem neutral_boundary_complete:
  assumes "Neutralize port w = ((u, None), w')" and "distinct_flows (w_flows w)"
  shows "w_flows w' = map (\<lambda>f. if unowned port f then f\<lparr>fl_Mark := neutralMark (fl_Mark f)\<rparr> else f) (w_flows w)
    \<and> list_all (\<lambda>f. \<not> unowned port f) (w_flows w')
    \<and> u = int (length (filter (unowned port) (w_flows w)))
    \<and> map (\<lambda>f. fl_Mark f AND NOT Mask) (w_flows w') = map (\<lambda>f. fl_Mark f AND NOT Mask) (w_flows w)"
  unfolding Neutralize_complete [OF assms]
  using neutralized_not_unowned
  by (auto simp: list_all_iff neutralized_def neutralMark_bits)

theorem neutral_boundary_complete_witness:
  "list_all (\<lambda>f. \<not> unowned 443 f) (w_flows (snd (Neutralize 443 two_flows)))"
proof -
  have "fst (Neutralize 443 two_flows) = (1, None)" by code_simp
  then have "Neutralize 443 two_flows = ((1, None), snd (Neutralize 443 two_flows))" by (metis prod.collapse)
  from neutral_boundary_complete [OF this two_flows_distinct] show ?thesis by blast
qed

text \<open>C20: Whatever a neutral boundary reports, with any of its calls failing or taking effect and
  still reporting an error, no flow any generation owns changes, and each entry is either
  as it was or, having had no owner, neutral.\<close>

theorem neutral_boundary_safe:
  assumes "Neutralize port w = (r, w')" and "distinct_flows (w_flows w)"
  shows "filter (owned_by port gid) (w_flows w') = filter (owned_by port gid) (w_flows w)
    \<and> list_all2 (\<lambda>f f'. f' = f \<or> unowned port f \<and> f' = f\<lparr>fl_Mark := neutralMark (fl_Mark f)\<rparr>)
        (w_flows w) (w_flows w')"
proof -
  obtain u e where r: "r = (u, e)" by (cases r)
  obtain D where D: "D \<subseteq> {f \<in> set (w_flows w). unowned port f}"
    "w_flows w' = map (\<lambda>f. if f \<in> D then neutralized f else f) (w_flows w)"
    using Neutralize_effect [OF assms(1) [unfolded r] assms(2)] by blast
  have "filter (owned_by port gid) (w_flows w') = filter (owned_by port gid) (w_flows w)"
    unfolding D(2) using D(1) by (intro owned_kept) auto
  moreover have "list_all2 (\<lambda>f f'. f' = f \<or> unowned port f \<and> f' = f\<lparr>fl_Mark := neutralMark (fl_Mark f)\<rparr>)
        (w_flows w) (w_flows w')"
    unfolding D(2) using D(1) by (auto simp: list_all2_conv_all_nth neutralized_def)
  ultimately show ?thesis ..
qed

theorem neutral_boundary_safe_witness:
  "filter (owned_by 443 1) (w_flows (snd (Neutralize 443 two_flows))) = [client_flow 8 0x67001000]"
proof -
  have "filter (owned_by 443 1) (w_flows two_flows) = [client_flow 8 0x67001000]" by code_simp
  with neutral_boundary_safe [OF prod.collapse [symmetric] two_flows_distinct, of 443 1]
  show ?thesis by simp
qed



text \<open>A flow is left out of a drain count only when it is established and conntrack's own
  timer proves it: the timer is above every short timer, and it has run down by at least
  the configured idle time since the last packet. Without readable timeouts every flow counts.\<close>

theorem idle_flows_proved_idle:
  "\<not> live (newLiveness proc idle) f \<longleftrightarrow>
     0 < idle \<and> fl_TCPState f = Some tcpConntrackEstablished \<and>
     (case (readTimeout proc establishedTimeoutPath, readTimeout proc maxRetransTimeoutPath,
            readTimeout proc unacknowledgedTimeoutPath) of
        (Some established, Some retrans, Some unack) \<Rightarrow>
          let remaining = int (unat (fl_Timeout f)) * Second
          in retrans < remaining \<and> unack < remaining \<and> remaining < established \<and>
             idle \<le> established - remaining
      | _ \<Rightarrow> False)"
  unfolding not_live_iff
  by (auto simp: newLiveness_def Let_def dest: readTimeout_bound(1) split: option.split)

end
