(* ===== verification/Netdev.thy ===== *)
theory Netdev
  imports Flowtrack
begin

text \<open>
  \<open>internal/netdev/offload.go\<close>: reading, disabling and restoring NIC offload features. The NICs
  are part of the world: per interface, the state of each feature under its short name.
  \<open>ethtool -K\<close> consumes an outcome of the script and, as documented, refuses to change a fixed
  feature; the text \<open>ethtool -k\<close> prints is the parameter \<open>listing\<close>.
\<close>

section \<open>Reading feature states\<close>

record featureState =
  fs_enabled :: bool
  fs_fixed :: bool

record nic_world = flow_world +
  w_nics :: "string \<Rightarrow> string \<Rightarrow> featureState option"

definition offloadFeatures :: "string list" where
  "offloadFeatures = [''gso'', ''tso'', ''gro'', ''tx-gre-segmentation'', ''tx'', ''sg'', ''lro'', ''ufo'']"

definition restoreOrder :: "string list" where
  "restoreOrder =
     [''sg'', ''tx'', ''rx'', ''gso'', ''tso'', ''gro'', ''tx-gre-segmentation'', ''lro'', ''ufo'']"

definition ethtoolNames :: "(string \<times> string) list" where
  "ethtoolNames =
     [(''gso'', ''generic-segmentation-offload''),
      (''tso'', ''tcp-segmentation-offload''),
      (''gro'', ''generic-receive-offload''),
      (''tx-gre-segmentation'', ''tx-gre-segmentation''),
      (''lro'', ''large-receive-offload''),
      (''sg'', ''scatter-gather''),
      (''tx'', ''tx-checksumming''),
      (''rx'', ''rx-checksumming''),
      (''ufo'', ''udp-fragmentation-offload'')]"

text \<open>\<open>strings.Contains\<close>, and \<open>strings.SplitSeq\<close> for a one-byte separator.\<close>

fun Contains :: "string \<Rightarrow> string \<Rightarrow> bool" where
  "Contains [] sub = (sub = [])"
| "Contains (c # cs) sub = (HasPrefix (c # cs) sub \<or> Contains cs sub)"

fun SplitSeq :: "string \<Rightarrow> char \<Rightarrow> string list" where
  "SplitSeq [] c = [[]]"
| "SplitSeq (x # xs) c =
     (if x = c then [] # SplitSeq xs c
      else case SplitSeq xs c of [] \<Rightarrow> [[x]] | l # ls \<Rightarrow> (x # l) # ls)"

fun parseLines :: "string list \<Rightarrow> (string \<times> featureState) list \<Rightarrow> (string \<times> featureState) list" where
  "parseLines [] long = long"
| "parseLines (line # lines) long =
     (case Cut (TrimSpace line) (CHR '':'') of
        None \<Rightarrow> parseLines lines long
      | Some (name, value) \<Rightarrow>
          (let value = TrimSpace value
           in parseLines lines
                (AList.update name
                   \<lparr>fs_enabled = HasPrefix value ''on'', fs_fixed = Contains value ''[fixed]''\<rparr> long)))"

definition parseFeatureOutput :: "string \<Rightarrow> (string \<times> featureState) list" where
  "parseFeatureOutput out =
     (let long = parseLines (SplitSeq out (CHR 0x0A)) []
      in List.map_filter
           (\<lambda>(short, name). case map_of long name of None \<Rightarrow> None | Some v \<Rightarrow> Some (short, v))
           ethtoolNames)"

definition readFeatures ::
  "((string \<Rightarrow> featureState option) \<Rightarrow> string) \<Rightarrow> string \<Rightarrow> 'z nic_world_scheme \<Rightarrow>
     (string \<times> featureState) list res \<times> 'z nic_world_scheme" where
  "readFeatures listing iface w =
     (case pop w of
        (OK, w) \<Rightarrow> (Inr (parseFeatureOutput (listing (w_nics w iface))), w)
      | (_, w) \<Rightarrow> (Inl (Msg ''read offloads''), w))"

section \<open>Ownership records\<close>

record Original =
  o_Interface :: string
  o_Features :: "string list"
  o_skipped :: "string list"

fun originalLoop ::
  "(string \<times> featureState) list \<Rightarrow> string list \<Rightarrow> string list \<Rightarrow> string list \<Rightarrow>
     (string list \<times> string list) res" where
  "originalLoop state [] on skipped = Inr (on, skipped)"
| "originalLoop state (f # fs) on skipped =
     (case map_of state f of
        None \<Rightarrow> originalLoop state fs on (skipped @ [f])
      | Some feature \<Rightarrow>
          if \<not> fs_enabled feature then originalLoop state fs on (skipped @ [f])
          else if fs_fixed feature then Inl (Msg ''required NIC offload is enabled and fixed'')
          else originalLoop state fs (on @ [f]) skipped)"

definition originalFromState :: "string \<Rightarrow> (string \<times> featureState) list \<Rightarrow> Original res" where
  "originalFromState iface state =
     (case originalLoop state offloadFeatures [] [] of
        Inl e \<Rightarrow> Inl e
      | Inr (on, skipped) \<Rightarrow> Inr \<lparr>o_Interface = iface, o_Features = on, o_skipped = skipped\<rparr>)"

text \<open>\<open>Capture\<close>: the tool and the interface have to exist (two outcomes) before the state is read.\<close>

definition Capture ::
  "((string \<Rightarrow> featureState option) \<Rightarrow> string) \<Rightarrow> string \<Rightarrow> 'z nic_world_scheme \<Rightarrow>
     Original res \<times> 'z nic_world_scheme" where
  "Capture listing iface w =
     (case pop w of
        (OK, w) \<Rightarrow>
          (case pop w of
             (OK, w) \<Rightarrow>
               (case readFeatures listing iface w of
                  (Inl e, w) \<Rightarrow> (Inl e, w)
                | (Inr state, w) \<Rightarrow> (originalFromState iface state, w))
           | (_, w) \<Rightarrow> (Inl (Msg ''interface not found''), w))
      | (_, w) \<Rightarrow> (Inl (Msg ''ethtool not found''), w))"

section \<open>Changing features\<close>

definition set_feature ::
  "string \<Rightarrow> string \<Rightarrow> bool \<Rightarrow> 'z nic_world_scheme \<Rightarrow> 'z nic_world_scheme" where
  "set_feature iface f on w =
     w\<lparr>w_nics := (w_nics w)(iface := (w_nics w iface)(f :=
         map_option (\<lambda>s. if fs_fixed s then s else s\<lparr>fs_enabled := on\<rparr>) (w_nics w iface f)))\<rparr>"

definition ethtool_K ::
  "string \<Rightarrow> string \<Rightarrow> bool \<Rightarrow> 'z nic_world_scheme \<Rightarrow> bool \<times> 'z nic_world_scheme" where
  "ethtool_K iface f on w =
     (case pop w of
        (OK, w) \<Rightarrow>
          (case w_nics w iface f of
             None \<Rightarrow> (False, w)
           | Some s \<Rightarrow> if fs_fixed s \<and> fs_enabled s \<noteq> on then (False, w) else (True, set_feature iface f on w))
      | (Fail, w) \<Rightarrow> (False, w)
      | (FailAfter, w) \<Rightarrow> (False, set_feature iface f on w))"

text \<open>\<open>Disable\<close> returns at once on a name it does not know, and collects failed commands otherwise.\<close>

fun disableLoop ::
  "string \<Rightarrow> string list \<Rightarrow> string list \<Rightarrow> 'z nic_world_scheme \<Rightarrow> err option \<times> 'z nic_world_scheme" where
  "disableLoop iface [] failed w =
     (if failed \<noteq> [] then (Some (Msg ''could not disable offloads''), w) else (None, w))"
| "disableLoop iface (f # fs) failed w =
     (if f \<notin> set restoreOrder then (Some (Msg ''invalid persisted offload feature''), w)
      else if f \<notin> set offloadFeatures then disableLoop iface fs failed w
      else case ethtool_K iface f False w of
             (ok, w) \<Rightarrow> disableLoop iface fs (if ok then failed else failed @ [f]) w)"

definition Disable :: "Original \<Rightarrow> 'z nic_world_scheme \<Rightarrow> err option \<times> 'z nic_world_scheme" where
  "Disable orig w =
     (if o_Features orig = [] then (None, w)
      else disableLoop (o_Interface orig) (o_Features orig) [] w)"

fun restoreLoop ::
  "string \<Rightarrow> string list \<Rightarrow> string list \<Rightarrow> string list \<Rightarrow> 'z nic_world_scheme \<Rightarrow>
     string list \<times> 'z nic_world_scheme" where
  "restoreLoop iface want [] failed w = (failed, w)"
| "restoreLoop iface want (f # fs) failed w =
     (if f \<notin> set want then restoreLoop iface want fs failed w
      else case ethtool_K iface f True w of
             (ok, w) \<Rightarrow> restoreLoop iface want fs (if ok then failed else failed @ [f]) w)"

text \<open>\<open>Restore\<close> updates the record it is called on: what is left is what failed.\<close>

definition Restore ::
  "Original \<Rightarrow> 'z nic_world_scheme \<Rightarrow> (err option \<times> Original) \<times> 'z nic_world_scheme" where
  "Restore orig w =
     (if o_Features orig = [] then ((None, orig), w)
      else
        (case restoreLoop (o_Interface orig) (o_Features orig) restoreOrder [] w of
           (failed, w) \<Rightarrow>
             ((if length failed > 0 then Some (Msg ''could not re-enable offloads'') else None,
               orig\<lparr>o_Features := failed\<rparr>), w)))"

definition Summary :: "Original option \<Rightarrow> string" where
  "Summary orig =
     (case orig of
        None \<Rightarrow> ''unchanged=[all]''
      | Some r \<Rightarrow> ''disabled=['' @ join_with '' '' (o_Features r) @ ''] unchanged=['' @
                   join_with '' '' (o_skipped r) @ '']'')"

section \<open>What is recorded\<close>

definition on_feature :: "(string \<times> featureState) list \<Rightarrow> string \<Rightarrow> bool" where
  "on_feature state f \<longleftrightarrow> (case map_of state f of None \<Rightarrow> False | Some s \<Rightarrow> fs_enabled s)"

definition fixed_feature :: "(string \<times> featureState) list \<Rightarrow> string \<Rightarrow> bool" where
  "fixed_feature state f \<longleftrightarrow> (case map_of state f of None \<Rightarrow> False | Some s \<Rightarrow> fs_fixed s)"

lemma originalLoop_step:
  "originalLoop state (f # fs) on skipped =
     (if \<not> on_feature state f then originalLoop state fs on (skipped @ [f])
      else if fixed_feature state f then Inl (Msg ''required NIC offload is enabled and fixed'')
      else originalLoop state fs (on @ [f]) skipped)"
  by (simp add: on_feature_def fixed_feature_def split: option.split)

lemma originalLoop_eq:
  "originalLoop state fs on skipped =
     (if \<exists>f\<in>set fs. on_feature state f \<and> fixed_feature state f
      then Inl (Msg ''required NIC offload is enabled and fixed'')
      else Inr (on @ filter (on_feature state) fs, skipped @ filter (\<lambda>f. \<not> on_feature state f) fs))"
  by (induction fs arbitrary: on skipped) (auto simp: originalLoop_step simp del: originalLoop.simps(2))

lemma originalFromState_Inr:
  "originalFromState iface state = Inr orig \<longleftrightarrow>
     (\<forall>f\<in>set offloadFeatures. on_feature state f \<longrightarrow> \<not> fixed_feature state f) \<and>
     orig = \<lparr>o_Interface = iface, o_Features = filter (on_feature state) offloadFeatures,
             o_skipped = filter (\<lambda>f. \<not> on_feature state f) offloadFeatures\<rparr>"
  by (auto simp: originalFromState_def originalLoop_eq)

section \<open>Frames\<close>

lemma pop_nics: "pop w = (x, w') \<Longrightarrow> w_nics w' = w_nics w \<and> w_flows w' = w_flows w
    \<and> w_table w' = w_table w \<and> nic_world.more w' = nic_world.more w"
  for w w' :: "'z nic_world_scheme"
  using pop_more [of w] by (cases w; cases w') auto

lemma ethtool_K_world:
  fixes w :: "'z nic_world_scheme"
  assumes "ethtool_K iface f on w = (ok, w')"
  shows "w_flows w' = w_flows w \<and> w_table w' = w_table w \<and> nic_world.more w' = nic_world.more w"
  using assms
  by (auto simp: ethtool_K_def set_feature_def split: prod.splits outcome.splits option.splits if_splits
      dest!: pop_nics)

lemma disableLoop_world:
  fixes w :: "'z nic_world_scheme"
  shows "disableLoop iface fs failed w = (e, w') \<Longrightarrow>
    w_flows w' = w_flows w \<and> w_table w' = w_table w \<and> nic_world.more w' = nic_world.more w"
  by (induction fs arbitrary: failed w) (auto split: if_splits prod.splits dest!: ethtool_K_world)

lemma restoreLoop_world:
  fixes w :: "'z nic_world_scheme"
  shows "restoreLoop iface want fs failed w = (e, w') \<Longrightarrow>
    w_flows w' = w_flows w \<and> w_table w' = w_table w \<and> nic_world.more w' = nic_world.more w"
  by (induction fs arbitrary: failed w) (auto split: if_splits prod.splits dest!: ethtool_K_world)

lemma Disable_world:
  fixes w :: "'z nic_world_scheme"
  assumes "Disable orig w = (e, w')"
  shows "w_flows w' = w_flows w \<and> w_table w' = w_table w \<and> nic_world.more w' = nic_world.more w"
  using assms by (auto simp: Disable_def split: if_splits dest: disableLoop_world)

lemma Restore_world:
  fixes w :: "'z nic_world_scheme"
  assumes "Restore orig w = (r, w')"
  shows "w_flows w' = w_flows w \<and> w_table w' = w_table w \<and> nic_world.more w' = nic_world.more w"
  using assms by (auto simp: Restore_def split: if_splits prod.splits dest: restoreLoop_world)

lemma Capture_world:
  fixes w :: "'z nic_world_scheme"
  assumes "Capture listing iface w = (r, w')"
  shows "w_nics w' = w_nics w \<and> w_flows w' = w_flows w \<and> w_table w' = w_table w \<and>
    nic_world.more w' = nic_world.more w"
  using assms
  by (auto simp: Capture_def readFeatures_def split: prod.splits outcome.splits sum.splits dest!: pop_nics)

section \<open>What the commands do to the features\<close>

definition enabled_on :: "string \<Rightarrow> 'z nic_world_scheme \<Rightarrow> string \<Rightarrow> bool option" where
  "enabled_on iface w f = map_option fs_enabled (w_nics w iface f)"

definition fixed_on :: "string \<Rightarrow> 'z nic_world_scheme \<Rightarrow> string \<Rightarrow> bool option" where
  "fixed_on iface w f = map_option fs_fixed (w_nics w iface f)"

lemma set_feature_nics [simp]:
  "w_nics (set_feature iface f on w) i g =
     (if i = iface \<and> g = f then map_option (\<lambda>s. if fs_fixed s then s else s\<lparr>fs_enabled := on\<rparr>) (w_nics w i g)
      else w_nics w i g)"
  by (auto simp: set_feature_def)

lemma ethtool_K_cases:
  fixes w :: "'z nic_world_scheme"
  assumes "ethtool_K iface f on w = (ok, w')"
  shows "w_nics w' = w_nics w \<and> \<not> ok \<or> w_nics w' = w_nics (set_feature iface f on w) \<and>
    (ok \<longrightarrow> (\<exists>s. w_nics w iface f = Some s \<and> (fs_fixed s \<longrightarrow> fs_enabled s = on)))"
proof -
  obtain x w1 where p: "pop w = (x, w1)" by (cases "pop w")
  from pop_nics [OF p] have "w_nics w1 = w_nics w" by simp
  moreover from this have "w_nics (set_feature iface f on w1) = w_nics (set_feature iface f on w)"
    by (simp add: fun_eq_iff)
  ultimately show ?thesis using p assms
    by (cases x; cases "w_nics w iface f") (auto simp: ethtool_K_def split: if_splits)
qed

text \<open>
  One or more commands of one direction on some features: only those features change, and a
  change only sets the flag.
\<close>

definition nic_step :: "bool \<Rightarrow> string \<Rightarrow> string set \<Rightarrow> 'z nic_world_scheme \<Rightarrow> 'z nic_world_scheme \<Rightarrow> bool" where
  "nic_step on iface S w w' \<longleftrightarrow>
     (\<forall>i g. w_nics w' i g = w_nics w i g \<or>
        (i = iface \<and> g \<in> S \<and> w_nics w' i g = map_option (\<lambda>s. s\<lparr>fs_enabled := on\<rparr>) (w_nics w i g)))"

lemma nic_step_refl: "nic_step on iface S w w"
  by (simp add: nic_step_def)

lemma nic_step_trans:
  assumes "nic_step on iface S w w1" and "nic_step on iface T w1 w2"
  shows "nic_step on iface (S \<union> T) w w2"
  unfolding nic_step_def
proof (intro allI)
  fix i g
  from assms(1) have "w_nics w1 i g = w_nics w i g \<or>
      (i = iface \<and> g \<in> S \<and> w_nics w1 i g = map_option (\<lambda>s. s\<lparr>fs_enabled := on\<rparr>) (w_nics w i g))"
    unfolding nic_step_def by blast
  moreover from assms(2) have "w_nics w2 i g = w_nics w1 i g \<or>
      (i = iface \<and> g \<in> T \<and> w_nics w2 i g = map_option (\<lambda>s. s\<lparr>fs_enabled := on\<rparr>) (w_nics w1 i g))"
    unfolding nic_step_def by blast
  ultimately show "w_nics w2 i g = w_nics w i g \<or>
        (i = iface \<and> g \<in> S \<union> T \<and> w_nics w2 i g = map_option (\<lambda>s. s\<lparr>fs_enabled := on\<rparr>) (w_nics w i g))"
    by (auto simp: option.map_comp o_def)
qed

lemma nic_step_outside:
  "nic_step on iface S w w' \<Longrightarrow> i \<noteq> iface \<or> g \<notin> S \<Longrightarrow> w_nics w' i g = w_nics w i g"
  unfolding nic_step_def by blast

lemma nic_step_at:
  "nic_step on iface S w w' \<Longrightarrow> w_nics w' i g = w_nics w i g \<or>
     w_nics w' i g = map_option (\<lambda>s. s\<lparr>fs_enabled := on\<rparr>) (w_nics w i g)"
  unfolding nic_step_def by blast

lemma nic_step_keeps:
  assumes "nic_step on iface S w w'" and "enabled_on iface w g = Some on"
  shows "enabled_on iface w' g = Some on"
proof -
  from assms(1) have "w_nics w' iface g = w_nics w iface g \<or>
      w_nics w' iface g = map_option (\<lambda>s. s\<lparr>fs_enabled := on\<rparr>) (w_nics w iface g)"
    unfolding nic_step_def by blast
  with assms(2) show ?thesis by (auto simp: enabled_on_def)
qed

lemma ethtool_K_step:
  fixes w :: "'z nic_world_scheme"
  assumes "ethtool_K iface f on w = (ok, w')"
  shows "nic_step on iface {f} w w'" and "ok \<Longrightarrow> enabled_on iface w' f = Some on"
proof -
  note c = ethtool_K_cases [OF assms]
  show "nic_step on iface {f} w w'"
    unfolding nic_step_def
  proof (intro allI)
    fix i g
    show "w_nics w' i g = w_nics w i g \<or>
        (i = iface \<and> g \<in> {f} \<and> w_nics w' i g = map_option (\<lambda>s. s\<lparr>fs_enabled := on\<rparr>) (w_nics w i g))"
      using c set_feature_nics [of iface f on w i g]
      by (cases "w_nics w i g") (auto simp del: set_feature_nics split: if_splits)
  qed
  show "ok \<Longrightarrow> enabled_on iface w' f = Some on"
  proof -
    assume ok
    with c obtain s where "w_nics w iface f = Some s" "fs_fixed s \<longrightarrow> fs_enabled s = on"
      "w_nics w' = w_nics (set_feature iface f on w)" by auto
    then show ?thesis by (cases "fs_fixed s") (simp_all add: enabled_on_def)
  qed
qed

lemma disableLoop_step:
  fixes w :: "'z nic_world_scheme"
  assumes "disableLoop iface fs failed w = (e, w')"
  shows "nic_step False iface (set fs \<inter> set offloadFeatures) w w'"
  using assms
proof (induction fs arbitrary: failed w)
  case Nil
  then show ?case by (auto simp: nic_step_refl split: if_splits)
next
  case (Cons f fs)
  show ?case
  proof (cases "f \<in> set restoreOrder \<and> f \<in> set offloadFeatures")
    case False
    with Cons.prems have "w' = w \<or> f \<notin> set offloadFeatures \<and> disableLoop iface fs failed w = (e, w')"
      by (auto split: if_splits)
    with Cons.IH [of failed w] nic_step_refl show ?thesis by auto
  next
    case True
    obtain ok w1 where k: "ethtool_K iface f False w = (ok, w1)" by (cases "ethtool_K iface f False w")
    with True Cons.prems have run: "disableLoop iface fs (if ok then failed else failed @ [f]) w1 = (e, w')"
      by simp
    from nic_step_trans [OF ethtool_K_step(1) [OF k] Cons.IH [OF run]] True show ?thesis by simp
  qed
qed

lemma disableLoop_off:
  fixes w :: "'z nic_world_scheme"
  assumes "disableLoop iface fs failed w = (None, w')"
  shows "failed = [] \<and> (\<forall>g\<in>set fs \<inter> set offloadFeatures. enabled_on iface w' g = Some False)"
  using assms
proof (induction fs arbitrary: failed w)
  case Nil
  then show ?case by (simp split: if_splits)
next
  case (Cons f fs)
  show ?case
  proof (cases "f \<in> set offloadFeatures")
    case False
    with Cons show ?thesis by (auto split: if_splits)
  next
    case True
    obtain ok w1 where k: "ethtool_K iface f False w = (ok, w1)" by (cases "ethtool_K iface f False w")
    with True Cons.prems have run: "disableLoop iface fs (if ok then failed else failed @ [f]) w1 = (None, w')"
      by (simp split: if_splits)
    from Cons.IH [OF run] have "ok" by (auto split: if_splits)
    with ethtool_K_step(2) [OF k] nic_step_keeps [OF disableLoop_step [OF run]]
    have "enabled_on iface w' f = Some False" by simp
    with Cons.IH [OF run] \<open>ok\<close> show ?thesis by auto
  qed
qed

lemma restoreLoop_step:
  fixes w :: "'z nic_world_scheme"
  assumes "restoreLoop iface want fs failed w = (failed', w')"
  shows "nic_step True iface (set want \<inter> set fs) w w'"
    and "\<exists>more. failed' = failed @ more \<and> set more \<subseteq> set want \<inter> set fs \<and>
      (\<forall>g\<in>set want \<inter> set fs. g \<notin> set more \<longrightarrow> enabled_on iface w' g = Some True)"
  using assms
proof (induction fs arbitrary: failed w)
  case Nil
  {
    case 1
    then show ?case by (simp add: nic_step_refl)
  next
    case 2
    then show ?case by simp
  }
next
  case (Cons f fs)
  {
    case (1 failed w)
    obtain ok w1 where k: "ethtool_K iface f True w = (ok, w1)" by (cases "ethtool_K iface f True w")
    show ?case
    proof (cases "f \<in> set want")
      case False
      with 1 Cons.IH(1) show ?thesis by simp
    next
      case True
      with 1 k have run: "restoreLoop iface want fs (if ok then failed else failed @ [f]) w1 = (failed', w')"
        by simp
      from nic_step_trans [OF ethtool_K_step(1) [OF k] Cons.IH(1) [OF run]] True show ?thesis by simp
    qed
  next
    case (2 failed w)
    obtain ok w1 where k: "ethtool_K iface f True w = (ok, w1)" by (cases "ethtool_K iface f True w")
    show ?case
    proof (cases "f \<in> set want")
      case False
      with 2 have run: "restoreLoop iface want fs failed w = (failed', w')" by simp
      from Cons.IH(2) [OF run] False show ?thesis by auto
    next
      case True
      with 2 k have run: "restoreLoop iface want fs (if ok then failed else failed @ [f]) w1 = (failed', w')"
        by simp
      have on: "ok \<Longrightarrow> enabled_on iface w' f = Some True"
        using ethtool_K_step(2) [OF k] nic_step_keeps [OF Cons.IH(1) [OF run]] by blast
      from Cons.IH(2) [OF run] obtain more where m:
        "failed' = (if ok then failed else failed @ [f]) @ more" "set more \<subseteq> set want \<inter> set fs"
        "\<forall>g\<in>set want \<inter> set fs. g \<notin> set more \<longrightarrow> enabled_on iface w' g = Some True" by blast
      show ?thesis
        using m on True by (intro exI [of _ "(if ok then [] else [f]) @ more"]) auto
    qed
  }
qed

section \<open>Reading a listing back\<close>

text \<open>A line of \<open>ethtool -k\<close>, and the printable characters names are made of.\<close>

definition graphic :: "char \<Rightarrow> bool" where
  "graphic c \<longleftrightarrow> 33 \<le> (of_char c :: nat) \<and> (of_char c :: nat) \<le> 126"

definition plain_name :: "string \<Rightarrow> bool" where
  "plain_name s \<longleftrightarrow> s \<noteq> [] \<and> list_all graphic s \<and> CHR '':'' \<notin> set s"

definition feature_value :: "featureState \<Rightarrow> string" where
  "feature_value s =
     (if fs_enabled s then ''on'' else ''off'') @ (if fs_fixed s then '' [fixed]'' else [])"

definition feature_line :: "string \<times> featureState \<Rightarrow> string" where
  "feature_line e = tab @ fst e @ '': '' @ feature_value (snd e)"

lemma space_rune_ends:
  assumes "r \<in> set space_runes"
  shows "\<not> graphic (hd r)" and "\<not> graphic (last r)"
proof -
  have "list_all (\<lambda>r. \<not> graphic (hd r) \<and> \<not> graphic (last r)) space_runes"
    unfolding space_runes_def graphic_def by code_simp
  with assms show "\<not> graphic (hd r)" "\<not> graphic (last r)" by (auto simp: list_all_iff)
qed

lemma trim_left_graphic: "graphic c \<Longrightarrow> trim_left (c # s) = c # s"
proof -
  assume "graphic c"
  have "find (\<lambda>r. HasPrefix (c # s) r) space_runes = None"
    unfolding find_None_iff
  proof (intro notI)
    assume "\<exists>r. r \<in> set space_runes \<and> HasPrefix (c # s) r"
    then obtain r where r: "r \<in> set space_runes" "HasPrefix (c # s) r" by blast
    with space_runes_nonempty have "hd r = c" by (cases r) (auto simp: HasPrefix_def)
    with space_rune_ends(1) [OF r(1)] \<open>graphic c\<close> show False by simp
  qed
  then show ?thesis by (simp add: trim_left.simps)
qed

lemma trim_right_graphic: "graphic c \<Longrightarrow> trim_right (s @ [c]) = s @ [c]"
proof -
  assume "graphic c"
  have "find (\<lambda>r. HasSuffix (s @ [c]) r) space_runes = None"
    unfolding find_None_iff
  proof (intro notI)
    assume "\<exists>r. r \<in> set space_runes \<and> HasSuffix (s @ [c]) r"
    then obtain r where r: "r \<in> set space_runes" "HasSuffix (s @ [c]) r" by blast
    then have "r \<noteq> []" using space_runes_nonempty by blast
    with r(2) have "last r = c" by (cases r rule: rev_cases) (auto simp: HasSuffix_def)
    with space_rune_ends(2) [OF r(1)] \<open>graphic c\<close> show False by simp
  qed
  then show ?thesis by (simp add: trim_right.simps)
qed

lemma trim_left_space: "b \<in> {CHR 0x09, CHR '' ''} \<Longrightarrow> trim_left (b # s) = trim_left s"
proof -
  assume b: "b \<in> {CHR 0x09, CHR '' ''}"
  have "find (\<lambda>r. HasPrefix (b # s) r) space_runes = Some [b]"
    using b by (elim insertE emptyE) (simp_all add: space_runes_def HasPrefix_def)
  then show ?thesis by (subst trim_left.simps) simp
qed

lemma TrimSpace_indented:
  assumes "b \<in> {CHR 0x09, CHR '' ''}" and "graphic c" and "graphic (last (c # s))"
  shows "TrimSpace (b # c # s) = c # s" and "TrimSpace (c # s) = c # s"
proof -
  have "trim_right (c # s) = c # s"
    using trim_right_graphic [OF assms(3), of "butlast (c # s)"]
    by (simp del: butlast.simps last.simps)
  then show "TrimSpace (b # c # s) = c # s" and "TrimSpace (c # s) = c # s"
    by (simp_all add: TrimSpace_def trim_left_space [OF assms(1)] trim_left_graphic [OF assms(2)])
qed

lemma feature_value_cases:
  "feature_value s \<in> {''on'', ''off'', ''on [fixed]'', ''off [fixed]''}"
  by (simp add: feature_value_def)

lemma feature_value_graphic:
  "feature_value s = CHR ''o'' # tl (feature_value s)"
  "graphic (CHR ''o'')" "graphic (last (feature_value s))"
proof -
  show "feature_value s = CHR ''o'' # tl (feature_value s)" by (simp add: feature_value_def)
  have "graphic (CHR ''o'') \<and> graphic (CHR ''n'') \<and> graphic (CHR ''f'') \<and> graphic (CHR '']'')"
    unfolding graphic_def by code_simp
  then show "graphic (CHR ''o'')" "graphic (last (feature_value s))"
    by (simp_all add: feature_value_def)
qed

lemma feature_value_read:
  "TrimSpace (CHR '' '' # feature_value s) = feature_value s"
  "HasPrefix (feature_value s) ''on'' = fs_enabled s"
  "Contains (feature_value s) ''[fixed]'' = fs_fixed s"
proof -
  show "TrimSpace (CHR '' '' # feature_value s) = feature_value s"
    using TrimSpace_indented(1) [of "CHR '' ''" "CHR ''o''" "tl (feature_value s)"]
      feature_value_graphic(1,3) [of s] feature_value_graphic(2)
    by (metis insert_iff)
  show "HasPrefix (feature_value s) ''on'' = fs_enabled s"
    by (simp add: feature_value_def HasPrefix_def)
  show "Contains (feature_value s) ''[fixed]'' = fs_fixed s"
    by (simp add: feature_value_def HasPrefix_def)
qed

lemma feature_line_read:
  assumes "plain_name n"
  shows "Cut (TrimSpace (feature_line (n, s))) (CHR '':'') = Some (n, CHR '' '' # feature_value s)"
proof -
  obtain c cs where n: "n = c # cs" using assms by (cases n) (auto simp: plain_name_def)
  have "feature_value s \<noteq> []" "graphic (last (feature_value s))"
    using feature_value_graphic(1,3) [of s] by (metis list.distinct(1))+
  then have "TrimSpace (feature_line (n, s)) = n @ CHR '':'' # CHR '' '' # feature_value s"
    using TrimSpace_indented(1) [of "CHR 0x09" c "cs @ CHR '':'' # CHR '' '' # feature_value s"] assms
    by (simp add: feature_line_def tab_def n plain_name_def)
  then show ?thesis using assms by (simp add: Cut_append plain_name_def)
qed

lemma parseLines_entries:
  "list_all (\<lambda>e. plain_name (fst e)) es \<Longrightarrow>
     parseLines (map feature_line es @ ls) long =
       parseLines ls (fold (\<lambda>e. AList.update (fst e) (snd e)) es long)"
proof (induction es arbitrary: long)
  case (Cons e es)
  obtain n s where e: "e = (n, s)" by (cases e)
  have s: "\<lparr>fs_enabled = fs_enabled s, fs_fixed = fs_fixed s\<rparr> = s" by (cases s) simp
  from e Cons show ?case by (simp add: feature_line_read feature_value_read Let_def s)
qed simp

lemma map_of_fold_update:
  "distinct (map fst es) \<Longrightarrow>
     map_of (fold (\<lambda>e. AList.update (fst e) (snd e)) es long) n =
       (case map_of es n of None \<Rightarrow> map_of long n | Some s \<Rightarrow> Some s)"
proof (induction es arbitrary: long)
  case (Cons e es)
  have none: "map_of es (fst e) = None" using Cons.prems by (simp add: map_of_eq_None_iff)
  from Cons show ?case
    by (cases "n = fst e") (simp_all add: none split: option.splits)
qed simp

lemma SplitSeq_lines:
  "list_all (\<lambda>l. c \<notin> set l) ls \<Longrightarrow> SplitSeq (concat (map (\<lambda>l. l @ [c]) ls)) c = ls @ [[]]"
proof (induction ls)
  case (Cons l ls)
  have "c \<notin> set l \<Longrightarrow> SplitSeq (l @ c # s) c = l # SplitSeq s c" for s
    by (induction l) auto
  with Cons show ?case by simp
qed simp

definition feature_listing :: "(string \<times> featureState) list \<Rightarrow> string" where
  "feature_listing es = concat (map (\<lambda>e. feature_line e @ newline) es)"

lemma feature_line_one: "plain_name n \<Longrightarrow> CHR 0x0A \<notin> set (feature_line (n, s))"
  using feature_value_cases [of s]
  by (auto simp: feature_line_def tab_def plain_name_def list_all_iff graphic_def)

lemma map_of_filter_names:
  "distinct (map fst ns) \<Longrightarrow>
     map_of (List.map_filter
       (\<lambda>(short, name). case map_of l name of None \<Rightarrow> None | Some v \<Rightarrow> Some (short, v)) ns) f =
     (case map_of ns f of None \<Rightarrow> None | Some n \<Rightarrow> map_of l n)"
proof (induction ns)
  case (Cons e ns)
  obtain short name where e: "e = (short, name)" by (cases e)
  with Cons.prems have "map_of ns short = None" by (simp add: map_of_eq_None_iff)
  with Cons e show ?case
    by (cases "f = short"; cases "map_of l name") (simp_all add: map_filter_simps)
qed (simp add: map_filter_simps)

lemma parse_feature_listing:
  assumes "distinct (map fst es)" and "list_all (\<lambda>e. plain_name (fst e)) es"
  shows "map_of (parseFeatureOutput (feature_listing es)) f =
     (case map_of ethtoolNames f of None \<Rightarrow> None | Some n \<Rightarrow> map_of es n)"
proof -
  have "SplitSeq (feature_listing es) (CHR 0x0A) = map feature_line es @ [[]]"
    using SplitSeq_lines [of "CHR 0x0A" "map feature_line es"] assms(2) feature_line_one
    by (simp add: feature_listing_def newline_def o_def list_all_iff) (metis prod.collapse)
  moreover have "parseLines [[]] long = long" for long
    by (simp add: TrimSpace_def trim_left.simps trim_right.simps)
  ultimately have long: "map_of (parseLines (SplitSeq (feature_listing es) (CHR 0x0A)) []) n = map_of es n" for n
    by (simp add: parseLines_entries [OF assms(2)] map_of_fold_update [OF assms(1)] split: option.split)
  have "distinct (map fst ethtoolNames)" by (simp add: ethtoolNames_def)
  then show ?thesis
    by (simp add: parseFeatureOutput_def map_of_filter_names long)
qed

section \<open>Properties\<close>

lemma filter_features_sub: "set (filter P offloadFeatures) \<subseteq> set restoreOrder"
  by (auto simp: offloadFeatures_def restoreOrder_def)

lemma Disable_step:
  fixes w :: "'z nic_world_scheme"
  assumes "Disable orig w = (e, w')"
  shows "nic_step False (o_Interface orig) (set (o_Features orig) \<inter> set offloadFeatures) w w'"
    and "e = None \<Longrightarrow> g \<in> set (o_Features orig) \<inter> set offloadFeatures \<Longrightarrow>
      enabled_on (o_Interface orig) w' g = Some False"
  using assms disableLoop_step [of "o_Interface orig" "o_Features orig" "[]" w e w']
    disableLoop_off [of "o_Interface orig" "o_Features orig" "[]" w w'] nic_step_refl
  by (auto simp: Disable_def split: if_splits)

lemma Restore_step:
  fixes w :: "'z nic_world_scheme"
  assumes "Restore orig w = ((e, orig'), w')"
  shows "nic_step True (o_Interface orig) (set (o_Features orig)) w w'"
    and "o_Interface orig' = o_Interface orig" and "set (o_Features orig') \<subseteq> set (o_Features orig)"
    and "e = None \<longleftrightarrow> o_Features orig' = []"
    and "g \<in> set (o_Features orig) \<inter> set restoreOrder \<Longrightarrow> g \<notin> set (o_Features orig') \<Longrightarrow>
      enabled_on (o_Interface orig) w' g = Some True"
proof -
  let ?I = "o_Interface orig" and ?F = "o_Features orig"
  have "nic_step True ?I (set ?F) w w' \<and> o_Interface orig' = ?I \<and> set (o_Features orig') \<subseteq> set ?F \<and>
      (e = None \<longleftrightarrow> o_Features orig' = []) \<and>
      (g \<in> set ?F \<inter> set restoreOrder \<longrightarrow> g \<notin> set (o_Features orig') \<longrightarrow> enabled_on ?I w' g = Some True)"
  proof (cases "?F = []")
    case True
    with assms show ?thesis by (auto simp: Restore_def nic_step_refl)
  next
    case False
    with assms obtain failed where l: "restoreLoop ?I ?F restoreOrder [] w = (failed, w')"
      and o': "orig' = orig\<lparr>o_Features := failed\<rparr>" "e = None \<longleftrightarrow> failed = []"
      by (auto simp: Restore_def split: prod.splits if_splits)
    have "nic_step True ?I (set ?F) w w'"
      using restoreLoop_step(1) [OF l] by (auto simp: nic_step_def)
    with restoreLoop_step(2) [OF l] o' show ?thesis by auto
  qed
  then show "nic_step True ?I (set ?F) w w'" "o_Interface orig' = ?I"
    "set (o_Features orig') \<subseteq> set ?F" "e = None \<longleftrightarrow> o_Features orig' = []"
    "g \<in> set ?F \<inter> set restoreOrder \<Longrightarrow> g \<notin> set (o_Features orig') \<Longrightarrow> enabled_on ?I w' g = Some True"
    by auto
qed

text \<open>An interface with two features on, for the witnesses.\<close>

definition eth_state :: "(string \<times> featureState) list" where
  "eth_state = [(''gso'', \<lparr>fs_enabled = True, fs_fixed = False\<rparr>), (''tso'', \<lparr>fs_enabled = True, fs_fixed = False\<rparr>),
     (''lro'', \<lparr>fs_enabled = False, fs_fixed = True\<rparr>)]"

definition eth_world :: "outcome list \<Rightarrow> nic_world" where
  "eth_world outs = \<lparr>w_script = outs, w_table = None, w_flows = [],
     w_nics = (\<lambda>i. if i = ''eth0'' then map_of eth_state else (\<lambda>_. None))\<rparr>"

definition eth_orig :: Original where
  "eth_orig = \<lparr>o_Interface = ''eth0'', o_Features = [''gso'', ''tso''],
     o_skipped = [''gro'', ''tx-gre-segmentation'', ''tx'', ''sg'', ''lro'', ''ufo'']\<rparr>"



text \<open>A restore that fails keeps ownership of exactly the features it did not turn back on:
  every recorded feature it dropped from the record is on again, so a later restore of the
  smaller record completes the work.\<close>

theorem restore_keeps_ownership:
  fixes w :: "'z nic_world_scheme"
  assumes "Restore orig w = ((e, orig'), w')"
  shows "(e = None \<longleftrightarrow> o_Features orig' = []) \<and> set (o_Features orig') \<subseteq> set (o_Features orig) \<and>
    (\<forall>f\<in>set (o_Features orig) \<inter> set restoreOrder - set (o_Features orig').
       enabled_on (o_Interface orig) w' f = Some True) \<and>
    (\<forall>i f. i \<noteq> o_Interface orig \<or> f \<notin> set (o_Features orig) \<longrightarrow> w_nics w' i f = w_nics w i f)"
  using Restore_step [OF assms] unfolding nic_step_def by blast

theorem restore_keeps_ownership_witness:
  "set (o_Features (snd (fst (Restore eth_orig (eth_world [OK, Fail]))))) \<subseteq> {''gso'', ''tso''}
     \<and> o_Features (snd (fst (Restore eth_orig (eth_world [OK, Fail])))) = [''tso'']"
proof -
  have "Restore eth_orig (eth_world [OK, Fail]) =
      ((fst (fst (Restore eth_orig (eth_world [OK, Fail]))), snd (fst (Restore eth_orig (eth_world [OK, Fail])))),
       snd (Restore eth_orig (eth_world [OK, Fail])))" by simp
  from restore_keeps_ownership [OF this]
  have "set (o_Features (snd (fst (Restore eth_orig (eth_world [OK, Fail]))))) \<subseteq> set (o_Features eth_orig)"
    by blast
  moreover have "o_Features (snd (fst (Restore eth_orig (eth_world [OK, Fail])))) = [''tso'']" by code_simp
  ultimately show ?thesis by (simp add: eth_orig_def)
qed

text \<open>Parsing an \<open>ethtool -k\<close> listing gives each feature the code names exactly the state
  the listing shows for its long name, and nothing for a feature it does not list.\<close>

theorem feature_listing_roundtrip:
  assumes "distinct (map fst es)" and "list_all (\<lambda>e. plain_name (fst e)) es"
  shows "map_of (parseFeatureOutput (feature_listing es)) f =
     (case map_of ethtoolNames f of None \<Rightarrow> None | Some n \<Rightarrow> map_of es n)"
  using assms by (rule parse_feature_listing)

theorem feature_listing_roundtrip_witness:
  "map_of (parseFeatureOutput (feature_listing
       [(''generic-segmentation-offload'', \<lparr>fs_enabled = True, fs_fixed = False\<rparr>)])) ''gso''
     = Some \<lparr>fs_enabled = True, fs_fixed = False\<rparr>"
proof -
  let ?es = "[(''generic-segmentation-offload'', \<lparr>fs_enabled = True, fs_fixed = False\<rparr>)]"
  have "distinct (map fst ?es)" and "list_all (\<lambda>e. plain_name (fst e)) ?es" by code_simp+
  from feature_listing_roundtrip [OF this, of "''gso''"] show ?thesis by (simp add: ethtoolNames_def)
qed

end
