(* ===== verification/Scope.thy ===== *)
theory Scope
  imports Nft_Rules
begin

text \<open>
  \<open>internal/steering/scope.go\<close>: what a strategy can act on, as the selectors nftables
  programs, with \<open>widen\<close>, \<open>resourceClass\<close> and \<open>establishmentOnly\<close> of
  \<open>internal/steering/controller.go\<close>. The strategy library is not part of the repository: a
  trigger is known by the three methods the code calls on it, and applying a strategy to a
  packet is a function the strategy carries.
\<close>

section \<open>The strategy as the code sees it\<close>

datatype Direction = DirectionOutbound | DirectionInbound

record Trigger =
  t_Protocol :: string
  t_Field :: string
  t_String :: string

text \<open>A tree pointer may be nil, and so may its trigger.\<close>

type_synonym ActionTree = "Trigger option"
type_synonym Forest = "ActionTree option list"

record Strategy =
  s_Outbound :: Forest
  s_Inbound :: Forest
  s_Apply :: "byte list \<Rightarrow> Direction \<Rightarrow> byte list list res"

record Scope =
  sc_Outbound :: Selector
  sc_Inbound :: Selector

definition sc_Idle :: "Scope \<Rightarrow> bool" where
  "sc_Idle s \<longleftrightarrow> sel_Empty (sc_Outbound s) \<and> sel_Empty (sc_Inbound s)"

abbreviation empty_scope :: Scope where
  "empty_scope \<equiv> \<lparr>sc_Outbound = no_selector, sc_Inbound = no_selector\<rparr>"

section \<open>Reading a trigger back\<close>

definition tcpFlagBits :: "char \<Rightarrow> u8 option" where
  "tcpFlagBits = map_of
     [(CHR ''F'', 0x01), (CHR ''S'', 0x02), (CHR ''R'', 0x04), (CHR ''P'', 0x08),
      (CHR ''A'', 0x10), (CHR ''U'', 0x20), (CHR ''E'', 0x40), (CHR ''C'', 0x80)]"

definition triggerValue :: "string \<Rightarrow> string option" where
  "triggerValue s =
     (let s = TrimSuffix (TrimPrefix s ''['') '']'';
          parts = SplitN s (CHR '':'') 3
      in if length parts \<noteq> 3 then None
         else
           let v = parts ! 2
           in case LastIndex v (CHR '':'') of
                None \<Rightarrow> Some v
              | Some i \<Rightarrow>
                  (if Atoi (drop (Suc i) v) \<noteq> None then Some (take i v) else Some v))"

fun want_bits :: "u8 \<Rightarrow> string \<Rightarrow> u8 option" where
  "want_bits want [] = Some want"
| "want_bits want (c # cs) =
     (case tcpFlagBits c of None \<Rightarrow> None | Some b \<Rightarrow> want_bits (want OR b) cs)"

definition flagMatchOf :: "Trigger \<Rightarrow> FlagMatch option" where
  "flagMatchOf t =
     (if t_Protocol t \<noteq> ''TCP'' \<or> t_Field t \<noteq> ''flags'' then None
      else case triggerValue (t_String t) of
             None \<Rightarrow> None
           | Some v \<Rightarrow>
               (let wildcard = HasSuffix v ''*'';
                    v = TrimSuffix v ''*''
                in if v = [] then None
                   else case want_bits 0 v of
                          None \<Rightarrow> None
                        | Some want \<Rightarrow>
                            Some (if wildcard then FlagMatch want want else FlagMatch 0xff want)))"

section \<open>Canonical flag lists\<close>

definition subsumes :: "FlagMatch \<Rightarrow> FlagMatch \<Rightarrow> bool" where
  "subsumes broader candidate \<longleftrightarrow>
     fm_Mask broader AND NOT (fm_Mask candidate) = 0 \<and>
     fm_Value candidate AND fm_Mask broader = fm_Value broader"

text \<open>\<open>unique\<close> is a map, visited in some order; the final sort makes the order irrelevant.\<close>

definition canonicalFlags :: "FlagMatch list \<Rightarrow> FlagMatch list" where
  "canonicalFlags xs =
     (let unique = remdups xs
      in sort (filter (\<lambda>candidate.
                 \<not> list_ex (\<lambda>broader. candidate \<noteq> broader \<and> subsumes broader candidate) unique)
               unique))"

fun selectorLoop :: "Forest \<Rightarrow> FlagMatch list \<Rightarrow> Selector" where
  "selectorLoop [] flags = \<lparr>sel_Any = False, sel_Flags = canonicalFlags flags\<rparr>"
| "selectorLoop (None # f) flags = selectorLoop f flags"
| "selectorLoop (Some None # f) flags = selectorLoop f flags"
| "selectorLoop (Some (Some t) # f) flags =
     (case flagMatchOf t of
        None \<Rightarrow> any_selector
      | Some m \<Rightarrow> selectorLoop f (flags @ [m]))"

definition selectorOf :: "Forest \<Rightarrow> Selector" where
  "selectorOf f = selectorLoop f []"

definition Of :: "Strategy option \<Rightarrow> Scope" where
  "Of s = (case s of None \<Rightarrow> empty_scope
           | Some s \<Rightarrow> \<lparr>sc_Outbound = selectorOf (s_Outbound s), sc_Inbound = selectorOf (s_Inbound s)\<rparr>)"

section \<open>Resource classes and widening\<close>

definition establishmentOnly :: "Selector \<Rightarrow> bool" where
  "establishmentOnly sel =
     (if sel_Any sel then False
      else list_all (\<lambda>m. \<not> (fm_Mask m \<noteq> 0xff \<or> fm_Value m \<noteq> 0x02 \<and> fm_Value m \<noteq> 0x12)) (sel_Flags sel))"

datatype ResourceClass = HandshakeScoped | EveryPacket

definition resourceClass :: "Scope \<Rightarrow> ResourceClass" where
  "resourceClass sc =
     (if \<not> establishmentOnly (sc_Outbound sc) \<or> \<not> establishmentOnly (sc_Inbound sc)
      then EveryPacket else HandshakeScoped)"

definition widen :: "bool \<Rightarrow> string \<Rightarrow> Scope \<Rightarrow> Scope" where
  "widen observeInbound mode sc =
     (if \<not> observeInbound \<or> mode \<noteq> ''eval'' \<or> sc_Idle sc then sc
      else sc\<lparr>sc_Inbound := any_selector\<rparr>)"

section \<open>Serialized triggers read back\<close>

lemma triggerValue_parts:
  assumes "CHR '':'' \<notin> set p" and "CHR '':'' \<notin> set f"
  shows "triggerValue (''['' @ (p @ CHR '':'' # f @ CHR '':'' # v) @ '']'') =
    (case LastIndex v (CHR '':'') of None \<Rightarrow> Some v
     | Some i \<Rightarrow> if Atoi (drop (Suc i) v) \<noteq> None then Some (take i v) else Some v)"
proof -
  have "SplitN (p @ CHR '':'' # f @ CHR '':'' # v) (CHR '':'') 3 = [p, f, v]"
    using assms by (simp add: numeral_3_eq_3 Cut_append)
  then show ?thesis
    unfolding triggerValue_def Let_def TrimPrefix_append TrimSuffix_append
    by (simp split: option.split)
qed

lemma triggerValue_plain:
  assumes "CHR '':'' \<notin> set p" and "CHR '':'' \<notin> set f" and "CHR '':'' \<notin> set v"
  shows "triggerValue (''['' @ (p @ CHR '':'' # f @ CHR '':'' # v) @ '']'') = Some v"
  unfolding triggerValue_parts [OF assms(1,2)] using assms(3) by (simp add: LastIndex_None [THEN iffD2])

lemma triggerValue_gas:
  assumes "CHR '':'' \<notin> set p" and "CHR '':'' \<notin> set f" and "Atoi g \<noteq> None"
  shows "triggerValue (''['' @ (p @ CHR '':'' # f @ CHR '':'' # v @ CHR '':'' # g) @ '']'') = Some v"
proof -
  from assms(3) have "CHR '':'' \<notin> set g" using Atoi_no_colon by auto
  then have "LastIndex (v @ CHR '':'' # g) (CHR '':'') = Some (length v)"
    by (rule LastIndex_append)
  with assms(3) show ?thesis unfolding triggerValue_parts [OF assms(1,2)] by auto
qed

section \<open>Subsumption is a strict order compatible with matching\<close>

lemma and_not_zero_iff:
  fixes a b :: "'a::len word"
  shows "a AND NOT b = 0 \<longleftrightarrow> a AND b = a"
proof -
  have "a AND NOT b = 0 \<longleftrightarrow> (\<forall>n. bit a n \<longrightarrow> bit b n)"
    by (auto simp: bit_eq_iff bit_simps dest: bit_imp_le_length)
  also have "\<dots> \<longleftrightarrow> a AND b = a"
    by (auto simp: bit_eq_iff bit_simps dest: bit_imp_le_length)
  finally show ?thesis .
qed

lemma subsumes_alt:
  "subsumes b c \<longleftrightarrow>
     fm_Mask b AND fm_Mask c = fm_Mask b \<and> fm_Value c AND fm_Mask b = fm_Value b"
  by (simp add: subsumes_def and_not_zero_iff)

lemma subsumes_matches:
  assumes "subsumes b c" and "flag_matches c flags"
  shows "flag_matches b flags"
proof -
  have "flags AND fm_Mask b = (flags AND fm_Mask c) AND fm_Mask b"
    using assms(1) by (metis and.assoc and.commute subsumes_alt)
  also have "\<dots> = fm_Value b"
    using assms by (simp add: flag_matches_def subsumes_alt)
  finally show ?thesis by (simp add: flag_matches_def)
qed

lemma subsumes_trans: "subsumes a b \<Longrightarrow> subsumes b c \<Longrightarrow> subsumes a c"
  unfolding subsumes_alt by (metis and.assoc and.commute)

lemma subsumes_antisym: "subsumes a b \<Longrightarrow> subsumes b a \<Longrightarrow> a = b"
  unfolding subsumes_alt by (metis and.commute FlagMatch.expand and.assoc and.idem)

text \<open>Every member of a finite set is subsumed by one that no other member subsumes.\<close>

lemma maximal_subsumer:
  assumes "finite S" and "c \<in> S"
  obtains m where "m \<in> S" and "m = c \<or> subsumes m c"
    and "\<And>b. b \<in> S \<Longrightarrow> b \<noteq> m \<Longrightarrow> \<not> subsumes b m"
  using assms
proof (induction "card {b \<in> S. b \<noteq> c \<and> subsumes b c}" arbitrary: c thesis rule: less_induct)
  case less
  show ?case
  proof (cases "\<exists>b\<in>S. b \<noteq> c \<and> subsumes b c")
    case False
    with less.prems show ?thesis by blast
  next
    case True
    then obtain b where b: "b \<in> S" "b \<noteq> c" "subsumes b c" by blast
    have "{d \<in> S. d \<noteq> b \<and> subsumes d b} \<subset> {d \<in> S. d \<noteq> c \<and> subsumes d c}"
      using b subsumes_trans subsumes_antisym by blast
    then have "card {d \<in> S. d \<noteq> b \<and> subsumes d b} < card {d \<in> S. d \<noteq> c \<and> subsumes d c}"
      using less.prems(2) by (simp add: psubset_card_mono)
    from less.hyps [OF this _ less.prems(2) b(1)] obtain m where
      "m \<in> S" "m = b \<or> subsumes m b" "\<And>d. d \<in> S \<Longrightarrow> d \<noteq> m \<Longrightarrow> \<not> subsumes d m" by blast
    with b less.prems(1) subsumes_trans show ?thesis by blast
  qed
qed

lemma set_canonicalFlags:
  "set (canonicalFlags xs) =
     {c \<in> set xs. \<not> (\<exists>b\<in>set xs. c \<noteq> b \<and> subsumes b c)}"
  by (auto simp: canonicalFlags_def Let_def list_ex_iff)

lemma canonicalFlags_matches:
  "(\<exists>m\<in>set (canonicalFlags xs). flag_matches m flags) \<longleftrightarrow> (\<exists>m\<in>set xs. flag_matches m flags)"
proof
  assume "\<exists>m\<in>set xs. flag_matches m flags"
  then obtain c where c: "c \<in> set xs" "flag_matches c flags" by blast
  obtain m where "m \<in> set xs" "m = c \<or> subsumes m c"
    "\<And>b. b \<in> set xs \<Longrightarrow> b \<noteq> m \<Longrightarrow> \<not> subsumes b m"
    using maximal_subsumer [OF _ c(1)] by (metis finite_set)
  with c(2) subsumes_matches show "\<exists>m\<in>set (canonicalFlags xs). flag_matches m flags"
    by (auto simp: set_canonicalFlags)
qed (auto simp: set_canonicalFlags)

lemma canonicalFlags_sorted: "sorted (canonicalFlags xs)" "distinct (canonicalFlags xs)"
  by (simp_all add: canonicalFlags_def Let_def)

lemma canonicalFlags_antichain:
  assumes "a \<in> set (canonicalFlags xs)" and "b \<in> set (canonicalFlags xs)" and "a \<noteq> b"
  shows "\<not> subsumes a b"
  using assms by (auto simp: set_canonicalFlags)

text \<open>The iteration order of the map does not show: only the set of matches counts.\<close>

lemma canonicalFlags_cong:
  assumes "set xs = set ys"
  shows "canonicalFlags xs = canonicalFlags ys"
proof (rule sorted_distinct_set_unique)
  show "set (canonicalFlags xs) = set (canonicalFlags ys)"
    using assms by (simp add: set_canonicalFlags)
qed (simp_all add: canonicalFlags_sorted)

lemma canonicalFlags_idem: "canonicalFlags (canonicalFlags xs) = canonicalFlags xs"
proof (rule sorted_distinct_set_unique)
  show "set (canonicalFlags (canonicalFlags xs)) = set (canonicalFlags xs)"
    by (auto simp: set_canonicalFlags)
qed (simp_all add: canonicalFlags_sorted)

lemma canonicalFlags_Nil_iff [simp]: "canonicalFlags xs = [] \<longleftrightarrow> xs = []"
proof
  assume e: "canonicalFlags xs = []"
  show "xs = []"
  proof (rule ccontr)
    assume "xs \<noteq> []"
    then obtain c where "c \<in> set xs" by (meson last_in_set)
    then obtain m where "m \<in> set xs" "\<And>b. b \<in> set xs \<Longrightarrow> b \<noteq> m \<Longrightarrow> \<not> subsumes b m"
      using maximal_subsumer [of "set xs" c] by (metis finite_set)
    then have "m \<in> set (canonicalFlags xs)" by (auto simp: set_canonicalFlags)
    with e show False by simp
  qed
qed (simp add: canonicalFlags_def)

section \<open>What a forest's selector selects\<close>

text \<open>The triggers the loop looks at: those of the trees that are not nil and have one.\<close>

definition triggers :: "Forest \<Rightarrow> Trigger list" where
  "triggers f = List.map_filter (\<lambda>t. case t of Some (Some x) \<Rightarrow> Some x | _ \<Rightarrow> None) f"

lemma triggers_simps [simp]:
  "triggers [] = []"
  "triggers (None # f) = triggers f"
  "triggers (Some None # f) = triggers f"
  "triggers (Some (Some t) # f) = t # triggers f"
  by (simp_all add: triggers_def map_filter_simps)

lemma selectorLoop_eq:
  "selectorLoop f acc =
     (if \<exists>t\<in>set (triggers f). flagMatchOf t = None then any_selector
      else \<lparr>sel_Any = False,
            sel_Flags = canonicalFlags (acc @ map (\<lambda>t. the (flagMatchOf t)) (triggers f))\<rparr>)"
  by (induction f acc rule: selectorLoop.induct) (auto split: option.splits)

lemma selectorOf_selects:
  "selects (selectorOf f) flags \<longleftrightarrow>
     (\<exists>t\<in>set (triggers f). flagMatchOf t = None) \<or>
     (\<exists>t\<in>set (triggers f). \<exists>m. flagMatchOf t = Some m \<and> flag_matches m flags)"
proof (cases "\<exists>t\<in>set (triggers f). flagMatchOf t = None")
  case True
  then show ?thesis by (auto simp: selectorOf_def selectorLoop_eq)
next
  case False
  then show ?thesis
    by (force simp: selectorOf_def selectorLoop_eq selects_def canonicalFlags_matches)
qed

lemma selectorOf_Empty: "sel_Empty (selectorOf f) \<longleftrightarrow> triggers f = []"
  by (auto simp: selectorOf_def selectorLoop_eq sel_Empty_def)

lemma Of_Idle: "sc_Idle (Of s) \<longleftrightarrow>
   (case s of None \<Rightarrow> True | Some s \<Rightarrow> triggers (s_Outbound s) = [] \<and> triggers (s_Inbound s) = [])"
  by (simp add: Of_def sc_Idle_def selectorOf_Empty split: option.splits)

text \<open>The meaning of a flags value: equality, or with a final \<open>*\<close> inclusion.\<close>

definition value_fires :: "string \<Rightarrow> u8 \<Rightarrow> bool" where
  "value_fires v flags \<longleftrightarrow>
     (case want_bits 0 (TrimSuffix v ''*'') of
        None \<Rightarrow> False
      | Some want \<Rightarrow> if HasSuffix v ''*'' then flags AND want = want else flags = want)"

lemma u8_full_mask: "(x :: u8) AND 0xff = x"
proof -
  have "(0xff :: u8) = - 1" by simp
  then show ?thesis by (simp only: and.right_neutral)
qed

lemma flagMatchOf_fires:
  assumes "flagMatchOf t = Some m" and "triggerValue (t_String t) = Some v"
  shows "flag_matches m flags = value_fires v flags"
  using assms
  by (auto simp: flagMatchOf_def Let_def value_fires_def flag_matches_def u8_full_mask
      split: if_splits option.splits)

lemma widen_Idle [simp]: "sc_Idle (widen obs m sc) = sc_Idle sc"
  by (auto simp: widen_def sc_Idle_def sel_Empty_def)

end
