(* ===== verification/Adapter.thy ===== *)
theory Adapter
  imports Prelude
begin

text \<open>
  \<open>internal/adapter/types.go\<close>: artifacts, their metadata and the two validations. The digest
  of a payload is SHA-256, a parameter \<open>sha\<close> of the definitions that use it; the hex encoding
  is modelled. A payload is a list of bytes, written as a string.
\<close>

section \<open>Hex\<close>

definition hex_digit :: "char \<Rightarrow> nat option" where
  "hex_digit c =
     (let n = (of_char c :: nat)
      in if 48 \<le> n \<and> n \<le> 57 then Some (n - 48)
         else if 97 \<le> n \<and> n \<le> 102 then Some (n - 87)
         else if 65 \<le> n \<and> n \<le> 70 then Some (n - 55) else None)"

definition hex_byte :: "byte \<Rightarrow> string" where
  "hex_byte b = [digit_char (unat b div 16), digit_char (unat b mod 16)]"

definition EncodeToString :: "byte list \<Rightarrow> string" where
  "EncodeToString bs = concat (map hex_byte bs)"

fun DecodeString :: "string \<Rightarrow> byte list option" where
  "DecodeString [] = Some []"
| "DecodeString [c] = None"
| "DecodeString (c # d # cs) =
     (case (hex_digit c, hex_digit d, DecodeString cs) of
        (Some h, Some l, Some bs) \<Rightarrow> Some (of_nat (16 * h + l) # bs)
      | _ \<Rightarrow> None)"

definition to_lower :: "char \<Rightarrow> char" where
  "to_lower c =
     (let n = (of_char c :: nat) in if 65 \<le> n \<and> n \<le> 90 then char_of (n + 32) else c)"

definition ToLower :: "string \<Rightarrow> string" where
  "ToLower = map to_lower"

section \<open>Types\<close>

definition Version1 :: u32 where "Version1 = 1"
definition SchemaVersionV1 :: u32 where "SchemaVersionV1 = 1"
definition TechniqueGeneva :: string where "TechniqueGeneva = ''geneva''"
definition RuntimeNameGeneva :: string where "RuntimeNameGeneva = ''geneva-engine''"
definition RuntimeVersionGeneva :: string where "RuntimeVersionGeneva = ''0.0.4''"
definition MaxArtifactSize :: nat where "MaxArtifactSize = 256 * 1024"
definition MaxLiveGenerationBudget :: nat where "MaxLiveGenerationBudget = 32"

record Descriptor =
  d_AdapterProtocol :: u32
  d_Technique :: string
  d_RuntimeName :: string
  d_RuntimeVersion :: string
  d_SchemaVersions :: "u32 list"
  d_MaxLiveGenerations :: u32

record Identity =
  i_Technique :: string
  i_Revision :: string
  i_Digest :: string

record Metadata =
  m_Technique :: string
  m_Revision :: string
  m_Digest :: string
  m_Size :: int
  m_AdapterProtocol :: u32
  m_RequiredRuntimeName :: string
  m_RequiredRuntimeVersion :: string
  m_SchemaVersion :: u32

record Artifact =
  a_metadata :: Metadata
  a_payload :: string

definition Digest :: "(string \<Rightarrow> byte list) \<Rightarrow> string \<Rightarrow> string" where
  "Digest sha payload = EncodeToString (sha payload)"

definition metadata_Identity :: "Metadata \<Rightarrow> Identity" where
  "metadata_Identity m =
     \<lparr>i_Technique = m_Technique m, i_Revision = m_Revision m, i_Digest = m_Digest m\<rparr>"

definition a_Identity :: "Artifact \<Rightarrow> Identity" where
  "a_Identity a = metadata_Identity (a_metadata a)"

section \<open>Validation\<close>

definition Validate :: "(string \<Rightarrow> byte list) \<Rightarrow> Artifact \<Rightarrow> err option" where
  "Validate sha a =
     (let identity = a_Identity a; m = a_metadata a; n = length (a_payload a)
      in if blank (i_Technique identity) then Some (Msg ''technique is required'')
         else if blank (i_Revision identity) then Some (Msg ''revision is required'')
         else if m_Size m < 0 \<or> m_Size m \<noteq> int n then Some (Msg ''metadata size does not match payload size'')
         else if n > MaxArtifactSize then Some (Wrap ''artifact too large'' [Sent ErrPayloadTooLarge])
         else if i_Digest identity \<noteq> Digest sha (a_payload a)
           then Some (Msg ''artifact digest does not match payload'')
         else if m_AdapterProtocol m = 0 then Some (Msg ''adapter protocol is required'')
         else if blank (m_RequiredRuntimeName m) then Some (Msg ''required runtime name is required'')
         else if blank (m_RequiredRuntimeVersion m) then Some (Msg ''required runtime version is required'')
         else if m_SchemaVersion m = 0 then Some (Msg ''schema version is required'')
         else None)"

definition NewArtifact :: "(string \<Rightarrow> byte list) \<Rightarrow> Metadata \<Rightarrow> string \<Rightarrow> Artifact res" where
  "NewArtifact sha metadata payload =
     (let a = \<lparr>a_metadata = metadata, a_payload = payload\<rparr>
      in case Validate sha a of Some e \<Rightarrow> Inl e | None \<Rightarrow> Inr a)"

definition ValidateFor :: "(string \<Rightarrow> byte list) \<Rightarrow> Artifact \<Rightarrow> Descriptor \<Rightarrow> err option" where
  "ValidateFor sha a descriptor =
     (case Validate sha a of
        Some e \<Rightarrow> Some e
      | None \<Rightarrow>
          let m = a_metadata a
          in if d_AdapterProtocol descriptor \<noteq> m_AdapterProtocol m
             then Some (Msg ''artifact requires another adapter protocol'')
             else if d_Technique descriptor \<noteq> i_Technique (a_Identity a)
             then Some (Msg ''artifact technique does not match adapter technique'')
             else if d_RuntimeName descriptor \<noteq> m_RequiredRuntimeName m
             then Some (Msg ''artifact requires another runtime'')
             else if d_RuntimeVersion descriptor \<noteq> m_RequiredRuntimeVersion m
             then Some (Msg ''artifact requires another runtime version'')
             else if m_SchemaVersion m \<notin> set (d_SchemaVersions descriptor)
             then Some (Msg ''adapter does not support schema'')
             else None)"

text \<open>
  The JSON codec of an artifact, over the \<open>artifactJSON\<close> value \<open>encoding/json\<close> writes and
  reads.
\<close>

record artifactJSON =
  j_Metadata :: Metadata
  j_Payload :: string

definition MarshalJSON :: "(string \<Rightarrow> byte list) \<Rightarrow> Artifact \<Rightarrow> artifactJSON res" where
  "MarshalJSON sha a =
     (case Validate sha a of
        Some e \<Rightarrow> Inl e
      | None \<Rightarrow> Inr \<lparr>j_Metadata = a_metadata a, j_Payload = a_payload a\<rparr>)"

definition UnmarshalJSON :: "(string \<Rightarrow> byte list) \<Rightarrow> artifactJSON res \<Rightarrow> Artifact res" where
  "UnmarshalJSON sha decoded =
     (case decoded of
        Inl e \<Rightarrow> Inl (Wrap ''unmarshal overlay artifact'' [e])
      | Inr j \<Rightarrow> NewArtifact sha (j_Metadata j) (j_Payload j))"

section \<open>What a valid artifact is\<close>

lemma Validate_None:
  "Validate sha a = None \<longleftrightarrow>
     \<not> blank (m_Technique (a_metadata a)) \<and> \<not> blank (m_Revision (a_metadata a)) \<and>
     m_Size (a_metadata a) = int (length (a_payload a)) \<and>
     length (a_payload a) \<le> MaxArtifactSize \<and>
     m_Digest (a_metadata a) = Digest sha (a_payload a) \<and>
     m_AdapterProtocol (a_metadata a) \<noteq> 0 \<and>
     \<not> blank (m_RequiredRuntimeName (a_metadata a)) \<and>
     \<not> blank (m_RequiredRuntimeVersion (a_metadata a)) \<and>
     m_SchemaVersion (a_metadata a) \<noteq> 0"
  by (auto simp: Validate_def Let_def a_Identity_def metadata_Identity_def)

lemma ValidateFor_None:
  "ValidateFor sha a d = None \<longleftrightarrow>
     Validate sha a = None \<and>
     m_AdapterProtocol (a_metadata a) = d_AdapterProtocol d \<and>
     m_Technique (a_metadata a) = d_Technique d \<and>
     m_RequiredRuntimeName (a_metadata a) = d_RuntimeName d \<and>
     m_RequiredRuntimeVersion (a_metadata a) = d_RuntimeVersion d \<and>
     m_SchemaVersion (a_metadata a) \<in> set (d_SchemaVersions d)"
  by (auto simp: ValidateFor_def Let_def a_Identity_def metadata_Identity_def split: option.splits)

lemma NewArtifact_Inr:
  "NewArtifact sha m p = Inr a \<longleftrightarrow>
     a = \<lparr>a_metadata = m, a_payload = p\<rparr> \<and> Validate sha a = None"
  by (auto simp: NewArtifact_def Let_def split: option.splits)

lemma valid_same_digest_source:
  assumes "Validate sha a = None" and "Validate sha b = None" and "a_metadata a = a_metadata b"
  shows "Digest sha (a_payload a) = Digest sha (a_payload b)"
    and "length (a_payload a) = length (a_payload b)"
  using assms by (simp_all add: Validate_None)

section \<open>Hex round trip\<close>

lemma digit_char_hex: "d < 16 \<Longrightarrow> hex_digit (digit_char d) = Some d"
proof -
  assume "d < 16"
  have "\<forall>d<16. hex_digit (digit_char d) = Some d" by code_simp
  with \<open>d < 16\<close> show ?thesis by blast
qed

lemma digit_char_lower: "d < 16 \<Longrightarrow> to_lower (digit_char d) = digit_char d"
proof -
  assume "d < 16"
  have "\<forall>d<16. to_lower (digit_char d) = digit_char d" by code_simp
  with \<open>d < 16\<close> show ?thesis by blast
qed

lemma unat_byte_bound: "unat (b :: byte) < 256"
proof -
  have "unat b < 2 ^ LENGTH(8)" by (rule unsigned_less)
  then show ?thesis by simp
qed

lemma DecodeString_hex_byte:
  "DecodeString (hex_byte b @ cs) = map_option (\<lambda>bs. b # bs) (DecodeString cs)"
proof -
  have "unat b div 16 < 16" using unat_byte_bound [of b] by (simp add: less_mult_imp_div_less)
  moreover have "of_nat (16 * (unat b div 16) + unat b mod 16) = b" by simp
  ultimately show ?thesis
    by (simp add: hex_byte_def digit_char_hex split: option.splits)
qed

lemma Decode_Encode: "DecodeString (EncodeToString bs) = Some bs"
  by (induction bs) (simp_all add: EncodeToString_def DecodeString_hex_byte)

lemma length_EncodeToString: "length (EncodeToString bs) = 2 * length bs"
  by (induction bs) (simp_all add: EncodeToString_def hex_byte_def)

lemma EncodeToString_inj: "EncodeToString a = EncodeToString b \<Longrightarrow> a = b"
  using Decode_Encode by (metis option.inject)

lemma ToLower_Encode: "ToLower (EncodeToString bs) = EncodeToString bs"
proof -
  have "map to_lower (hex_byte b) = hex_byte b" for b
  proof -
    have "unat b div 16 < 16" using unat_byte_bound [of b] by (simp add: less_mult_imp_div_less)
    then show ?thesis by (simp add: hex_byte_def digit_char_lower)
  qed
  then show ?thesis by (induction bs) (simp_all add: EncodeToString_def ToLower_def)
qed

end
