(* ===== verification/State_File.thy ===== *)
theory State_File
  imports Netdev Scope Adapter
begin

text \<open>
  The durable state of \<open>internal/steering/controller.go\<close>: the types it serializes and the system
  calls of \<open>persistLocked\<close>, \<open>quarantineStateLocked\<close> and the reading half of \<open>loadLocked\<close>. A file
  holds either a document the decoder accepts or bytes it refuses. The disk keeps two things
  apart: what a reader sees now, and the list of contents a crash may leave behind. A rename
  changes the first and only adds to the second; the directory sync that follows leaves the
  visible content alone in it.
\<close>

section \<open>What is serialized\<close>

datatype Phase = PhasePrepared | PhaseActive | PhaseDraining | PhaseDrained | PhaseOther string

record generationState =
  gs_ID :: u32
  gs_DNA :: string
  gs_Digest :: string
  gs_Phase :: Phase
  gs_Scope :: Scope
  gs_Identity :: Identity
  gs_Metadata :: Metadata

record persistedState =
  ps_Version :: int
  ps_ActiveNew :: u32
  ps_Previous :: u32
  ps_Unsafe :: bool
  ps_Failure :: string
  ps_Offloads :: "Original option"
  ps_Generations :: "generationState list"

text \<open>\<open>Bad\<close> stands for any bytes \<open>json.Decoder\<close> refuses: syntax, unknown fields, trailing values.\<close>

datatype contents = Doc persistedState | Bad string

text \<open>
  What is read back from an encoded state: the scope has no JSON field and \<open>skipped\<close> is
  unexported, so neither is written.
\<close>

definition json :: "persistedState \<Rightarrow> persistedState" where
  "json s = s\<lparr>ps_Offloads := map_option (\<lambda>r. r\<lparr>o_skipped := []\<rparr>) (ps_Offloads s),
     ps_Generations := map (\<lambda>g. g\<lparr>gs_Scope := empty_scope\<rparr>) (ps_Generations s)\<rparr>"

lemma json_idem [simp]: "json (json s) = json s"
  by (cases s) (auto simp: json_def option.map_comp o_def)

section \<open>The disk\<close>

record disk_world = nic_world +
  w_visible :: "contents option"
  w_durable :: "contents option list"
  w_quarantined :: "contents list"

type_synonym world = "disk_world"

text \<open>A system call that changes nothing a later reader or a crash can see.\<close>

definition sys_call :: "'z disk_world_scheme \<Rightarrow> err option \<times> 'z disk_world_scheme" where
  "sys_call w = (case pop w of (OK, w) \<Rightarrow> (None, w) | (_, w) \<Rightarrow> (Some (Msg ''system call''), w))"

definition rename_effect :: "contents \<Rightarrow> 'z disk_world_scheme \<Rightarrow> 'z disk_world_scheme" where
  "rename_effect f w = w\<lparr>w_visible := Some f, w_durable := Some f # w_durable w\<rparr>"

definition sys_rename :: "contents \<Rightarrow> 'z disk_world_scheme \<Rightarrow> err option \<times> 'z disk_world_scheme" where
  "sys_rename f w =
     (case pop w of
        (OK, w) \<Rightarrow> (None, rename_effect f w)
      | (Fail, w) \<Rightarrow> (Some (Msg ''rename''), w)
      | (FailAfter, w) \<Rightarrow> (Some (Msg ''rename''), rename_effect f w))"

definition sync_effect :: "'z disk_world_scheme \<Rightarrow> 'z disk_world_scheme" where
  "sync_effect w = w\<lparr>w_durable := [w_visible w]\<rparr>"

definition syncDirectory :: "'z disk_world_scheme \<Rightarrow> err option \<times> 'z disk_world_scheme" where
  "syncDirectory w =
     (case pop w of
        (OK, w) \<Rightarrow> (None, sync_effect w)
      | (Fail, w) \<Rightarrow> (Some (Msg ''sync''), w)
      | (FailAfter, w) \<Rightarrow> (Some (Msg ''sync''), sync_effect w))"

fun sys_calls :: "nat \<Rightarrow> 'z disk_world_scheme \<Rightarrow> err option \<times> 'z disk_world_scheme" where
  "sys_calls 0 w = (None, w)"
| "sys_calls (Suc n) w =
     (case sys_call w of (Some e, w) \<Rightarrow> (Some e, w) | (None, w) \<Rightarrow> sys_calls n w)"

text \<open>
  Writing the state: \<open>MkdirAll\<close>, \<open>CreateTemp\<close>, \<open>Chmod\<close>, \<open>Write\<close>, \<open>Sync\<close> and \<open>Close\<close> touch the
  temporary file only, then the rename and the directory sync.
\<close>

definition writeState :: "persistedState \<Rightarrow> 'z disk_world_scheme \<Rightarrow> err option \<times> 'z disk_world_scheme" where
  "writeState ps w =
     (case sys_calls 6 w of
        (Some e, w) \<Rightarrow> (Some e, w)
      | (None, w) \<Rightarrow>
          (case sys_rename (Doc (json ps)) w of
             (Some e, w) \<Rightarrow> (Some e, w)
           | (None, w) \<Rightarrow>
               (case syncDirectory w of
                  (Some e, w) \<Rightarrow> (Some (Wrap ''sync adapter state directory after rename'' [e]), w)
                | (None, w) \<Rightarrow> (None, w))))"

text \<open>\<open>os.Open\<close> and \<open>io.ReadAll\<close>; a missing file is not an error.\<close>

definition readState :: "'z disk_world_scheme \<Rightarrow> contents option res \<times> 'z disk_world_scheme" where
  "readState w =
     (case sys_call w of
        (Some e, w) \<Rightarrow> (Inl e, w)
      | (None, w) \<Rightarrow>
          (case w_visible w of
             None \<Rightarrow> (Inr None, w)
           | Some f \<Rightarrow>
               (case sys_call w of
                  (Some e, w) \<Rightarrow> (Inl (Wrap ''read adapter state'' [e]), w)
                | (None, w) \<Rightarrow> (Inr (Some f), w))))"

text \<open>
  \<open>quarantineStateLocked\<close>: a unique name is looked up (one outcome for the search), the file is
  renamed to it and the directory synced. The old content stays readable under the new name.
\<close>

definition quarantine_effect :: "'z disk_world_scheme \<Rightarrow> 'z disk_world_scheme" where
  "quarantine_effect w =
     (case w_visible w of None \<Rightarrow> w
      | Some f \<Rightarrow> w\<lparr>w_visible := None, w_durable := None # w_durable w,
                    w_quarantined := f # w_quarantined w\<rparr>)"

definition quarantineFile :: "'z disk_world_scheme \<Rightarrow> err option \<times> 'z disk_world_scheme" where
  "quarantineFile w =
     (case sys_call w of
        (Some e, w) \<Rightarrow> (Some e, w)
      | (None, w) \<Rightarrow>
          (case pop w of
             (Fail, w) \<Rightarrow> (Some (Msg ''rename''), w)
           | (FailAfter, w) \<Rightarrow> (Some (Msg ''rename''), quarantine_effect w)
           | (OK, w) \<Rightarrow>
               if w_visible w = None then (Some (Msg ''rename''), w)
               else
                 (case syncDirectory (quarantine_effect w) of
                    (Some e, w) \<Rightarrow> (Some (Wrap ''sync quarantine rename'' [e]), w)
                  | (None, w) \<Rightarrow> (None, w))))"

section \<open>What the calls change\<close>

text \<open>The part of the world that is not the disk: table, flows and NICs.\<close>

definition net_part :: "world \<Rightarrow> Config option \<times> Flow list \<times> (string \<Rightarrow> string \<Rightarrow> featureState option)" where
  "net_part w = (w_table w, w_flows w, w_nics w)"

definition disk_part :: "world \<Rightarrow> contents option \<times> contents option list \<times> contents list" where
  "disk_part w = (w_visible w, w_durable w, w_quarantined w)"

lemma pop_world: "pop w = (x, w') \<Longrightarrow> net_part w' = net_part w \<and> disk_part w' = disk_part w"
  for w w' :: world
  using pop_more [of w] by (cases w; cases w') (auto simp: net_part_def disk_part_def)

lemma net_part_disk [simp]:
  fixes w :: world
  shows "net_part (w\<lparr>w_visible := v\<rparr>) = net_part w" "net_part (w\<lparr>w_durable := d\<rparr>) = net_part w"
    "net_part (w\<lparr>w_quarantined := q\<rparr>) = net_part w"
  by (simp_all add: net_part_def)

lemma sys_call_world:
  fixes w :: world
  assumes "sys_call w = (e, w')"
  shows "net_part w' = net_part w \<and> disk_part w' = disk_part w"
  using assms by (auto simp: sys_call_def split: prod.splits outcome.splits dest: pop_world)

lemma sys_calls_world:
  fixes w :: world
  shows "sys_calls n w = (e, w') \<Longrightarrow> net_part w' = net_part w \<and> disk_part w' = disk_part w"
  by (induction n arbitrary: w) (auto split: prod.splits option.splits dest!: sys_call_world)

text \<open>
  The contents a crash may leave include the visible one. Writing only ever adds the new
  document, and success leaves it as the only one.
\<close>

definition disk_ok :: "'z disk_world_scheme \<Rightarrow> bool" where
  "disk_ok w \<longleftrightarrow> w_visible w \<in> set (w_durable w)"

lemma sys_rename_effect:
  fixes w :: world
  assumes "sys_rename f w = (e, w')"
  shows "net_part w' = net_part w \<and>
    (e \<noteq> None \<and> disk_part w' = disk_part w \<or>
     disk_part w' = (Some f, Some f # w_durable w, w_quarantined w))"
  using assms
  by (auto simp: sys_rename_def rename_effect_def disk_part_def split: prod.splits outcome.splits
      dest!: pop_world)

lemma syncDirectory_effect:
  fixes w :: world
  assumes "syncDirectory w = (e, w')"
  shows "net_part w' = net_part w \<and>
    (e \<noteq> None \<and> disk_part w' = disk_part w \<or>
     disk_part w' = (w_visible w, [w_visible w], w_quarantined w))"
  using assms
  by (auto simp: syncDirectory_def sync_effect_def disk_part_def split: prod.splits outcome.splits
      dest!: pop_world)

lemma writeState_effect:
  fixes w :: world
  assumes "writeState ps w = (e, w')"
  shows "net_part w' = net_part w"
    and "e = None \<Longrightarrow> w_visible w' = Some (Doc (json ps)) \<and> w_durable w' = [Some (Doc (json ps))]"
    and "disk_ok w \<Longrightarrow> set (w_durable w') \<subseteq> insert (Some (Doc (json ps))) (set (w_durable w)) \<and> disk_ok w'"
proof -
  let ?new = "Some (Doc (json ps))"
  obtain e1 w1 where 1: "sys_calls 6 w = (e1, w1)" by (cases "sys_calls 6 w")
  obtain e2 w2 where 2: "sys_rename (Doc (json ps)) w1 = (e2, w2)"
    by (cases "sys_rename (Doc (json ps)) w1")
  obtain e3 w3 where 3: "syncDirectory w2 = (e3, w3)" by (cases "syncDirectory w2")
  have "e \<noteq> None \<and> w' = w1 \<or> e2 \<noteq> None \<and> e \<noteq> None \<and> w' = w2 \<or>
      e2 = None \<and> w' = w3 \<and> (e = None \<longleftrightarrow> e3 = None)"
  proof (cases e1)
    case (Some x)
    with assms have "e = Some x \<and> w' = w1" by (simp add: writeState_def 1 del: sys_calls.simps)
    then show ?thesis by simp
  next
    case None
    show ?thesis
    proof (cases e2)
      case (Some x)
      with assms None have "e \<noteq> None \<and> w' = w2"
        by (auto simp: writeState_def 1 2 simp del: sys_calls.simps)
      with Some show ?thesis by simp
    next
      case e2: None
      with assms None show ?thesis by (cases e3) (auto simp: writeState_def 1 2 3 simp del: sys_calls.simps)
    qed
  qed
  then have "net_part w' = net_part w \<and>
      (e \<noteq> None \<and> disk_part w' = disk_part w \<or>
       e \<noteq> None \<and> w_visible w' = ?new \<and> w_durable w' = ?new # w_durable w \<or>
       w_visible w' = ?new \<and> w_durable w' = [?new])"
    using sys_calls_world [OF 1] sys_rename_effect [OF 2] syncDirectory_effect [OF 3]
    by (elim disjE conjE) (simp_all add: disk_part_def)
  then show "net_part w' = net_part w"
    and "e = None \<Longrightarrow> w_visible w' = ?new \<and> w_durable w' = [?new]"
    and "disk_ok w \<Longrightarrow> set (w_durable w') \<subseteq> insert ?new (set (w_durable w)) \<and> disk_ok w'"
    by (auto simp: disk_part_def disk_ok_def)
qed

lemma readState_world:
  fixes w :: world
  assumes "readState w = (r, w')"
  shows "net_part w' = net_part w \<and> disk_part w' = disk_part w"
  using assms
  by (auto simp: readState_def split: prod.splits option.splits dest!: sys_call_world)

lemma readState_Inr:
  fixes w :: world
  assumes "readState w = (Inr f, w')"
  shows "f = w_visible w"
  using assms
  by (auto simp: readState_def disk_part_def split: prod.splits option.splits dest!: sys_call_world)

text \<open>The rename half of the quarantine, and the whole of it.\<close>

lemma quarantineFile_cases:
  fixes w :: world
  assumes "quarantineFile w = (e, w')"
  shows "e \<noteq> None \<and> net_part w' = net_part w \<and> disk_part w' = disk_part w \<or>
    (\<exists>f w1. w_visible w = Some f \<and> net_part w1 = net_part w \<and>
       disk_part w1 = (None, None # w_durable w, f # w_quarantined w) \<and>
       (e \<noteq> None \<and> w' = w1 \<or> (\<exists>e3. syncDirectory w1 = (e3, w') \<and> (e = None \<longleftrightarrow> e3 = None))))"
proof -
  obtain e1 w1 where 1: "sys_call w = (e1, w1)" by (cases "sys_call w")
  obtain x w2 where 2: "pop w1 = (x, w2)" by (cases "pop w1")
  obtain e3 w3 where 3: "syncDirectory (quarantine_effect w2) = (e3, w3)"
    by (cases "syncDirectory (quarantine_effect w2)")
  have w2: "net_part w2 = net_part w" "disk_part w2 = disk_part w"
    using sys_call_world [OF 1] pop_world [OF 2] by simp_all
  then have vis: "w_visible w2 = w_visible w" by (simp add: disk_part_def)
  have q: "net_part (quarantine_effect w2) = net_part w \<and>
      disk_part (quarantine_effect w2) = (None, None # w_durable w, f # w_quarantined w)"
    if "w_visible w = Some f" for f
    using w2 vis that by (simp add: quarantine_effect_def disk_part_def)
  show ?thesis
  proof (cases "w_visible w")
    case None
    with vis have "quarantine_effect w2 = w2" by (simp add: quarantine_effect_def)
    with assms 1 2 None vis w2 sys_call_world [OF 1] show ?thesis
      by (cases e1; cases x) (auto simp: quarantineFile_def)
  next
    case (Some f)
    have "e \<noteq> None \<and> (w' = w1 \<or> w' = w2) \<or> e \<noteq> None \<and> w' = quarantine_effect w2 \<or>
        w' = w3 \<and> (e = None \<longleftrightarrow> e3 = None)"
      using assms 1 2 3 Some vis
      by (cases e1; cases x; cases e3) (auto simp: quarantineFile_def)
    with Some q [OF Some] w2 sys_call_world [OF 1] 3 show ?thesis by metis
  qed
qed

lemma quarantineFile_effect:
  fixes w :: world
  assumes "quarantineFile w = (e, w')"
  shows "net_part w' = net_part w"
    and "disk_ok w \<Longrightarrow> disk_ok w' \<and> set (w_durable w') \<subseteq> insert None (set (w_durable w))"
    and "e = None \<Longrightarrow> w_visible w' = None \<and> w_durable w' = [None] \<and>
      (\<exists>f. w_visible w = Some f \<and> w_quarantined w' = f # w_quarantined w)"
  using quarantineFile_cases [OF assms] syncDirectory_effect
  by (fastforce simp: disk_part_def disk_ok_def)+

end
