(* ===== verification/Engine.thy ===== *)
theory Engine
  imports Scope
begin

text \<open>
  \<open>internal/engine/engine.go\<close> and \<open>internal/engine/registry.go\<close>: an engine applies one strategy
  to packets and counts what it did; the registry owns one immutable engine per generation.
  Parsing, validating and decoding belong to libraries outside the repository and are the
  fields of \<open>genlib\<close>.
\<close>

record genlib =
  x_NewStrategy :: "string \<Rightarrow> Strategy res"
  x_Validate :: "Strategy \<Rightarrow> err option"
  x_ErrorLayer :: "byte list \<Rightarrow> err option"

section \<open>One engine\<close>

datatype Outcome = OutcomeUnchanged | OutcomeDropped | OutcomeTampered | OutcomeExpanded

definition outcome_String :: "Outcome \<Rightarrow> string" where
  "outcome_String o' =
     (case o' of OutcomeUnchanged \<Rightarrow> ''unchanged'' | OutcomeDropped \<Rightarrow> ''dropped''
      | OutcomeTampered \<Rightarrow> ''tampered'' | OutcomeExpanded \<Rightarrow> ''expanded'')"

record Result =
  r_Outcome :: Outcome
  r_Packets :: "byte list list"

record Stats =
  st_PacketsIn :: u64
  st_PacketsOut :: u64
  st_BytesIn :: u64
  st_BytesOut :: u64
  st_Unchanged :: u64
  st_Dropped :: u64
  st_Tampered :: u64
  st_Expanded :: u64
  st_Errors :: u64
  st_Swaps :: u64

definition zero_stats :: Stats where
  "zero_stats = \<lparr>st_PacketsIn = 0, st_PacketsOut = 0, st_BytesIn = 0, st_BytesOut = 0,
     st_Unchanged = 0, st_Dropped = 0, st_Tampered = 0, st_Expanded = 0, st_Errors = 0, st_Swaps = 0\<rparr>"

record Engine =
  e_cur :: "(string \<times> Strategy) option"
  e_Stats :: Stats
  e_lineage :: string

text \<open>
  \<open>SetStrategy\<close>: the strategy is parsed and validated before it replaces the current one, and
  only a replacement counts as a swap.
\<close>

definition SetStrategy :: "genlib \<Rightarrow> string \<Rightarrow> Engine \<Rightarrow> err option \<times> Engine" where
  "SetStrategy X dna e =
     (case x_NewStrategy X dna of
        Inl err \<Rightarrow> (Some (Wrap ''parse'' [Sent ErrInvalidStrategy, err]), e)
      | Inr s \<Rightarrow>
          (case x_Validate X s of
             Some err \<Rightarrow> (Some (Wrap ''validate'' [Sent ErrInvalidStrategy, err]), e)
           | None \<Rightarrow>
               let replaced = (e_cur e \<noteq> None);
                   e = e\<lparr>e_cur := Some (dna, s)\<rparr>
               in (None, if replaced then e\<lparr>e_Stats := (e_Stats e)\<lparr>st_Swaps := st_Swaps (e_Stats e) + 1\<rparr>\<rparr>
                         else e)))"

definition engine_New :: "genlib \<Rightarrow> string \<Rightarrow> Engine res" where
  "engine_New X dna =
     (case SetStrategy X dna \<lparr>e_cur = None, e_Stats = zero_stats, e_lineage = []\<rparr> of
        (Some err, _) \<Rightarrow> Inl err
      | (None, e) \<Rightarrow> Inr e)"

definition DNA :: "Engine \<Rightarrow> string" where
  "DNA e = (case e_cur e of Some (dna, _) \<Rightarrow> dna | None \<Rightarrow> [])"

text \<open>\<open>classify\<close> compares the input bytes with what came out.\<close>

definition classify :: "byte list \<Rightarrow> byte list list \<Rightarrow> Result" where
  "classify raw out =
     (case out of
        [] \<Rightarrow> \<lparr>r_Outcome = OutcomeDropped, r_Packets = []\<rparr>
      | [d] \<Rightarrow> \<lparr>r_Outcome = (if raw = d then OutcomeUnchanged else OutcomeTampered), r_Packets = [d]\<rparr>
      | _ \<Rightarrow> \<lparr>r_Outcome = OutcomeExpanded, r_Packets = out\<rparr>)"

definition record_result :: "Result \<Rightarrow> Stats \<Rightarrow> Stats" where
  "record_result r s =
     (let s = s\<lparr>st_PacketsOut := st_PacketsOut s + of_nat (length (r_Packets r))\<rparr>;
          s = fold (\<lambda>p s. s\<lparr>st_BytesOut := st_BytesOut s + of_nat (length p)\<rparr>) (r_Packets r) s
      in case r_Outcome r of
           OutcomeUnchanged \<Rightarrow> s\<lparr>st_Unchanged := st_Unchanged s + 1\<rparr>
         | OutcomeDropped \<Rightarrow> s\<lparr>st_Dropped := st_Dropped s + 1\<rparr>
         | OutcomeTampered \<Rightarrow> s\<lparr>st_Tampered := st_Tampered s + 1\<rparr>
         | OutcomeExpanded \<Rightarrow> s\<lparr>st_Expanded := st_Expanded s + 1\<rparr>)"

definition Process :: "genlib \<Rightarrow> byte list \<Rightarrow> Direction \<Rightarrow> Engine \<Rightarrow> Result res \<times> Engine" where
  "Process X raw dir e =
     (let s = e_Stats e;
          s = s\<lparr>st_PacketsIn := st_PacketsIn s + 1\<rparr>;
          s = s\<lparr>st_BytesIn := st_BytesIn s + of_nat (length raw)\<rparr>;
          e = e\<lparr>e_Stats := s\<rparr>
      in case e_cur e of
           None \<Rightarrow> (Inl (Msg ''engine has no strategy''), e)
         | Some (_, strat) \<Rightarrow>
             (case x_ErrorLayer X raw of
                Some err \<Rightarrow>
                  (Inl (Wrap ''decode packet'' [err]), e\<lparr>e_Stats := s\<lparr>st_Errors := st_Errors s + 1\<rparr>\<rparr>)
              | None \<Rightarrow>
                  (case s_Apply strat raw dir of
                     Inl err \<Rightarrow>
                       (Inl (Wrap ''apply strategy'' [err]), e\<lparr>e_Stats := s\<lparr>st_Errors := st_Errors s + 1\<rparr>\<rparr>)
                   | Inr out \<Rightarrow>
                       let res = classify raw out
                       in (Inr res, e\<lparr>e_Stats := record_result res s\<rparr>))))"

text \<open>The capacity of the reusable packet buffer: \<open>Scratch.packet\<close> grows it, and never shrinks it.\<close>

definition scratch_packet :: "nat \<Rightarrow> nat \<Rightarrow> nat" where
  "scratch_packet cap n = (if cap < n then max n 2048 else cap)"

definition scratch_outputs :: "nat \<Rightarrow> nat \<Rightarrow> nat" where
  "scratch_outputs cap n = (if cap < n then max n 4 else cap)"

subsection \<open>Counters\<close>

text \<open>Every packet taken in is in exactly one outcome or error counter, modulo the counters' width.\<close>

definition accounted :: "Stats \<Rightarrow> bool" where
  "accounted s \<longleftrightarrow>
     st_PacketsIn s =
       st_Unchanged s + st_Dropped s + st_Tampered s + st_Expanded s + st_Errors s"

lemma fold_BytesOut:
  "fold (\<lambda>p s. s\<lparr>st_BytesOut := st_BytesOut s + of_nat (length p)\<rparr>) ps s =
     s\<lparr>st_BytesOut := st_BytesOut s + of_nat (sum_list (map length ps))\<rparr>"
  by (induction ps arbitrary: s) (simp_all add: add.assoc)

lemma record_result_fields:
  "st_PacketsIn (record_result r s) = st_PacketsIn s"
  "st_BytesIn (record_result r s) = st_BytesIn s"
  "st_Errors (record_result r s) = st_Errors s"
  "st_Swaps (record_result r s) = st_Swaps s"
  "st_PacketsOut (record_result r s) = st_PacketsOut s + of_nat (length (r_Packets r))"
  "st_BytesOut (record_result r s) = st_BytesOut s + of_nat (sum_list (map length (r_Packets r)))"
  "st_Unchanged (record_result r s) + st_Dropped (record_result r s) +
     st_Tampered (record_result r s) + st_Expanded (record_result r s) =
   st_Unchanged s + st_Dropped s + st_Tampered s + st_Expanded s + 1"
  by (cases "r_Outcome r"; simp add: record_result_def Let_def fold_BytesOut)+

lemma zero_stats_accounted: "accounted zero_stats"
  by (simp add: accounted_def zero_stats_def)

lemma SetStrategy_accounted:
  "accounted (e_Stats (snd (SetStrategy X dna e))) = accounted (e_Stats e)"
  by (simp add: SetStrategy_def accounted_def Let_def split: sum.splits option.splits)

lemma engine_New_Inr:
  assumes "engine_New X dna = Inr e"
  shows "DNA e = dna" and "e_Stats e = zero_stats" and "e_cur e \<noteq> None"
  using assms
  by (auto simp: engine_New_def SetStrategy_def DNA_def Let_def split: sum.splits option.splits prod.splits)

lemma engine_New_Inr_iff:
  "(\<exists>e. engine_New X dna = Inr e) \<longleftrightarrow> (\<exists>s. x_NewStrategy X dna = Inr s \<and> x_Validate X s = None)"
  by (auto simp: engine_New_def SetStrategy_def Let_def split: sum.splits option.splits)

lemma engine_New_invalid:
  assumes "engine_New X dna = Inl err"
  shows "errors_Is err ErrInvalidStrategy"
  using assms
  by (auto simp: engine_New_def SetStrategy_def Let_def split: sum.splits option.splits)

lemma Process_keeps [simp, frame_simps]:
  "e_cur (snd (Process X raw dir e)) = e_cur e"
  "e_lineage (snd (Process X raw dir e)) = e_lineage e"
  by (auto simp: Process_def Let_def split: option.splits sum.splits)

lemma Process_DNA [simp, frame_simps]: "DNA (snd (Process X raw dir e)) = DNA e"
  by (simp add: DNA_def)

lemma Process_accounted:
  assumes "accounted (e_Stats e)" and "e_cur e \<noteq> None"
  shows "accounted (e_Stats (snd (Process X raw dir e)))"
  using assms record_result_fields
  by (auto simp: Process_def accounted_def Let_def record_result_fields add.assoc add.commute
      split: option.splits sum.splits)

lemma classify_cases:
  "r_Outcome (classify raw out) = OutcomeDropped \<longleftrightarrow> out = []"
  "r_Outcome (classify raw out) = OutcomeUnchanged \<longleftrightarrow> out = [raw]"
  "r_Outcome (classify raw out) = OutcomeTampered \<longleftrightarrow> (\<exists>d. out = [d] \<and> d \<noteq> raw)"
  "r_Outcome (classify raw out) = OutcomeExpanded \<longleftrightarrow> 2 \<le> length out"
  "r_Packets (classify raw out) = out"
  by (auto simp: classify_def split: list.splits)

lemma scratch_packet_bounds: "n \<le> scratch_packet cap n" "cap \<le> scratch_packet cap n"
  by (auto simp: scratch_packet_def max_def)

end
