(* ===== verification/Registry.thy ===== *)
theory Registry
  imports Engine
begin

text \<open>
  \<open>internal/engine/registry.go\<close>: generations published copy-on-write under a mutex. The map of
  engines is an association list; the active generation and the two counters are atomics.
\<close>

record Registry =
  g_byID :: "(u32 \<times> Engine) list"
  g_active :: u32
  g_swaps :: u64
  g_epoch :: string
  g_prepared :: u64

definition NewRegistry :: "string \<Rightarrow> Registry" where
  "NewRegistry epoch =
     \<lparr>g_byID = [], g_active = 0, g_swaps = 0, g_epoch = epoch, g_prepared = 0\<rparr>"

definition lineage_name :: "string \<Rightarrow> u64 \<Rightarrow> string" where
  "lineage_name epoch n = epoch @ ''-'' @ show_dec (unat n)"

definition GenerationSnapshot :: "u32 \<Rightarrow> Registry \<Rightarrow> (string \<times> Stats) option" where
  "GenerationSnapshot gid r =
     map_option (\<lambda>e. (e_lineage e, e_Stats e)) (map_of (g_byID r) gid)"

definition Prepare :: "genlib \<Rightarrow> u32 \<Rightarrow> string \<Rightarrow> Registry \<Rightarrow> err option \<times> Registry" where
  "Prepare X gid dna r =
     (case engine_New X dna of
        Inl err \<Rightarrow> (Some err, r)
      | Inr eng \<Rightarrow>
          (case map_of (g_byID r) gid of
             Some existing \<Rightarrow>
               (if DNA existing = dna then (None, r)
                else (Some (Msg ''generation is immutable and already contains different DNA''), r))
           | None \<Rightarrow>
               let n = g_prepared r + 1;
                   eng = eng\<lparr>e_lineage := lineage_name (g_epoch r) n\<rparr>
               in (None, r\<lparr>g_prepared := n, g_byID := AList.update gid eng (g_byID r)\<rparr>)))"

definition VerifyGeneration :: "u32 \<Rightarrow> string \<Rightarrow> Registry \<Rightarrow> err option" where
  "VerifyGeneration gid dna r =
     (case map_of (g_byID r) gid of
        None \<Rightarrow> Some (Sent ErrGenerationNotFound)
      | Some eng \<Rightarrow>
          if DNA eng \<noteq> dna then Some (Msg ''generation engine does not match durable DNA'') else None)"

definition reg_Activate :: "u32 \<Rightarrow> Registry \<Rightarrow> err option \<times> Registry" where
  "reg_Activate gid r =
     (if map_of (g_byID r) gid = None then (Some (Sent ErrGenerationNotFound), r)
      else
        let old = g_active r;
            r = r\<lparr>g_active := gid\<rparr>
        in (None, if old \<noteq> 0 \<and> old \<noteq> gid then r\<lparr>g_swaps := g_swaps r + 1\<rparr> else r))"

definition reg_Deactivate :: "Registry \<Rightarrow> Registry" where
  "reg_Deactivate r = r\<lparr>g_active := 0\<rparr>"

definition reg_Remove :: "u32 \<Rightarrow> Registry \<Rightarrow> err option \<times> Registry" where
  "reg_Remove gid r =
     (if g_active r = gid then (Some (Msg ''generation is active''), r)
      else if map_of (g_byID r) gid = None then (Some (Sent ErrGenerationNotFound), r)
      else (None, r\<lparr>g_byID := AList.delete gid (g_byID r)\<rparr>))"

definition reg_DNA :: "Registry \<Rightarrow> string" where
  "reg_DNA r = (case map_of (g_byID r) (g_active r) of Some eng \<Rightarrow> DNA eng | None \<Rightarrow> [])"

definition ProcessGeneration ::
  "genlib \<Rightarrow> u32 \<Rightarrow> byte list \<Rightarrow> Direction \<Rightarrow> Registry \<Rightarrow> Result res \<times> Registry" where
  "ProcessGeneration X gid raw dir r =
     (case map_of (g_byID r) gid of
        None \<Rightarrow> (Inl (Sent ErrGenerationNotFound), r)
      | Some eng \<Rightarrow>
          (case Process X raw dir eng of
             (res, eng') \<Rightarrow> (res, r\<lparr>g_byID := AList.update gid eng' (g_byID r)\<rparr>)))"

definition reg_Process ::
  "genlib \<Rightarrow> byte list \<Rightarrow> Direction \<Rightarrow> Registry \<Rightarrow> Result res \<times> Registry" where
  "reg_Process X raw dir r =
     (if g_active r = 0 then (Inl (Wrap ''no active generation'' [Sent ErrGenerationNotFound]), r)
      else ProcessGeneration X (g_active r) raw dir r)"

definition add_stats :: "Stats \<Rightarrow> Stats \<Rightarrow> Stats" where
  "add_stats out s =
     out\<lparr>st_PacketsIn := st_PacketsIn out + st_PacketsIn s,
         st_PacketsOut := st_PacketsOut out + st_PacketsOut s,
         st_BytesIn := st_BytesIn out + st_BytesIn s,
         st_BytesOut := st_BytesOut out + st_BytesOut s,
         st_Unchanged := st_Unchanged out + st_Unchanged s,
         st_Dropped := st_Dropped out + st_Dropped s,
         st_Tampered := st_Tampered out + st_Tampered s,
         st_Expanded := st_Expanded out + st_Expanded s,
         st_Errors := st_Errors out + st_Errors s\<rparr>"

definition reg_Snapshot :: "Registry \<Rightarrow> Stats" where
  "reg_Snapshot r =
     (fold (\<lambda>(_, eng) out. add_stats out (e_Stats eng)) (g_byID r) zero_stats)\<lparr>st_Swaps := g_swaps r\<rparr>"

section \<open>The DNA each generation holds\<close>

definition dna_of :: "Registry \<Rightarrow> u32 \<Rightarrow> string option" where
  "dna_of r gid = map_option DNA (map_of (g_byID r) gid)"

lemma dna_of_None [simp]: "dna_of r gid = None \<longleftrightarrow> map_of (g_byID r) gid = None"
  by (simp add: dna_of_def)

lemma dna_of_byID_update [simp]:
  "dna_of (r\<lparr>g_byID := AList.update gid e m\<rparr>) = (dna_of (r\<lparr>g_byID := m\<rparr>))(gid \<mapsto> DNA e)"
  by (auto simp: dna_of_def fun_eq_iff)

lemma dna_of_byID_same [simp]: "dna_of (r\<lparr>g_byID := g_byID r\<rparr>) = dna_of r"
  by (simp add: dna_of_def fun_eq_iff)

lemma dna_of_other_fields [simp]:
  "dna_of (r\<lparr>g_active := a\<rparr>) = dna_of r"
  "dna_of (r\<lparr>g_swaps := s\<rparr>) = dna_of r"
  "dna_of (r\<lparr>g_prepared := n\<rparr>) = dna_of r"
  "dna_of (r\<lparr>g_prepared := n, g_byID := m\<rparr>) = dna_of (r\<lparr>g_byID := m\<rparr>)"
  by (simp_all add: dna_of_def fun_eq_iff)

lemma Prepare_dna:
  "dna_of (snd (Prepare X gid dna r)) =
     (if fst (Prepare X gid dna r) = None then (dna_of r)(gid \<mapsto> dna) else dna_of r)"
proof (cases "engine_New X dna")
  case (Inr eng)
  note new = engine_New_Inr [OF Inr]
  show ?thesis
  proof (cases "map_of (g_byID r) gid")
    case None
    have "DNA (eng\<lparr>e_lineage := l\<rparr>) = dna" for l using new(1) by (simp add: DNA_def)
    with Inr None show ?thesis by (simp add: Prepare_def Let_def)
  next
    case (Some e)
    then have "dna_of r gid = Some (DNA e)" by (simp add: dna_of_def)
    with Inr Some show ?thesis by (auto simp: Prepare_def)
  qed
qed (simp add: Prepare_def)

lemma reg_Remove_dna:
  "dna_of (snd (reg_Remove gid r)) =
     (if fst (reg_Remove gid r) = None then (dna_of r)(gid := None) else dna_of r)"
  by (auto simp: reg_Remove_def dna_of_def fun_eq_iff)

lemma reg_Activate_dna [simp, frame_simps]: "dna_of (snd (reg_Activate gid r)) = dna_of r"
  by (simp add: reg_Activate_def Let_def)

lemma reg_Deactivate_dna [simp, frame_simps]: "dna_of (reg_Deactivate r) = dna_of r"
  by (simp add: reg_Deactivate_def)

lemma ProcessGeneration_dna [simp, frame_simps]: "dna_of (snd (ProcessGeneration X gid raw dir r)) = dna_of r"
proof (cases "map_of (g_byID r) gid")
  case (Some eng)
  obtain res eng' where p: "Process X raw dir eng = (res, eng')" by (cases "Process X raw dir eng")
  with Process_DNA [of X raw dir eng] have "DNA eng' = DNA eng" by simp
  with Some p show ?thesis by (auto simp: ProcessGeneration_def dna_of_def fun_eq_iff)
qed (simp add: ProcessGeneration_def)

lemma VerifyGeneration_None: "VerifyGeneration gid dna r = None \<longleftrightarrow> dna_of r gid = Some dna"
  by (auto simp: VerifyGeneration_def dna_of_def split: option.splits)

lemma Prepare_None_iff:
  "fst (Prepare X gid dna r) = None \<longleftrightarrow>
     (\<exists>e. engine_New X dna = Inr e) \<and> dna_of r gid \<in> {None, Some dna}"
  by (auto simp: Prepare_def dna_of_def Let_def split: sum.splits option.splits)

lemma Prepare_fixed [simp, frame_simps]:
  "g_active (snd (Prepare X gid dna r)) = g_active r"
  "g_epoch (snd (Prepare X gid dna r)) = g_epoch r"
  by (auto simp: Prepare_def Let_def split: sum.splits option.splits)

lemma reg_Remove_fixed [simp, frame_simps]:
  "g_active (snd (reg_Remove gid r)) = g_active r"
  "g_prepared (snd (reg_Remove gid r)) = g_prepared r"
  by (auto simp: reg_Remove_def)

section \<open>The interface of an engine store\<close>

text \<open>
  What the steering controller relies on: preparing and removing change at most one
  generation, a failed call changes nothing, and preparing never replaces other DNA.
\<close>

locale engine_store =
  fixes prep :: "'i \<Rightarrow> 'd \<Rightarrow> 'r \<Rightarrow> 'e option \<times> 'r"
    and remove :: "'i \<Rightarrow> 'r \<Rightarrow> 'e option \<times> 'r"
    and held :: "'r \<Rightarrow> 'i \<Rightarrow> 'd option"
  assumes prep_held: "held (snd (prep i d r)) =
      (if fst (prep i d r) = None then (held r)(i \<mapsto> d) else held r)"
    and prep_same: "fst (prep i d r) = None \<Longrightarrow> held r i \<in> {None, Some d}"
    and remove_held: "held (snd (remove i r)) =
      (if fst (remove i r) = None then (held r)(i := None) else held r)"
begin

lemma prep_extends: "held r \<subseteq>\<^sub>m held (snd (prep i d r))"
proof (cases "fst (prep i d r) = None")
  case True
  with prep_same [OF True] prep_held [of i d r] show ?thesis by (auto simp: map_le_def)
next
  case False
  with prep_held [of i d r] show ?thesis by auto
qed

lemma prep_serves: "m \<subseteq>\<^sub>m held r \<Longrightarrow> m \<subseteq>\<^sub>m held (snd (prep i d r))"
  using prep_extends map_le_trans by blast

lemma remove_serves: "m \<subseteq>\<^sub>m held r \<Longrightarrow> m i = None \<Longrightarrow> m \<subseteq>\<^sub>m held (snd (remove i r))"
  by (auto simp: remove_held map_le_def)

lemma prep_then_remove:
  assumes "held r i = None" and "m \<subseteq>\<^sub>m held r"
  shows "m \<subseteq>\<^sub>m held (snd (remove i (snd (prep i d r))))"
proof (rule remove_serves)
  show "m \<subseteq>\<^sub>m held (snd (prep i d r))" using assms(2) by (rule prep_serves)
  show "m i = None" using assms by (metis domIff map_le_def)
qed

end

interpretation registry: engine_store "Prepare X" reg_Remove dna_of for X :: genlib
proof unfold_locales
  fix i d r
  show "dna_of (snd (Prepare X i d r)) =
      (if fst (Prepare X i d r) = None then (dna_of r)(i \<mapsto> d) else dna_of r)"
    by (rule Prepare_dna)
  assume "fst (Prepare X i d r) = None"
  then show "dna_of r i \<in> {None, Some d}" by (simp add: Prepare_None_iff)
next
  fix i r
  show "dna_of (snd (reg_Remove i r)) =
      (if fst (reg_Remove i r) = None then (dna_of r)(i := None) else dna_of r)"
    by (rule reg_Remove_dna)
qed

section \<open>Runs of registry operations\<close>

datatype reg_op =
    OpPrepare u32 string | OpActivate u32 | OpDeactivate | OpRemove u32
  | OpProcess u32 "byte list" Direction

fun reg_step :: "genlib \<Rightarrow> reg_op \<Rightarrow> Registry \<Rightarrow> Registry" where
  "reg_step X (OpPrepare gid dna) r = snd (Prepare X gid dna r)"
| "reg_step X (OpActivate gid) r = snd (reg_Activate gid r)"
| "reg_step X OpDeactivate r = reg_Deactivate r"
| "reg_step X (OpRemove gid) r = snd (reg_Remove gid r)"
| "reg_step X (OpProcess gid raw dir) r = snd (ProcessGeneration X gid raw dir r)"

definition reg_run :: "genlib \<Rightarrow> reg_op list \<Rightarrow> Registry \<Rightarrow> Registry" where
  "reg_run X ops r = fold (reg_step X) ops r"

lemma reg_run_simps [simp]:
  "reg_run X [] r = r"
  "reg_run X (p # ops) r = reg_run X ops (reg_step X p r)"
  by (simp_all add: reg_run_def)

text \<open>Lineage and DNA of a generation, what a client may rely on while it is not removed.\<close>

definition pinned :: "Registry \<Rightarrow> u32 \<Rightarrow> (string \<times> string) option" where
  "pinned r gid = map_option (\<lambda>e. (DNA e, e_lineage e)) (map_of (g_byID r) gid)"

lemma reg_step_pinned:
  assumes "pinned r gid = Some p" and "op \<noteq> OpRemove gid"
  shows "pinned (reg_step X op r) gid = Some p"
proof (cases op)
  case (OpPrepare i d)
  with assms show ?thesis
    by (auto simp: pinned_def Prepare_def Let_def split: sum.splits option.splits)
next
  case (OpProcess i raw dir)
  with assms show ?thesis
    by (auto simp: pinned_def ProcessGeneration_def split: option.splits prod.splits
        dest: arg_cong [where f = snd]) (metis Process_DNA Process_keeps(2) snd_conv)+
qed (use assms in \<open>auto simp: pinned_def reg_Activate_def reg_Deactivate_def reg_Remove_def Let_def\<close>)

definition registry_ok :: "Registry \<Rightarrow> bool" where
  "registry_ok r \<longleftrightarrow>
     wf_map (g_byID r) \<and> (g_active r \<noteq> 0 \<longrightarrow> map_of (g_byID r) (g_active r) \<noteq> None) \<and>
     (\<forall>i e. map_of (g_byID r) i = Some e \<longrightarrow> e_cur e \<noteq> None \<and> accounted (e_Stats e))"

lemma registry_ok_new: "registry_ok (NewRegistry epoch)"
  by (simp add: registry_ok_def NewRegistry_def)

lemma registry_ok_update:
  assumes "registry_ok r" and "e_cur e \<noteq> None" and "accounted (e_Stats e)"
  shows "registry_ok (r\<lparr>g_byID := AList.update i e (g_byID r)\<rparr>)"
  using assms by (auto simp: registry_ok_def)

lemma registry_ok_prepared: "registry_ok (r\<lparr>g_prepared := n\<rparr>) = registry_ok r"
  by (simp add: registry_ok_def)

lemma reg_step_ok:
  assumes "registry_ok r"
  shows "registry_ok (reg_step X op r)"
proof (cases op)
  case (OpPrepare i d)
  show ?thesis
  proof (cases "engine_New X d")
    case (Inr e)
    have "registry_ok ((r\<lparr>g_prepared := n\<rparr>)\<lparr>g_byID :=
        AList.update i (e\<lparr>e_lineage := l\<rparr>) (g_byID (r\<lparr>g_prepared := n\<rparr>))\<rparr>)" for n l
      using engine_New_Inr [OF Inr] assms zero_stats_accounted
      by (intro registry_ok_update) (simp_all add: registry_ok_prepared)
    with assms OpPrepare Inr show ?thesis by (simp add: Prepare_def Let_def split: option.splits)
  qed (use assms OpPrepare in \<open>simp add: Prepare_def\<close>)
next
  case (OpProcess i raw dir)
  show ?thesis
  proof (cases "map_of (g_byID r) i")
    case (Some e)
    obtain res e' where p: "Process X raw dir e = (res, e')" by (cases "Process X raw dir e")
    from assms Some have e: "e_cur e \<noteq> None" "accounted (e_Stats e)" by (auto simp: registry_ok_def)
    with Process_accounted [OF e(2,1), of X raw dir] p Process_keeps(1) [of X raw dir e]
    have "e_cur e' \<noteq> None" "accounted (e_Stats e')" by simp_all
    with registry_ok_update [OF assms] OpProcess Some p show ?thesis
      by (simp add: ProcessGeneration_def)
  qed (use assms OpProcess in \<open>simp add: ProcessGeneration_def\<close>)
qed (use assms in \<open>auto simp: registry_ok_def reg_Activate_def reg_Deactivate_def reg_Remove_def Let_def\<close>)

lemma reg_run_ok: "registry_ok r \<Longrightarrow> registry_ok (reg_run X ops r)"
  by (induction ops arbitrary: r) (simp_all add: reg_step_ok)

lemma reg_run_pinned:
  "pinned r gid = Some p \<Longrightarrow> OpRemove gid \<notin> set ops \<Longrightarrow> pinned (reg_run X ops r) gid = Some p"
  by (induction ops arbitrary: r) (auto simp: reg_step_pinned)

section \<open>Lineages name one engine each\<close>

fun read_base :: "nat \<Rightarrow> nat \<Rightarrow> string \<Rightarrow> nat" where
  "read_base b acc [] = acc"
| "read_base b acc (c # cs) = read_base b (b * acc + (of_char c - 48)) cs"

lemma read_base_append: "read_base b acc (xs @ [c]) = b * read_base b acc xs + (of_char c - 48)"
  by (induction xs arbitrary: acc) simp_all

lemma digit_char_dec: "d < 10 \<Longrightarrow> of_char (digit_char d) - 48 = d"
proof -
  assume "d < 10"
  have "\<forall>d<10. of_char (digit_char d) - 48 = d" by code_simp
  with \<open>d < 10\<close> show ?thesis by blast
qed

lemma read_show_dec: "read_base 10 0 (show_dec n) = n"
  unfolding show_dec_def
proof (induction n rule: less_induct)
  case (less n)
  show ?case
  proof (cases "n < 10")
    case True
    then show ?thesis by (simp add: show_base.simps [of 10 n] digit_char_dec)
  next
    case False
    with less.IH [of "n div 10"] show ?thesis
      by (simp add: show_base.simps [of 10 n] read_base_append digit_char_dec)
  qed
qed

lemma show_dec_inj: "show_dec a = show_dec b \<Longrightarrow> a = b"
  by (metis read_show_dec)

lemma lineage_name_inj: "lineage_name epoch a = lineage_name epoch b \<longleftrightarrow> a = b"
  by (auto simp: lineage_name_def dest!: show_dec_inj intro: unsigned_word_eqI)

end
