(* ===== verification/Ctl_State.thy ===== *)
theory Ctl_State
  imports State_File Registry
begin

text \<open>
  The state of the steering controller (\<open>internal/steering/controller.go\<close>), its atomics and the
  hot-path threads that signal integrity failures through them, and the read-only helpers that
  its operations share. What the mutex protects is the record \<open>ctl\<close>; the world the controller
  acts on is part of it.
\<close>

section \<open>Atomics and integrity signals\<close>

text \<open>
  \<open>IntegrityFailure\<close> is called by packet threads without the mutex: it adds to the epoch, latches
  the fault, disarms the repair guard and, if no reconciliation is under way, queues one. Each
  of the four is one atomic step. A thread is known by its next step; a schedule says, for
  each point at which the controller touches an atomic, which threads move before it. An index
  past the last thread starts a new signal.
\<close>

datatype stage = SigLatch | SigUnguard | SigReconcile | SigDone

record atoms =
  at_faultLatched :: bool
  at_persistFatal :: bool
  at_faultEpoch :: u64
  at_integrityReconciling :: bool
  at_repairGuard :: bool
  at_pending :: bool
  at_threads :: "stage list"
  at_sched :: "nat list list"

definition signal_step :: "nat \<Rightarrow> atoms \<Rightarrow> atoms" where
  "signal_step i a =
     (if length (at_threads a) \<le> i
      then a\<lparr>at_faultEpoch := at_faultEpoch a + 1, at_threads := at_threads a @ [SigLatch]\<rparr>
      else case at_threads a ! i of
             SigLatch \<Rightarrow> a\<lparr>at_faultLatched := True, at_threads := (at_threads a)[i := SigUnguard]\<rparr>
           | SigUnguard \<Rightarrow> a\<lparr>at_repairGuard := False, at_threads := (at_threads a)[i := SigReconcile]\<rparr>
           | SigReconcile \<Rightarrow>
               (let a' = a\<lparr>at_threads := (at_threads a)[i := SigDone]\<rparr>
                in if at_integrityReconciling a then a'
                   else a'\<lparr>at_integrityReconciling := True, at_pending := True\<rparr>)
           | SigDone \<Rightarrow> a)"

definition signal_steps :: "atoms \<Rightarrow> atoms" where
  "signal_steps a =
     (case at_sched a of [] \<Rightarrow> a
      | is # rest \<Rightarrow> fold signal_step is (a\<lparr>at_sched := rest\<rparr>))"

section \<open>Configuration and state\<close>

record ctl_config =
  cf_Mode :: string
  cf_NFT :: Config
  cf_Iface :: string
  cf_NoNFT :: bool
  cf_ObserveInbound :: bool
  cf_StateFile :: string
  cf_Connections :: bool \<comment> \<open>a counter is configured\<close>
  cf_IdleAfter :: int
  cf_MaxGenerations :: int
  cf_MaxScopedGenerations :: int
  cf_MaxEveryPacketGenerations :: int
  cf_Fatal :: bool \<comment> \<open>a \<open>Fatal\<close> callback is configured\<close>
  cf_RuntimeVersion :: string

text \<open>
  Code outside the repository: the strategy library, SHA-256, the fingerprint of a table, the
  text \<open>ethtool -k\<close> prints, the \<open>/proc\<close> files, and the length of an encoded state.
\<close>

record 'h ctl_libs =
  xl_gen :: genlib
  xl_sha :: "string \<Rightarrow> byte list"
  xl_fp :: "Config \<Rightarrow> 'h"
  xl_listing :: "(string \<Rightarrow> featureState option) \<Rightarrow> string"
  xl_proc :: "string \<Rightarrow> string option"
  xl_size :: "persistedState \<Rightarrow> int"

record ctl =
  c_generations :: "(u32 \<times> generationState) list"
  c_activeNew :: u32
  c_previous :: u32
  c_unsafe :: bool
  c_failure :: string
  c_nft :: "Config option"
  c_steeringInstalled :: bool
  c_offloads :: "Original option"
  c_remediation :: bool
  c_remediationEpoch :: u64
  c_reserved :: "u32 list"
  c_atom :: atoms
  c_eng :: Registry
  c_world :: world
  c_fatal :: bool \<comment> \<open>the \<open>Fatal\<close> callback has been called\<close>

definition defaultMaxGenerations :: int where "defaultMaxGenerations = 3"
definition defaultMaxScopedGenerations :: int where "defaultMaxScopedGenerations = 3"
definition defaultMaxEveryPacketGenerations :: int where "defaultMaxEveryPacketGenerations = 2"
definition maxGenerationArtifact :: nat where "maxGenerationArtifact = 256 * 1024"
definition persistedStateVersion :: int where "persistedStateVersion = 2"

text \<open>\<open>New\<close> fills in the defaults of the configuration.\<close>

definition ctl_defaults :: "ctl_config \<Rightarrow> ctl_config" where
  "ctl_defaults cfg =
     (let cfg = (if cf_MaxGenerations cfg = 0 then cfg\<lparr>cf_MaxGenerations := defaultMaxGenerations\<rparr> else cfg);
          cfg = (if cf_MaxGenerations cfg > int MaxLiveGenerationBudget
                 then cfg\<lparr>cf_MaxGenerations := int MaxLiveGenerationBudget\<rparr> else cfg);
          cfg = (if cf_MaxScopedGenerations cfg = 0
                 then cfg\<lparr>cf_MaxScopedGenerations := min defaultMaxScopedGenerations (cf_MaxGenerations cfg)\<rparr>
                 else cfg);
          cfg = (if cf_MaxEveryPacketGenerations cfg = 0
                 then cfg\<lparr>cf_MaxEveryPacketGenerations :=
                        min defaultMaxEveryPacketGenerations (cf_MaxGenerations cfg)\<rparr>
                 else cfg)
      in if cf_RuntimeVersion cfg = [] then cfg\<lparr>cf_RuntimeVersion := RuntimeVersionGeneva\<rparr> else cfg)"

definition no_atoms :: "nat list list \<Rightarrow> atoms" where
  "no_atoms sched =
     \<lparr>at_faultLatched = False, at_persistFatal = False, at_faultEpoch = 0,
      at_integrityReconciling = False, at_repairGuard = False, at_pending = False,
      at_threads = [], at_sched = sched\<rparr>"

definition ctl_New :: "Registry \<Rightarrow> world \<Rightarrow> nat list list \<Rightarrow> ctl" where
  "ctl_New eng w sched =
     \<lparr>c_generations = [], c_activeNew = 0, c_previous = 0, c_unsafe = False, c_failure = [],
      c_nft = None, c_steeringInstalled = False, c_offloads = None, c_remediation = False,
      c_remediationEpoch = 0, c_reserved = [], c_atom = no_atoms sched, c_eng = eng, c_world = w,
      c_fatal = False\<rparr>"

section \<open>Access to the atomics\<close>

definition tick :: "ctl \<Rightarrow> ctl" where
  "tick s = s\<lparr>c_atom := signal_steps (c_atom s)\<rparr>"

definition Load :: "(atoms \<Rightarrow> 'a) \<Rightarrow> ctl \<Rightarrow> 'a \<times> ctl" where
  "Load f s = (let s = tick s in (f (c_atom s), s))"

definition Store :: "(atoms \<Rightarrow> atoms) \<Rightarrow> ctl \<Rightarrow> ctl" where
  "Store f s = (let s = tick s in s\<lparr>c_atom := f (c_atom s)\<rparr>)"

definition Latch :: "bool \<Rightarrow> ctl \<Rightarrow> ctl" where
  "Latch b = Store (\<lambda>a. a\<lparr>at_faultLatched := b\<rparr>)"

definition Guard :: "bool \<Rightarrow> ctl \<Rightarrow> ctl" where
  "Guard b = Store (\<lambda>a. a\<lparr>at_repairGuard := b\<rparr>)"

text \<open>\<open>repairGuard.CompareAndSwap(true, false)\<close>: the old value, and false from here on.\<close>

definition DisarmGuard :: "ctl \<Rightarrow> bool \<times> ctl" where
  "DisarmGuard s =
     (let s = tick s in (at_repairGuard (c_atom s), s\<lparr>c_atom := (c_atom s)\<lparr>at_repairGuard := False\<rparr>\<rparr>))"

definition recordIntegrityFailure :: "ctl \<Rightarrow> ctl" where
  "recordIntegrityFailure s =
     Guard False (Latch True (Store (\<lambda>a. a\<lparr>at_faultEpoch := at_faultEpoch a + 1\<rparr>) s))"

section \<open>Read-only helpers\<close>

definition Descriptor :: "ctl_config \<Rightarrow> Descriptor" where
  "Descriptor cf =
     \<lparr>d_AdapterProtocol = Version1, d_Technique = TechniqueGeneva, d_RuntimeName = RuntimeNameGeneva,
      d_RuntimeVersion = cf_RuntimeVersion cf, d_SchemaVersions = [SchemaVersionV1],
      d_MaxLiveGenerations = of_int (cf_MaxGenerations cf)\<rparr>"

definition gen_of :: "ctl \<Rightarrow> u32 \<Rightarrow> generationState option" where
  "gen_of s gid = map_of (c_generations s) gid"

definition serving :: "Phase \<Rightarrow> bool" where
  "serving p \<longleftrightarrow> p = PhaseActive \<or> p = PhaseDraining"

definition liveLocked :: "ctl \<Rightarrow> generationState list" where
  "liveLocked s = sort_key gs_ID (filter (\<lambda>g. serving (gs_Phase g)) (map snd (c_generations s)))"

definition hasSteeringLocked :: "ctl \<Rightarrow> bool" where
  "hasSteeringLocked s = list_ex (\<lambda>g. \<not> sc_Idle (gs_Scope g)) (liveLocked s)"

definition managerLocked :: "ctl_config \<Rightarrow> generationState list \<Rightarrow> u32 \<Rightarrow> Config" where
  "managerLocked cf gens active =
     nft_New ((cf_NFT cf)\<lparr>nf_Outbound := no_selector, nf_Inbound := no_selector,
       nf_Generations := map (\<lambda>g. \<lparr>gn_ID = gs_ID g, gn_Outbound = sc_Outbound (gs_Scope g),
                                   gn_Inbound = sc_Inbound (gs_Scope g)\<rparr>) gens,
       nf_ActiveGeneration := active\<rparr>)"

definition programSteers :: "Config \<Rightarrow> bool" where
  "programSteers cfg = list_ex (\<lambda>g. \<not> sel_Empty (gn_Outbound g) \<or> \<not> sel_Empty (gn_Inbound g)) (nf_Generations cfg)"

fun findIdentity ::
  "Identity \<Rightarrow> (u32 \<times> generationState) list \<Rightarrow> (u32 \<times> generationState) option \<Rightarrow>
     (u32 \<times> generationState) option res" where
  "findIdentity ident [] found = Inr found"
| "findIdentity ident ((gid, gen) # gens) found =
     (if gs_Identity gen \<noteq> ident then findIdentity ident gens found
      else if found \<noteq> None then Inl (Msg ''artifact identity is ambiguously mapped'')
      else findIdentity ident gens (Some (gid, gen)))"

definition generationForIdentityLocked :: "Identity \<Rightarrow> ctl \<Rightarrow> (u32 \<times> generationState) option res" where
  "generationForIdentityLocked ident s = findIdentity ident (c_generations s) None"

record Deployment =
  dp_Generation :: u32
  dp_Identity :: Identity

definition matchesLocked :: "Deployment \<Rightarrow> ctl \<Rightarrow> bool" where
  "matchesLocked d s =
     (case gen_of s (dp_Generation d) of None \<Rightarrow> False | Some g \<Rightarrow> gs_Identity g = dp_Identity d)"

definition activeMatchesLocked :: "Deployment \<Rightarrow> ctl \<Rightarrow> bool" where
  "activeMatchesLocked expected s =
     (if dp_Generation expected = 0 then c_activeNew s = 0
      else c_activeNew s = dp_Generation expected \<and> matchesLocked expected s)"

definition validateResourceBudgetsLocked :: "ctl_config \<Rightarrow> ctl \<Rightarrow> err option" where
  "validateResourceBudgetsLocked cf s =
     (let every = length (filter (\<lambda>(_, g). resourceClass (gs_Scope g) = EveryPacket) (c_generations s));
          scoped = length (filter (\<lambda>(_, g). resourceClass (gs_Scope g) \<noteq> EveryPacket) (c_generations s))
      in if int scoped > cf_MaxScopedGenerations cf then Some (Msg ''handshake-scoped generation budget is full'')
         else if int every > cf_MaxEveryPacketGenerations cf then Some (Msg ''every-packet generation budget is full'')
         else None)"

fun nextLoop :: "u32 list \<Rightarrow> u32 \<Rightarrow> u32" where
  "nextLoop [] candidate = candidate"
| "nextLoop (gid # gids) candidate =
     (if gid = candidate then nextLoop gids (candidate + 1)
      else if gid > candidate then candidate
      else nextLoop gids candidate)"

definition nextGenerationLocked :: "ctl \<Rightarrow> u32" where
  "nextGenerationLocked s =
     (let ids = sort (keys (c_generations s) @
                      filter (\<lambda>gid. gen_of s gid = None) (c_reserved s));
          candidate = nextLoop ids 1
      in if candidate = 0 \<or> candidate > MaxID then 0 else candidate)"

section \<open>Simple updates\<close>

definition set_phase :: "u32 \<Rightarrow> Phase \<Rightarrow> ctl \<Rightarrow> ctl" where
  "set_phase gid p s =
     s\<lparr>c_generations := map (\<lambda>(i, g). (i, if i = gid then g\<lparr>gs_Phase := p\<rparr> else g)) (c_generations s)\<rparr>"

definition reconcileReservedGenerationsLocked :: "(u32 \<times> int) list \<Rightarrow> ctl \<Rightarrow> ctl" where
  "reconcileReservedGenerationsLocked counts s =
     (let kept = filter (\<lambda>gid. case map_of counts gid of None \<Rightarrow> False | Some n \<Rightarrow> n \<noteq> 0) (c_reserved s);
          seen = map fst (filter (\<lambda>(gid, n). n > 0 \<and> gen_of s gid = None) counts)
      in s\<lparr>c_reserved := fold List.insert seen kept\<rparr>)"

definition appendFailureLocked :: "string \<Rightarrow> ctl \<Rightarrow> ctl" where
  "appendFailureLocked failure s =
     (if c_failure s = [] then s\<lparr>c_failure := failure\<rparr>
      else s\<lparr>c_failure := c_failure s @ ''; '' @ failure\<rparr>)"

definition phasesLocked :: "ctl \<Rightarrow> (u32 \<times> Phase) list" where
  "phasesLocked s = map (\<lambda>(gid, g). (gid, gs_Phase g)) (c_generations s)"

definition restoreLocked ::
  "u32 \<Rightarrow> u32 \<Rightarrow> bool \<Rightarrow> string \<Rightarrow> bool \<Rightarrow> u64 \<Rightarrow> (u32 \<times> Phase) list \<Rightarrow> ctl \<Rightarrow> ctl" where
  "restoreLocked active prev uns failure remediation epoch phases s =
     fold (\<lambda>(gid, p) s. set_phase gid p s) phases
       (s\<lparr>c_activeNew := active, c_previous := prev, c_unsafe := uns, c_failure := failure,
          c_remediation := remediation, c_remediationEpoch := epoch\<rparr>)"

definition delete_gen :: "u32 \<Rightarrow> ctl \<Rightarrow> ctl" where
  "delete_gen gid s = s\<lparr>c_generations := AList.delete gid (c_generations s)\<rparr>"

text \<open>\<open>delete(c.generations, id)\<close> followed by \<open>eng.Remove(id)\<close> with its error ignored.\<close>

definition discard_gen :: "u32 \<Rightarrow> ctl \<Rightarrow> ctl" where
  "discard_gen gid s = (delete_gen gid s)\<lparr>c_eng := snd (reg_Remove gid (c_eng s))\<rparr>"

text \<open>A context check of the caller's context.\<close>

definition ctxErr :: "ctl \<Rightarrow> err option \<times> ctl" where
  "ctxErr s = (case ctx_Err (c_world s) of (e, w) \<Rightarrow> (e, s\<lparr>c_world := w\<rparr>))"

definition call_Fatal :: "ctl_config \<Rightarrow> ctl \<Rightarrow> ctl" where
  "call_Fatal cf s = (if cf_Fatal cf then s\<lparr>c_fatal := True\<rparr> else s)"

end
