(* ===== verification/Ctl_Program.thy ===== *)
theory Ctl_Program
  imports Ctl_State
begin

text \<open>
  How the controller acts on the outside: programming the steering table, persisting its state,
  owning NIC offloads, counting and neutralizing connections, and the fail-closed
  reconciliation of an integrity failure.
\<close>

section \<open>The steering table\<close>

definition programModeLocked ::
  "ctl_config \<Rightarrow> 'h ctl_libs \<Rightarrow> generationState list \<Rightarrow> u32 \<Rightarrow> bool \<Rightarrow> bool \<Rightarrow> ctl \<Rightarrow> err option \<times> ctl" where
  "programModeLocked cf X gens active neutral verify s =
     (let m = nft_New ((managerLocked cf gens active)\<lparr>nf_NeutralizeNew := neutral\<rparr>);
          s = s\<lparr>c_steeringInstalled := False\<rparr>
      in if cf_NoNFT cf
         then (None, s\<lparr>c_nft := Some m, c_steeringInstalled := programSteers m\<rparr>)
         else
           (case (if verify then nft_Verify m (c_world s) else (None, c_world s)) of
              (Some e, w) \<Rightarrow> (Some e, s\<lparr>c_world := w\<rparr>)
            | (None, w) \<Rightarrow>
                (case InstallVerified (xl_fp X) m w of
                   (Some e, w) \<Rightarrow> (Some e, s\<lparr>c_world := w\<rparr>)
                 | (None, w) \<Rightarrow>
                     (None, s\<lparr>c_world := w, c_nft := Some m, c_steeringInstalled := programSteers m\<rparr>))))"

definition programLocked ::
  "ctl_config \<Rightarrow> 'h ctl_libs \<Rightarrow> generationState list \<Rightarrow> u32 \<Rightarrow> bool \<Rightarrow> ctl \<Rightarrow> err option \<times> ctl" where
  "programLocked cf X gens active verify = programModeLocked cf X gens active False verify"

definition removeRulesLocked :: "ctl_config \<Rightarrow> 'h ctl_libs \<Rightarrow> ctl \<Rightarrow> err option \<times> ctl" where
  "removeRulesLocked cf X = programLocked cf X [] 0 True"

definition verifyCurrentProgramLocked :: "ctl_config \<Rightarrow> 'h ctl_libs \<Rightarrow> ctl \<Rightarrow> err option \<times> ctl" where
  "verifyCurrentProgramLocked cf X s =
     (let m = managerLocked cf (liveLocked s) (c_activeNew s)
      in if cf_NoNFT cf
         then (Some (Msg ''exact steering readback is unavailable with no-nft mode''), s)
         else (case VerifyInstalled (xl_fp X) m (c_world s) of (e, w) \<Rightarrow> (e, s\<lparr>c_world := w\<rparr>)))"

section \<open>Durable state\<close>

text \<open>The document \<open>persistLocked\<close> writes: the generations in the order of their numbers.\<close>

definition snapshot :: "ctl \<Rightarrow> persistedState" where
  "snapshot s =
     \<lparr>ps_Version = persistedStateVersion, ps_ActiveNew = c_activeNew s, ps_Previous = c_previous s,
      ps_Unsafe = c_unsafe s, ps_Failure = c_failure s, ps_Offloads = c_offloads s,
      ps_Generations =
        sort_key gs_ID (map (\<lambda>(_, g). g\<lparr>gs_Scope := empty_scope\<rparr>) (c_generations s))\<rparr>"

definition persistenceFailureLocked :: "ctl_config \<Rightarrow> err \<Rightarrow> ctl \<Rightarrow> err \<times> ctl" where
  "persistenceFailureLocked cf e s =
     (let cause = Wrap ''adapter durability failure'' [e];
          s = tick s
      in if at_persistFatal (c_atom s) then (cause, s)
         else
           let s = s\<lparr>c_atom := (c_atom s)\<lparr>at_persistFatal := True\<rparr>\<rparr>;
               s = Latch True s;
               s = Guard False s;
               s = s\<lparr>c_unsafe := True, c_remediation := False, c_remediationEpoch := 0,
                     c_failure := err_Error cause\<rparr>
           in (cause, call_Fatal cf s))"

definition persistLocked :: "ctl_config \<Rightarrow> ctl \<Rightarrow> err option \<times> ctl" where
  "persistLocked cf s =
     (if cf_StateFile cf = [] then (None, s)
      else
        (case writeState (snapshot s) (c_world s) of
           (None, w) \<Rightarrow> (None, s\<lparr>c_world := w\<rparr>)
         | (Some e, w) \<Rightarrow>
             (case persistenceFailureLocked cf e (s\<lparr>c_world := w\<rparr>) of (e, s) \<Rightarrow> (Some e, s))))"

section \<open>NIC offloads\<close>

text \<open>
  The record is shared by pointer: what \<open>Restore\<close> leaves in it is what the controller still owns.
\<close>

definition disableOwned :: "ctl_config \<Rightarrow> Original \<Rightarrow> ctl \<Rightarrow> err option \<times> ctl" where
  "disableOwned cf d s =
     (case Disable d (c_world s) of
        (None, w) \<Rightarrow> (None, s\<lparr>c_world := w\<rparr>)
      | (Some e, w) \<Rightarrow>
          (case Restore d w of
             ((restoreErr, d), w) \<Rightarrow>
               (case persistLocked cf
                  (s\<lparr>c_world := w, c_offloads := (if restoreErr = None then None else Some d)\<rparr>) of
                  (persistErr, s) \<Rightarrow> (errors_Join [Some e, restoreErr, persistErr], s))))"

definition takeOffloads :: "ctl_config \<Rightarrow> Original \<Rightarrow> ctl \<Rightarrow> err option \<times> ctl" where
  "takeOffloads cf d s =
     (case persistLocked cf (s\<lparr>c_offloads := Some d\<rparr>) of
        (Some e, s) \<Rightarrow> (Some e, s\<lparr>c_offloads := None\<rparr>)
      | (None, s) \<Rightarrow> disableOwned cf d s)"

definition ensureOffloadsDown :: "ctl_config \<Rightarrow> 'h ctl_libs \<Rightarrow> ctl \<Rightarrow> err option \<times> ctl" where
  "ensureOffloadsDown cf X s =
     (case c_offloads s of
        Some orig \<Rightarrow>
          if o_Interface orig \<noteq> cf_Iface cf
          then (Some (Msg ''persisted offload owner names another interface''), s)
          else (case Disable orig (c_world s) of (e, w) \<Rightarrow> (e, s\<lparr>c_world := w\<rparr>))
      | None \<Rightarrow>
          if cf_Iface cf = [] then (None, s)
          else
            (case Capture (xl_listing X) (cf_Iface cf) (c_world s) of
               (Inl e, w) \<Rightarrow> (Some e, s\<lparr>c_world := w\<rparr>)
             | (Inr d, w) \<Rightarrow>
                 if length (o_Features d) = 0 then (None, s\<lparr>c_world := w\<rparr>)
                 else takeOffloads cf d (s\<lparr>c_world := w\<rparr>)))"

definition restoreOffloads :: "ctl_config \<Rightarrow> ctl \<Rightarrow> err option \<times> ctl" where
  "restoreOffloads cf s =
     (case c_offloads s of
        None \<Rightarrow> (None, s)
      | Some orig \<Rightarrow>
          (case Restore orig (c_world s) of
             ((Some e, orig), w) \<Rightarrow>
               (case persistLocked cf (s\<lparr>c_world := w, c_offloads := Some orig\<rparr>) of
                  (persistErr, s) \<Rightarrow> (errors_Join [Some e, persistErr], s))
           | ((None, orig), w) \<Rightarrow> persistLocked cf (s\<lparr>c_world := w, c_offloads := None\<rparr>)))"

section \<open>Connections\<close>

text \<open>
  The three bounded calls: the counter runs in a goroutine and the caller leaves when the bound
  expires, with the context's error.
\<close>

definition bounded :: "'a \<Rightarrow> (err \<Rightarrow> 'a) \<Rightarrow> ctl \<Rightarrow> 'a \<times> ctl" where
  "bounded r timeout s =
     (case ctxErr s of (Some e, s) \<Rightarrow> (timeout e, s) | (None, s) \<Rightarrow> (r, s))"

definition connectionCount :: "ctl_config \<Rightarrow> 'h ctl_libs \<Rightarrow> u32 \<Rightarrow> ctl \<Rightarrow> int res \<times> ctl" where
  "connectionCount cf X gid s =
     (if \<not> cf_Connections cf then (Inl (Msg ''conntrack drain counter is not configured''), s)
      else
        (case Count (xl_proc X) (cf_IdleAfter cf) gid (nf_Port (cf_NFT cf)) (c_world s) of
           (r, w) \<Rightarrow> bounded r Inl (s\<lparr>c_world := w\<rparr>)))"

definition connectionCounts :: "ctl_config \<Rightarrow> ctl \<Rightarrow> (u32 \<times> int) list res \<times> ctl" where
  "connectionCounts cf s =
     (case Counts (nf_Port (cf_NFT cf)) (c_world s) of
        (r, w) \<Rightarrow> bounded r Inl (s\<lparr>c_world := w\<rparr>))"

definition neutralizeConnections :: "ctl_config \<Rightarrow> ctl \<Rightarrow> (int \<times> err option) \<times> ctl" where
  "neutralizeConnections cf s =
     (case Neutralize (nf_Port (cf_NFT cf)) (c_world s) of
        (r, w) \<Rightarrow> bounded r (\<lambda>e. (0, Some e)) (s\<lparr>c_world := w\<rparr>))"

section \<open>Failing closed\<close>

text \<open>No new assignment: the neutral program, or no table at all, or the fatal callback.\<close>

definition disableAssignment :: "ctl_config \<Rightarrow> 'h ctl_libs \<Rightarrow> err \<Rightarrow> ctl \<Rightarrow> err \<times> ctl" where
  "disableAssignment cf X cause s =
     (case programLocked cf X (liveLocked s) 0 False s of
        (None, s) \<Rightarrow> (cause, s)
      | (Some e, s) \<Rightarrow>
          (let cause = Wrap [] [cause, Wrap ''disable new assignment'' [e]]
           in case removeRulesLocked cf X s of
                (None, s) \<Rightarrow> (cause, s)
              | (Some e, s) \<Rightarrow>
                  (Wrap [] [cause, Wrap ''remove unsafe steering'' [e]], call_Fatal cf s)))"

definition enterUnsafe :: "err \<Rightarrow> ctl \<Rightarrow> ctl" where
  "enterUnsafe cause s =
     (let s = s\<lparr>c_unsafe := True, c_remediation := False, c_remediationEpoch := 0,
                c_failure := err_Error cause\<rparr>;
          s = (if c_activeNew s \<noteq> 0 \<and> gen_of s (c_activeNew s) \<noteq> None
               then set_phase (c_activeNew s) PhaseDraining s else s)
      in s\<lparr>c_activeNew := 0, c_eng := reg_Deactivate (c_eng s)\<rparr>)"

definition reconcileIntegrityFailureLocked :: "ctl_config \<Rightarrow> 'h ctl_libs \<Rightarrow> err \<Rightarrow> ctl \<Rightarrow> ctl" where
  "reconcileIntegrityFailureLocked cf X cause s =
     (let (cause, s) = disableAssignment cf X cause (enterUnsafe cause s)
      in case persistLocked cf (s\<lparr>c_failure := err_Error cause\<rparr>) of
           (None, s) \<Rightarrow> s
         | (Some e, s) \<Rightarrow>
             call_Fatal cf
               (s\<lparr>c_failure := err_Error (Wrap [] [cause, Wrap ''persist integrity failure'' [e]])\<rparr>))"

definition integrityFailureLocked :: "ctl_config \<Rightarrow> 'h ctl_libs \<Rightarrow> err \<Rightarrow> ctl \<Rightarrow> ctl" where
  "integrityFailureLocked cf X cause s =
     reconcileIntegrityFailureLocked cf X cause (recordIntegrityFailure s)"

text \<open>
  The goroutine \<open>IntegrityFailure\<close> starts: it takes the mutex, reconciles and unlocks, and only
  then lets the next signal queue another one.
\<close>

definition reconcile_body :: "ctl_config \<Rightarrow> 'h ctl_libs \<Rightarrow> ctl \<Rightarrow> ctl" where
  "reconcile_body cf X s =
     (if at_pending (c_atom s)
      then reconcileIntegrityFailureLocked cf X (Msg ''integrity failure'')
             (s\<lparr>c_atom := (c_atom s)\<lparr>at_pending := False\<rparr>\<rparr>)
      else s)"

definition reconcile_done :: "ctl \<Rightarrow> ctl" where
  "reconcile_done s =
     (if at_pending (c_atom s) then s
      else Store (\<lambda>a. a\<lparr>at_integrityReconciling := False\<rparr>) s)"

end
