(* ===== verification/Ctl_Prepare.thy ===== *)
theory Ctl_Prepare
  imports Ctl_Program
begin

text \<open>
  Preparing generations: the immutable contract of an artifact, the two prepare operations, the
  proof that a latched adapter may accept one, and \<open>Verify\<close>.
\<close>

section \<open>Artifacts\<close>

definition validateIdentity :: "Identity \<Rightarrow> string \<Rightarrow> err option" where
  "validateIdentity ident artifactDigest =
     (if i_Technique ident \<noteq> TechniqueGeneva then Some (Msg ''technique is not supported'')
      else if i_Revision ident = [] then Some (Msg ''revision is required'')
      else if (case DecodeString (i_Digest ident) of None \<Rightarrow> True | Some decoded \<Rightarrow> length decoded \<noteq> 32) \<or>
              i_Digest ident \<noteq> ToLower (i_Digest ident)
        then Some (Msg ''digest must be bare lowercase 64-character SHA-256 hex'')
      else if i_Digest ident \<noteq> artifactDigest
        then Some (Msg ''artifact digest does not match immutable identity'')
      else None)"

definition parseStrategy :: "'h ctl_libs \<Rightarrow> string \<Rightarrow> Strategy res" where
  "parseStrategy X dna =
     (case x_NewStrategy (xl_gen X) dna of
        Inl e \<Rightarrow> Inl (Wrap ''parse'' [Sent ErrInvalidStrategy, e])
      | Inr parsed \<Rightarrow>
          (case x_Validate (xl_gen X) parsed of
             Some e \<Rightarrow> Inl (Wrap ''validate'' [Sent ErrInvalidStrategy, e])
           | None \<Rightarrow> Inr parsed))"

definition verifyArtifact :: "'h ctl_libs \<Rightarrow> Identity \<Rightarrow> string \<Rightarrow> err option" where
  "verifyArtifact X ident dna =
     (if length dna > MaxArtifactSize
      then Some (Wrap ''artifact exceeds 256 KiB'' [Sent ErrInvalidStrategy])
      else case validateIdentity ident (Digest (xl_sha X) dna) of
             Some e \<Rightarrow> Some (Wrap ''identity'' [Sent ErrInvalidStrategy])
           | None \<Rightarrow> (case parseStrategy X dna of Inl e \<Rightarrow> Some e | Inr _ \<Rightarrow> None))"

definition prepareArtifactLocked ::
  "ctl_config \<Rightarrow> 'h ctl_libs \<Rightarrow> u32 \<Rightarrow> Metadata \<Rightarrow> string \<Rightarrow> ctl \<Rightarrow> err option \<times> ctl" where
  "prepareArtifactLocked cf X gid metadata dna s =
     (if length dna > maxGenerationArtifact
      then (Some (Wrap ''artifact exceeds 256 KiB'' [Sent ErrInvalidStrategy]), s)
      else case NewArtifact (xl_sha X) metadata dna of
             Inl e \<Rightarrow> (Some (Wrap ''artifact metadata'' [Sent ErrInvalidStrategy]), s)
           | Inr artifact \<Rightarrow>
               (case ValidateFor (xl_sha X) artifact (Descriptor cf) of
                  Some e \<Rightarrow> (Some (Wrap ''artifact compatibility'' [Sent ErrInvalidStrategy]), s)
                | None \<Rightarrow>
                    (case parseStrategy X dna of
                       Inl e \<Rightarrow> (Some e, s)
                     | Inr parsed \<Rightarrow>
                         (case Prepare (xl_gen X) gid dna (c_eng s) of
                            (Some e, eng) \<Rightarrow> (Some e, s\<lparr>c_eng := eng\<rparr>)
                          | (None, eng) \<Rightarrow>
                              (let s = s\<lparr>c_eng := eng\<rparr>;
                                   digest = Digest (xl_sha X) dna;
                                   ident = a_Identity artifact
                               in case validateIdentity ident digest of
                                    Some e \<Rightarrow> (Some e, s\<lparr>c_eng := snd (reg_Remove gid (c_eng s))\<rparr>)
                                  | None \<Rightarrow>
                                      (None, s\<lparr>c_generations := AList.update gid
                                         \<lparr>gs_ID = gid, gs_DNA = dna, gs_Digest = digest,
                                          gs_Phase = PhasePrepared,
                                          gs_Scope = widen (cf_ObserveInbound cf) (cf_Mode cf) (Of (Some parsed)),
                                          gs_Identity = ident, gs_Metadata = metadata\<rparr>
                                         (c_generations s)\<rparr>))))))"

definition prepareLocked ::
  "ctl_config \<Rightarrow> 'h ctl_libs \<Rightarrow> u32 \<Rightarrow> Identity \<Rightarrow> string \<Rightarrow> ctl \<Rightarrow> err option \<times> ctl" where
  "prepareLocked cf X gid ident dna =
     (let d = Descriptor cf
      in prepareArtifactLocked cf X gid
           \<lparr>m_Technique = i_Technique ident, m_Revision = i_Revision ident, m_Digest = i_Digest ident,
            m_Size = int (length dna), m_AdapterProtocol = d_AdapterProtocol d,
            m_RequiredRuntimeName = d_RuntimeName d, m_RequiredRuntimeVersion = d_RuntimeVersion d,
            m_SchemaVersion = SchemaVersionV1\<rparr> dna)"

section \<open>Preparing by number\<close>

text \<open>What follows a successful reconstruction in every prepare: discard it if the next step fails.\<close>

definition or_discard :: "u32 \<Rightarrow> (err \<Rightarrow> err) \<Rightarrow> err option \<times> ctl \<Rightarrow> err option \<times> ctl" where
  "or_discard gid wrap r = (case r of (Some e, s) \<Rightarrow> (Some (wrap e), discard_gen gid s) | (None, s) \<Rightarrow> (None, s))"

definition prepare ::
  "ctl_config \<Rightarrow> 'h ctl_libs \<Rightarrow> u32 \<Rightarrow> Identity \<Rightarrow> string \<Rightarrow> ctl \<Rightarrow> err option \<times> ctl" where
  "prepare cf X gid ident dna s =
     (case Load at_faultLatched s of
        (True, s) \<Rightarrow> (Some (Msg ''adapter integrity fault is latched''), s)
      | (False, s) \<Rightarrow>
     (case Load at_faultLatched s of
        (True, s) \<Rightarrow> (Some (Msg ''adapter integrity fault is latched; rollback is required''), s)
      | (False, s) \<Rightarrow>
     (case ctxErr s of
        (Some e, s) \<Rightarrow> (Some e, s)
      | (None, s) \<Rightarrow>
     (case Mark gid of
        Inl _ \<Rightarrow> (Some (Wrap ''generation'' [Sent ErrInvalidStrategy]), s)
      | Inr _ \<Rightarrow>
     (case generationForIdentityLocked ident s of
        Inl e \<Rightarrow> (Some e, s)
      | Inr existing \<Rightarrow>
     (if (case existing of None \<Rightarrow> False | Some (existingID, _) \<Rightarrow> existingID \<noteq> gid)
      then (Some (Msg ''artifact identity is already mapped to another generation''), s)
      else case gen_of s gid of
        Some old \<Rightarrow>
          if gs_DNA old = dna \<and> gs_Identity old = ident then (None, s)
          else (Some (Msg ''generation is immutable''), s)
      | None \<Rightarrow>
     (if int (length (c_generations s)) \<ge> cf_MaxGenerations cf
      then (Some (Msg ''live generation budget is full''), s)
      else case prepareLocked cf X gid ident dna s of
        (Some e, s) \<Rightarrow> (Some e, s)
      | (None, s) \<Rightarrow>
     (case or_discard gid (\<lambda>e. e) (ctxErr s) of
        (Some e, s) \<Rightarrow> (Some e, s)
      | (None, s) \<Rightarrow>
     (case or_discard gid (\<lambda>e. e) (validateResourceBudgetsLocked cf s, s) of
        (Some e, s) \<Rightarrow> (Some e, s)
      | (None, s) \<Rightarrow> or_discard gid (\<lambda>e. e) (persistLocked cf s))))))))))"

definition PrepareDeployment :: "ctl_config \<Rightarrow> 'h ctl_libs \<Rightarrow> Deployment \<Rightarrow> string \<Rightarrow> ctl \<Rightarrow> err option \<times> ctl" where
  "PrepareDeployment cf X d dna = prepare cf X (dp_Generation d) (dp_Identity d) dna"

section \<open>The remediation gate\<close>

definition integrityProofIntact :: "u64 \<Rightarrow> ctl \<Rightarrow> bool \<times> ctl" where
  "integrityProofIntact epoch s =
     (case Load at_faultEpoch s of
        (e, s) \<Rightarrow>
          if e \<noteq> epoch then (False, s)
          else
            (case Load at_repairGuard s of
               (False, s) \<Rightarrow> (False, s)
             | (True, s) \<Rightarrow> (case Load at_integrityReconciling s of (r, s) \<Rightarrow> (\<not> r, s))))"

definition recoveryGateIntactLocked :: "u64 \<Rightarrow> ctl \<Rightarrow> bool \<times> ctl" where
  "recoveryGateIntactLocked epoch s =
     (if c_remediation s \<and> c_remediationEpoch s = epoch then integrityProofIntact epoch s else (False, s))"

fun reconstructLoop :: "'h ctl_libs \<Rightarrow> generationState list \<Rightarrow> ctl \<Rightarrow> err option \<times> ctl" where
  "reconstructLoop X [] s = (None, s)"
| "reconstructLoop X (gen # gens) s =
     (case Prepare (xl_gen X) (gs_ID gen) (gs_DNA gen) (c_eng s) of
        (Some e, eng) \<Rightarrow> (Some (Wrap ''from durable state'' [e]), s\<lparr>c_eng := eng\<rparr>)
      | (None, eng) \<Rightarrow> reconstructLoop X gens (s\<lparr>c_eng := eng\<rparr>))"

fun verifyLoop :: "generationState list \<Rightarrow> ctl \<Rightarrow> err option" where
  "verifyLoop [] s = None"
| "verifyLoop (gen # gens) s =
     (case VerifyGeneration (gs_ID gen) (gs_DNA gen) (c_eng s) of
        Some e \<Rightarrow> Some (Wrap ''against durable state'' [e])
      | None \<Rightarrow> verifyLoop gens s)"

definition reconstructAndVerifyLiveEnginesLocked :: "'h ctl_libs \<Rightarrow> ctl \<Rightarrow> err option \<times> ctl" where
  "reconstructAndVerifyLiveEnginesLocked X s =
     (let gens = liveLocked s
      in case reconstructLoop X gens s of
           (Some e, s) \<Rightarrow> (Some e, s)
         | (None, s) \<Rightarrow> (verifyLoop gens s, s))"

definition no_remediation :: "ctl \<Rightarrow> ctl" where
  "no_remediation s = s\<lparr>c_remediation := False, c_remediationEpoch := 0\<rparr>"

text \<open>The part between arming the guard and the deferred cleanup.\<close>

definition remediationProof :: "ctl_config \<Rightarrow> 'h ctl_libs \<Rightarrow> u64 \<Rightarrow> ctl \<Rightarrow> err option \<times> ctl" where
  "remediationProof cf X proofEpoch s =
     (case integrityProofIntact proofEpoch s of
        (False, s) \<Rightarrow> (Some (Msg ''integrity failure interrupted recovery pre-arm''), s)
      | (True, s) \<Rightarrow>
     (case verifyCurrentProgramLocked cf X s of
        (Some e, s) \<Rightarrow> (Some (Wrap ''verify neutral steering before recovery prepare'' [e]), s)
      | (None, s) \<Rightarrow>
     (case connectionCounts cf s of
        (Inl e, s) \<Rightarrow> (Some (Wrap ''snapshot conntracks before recovery prepare'' [e]), s)
      | (Inr counts, s) \<Rightarrow>
     (case integrityProofIntact proofEpoch s of
        (False, s) \<Rightarrow> (Some (Msg ''integrity failure interrupted recovery proof''), s)
      | (True, s) \<Rightarrow>
     (case reconstructAndVerifyLiveEnginesLocked X s of
        (Some e, s) \<Rightarrow> (Some (Wrap ''reconstruct retained engines before recovery prepare'' [e]), s)
      | (None, s) \<Rightarrow>
     (case integrityProofIntact proofEpoch s of
        (False, s) \<Rightarrow> (Some (Msg ''integrity failure interrupted retained-engine verification''), s)
      | (True, s) \<Rightarrow>
     (case integrityProofIntact proofEpoch (reconcileReservedGenerationsLocked counts s) of
        (False, s) \<Rightarrow> (Some (Msg ''integrity failure interrupted recovery proof''), s)
      | (True, s) \<Rightarrow>
     (case recoveryGateIntactLocked proofEpoch
             (s\<lparr>c_remediation := True, c_remediationEpoch := proofEpoch\<rparr>) of
        (False, s) \<Rightarrow> (Some (Msg ''integrity failure interrupted recovery arm''), s)
      | (True, s) \<Rightarrow> (None, s)))))))))"

definition establishRemediationGateLocked :: "ctl_config \<Rightarrow> 'h ctl_libs \<Rightarrow> ctl \<Rightarrow> err option \<times> ctl" where
  "establishRemediationGateLocked cf X s =
     (case Load at_persistFatal s of
        (fatal, s) \<Rightarrow>
     (if c_activeNew s \<noteq> 0 \<or> \<not> c_unsafe s \<or> fatal then (Some (Msg ''adapter integrity fault is latched''), s)
      else if cf_StateFile cf = []
        then (Some (Msg ''adapter integrity fault cannot be remediated without durable state''), s)
      else case sys_call (c_world s) of
        (Some e, w) \<Rightarrow> (Some (Wrap ''verify durable state before recovery prepare'' [e]), s\<lparr>c_world := w\<rparr>)
      | (None, w) \<Rightarrow>
     (let s = s\<lparr>c_world := w\<rparr>
      in if w_visible w = None then (Some (Msg ''verify durable state before recovery prepare''), s)
         else if w_visible w = Some (Bad [])
           then (Some (Msg ''verify durable state before recovery prepare: state file is empty''), s)
         else if \<not> cf_Connections cf
           then (Some (Msg ''snapshot conntracks before recovery prepare: counter is not configured''), s)
         else case Load at_integrityReconciling s of
           (True, s) \<Rightarrow> (Some (Msg ''integrity reconciliation is still in progress''), s)
         | (False, s) \<Rightarrow>
     (case Load at_faultEpoch s of
        (proofEpoch, s) \<Rightarrow>
     (case remediationProof cf X proofEpoch (Guard True (no_remediation s)) of
        (None, s) \<Rightarrow> (None, s)
      | (Some e, s) \<Rightarrow> (Some e, snd (DisarmGuard (no_remediation s))))))))"

section \<open>Preparing by identity\<close>

definition interrupted :: err where
  "interrupted = Msg ''integrity failure interrupted recovery prepare''"

text \<open>\<open>recovery && !c.recoveryGateIntactLocked(recoveryEpoch)\<close>\<close>

definition gate_broken :: "bool \<Rightarrow> u64 \<Rightarrow> ctl \<Rightarrow> err option \<times> ctl" where
  "gate_broken recovery epoch s =
     (if \<not> recovery then (None, s)
      else case recoveryGateIntactLocked epoch s of (ok, s) \<Rightarrow> (if ok then None else Some interrupted, s))"

text \<open>From the choice of a number to the durable record.\<close>

definition prepareNew ::
  "ctl_config \<Rightarrow> 'h ctl_libs \<Rightarrow> bool \<Rightarrow> u64 \<Rightarrow> Artifact \<Rightarrow> ctl \<Rightarrow> err option \<times> ctl" where
  "prepareNew cf X recovery epoch artifact s =
     (if int (length (c_generations s)) \<ge> cf_MaxGenerations cf
      then (Some (Wrap ''live generation budget is full'' [Sent ErrLifecycleConflict]), s)
      else
        (let gid = nextGenerationLocked s
         in if gid = 0 then (Some (Wrap ''no private generation ID is available'' [Sent ErrLifecycleConflict]), s)
            else
     (case gate_broken recovery epoch s of
        (Some e, s) \<Rightarrow> (Some e, s)
      | (None, s) \<Rightarrow>
     (case prepareArtifactLocked cf X gid (a_metadata artifact) (a_payload artifact) s of
        (Some e, s) \<Rightarrow> (Some e, s)
      | (None, s) \<Rightarrow>
     (case or_discard gid (\<lambda>e. e) (gate_broken recovery epoch s) of
        (Some e, s) \<Rightarrow> (Some e, s)
      | (None, s) \<Rightarrow>
     (case or_discard gid (\<lambda>e. Wrap ''budget'' [Sent ErrLifecycleConflict])
             (validateResourceBudgetsLocked cf s, s) of
        (Some e, s) \<Rightarrow> (Some e, s)
      | (None, s) \<Rightarrow>
     (case or_discard gid (\<lambda>e. e) (gate_broken recovery epoch s) of
        (Some e, s) \<Rightarrow> (Some e, s)
      | (None, s) \<Rightarrow> or_discard gid (\<lambda>e. e) (persistLocked cf s))))))))"

definition ctl_Prepare :: "ctl_config \<Rightarrow> 'h ctl_libs \<Rightarrow> Artifact \<Rightarrow> ctl \<Rightarrow> err option \<times> ctl" where
  "ctl_Prepare cf X artifact s =
     (case ValidateFor (xl_sha X) artifact (Descriptor cf) of
        Some e \<Rightarrow> (Some (Wrap ''artifact'' [Sent ErrInvalidStrategy]), s)
      | None \<Rightarrow>
     (case ctxErr s of
        (Some e, s) \<Rightarrow> (Some e, s)
      | (None, s) \<Rightarrow>
     (case verifyArtifact X (a_Identity artifact) (a_payload artifact) of
        Some e \<Rightarrow> (Some e, s)
      | None \<Rightarrow>
     (case Load at_faultLatched s of
        (recovery, s) \<Rightarrow>
     (case (if recovery then establishRemediationGateLocked cf X s else (None, s)) of
        (Some e, s) \<Rightarrow> (Some e, s)
      | (None, s) \<Rightarrow>
     (let epoch = (if recovery then c_remediationEpoch s else 0)
      in case generationForIdentityLocked (a_Identity artifact) s of
           Inl e \<Rightarrow> (Some e, s)
         | Inr (Some (gid, gen)) \<Rightarrow>
             (if gs_DNA gen \<noteq> a_payload artifact \<or> gs_Metadata gen \<noteq> a_metadata artifact
              then (Some (Wrap ''identity already mapped'' [Sent ErrLifecycleConflict]), s)
              else gate_broken recovery epoch s)
         | Inr None \<Rightarrow> prepareNew cf X recovery epoch artifact s))))))"

definition ctl_Verify :: "ctl_config \<Rightarrow> 'h ctl_libs \<Rightarrow> Artifact \<Rightarrow> ctl \<Rightarrow> err option \<times> ctl" where
  "ctl_Verify cf X artifact s =
     (case ValidateFor (xl_sha X) artifact (Descriptor cf) of
        Some e \<Rightarrow> (Some (Wrap ''artifact'' [Sent ErrInvalidStrategy]), s)
      | None \<Rightarrow>
     (case ctxErr s of
        (Some e, s) \<Rightarrow> (Some e, s)
      | (None, s) \<Rightarrow>
     (case verifyArtifact X (a_Identity artifact) (a_payload artifact) of
        Some e \<Rightarrow> (Some e, s)
      | None \<Rightarrow>
     (case generationForIdentityLocked (a_Identity artifact) s of
        Inl e \<Rightarrow> (Some e, s)
      | Inr None \<Rightarrow> (Some (Wrap ''artifact has not been prepared'' [Sent ErrLifecycleConflict]), s)
      | Inr (Some (gid, gen)) \<Rightarrow>
          (if gs_DNA gen \<noteq> a_payload artifact \<or> gs_Metadata gen \<noteq> a_metadata artifact
           then (Some (Wrap ''artifact has not been prepared'' [Sent ErrLifecycleConflict]), s)
           else (None, s))))))"

end
