(* ===== verification/Ctl_Activate.thy ===== *)
theory Ctl_Activate
  imports Ctl_Prepare
begin

text \<open>
  Activation, deactivation and rollback: which generation new connections are assigned to. An
  activation persists its intent first, then installs rules in two transactions with the
  neutral boundary between them, and compensates every failure.
\<close>

section \<open>Activation\<close>

text \<open>The locals \<open>activateLocked\<close> captures before it changes anything.\<close>

record saved =
  sv_hadSteering :: bool
  sv_active :: u32
  sv_previous :: u32
  sv_unsafe :: bool
  sv_failure :: string
  sv_remediation :: bool
  sv_remediationEpoch :: u64
  sv_repairGuard :: bool
  sv_repairEpoch :: u64
  sv_phases :: "(u32 \<times> Phase) list"

definition act_save :: "ctl \<Rightarrow> saved \<times> ctl" where
  "act_save s =
     (case Load at_repairGuard s of
        (guard, s) \<Rightarrow>
     (case Load at_faultEpoch s of
        (epoch, s) \<Rightarrow>
          (\<lparr>sv_hadSteering = hasSteeringLocked s, sv_active = c_activeNew s, sv_previous = c_previous s,
            sv_unsafe = c_unsafe s, sv_failure = c_failure s, sv_remediation = c_remediation s,
            sv_remediationEpoch = c_remediationEpoch s, sv_repairGuard = guard,
            sv_repairEpoch = epoch, sv_phases = phasesLocked s\<rparr>, s)))"

definition restoreState :: "saved \<Rightarrow> ctl \<Rightarrow> ctl" where
  "restoreState sv s =
     (let fatalFailure = c_failure s;
          s = restoreLocked (sv_active sv) (sv_previous sv) (sv_unsafe sv) (sv_failure sv)
                (sv_remediation sv) (sv_remediationEpoch sv) (sv_phases sv) s;
          s = (if \<not> sv_repairGuard sv then Guard False s else s)
      in case Load at_persistFatal s of
           (False, s) \<Rightarrow> s
         | (True, s) \<Rightarrow>
             Guard False (Latch True
               (s\<lparr>c_unsafe := True, c_remediation := False, c_remediationEpoch := 0,
                  c_failure := fatalFailure\<rparr>)))"

definition act_intend :: "saved \<Rightarrow> u32 \<Rightarrow> ctl \<Rightarrow> ctl" where
  "act_intend sv gid s =
     (let s = (if sv_active sv \<noteq> 0 \<and> sv_active sv \<noteq> gid
               then (set_phase (sv_active sv) PhaseDraining s)\<lparr>c_previous := sv_active sv\<rparr> else s)
      in (set_phase gid PhaseActive s)\<lparr>c_activeNew := gid\<rparr>)"

text \<open>How a refused repair leaves the state: restored, without permission, latched.\<close>

definition act_refuse :: "saved \<Rightarrow> ctl \<Rightarrow> ctl" where
  "act_refuse sv s = Latch True (Guard False (no_remediation (restoreState sv s)))"

definition act_repair :: "'h ctl_libs \<Rightarrow> saved \<Rightarrow> ctl \<Rightarrow> err option \<times> ctl" where
  "act_repair X sv s =
     (let s = (if \<not> sv_remediation sv then Guard True s else s);
          s = no_remediation (s\<lparr>c_unsafe := False, c_failure := []\<rparr>)
      in case reconstructAndVerifyLiveEnginesLocked X s of
           (Some e, s) \<Rightarrow>
             (Some (Wrap ''verify retained engines before lifecycle repair'' [e]), act_refuse sv s)
         | (None, s) \<Rightarrow>
             (case integrityProofIntact (sv_repairEpoch sv) s of
                (True, s) \<Rightarrow> (None, s)
              | (False, s) \<Rightarrow>
                  (Some (Msg ''integrity failure interrupted retained-engine verification''),
                   act_refuse sv s)))"

text \<open>
  Compensation after a failed transaction: the old state and the old program come back, and if
  that fails too the adapter fails closed.
\<close>

definition act_compensate ::
  "ctl_config \<Rightarrow> 'h ctl_libs \<Rightarrow> saved \<Rightarrow> bool \<Rightarrow> err \<Rightarrow> err \<Rightarrow> ctl \<Rightarrow> err option \<times> ctl" where
  "act_compensate cf X sv offloads e result s =
     (let s = restoreState sv s
      in case programLocked cf X (liveLocked s) (sv_active sv) False s of
           (programErr, s) \<Rightarrow>
         (case persistLocked cf s of
           (persistErr, s) \<Rightarrow>
         (case (if offloads \<and> \<not> sv_hadSteering sv then restoreOffloads cf s else (None, s)) of
           (restoreErr, s) \<Rightarrow>
             (case errors_Join [errors_Join [programErr, persistErr], restoreErr] of
                None \<Rightarrow> (Some result, s)
              | Some recoveryErr \<Rightarrow>
                  (let failure = Wrap [] [e, Wrap ''compensation failed'' [recoveryErr]]
                   in (Some failure, integrityFailureLocked cf X failure s))))))"

definition act_offloads :: "ctl_config \<Rightarrow> 'h ctl_libs \<Rightarrow> saved \<Rightarrow> ctl \<Rightarrow> err option \<times> ctl" where
  "act_offloads cf X sv s =
     (case ensureOffloadsDown cf X s of
        (None, s) \<Rightarrow> (None, s)
      | (Some e, s) \<Rightarrow>
          (case persistLocked cf (restoreState sv s) of
             (None, s) \<Rightarrow> (Some e, s)
           | (Some persistErr, s) \<Rightarrow>
               (let failure = Wrap [] [e, Wrap ''persist offload compensation'' [persistErr]]
                in (Some failure, integrityFailureLocked cf X failure s))))"

text \<open>
  The two transactions. The first adds the target's rules while assignment stays as it was, or
  on a first activation assigns the neutral generation; the second changes assignment only.
\<close>

definition act_program ::
  "ctl_config \<Rightarrow> 'h ctl_libs \<Rightarrow> saved \<Rightarrow> u32 \<Rightarrow> ctl \<Rightarrow> err option \<times> ctl" where
  "act_program cf X sv gid s =
     (let gens = liveLocked s; neutralBoundary = (sv_active sv = 0)
      in case programModeLocked cf X gens (sv_active sv) neutralBoundary True s of
           (Some e, s) \<Rightarrow> act_compensate cf X sv True e e s
         | (None, s) \<Rightarrow>
         (case (if neutralBoundary \<and> cf_Connections cf then neutralizeConnections cf s else ((0, None), s)) of
           ((_, Some e), s) \<Rightarrow>
             act_compensate cf X sv False e (Wrap ''neutralize pre-activation conntracks'' [e]) s
         | ((_, None), s) \<Rightarrow>
         (case programLocked cf X gens gid False s of
           (Some e, s) \<Rightarrow> act_compensate cf X sv True e e s
         | (None, s) \<Rightarrow>
         (case reg_Activate gid (c_eng s) of
           (Some e, eng) \<Rightarrow> (Some e, integrityFailureLocked cf X e (s\<lparr>c_eng := eng\<rparr>))
         | (None, eng) \<Rightarrow> (None, s\<lparr>c_eng := eng\<rparr>)))))"

definition act_unlatch :: "saved \<Rightarrow> ctl \<Rightarrow> err option \<times> ctl" where
  "act_unlatch sv s =
     (case DisarmGuard (Latch False s) of
        (guardIntact, s) \<Rightarrow>
          (if \<not> guardIntact then
             (Some (Msg ''integrity failure interrupted lifecycle remediation''), Latch True s)
           else
             (case Load at_faultEpoch s of
                (epoch, s) \<Rightarrow>
                  if epoch \<noteq> sv_repairEpoch sv
                  then (Some (Msg ''integrity failure interrupted lifecycle remediation''), Latch True s)
                  else (None, s))))"

definition activateLocked ::
  "ctl_config \<Rightarrow> 'h ctl_libs \<Rightarrow> u32 \<Rightarrow> bool \<Rightarrow> ctl \<Rightarrow> err option \<times> ctl" where
  "activateLocked cf X gid repair s =
     (case gen_of s gid of
        None \<Rightarrow> (Some (Wrap ''generation is not prepared'' [Sent ErrLifecycleConflict]), s)
      | Some tgt \<Rightarrow>
     (if sc_Idle (gs_Scope tgt)
      then (Some (Wrap ''generation has an empty steering scope'' [Sent ErrLifecycleConflict]), s)
      else case act_save s of
        (sv, s) \<Rightarrow>
     (case (if repair then act_repair X sv (act_intend sv gid s) else (None, act_intend sv gid s)) of
        (Some e, s) \<Rightarrow> (Some e, s)
      | (None, s) \<Rightarrow>
     (case persistLocked cf s of
        (Some e, s) \<Rightarrow> (Some e, restoreState sv s)
      | (None, s) \<Rightarrow>
     (case act_offloads cf X sv s of
        (Some e, s) \<Rightarrow> (Some e, s)
      | (None, s) \<Rightarrow>
     (case act_program cf X sv gid s of
        (Some e, s) \<Rightarrow> (Some e, s)
      | (None, s) \<Rightarrow> (if repair then act_unlatch sv s else (None, s))))))))"

section \<open>The operations that activate\<close>

definition latched_error :: err where
  "latched_error = Msg ''adapter integrity fault is latched; rollback is required''"

definition not_prepared :: err where
  "not_prepared = Wrap ''artifact has not been prepared'' [Sent ErrLifecycleConflict]"

definition ActivateForNewConnections ::
  "ctl_config \<Rightarrow> 'h ctl_libs \<Rightarrow> Artifact \<Rightarrow> ctl \<Rightarrow> err option \<times> ctl" where
  "ActivateForNewConnections cf X artifact s =
     (case ValidateFor (xl_sha X) artifact (Descriptor cf) of
        Some e \<Rightarrow> (Some (Wrap ''artifact'' [Sent ErrInvalidStrategy]), s)
      | None \<Rightarrow>
     (case Load at_faultLatched s of
        (latched1, s) \<Rightarrow>
     (case (if latched1 \<and> c_activeNew s = 0
            then (case Load at_persistFatal s of
                    (True, s) \<Rightarrow> (False, s)
                  | (False, s) \<Rightarrow> recoveryGateIntactLocked (c_remediationEpoch s) s)
            else (False, s)) of
        (remediation, s) \<Rightarrow>
     (case Load at_faultLatched s of
        (latched2, s) \<Rightarrow>
     (if latched2 \<and> \<not> remediation then (Some latched_error, s)
      else case generationForIdentityLocked (a_Identity artifact) s of
        Inl e \<Rightarrow> (Some e, s)
      | Inr None \<Rightarrow> (Some not_prepared, s)
      | Inr (Some (gid, gen)) \<Rightarrow>
     (if gs_DNA gen \<noteq> a_payload artifact \<or> gs_Metadata gen \<noteq> a_metadata artifact
      then (Some not_prepared, s)
      else if c_activeNew s = gid then (None, s)
      else case (if remediation then verifyCurrentProgramLocked cf X s else (None, s)) of
        (Some e, s) \<Rightarrow> (Some (Wrap ''verify neutral steering before recovery activation'' [e]), s)
      | (None, s) \<Rightarrow> activateLocked cf X gid remediation s))))))"

definition ActivateDeployment ::
  "ctl_config \<Rightarrow> 'h ctl_libs \<Rightarrow> Deployment \<Rightarrow> Deployment \<Rightarrow> ctl \<Rightarrow> err option \<times> ctl" where
  "ActivateDeployment cf X target_dp expected s =
     (case Load at_faultLatched s of
        (True, s) \<Rightarrow> (Some latched_error, s)
      | (False, s) \<Rightarrow>
     (case Load at_faultLatched s of
        (True, s) \<Rightarrow> (Some latched_error, s)
      | (False, s) \<Rightarrow>
     (if matchesLocked target_dp s \<and> c_activeNew s = dp_Generation target_dp then (None, s)
      else if \<not> activeMatchesLocked expected s
        then (Some (Msg ''active deployment precondition does not match''), s)
      else if \<not> matchesLocked target_dp s
        then (Some (Msg ''target deployment identity does not match prepared generation''), s)
      else activateLocked cf X (dp_Generation target_dp) False s)))"

definition ActivateNew :: "ctl_config \<Rightarrow> 'h ctl_libs \<Rightarrow> u32 \<Rightarrow> ctl \<Rightarrow> err option \<times> ctl" where
  "ActivateNew cf X gid s =
     (case Load at_faultLatched s of
        (True, s) \<Rightarrow> (Some latched_error, s)
      | (False, s) \<Rightarrow>
     (case Load at_faultLatched s of
        (True, s) \<Rightarrow> (Some latched_error, s)
      | (False, s) \<Rightarrow>
     (if c_unsafe s then (Some (Msg ''adapter is unsafe after integrity failure''), s)
      else activateLocked cf X gid False s)))"

section \<open>Deactivation\<close>

definition deactivateLocked :: "ctl_config \<Rightarrow> 'h ctl_libs \<Rightarrow> ctl \<Rightarrow> err option \<times> ctl" where
  "deactivateLocked cf X s =
     (let old = c_activeNew s; oldPrevious = c_previous s
      in if old = 0 then (None, s)
         else
     (case persistLocked cf ((set_phase old PhaseDraining s)\<lparr>c_previous := old, c_activeNew := 0\<rparr>) of
        (Some e, s) \<Rightarrow>
          (Some e, (set_phase old PhaseActive s)\<lparr>c_previous := oldPrevious, c_activeNew := old\<rparr>)
      | (None, s) \<Rightarrow>
     (case programLocked cf X (liveLocked s) 0 True s of
        (None, s) \<Rightarrow> (None, s\<lparr>c_eng := reg_Deactivate (c_eng s)\<rparr>)
      | (Some e, s) \<Rightarrow>
          (let s = (set_phase old PhaseActive s)\<lparr>c_previous := oldPrevious, c_activeNew := old\<rparr>
           in case programLocked cf X (liveLocked s) old False s of
                (programErr, s) \<Rightarrow>
              (case persistLocked cf s of
                (persistErr, s) \<Rightarrow>
              (case errors_Join [programErr, persistErr] of
                 None \<Rightarrow> (Some e, s)
               | Some recoveryErr \<Rightarrow>
                   (let failure = Wrap [] [e, Wrap ''deactivation compensation failed'' [recoveryErr]]
                    in (Some failure, integrityFailureLocked cf X failure s))))))))"

definition DeactivateForNewConnections ::
  "ctl_config \<Rightarrow> 'h ctl_libs \<Rightarrow> Identity \<Rightarrow> ctl \<Rightarrow> err option \<times> ctl" where
  "DeactivateForNewConnections cf X ident s =
     (case Load at_faultLatched s of
        (True, s) \<Rightarrow> (Some latched_error, s)
      | (False, s) \<Rightarrow>
          (if c_activeNew s = 0 then (None, s)
           else case gen_of s (c_activeNew s) of
                  None \<Rightarrow> (None, s)
                | Some active \<Rightarrow>
                    if gs_Identity active \<noteq> ident then (None, s) else deactivateLocked cf X s))"

definition DeactivateNew :: "ctl_config \<Rightarrow> 'h ctl_libs \<Rightarrow> ctl \<Rightarrow> err option \<times> ctl" where
  "DeactivateNew = deactivateLocked"

definition DeactivateDeployment ::
  "ctl_config \<Rightarrow> 'h ctl_libs \<Rightarrow> Deployment \<Rightarrow> ctl \<Rightarrow> err option \<times> ctl" where
  "DeactivateDeployment cf X expected s =
     (if c_activeNew s = 0 then (None, s)
      else if \<not> activeMatchesLocked expected s
        then (Some (Msg ''active deployment precondition does not match; no change made''), s)
      else deactivateLocked cf X s)"

section \<open>Rollback\<close>

definition different_content :: err where
  "different_content = Wrap ''rollback artifact identity is retained with different content'' [Sent ErrLifecycleConflict]"

definition budget_full :: err where
  "budget_full = Wrap ''live generation budget is full'' [Sent ErrLifecycleConflict]"

text \<open>
  \<open>Rollback\<close> releases the mutex around the conntrack snapshot. Its first half either finishes or
  asks for the snapshot; its second half runs on whatever state it finds afterwards.
\<close>

definition rollbackRetained ::
  "ctl_config \<Rightarrow> 'h ctl_libs \<Rightarrow> Artifact \<Rightarrow> u32 \<Rightarrow> generationState \<Rightarrow> ctl \<Rightarrow> err option \<times> ctl" where
  "rollbackRetained cf X artifact gid gen s =
     (if gs_DNA gen \<noteq> a_payload artifact \<or> gs_Metadata gen \<noteq> a_metadata artifact
      then (Some different_content, s)
      else activateLocked cf X gid True s)"

datatype 'a halfway = Finished "err option" | Waiting 'a

definition rollback_begin ::
  "ctl_config \<Rightarrow> 'h ctl_libs \<Rightarrow> Artifact \<Rightarrow> ctl \<Rightarrow> unit halfway \<times> ctl" where
  "rollback_begin cf X artifact s =
     (case Load at_persistFatal s of
        (True, s) \<Rightarrow> (Finished (Some (Msg ''adapter durability failure requires process restart'')), s)
      | (False, s) \<Rightarrow>
     (case ValidateFor (xl_sha X) artifact (Descriptor cf) of
        Some e \<Rightarrow> (Finished (Some (Wrap ''artifact'' [Sent ErrInvalidStrategy])), s)
      | None \<Rightarrow>
     (case generationForIdentityLocked (a_Identity artifact) s of
        Inl e \<Rightarrow> (Finished (Some e), s)
      | Inr (Some (gid, gen)) \<Rightarrow>
          (case rollbackRetained cf X artifact gid gen s of (e, s) \<Rightarrow> (Finished e, s))
      | Inr None \<Rightarrow>
          (if int (length (c_generations s)) \<ge> cf_MaxGenerations cf
           then (Finished (Some budget_full), s)
           else (Waiting (), s)))))"

definition rollback_uncounted :: "ctl_config \<Rightarrow> 'h ctl_libs \<Rightarrow> err \<Rightarrow> ctl \<Rightarrow> err option \<times> ctl" where
  "rollback_uncounted cf X e s =
     (let cause = Wrap ''cannot prove a zero-flow generation for rollback'' [e];
          s = Guard False (Latch True s);
          s = appendFailureLocked (err_Error cause)
                (s\<lparr>c_unsafe := True, c_remediation := False, c_remediationEpoch := 0\<rparr>)
      in (Some cause, if c_activeNew s \<noteq> 0 then integrityFailureLocked cf X cause s else s))"

definition rollback_finish ::
  "ctl_config \<Rightarrow> 'h ctl_libs \<Rightarrow> Artifact \<Rightarrow> (u32 \<times> int) list \<Rightarrow> ctl \<Rightarrow> err option \<times> ctl" where
  "rollback_finish cf X artifact counts s =
     (case generationForIdentityLocked (a_Identity artifact) s of
        Inl e \<Rightarrow> (Some e, s)
      | Inr (Some (gid, gen)) \<Rightarrow> rollbackRetained cf X artifact gid gen s
      | Inr None \<Rightarrow>
     (if int (length (c_generations s)) \<ge> cf_MaxGenerations cf then (Some budget_full, s)
      else
        (let s = reconcileReservedGenerationsLocked counts s;
             gid = nextGenerationLocked s
         in if gid = 0
            then (Some (Wrap ''no proven-zero private generation ID'' [Sent ErrLifecycleConflict]), s)
            else
     (case prepareArtifactLocked cf X gid (a_metadata artifact) (a_payload artifact) s of
        (Some e, s) \<Rightarrow> (Some e, s)
      | (None, s) \<Rightarrow>
     (case or_discard gid (\<lambda>e. Wrap ''budget'' [Sent ErrLifecycleConflict])
             (validateResourceBudgetsLocked cf s, s) of
        (Some e, s) \<Rightarrow> (Some e, s)
      | (None, s) \<Rightarrow>
     (case or_discard gid (\<lambda>e. e) (persistLocked cf s) of
        (Some e, s) \<Rightarrow> (Some e, s)
      | (None, s) \<Rightarrow> activateLocked cf X gid True s))))))"

text \<open>With nothing else running while the mutex is free.\<close>

definition Rollback :: "ctl_config \<Rightarrow> 'h ctl_libs \<Rightarrow> Artifact \<Rightarrow> ctl \<Rightarrow> err option \<times> ctl" where
  "Rollback cf X artifact s =
     (case rollback_begin cf X artifact s of
        (Finished e, s) \<Rightarrow> (e, s)
      | (Waiting _, s) \<Rightarrow>
          (case connectionCounts cf s of
             (Inl e, s) \<Rightarrow> rollback_uncounted cf X e s
           | (Inr counts, s) \<Rightarrow> rollback_finish cf X artifact counts s))"

definition RollbackGeneration :: "ctl_config \<Rightarrow> 'h ctl_libs \<Rightarrow> u32 \<Rightarrow> ctl \<Rightarrow> err option \<times> ctl" where
  "RollbackGeneration cf X gid s =
     (let gid = (if gid = 0 then c_previous s else gid)
      in if gid = 0 then (Some (Msg ''no previous generation available for rollback''), s)
         else activateLocked cf X gid True s)"

definition RollbackDeployment ::
  "ctl_config \<Rightarrow> 'h ctl_libs \<Rightarrow> Deployment \<Rightarrow> Deployment \<Rightarrow> ctl \<Rightarrow> err option \<times> ctl" where
  "RollbackDeployment cf X target_dp expected s =
     (if c_activeNew s = dp_Generation target_dp \<and> matchesLocked target_dp s then (None, s)
      else if \<not> activeMatchesLocked expected s
        then (Some (Msg ''active deployment precondition does not match; no change made''), s)
      else if \<not> matchesLocked target_dp s
        then (Some (Msg ''rollback target identity does not match retained generation''), s)
      else activateLocked cf X (dp_Generation target_dp) True s)"

end
