(* ===== verification/Ctl_Drain.thy ===== *)
theory Ctl_Drain
  imports Ctl_Activate
begin

text \<open>
  Draining and garbage collection. Both read the conntrack table with the mutex released: the
  first half of each checks the request and remembers the generation's identity, the second
  half runs on the state it finds and checks that identity again.
\<close>

section \<open>Draining\<close>

definition drain_begin :: "u32 \<Rightarrow> ctl \<Rightarrow> Identity res \<times> ctl" where
  "drain_begin gid s =
     (case gen_of s gid of
        None \<Rightarrow> (Inl (Msg ''generation is not prepared''), s)
      | Some gen \<Rightarrow>
          if c_activeNew s = gid
          then (Inl (Wrap ''generation still accepts new connections'' [Sent ErrLifecycleConflict]), s)
          else (Inr (gs_Identity gen), s))"

definition drain_finish ::
  "ctl_config \<Rightarrow> u32 \<Rightarrow> Identity \<Rightarrow> int \<Rightarrow> ctl \<Rightarrow> int res \<times> ctl" where
  "drain_finish cf gid ident n s =
     (if (case gen_of s gid of None \<Rightarrow> True | Some gen \<Rightarrow> gs_Identity gen \<noteq> ident) \<or> c_activeNew s = gid
      then (Inl (Msg ''generation changed while drain count was in progress''), s)
      else if n = 0 then
        (case persistLocked cf (set_phase gid PhaseDrained s) of
           (Some e, s) \<Rightarrow> (Inl e, s)
         | (None, s) \<Rightarrow> (Inr n, s))
      else (Inr n, set_phase gid PhaseDraining s))"

definition DrainGeneration :: "ctl_config \<Rightarrow> 'h ctl_libs \<Rightarrow> u32 \<Rightarrow> ctl \<Rightarrow> int res \<times> ctl" where
  "DrainGeneration cf X gid s =
     (case drain_begin gid s of
        (Inl e, s) \<Rightarrow> (Inl e, s)
      | (Inr ident, s) \<Rightarrow>
          (case connectionCount cf X gid s of
             (Inl e, s) \<Rightarrow> (Inl e, s)
           | (Inr n, s) \<Rightarrow> drain_finish cf gid ident n s))"

definition DrainDeployment :: "ctl_config \<Rightarrow> 'h ctl_libs \<Rightarrow> Deployment \<Rightarrow> ctl \<Rightarrow> int res \<times> ctl" where
  "DrainDeployment cf X d s =
     (if \<not> matchesLocked d s then (Inl (Msg ''drain deployment identity does not match''), s)
      else DrainGeneration cf X (dp_Generation d) s)"

record DrainResult =
  dr_Complete :: bool
  dr_RemainingConnections :: u64

definition Drain :: "ctl_config \<Rightarrow> 'h ctl_libs \<Rightarrow> Identity \<Rightarrow> ctl \<Rightarrow> DrainResult res \<times> ctl" where
  "Drain cf X ident s =
     (case generationForIdentityLocked ident s of
        Inl e \<Rightarrow> (Inl e, s)
      | Inr None \<Rightarrow> (Inr \<lparr>dr_Complete = True, dr_RemainingConnections = 0\<rparr>, s)
      | Inr (Some (gid, gen)) \<Rightarrow>
          (case DrainGeneration cf X gid s of
             (Inl e, s) \<Rightarrow> (Inl e, s)
           | (Inr n, s) \<Rightarrow> (Inr \<lparr>dr_Complete = (n = 0), dr_RemainingConnections = of_int n\<rparr>, s)))"

section \<open>Garbage collection\<close>

definition gc_begin :: "u32 \<Rightarrow> ctl \<Rightarrow> Identity res \<times> ctl" where
  "gc_begin gid s =
     (case Load at_faultLatched s of
        (True, s) \<Rightarrow> (Inl latched_error, s)
      | (False, s) \<Rightarrow>
          (case gen_of s gid of
             None \<Rightarrow> (Inl (Msg ''generation is not prepared''), s)
           | Some gen \<Rightarrow>
               if c_activeNew s = gid then (Inl (Msg ''generation still accepts new connections''), s)
               else (Inr (gs_Identity gen), s)))"

text \<open>Putting the generation back after a step failed, and the program that goes with it.\<close>

definition gc_compensate ::
  "ctl_config \<Rightarrow> 'h ctl_libs \<Rightarrow> string \<Rightarrow> (u32 \<times> generationState) list \<Rightarrow> u32 \<Rightarrow> err \<Rightarrow> ctl \<Rightarrow> err option \<times> ctl" where
  "gc_compensate cf X what gens prev e s =
     (let s = s\<lparr>c_generations := gens, c_previous := prev\<rparr>
      in case programLocked cf X (liveLocked s) (c_activeNew s) False s of
           (None, s) \<Rightarrow> (Some e, s)
         | (Some recoveryErr, s) \<Rightarrow>
             (let failure = Wrap [] [e, Wrap what [recoveryErr]]
              in (Some failure, integrityFailureLocked cf X failure s)))"

definition gc_delete :: "u32 \<Rightarrow> ctl \<Rightarrow> ctl" where
  "gc_delete gid s =
     (let s = delete_gen gid s in if c_previous s = gid then s\<lparr>c_previous := 0\<rparr> else s)"

text \<open>Deleting, programming and removing, each failure of the first steps compensated.\<close>

definition gc_collect :: "ctl_config \<Rightarrow> 'h ctl_libs \<Rightarrow> u32 \<Rightarrow> ctl \<Rightarrow> err option \<times> ctl" where
  "gc_collect cf X gid s =
     (let gens = c_generations s; prev = c_previous s; s = gc_delete gid s
      in case programLocked cf X (liveLocked s) (c_activeNew s) True s of
           (Some e, s) \<Rightarrow> gc_compensate cf X ''GC compensation failed'' gens prev e s
         | (None, s) \<Rightarrow>
           (case reg_Remove gid (c_eng s) of
              (Some e, eng) \<Rightarrow> gc_compensate cf X ''engine-removal compensation failed'' gens prev e (s\<lparr>c_eng := eng\<rparr>)
            | (None, eng) \<Rightarrow>
              (let s = s\<lparr>c_eng := eng\<rparr>
               in case (if hasSteeringLocked s then (None, s) else restoreOffloads cf s) of
                    (Some e, s) \<Rightarrow> (Some e, s)
                  | (None, s) \<Rightarrow> persistLocked cf s)))"

definition gc_finish ::
  "ctl_config \<Rightarrow> 'h ctl_libs \<Rightarrow> u32 \<Rightarrow> Identity \<Rightarrow> int \<Rightarrow> ctl \<Rightarrow> err option \<times> ctl" where
  "gc_finish cf X gid ident n s =
     (if n \<noteq> 0 then (Some (Wrap ''generation still has connections'' [Sent ErrLifecycleConflict]), s)
      else case Load at_faultLatched s of
        (True, s) \<Rightarrow> (Some latched_error, s)
      | (False, s) \<Rightarrow>
     (if (case gen_of s gid of None \<Rightarrow> True | Some gen \<Rightarrow> gs_Identity gen \<noteq> ident) \<or> c_activeNew s = gid
      then (Some (Msg ''generation changed while garbage-collection count was in progress''), s)
      else gc_collect cf X gid s))"

definition GarbageCollectGeneration :: "ctl_config \<Rightarrow> 'h ctl_libs \<Rightarrow> u32 \<Rightarrow> ctl \<Rightarrow> err option \<times> ctl" where
  "GarbageCollectGeneration cf X gid s =
     (case gc_begin gid s of
        (Inl e, s) \<Rightarrow> (Some e, s)
      | (Inr ident, s) \<Rightarrow>
          (case connectionCount cf X gid s of
             (Inl e, s) \<Rightarrow> (Some e, s)
           | (Inr n, s) \<Rightarrow> gc_finish cf X gid ident n s))"

definition gc_candidates :: "Identity list \<Rightarrow> ctl \<Rightarrow> Deployment list" where
  "gc_candidates keep s =
     map (\<lambda>(gid, g). \<lparr>dp_Generation = gid, dp_Identity = gs_Identity g\<rparr>)
       (filter (\<lambda>(gid, g). \<not> (gs_Identity g \<in> set keep \<or> gid = c_activeNew s \<or> gs_Phase g = PhaseDraining))
          (c_generations s))"

fun gc_loop :: "ctl_config \<Rightarrow> 'h ctl_libs \<Rightarrow> Deployment list \<Rightarrow> ctl \<Rightarrow> err option \<times> ctl" where
  "gc_loop cf X [] s = (None, s)"
| "gc_loop cf X (d # ds) s =
     (if \<not> matchesLocked d s then (Some (Msg ''generation identity changed during GC''), s)
      else case GarbageCollectGeneration cf X (dp_Generation d) s of
             (Some e, s) \<Rightarrow> (Some e, s)
           | (None, s) \<Rightarrow> gc_loop cf X ds s)"

definition GarbageCollect :: "ctl_config \<Rightarrow> 'h ctl_libs \<Rightarrow> Identity list \<Rightarrow> ctl \<Rightarrow> err option \<times> ctl" where
  "GarbageCollect cf X keep s = gc_loop cf X (gc_candidates keep s) s"

end
