(* ===== verification/Ctl_Start.thy ===== *)
theory Ctl_Start
  imports Ctl_Drain
begin

text \<open>
  Startup and shutdown: reading the durable state back, quarantining one that cannot be used,
  auditing the conntrack table, rebuilding the program, and proving that a latched adapter may
  be repaired.
\<close>

section \<open>Loading\<close>

definition state_limit :: "ctl_config \<Rightarrow> int" where
  "state_limit cf = cf_MaxGenerations cf * (int maxGenerationArtifact + 4096) + 4096"

text \<open>One saved generation against its artifact contract, and against those before it.\<close>

definition checkSaved ::
  "ctl_config \<Rightarrow> 'h ctl_libs \<Rightarrow> generationState list \<Rightarrow> generationState \<Rightarrow> err option" where
  "checkSaved cf X before saved =
     (case Mark (gs_ID saved) of
        Inl e \<Rightarrow> Some e
      | Inr _ \<Rightarrow>
     (if gs_ID saved \<in> gs_ID ` set before then Some (Msg ''adapter state contains duplicate generation'')
      else if gs_Identity saved \<in> gs_Identity ` set before
        then Some (Msg ''adapter state maps artifact identity to two generations'')
      else if gs_Phase saved \<notin> {PhasePrepared, PhaseActive, PhaseDraining, PhaseDrained}
        then Some (Msg ''generation has invalid phase'')
      else case NewArtifact (xl_sha X) (gs_Metadata saved) (gs_DNA saved) of
        Inl e \<Rightarrow> Some (Wrap ''metadata'' [Sent ErrStateCompatibility, e])
      | Inr artifact \<Rightarrow>
     (if a_Identity artifact \<noteq> gs_Identity saved
      then Some (Wrap ''metadata identity does not match retained identity'' [Sent ErrStateCompatibility])
      else case ValidateFor (xl_sha X) artifact (Descriptor cf) of
        Some e \<Rightarrow> Some (Wrap ''artifact'' [Sent ErrStateCompatibility, e])
      | None \<Rightarrow>
     (if gs_Digest saved \<noteq> m_Digest (gs_Metadata saved)
      then Some (Msg ''digest does not match persisted artifact metadata'')
      else case verifyArtifact X (gs_Identity saved) (gs_DNA saved) of
        Some e \<Rightarrow> Some (Wrap ''validate persisted generation'' [e])
      | None \<Rightarrow> None))))"

fun checkAll ::
  "ctl_config \<Rightarrow> 'h ctl_libs \<Rightarrow> generationState list \<Rightarrow> generationState list \<Rightarrow> err option" where
  "checkAll cf X before [] = None"
| "checkAll cf X before (saved # rest) =
     (case checkSaved cf X before saved of
        Some e \<Rightarrow> Some e
      | None \<Rightarrow> checkAll cf X (before @ [saved]) rest)"

definition checkActive :: "persistedState \<Rightarrow> err option" where
  "checkActive ps =
     (if ps_ActiveNew ps = 0 then None
      else case find (\<lambda>g. gs_ID g = ps_ActiveNew ps) (ps_Generations ps) of
             None \<Rightarrow> Some (Msg ''active generation absent from adapter state'')
           | Some active \<Rightarrow>
               if gs_Phase active \<noteq> PhaseActive then Some (Msg ''active generation has another phase'') else None)"

text \<open>\<open>cleanupPrepared\<close>, and the loop that reconstructs the engines.\<close>

definition cleanupPrepared :: "u32 list \<Rightarrow> ctl \<Rightarrow> ctl" where
  "cleanupPrepared prepared s = fold discard_gen prepared s"

fun loadLoop ::
  "ctl_config \<Rightarrow> 'h ctl_libs \<Rightarrow> generationState list \<Rightarrow> u32 list \<Rightarrow> ctl \<Rightarrow> (err + u32 list) \<times> ctl" where
  "loadLoop cf X [] prepared s = (Inr prepared, s)"
| "loadLoop cf X (saved # rest) prepared s =
     (case prepareArtifactLocked cf X (gs_ID saved) (gs_Metadata saved) (gs_DNA saved) s of
        (Some e, s) \<Rightarrow> (Inl (Wrap ''reconstruct generation'' [e]), cleanupPrepared prepared s)
      | (None, s) \<Rightarrow>
          loadLoop cf X rest (prepared @ [gs_ID saved]) (set_phase (gs_ID saved) (gs_Phase saved) s))"

text \<open>
  \<open>loadLocked\<close> once the document is decoded. The offload record is kept even when the rest is
  refused, so that startup can still restore what the controller owns.
\<close>

definition loadDocument :: "ctl_config \<Rightarrow> 'h ctl_libs \<Rightarrow> persistedState \<Rightarrow> ctl \<Rightarrow> bool res \<times> ctl" where
  "loadDocument cf X ps s =
     (if (case ps_Offloads ps of None \<Rightarrow> False | Some orig \<Rightarrow> o_Interface orig \<noteq> cf_Iface cf)
      then (Inl (Msg ''persisted offload owner names another interface''), s)
      else
        (let s = s\<lparr>c_offloads := ps_Offloads ps\<rparr>
         in if ps_Version ps = 1
            then (Inl (Wrap ''state version 1 has no durable artifact metadata'' [Sent ErrStateCompatibility]), s)
            else if ps_Version ps \<noteq> persistedStateVersion
            then (Inl (Msg ''unsupported adapter state version''), s)
            else if int (length (ps_Generations ps)) > cf_MaxGenerations cf
            then (Inl (Msg ''adapter state has too many generations''), s)
            else case checkAll cf X [] (ps_Generations ps) of
              Some e \<Rightarrow> (Inl e, s)
            | None \<Rightarrow>
     (case checkActive ps of
        Some e \<Rightarrow> (Inl e, s)
      | None \<Rightarrow>
     (case loadLoop cf X (ps_Generations ps) [] s of
        (Inl e, s) \<Rightarrow> (Inl e, s)
      | (Inr prepared, s) \<Rightarrow>
     (case validateResourceBudgetsLocked cf s of
        Some e \<Rightarrow> (Inl (Wrap ''adapter state resource budget'' [e]), cleanupPrepared prepared s)
      | None \<Rightarrow>
          (Inr True,
           s\<lparr>c_activeNew := ps_ActiveNew ps, c_previous := ps_Previous ps, c_unsafe := ps_Unsafe ps,
             c_failure := ps_Failure ps, c_offloads := ps_Offloads ps,
             c_remediation := False, c_remediationEpoch := 0\<rparr>))))))"

definition loadLocked :: "ctl_config \<Rightarrow> 'h ctl_libs \<Rightarrow> ctl \<Rightarrow> bool res \<times> ctl" where
  "loadLocked cf X s =
     (if cf_StateFile cf = [] then (Inr False, s)
      else case readState (c_world s) of
        (Inl e, w) \<Rightarrow> (Inl e, s\<lparr>c_world := w\<rparr>)
      | (Inr None, w) \<Rightarrow> (Inr False, s\<lparr>c_world := w\<rparr>)
      | (Inr (Some (Bad bytes)), w) \<Rightarrow> (Inl (Msg ''decode adapter state''), s\<lparr>c_world := w\<rparr>)
      | (Inr (Some (Doc ps)), w) \<Rightarrow>
          if xl_size X ps > state_limit cf
          then (Inl (Msg ''adapter state exceeds limit''), s\<lparr>c_world := w\<rparr>)
          else loadDocument cf X ps (s\<lparr>c_world := w\<rparr>))"

definition quarantineStateLocked :: "ctl_config \<Rightarrow> ctl \<Rightarrow> err option \<times> ctl" where
  "quarantineStateLocked cf s =
     (if cf_StateFile cf = [] then (Some (Msg ''adapter state path is empty''), s)
      else case quarantineFile (c_world s) of (e, w) \<Rightarrow> (e, s\<lparr>c_world := w\<rparr>))"

section \<open>Start\<close>

definition demote_active :: "ctl \<Rightarrow> ctl" where
  "demote_active s =
     s\<lparr>c_generations := map (\<lambda>(gid, g). (gid, if gs_Phase g = PhaseActive
        then g\<lparr>gs_Phase := PhaseDraining\<rparr> else g)) (c_generations s)\<rparr>"

definition all_prepared :: "ctl \<Rightarrow> ctl" where
  "all_prepared s =
     s\<lparr>c_generations := map (\<lambda>(gid, g). (gid, g\<lparr>gs_Phase := PhasePrepared\<rparr>)) (c_generations s)\<rparr>"

text \<open>Reading durable state, or quarantining it. The result says whether it was loaded.\<close>

definition start_load :: "ctl_config \<Rightarrow> 'h ctl_libs \<Rightarrow> ctl \<Rightarrow> bool res \<times> ctl" where
  "start_load cf X s =
     (case loadLocked cf X s of
        (Inr loaded, s) \<Rightarrow> (Inr loaded, s)
      | (Inl e, s) \<Rightarrow>
          (case quarantineStateLocked cf s of
             (Some q, s) \<Rightarrow>
               (Inl (Wrap [] [Wrap ''load adapter state'' [e], Wrap ''quarantine adapter state'' [q]]), s)
           | (None, s) \<Rightarrow>
               (let s = Latch True (s\<lparr>c_unsafe := True, c_activeNew := 0\<rparr>)
                in (Inr False, s\<lparr>c_failure := ''adapter state quarantined: '' @ err_Error e\<rparr>))))"

text \<open>The conntrack audit. The result says whether the snapshot is authoritative.\<close>

definition orphans :: "ctl \<Rightarrow> (u32 \<times> int) list \<Rightarrow> int" where
  "orphans s counts = sum_list (map snd (filter (\<lambda>(gid, _). gen_of s gid = None) counts))"

definition start_audit :: "ctl_config \<Rightarrow> bool \<Rightarrow> ctl \<Rightarrow> bool \<times> ctl" where
  "start_audit cf loaded s =
     (if \<not> cf_Connections cf then (False, s)
      else
        (case connectionCounts cf s of
           (Inl e, s) \<Rightarrow>
             (let s = Latch True (s\<lparr>c_unsafe := True, c_activeNew := 0\<rparr>);
                  s = appendFailureLocked (''bounded startup conntrack audit failed: '' @ err_Error e) s
              in (False, demote_active s))
         | (Inr counts, s) \<Rightarrow>
             (let s = reconcileReservedGenerationsLocked counts s
              in (True,
                  if \<not> loaded then
                    (if sum_list (map snd counts) \<noteq> 0
                     then all_prepared (appendFailureLocked
                            ''orphaned Geneva-marked flows without durable engine state''
                            (s\<lparr>c_unsafe := True, c_activeNew := 0\<rparr>))
                     else s)
                  else
                    (if orphans s counts \<noteq> 0
                     then appendFailureLocked ''orphaned Geneva-marked flows have no reconstructed engine''
                            (s\<lparr>c_unsafe := True, c_activeNew := 0\<rparr>)
                     else s)))))"

definition start_unsafe :: "ctl \<Rightarrow> ctl" where
  "start_unsafe s =
     (if c_unsafe s then
        (let s = Latch True (no_remediation s);
             s = (if c_activeNew s \<noteq> 0 \<and> gen_of s (c_activeNew s) \<noteq> None
                  then set_phase (c_activeNew s) PhaseDraining s else s)
         in s\<lparr>c_activeNew := 0\<rparr>)
      else s)"

text \<open>Taking the table and the offloads down after a failure.\<close>

definition tear_down :: "ctl_config \<Rightarrow> 'h ctl_libs \<Rightarrow> err \<Rightarrow> ctl \<Rightarrow> err option \<times> ctl" where
  "tear_down cf X e s =
     (case removeRulesLocked cf X s of
        (removeErr, s) \<Rightarrow>
          (case (if removeErr = None then restoreOffloads cf s else (None, s)) of
             (restoreErr, s) \<Rightarrow> (errors_Join [Some e, removeErr, restoreErr], s)))"

definition restoreActiveAfterRestartLocked :: "ctl_config \<Rightarrow> 'h ctl_libs \<Rightarrow> ctl \<Rightarrow> err option \<times> ctl" where
  "restoreActiveAfterRestartLocked cf X s =
     (if \<not> cf_Connections cf
      then (Some (Msg ''cannot restore active generation without conntrack neutralization''), s)
      else
        (let active = c_activeNew s; gens = liveLocked s
         in case programModeLocked cf X gens 0 True True s of
              (Some e, s) \<Rightarrow> (Some (Wrap ''install restart neutral boundary'' [e]), s)
            | (None, s) \<Rightarrow>
            (case neutralizeConnections cf s of
              ((_, Some e), s) \<Rightarrow> (Some (Wrap ''neutralize conntracks during active restart'' [e]), s)
            | ((_, None), s) \<Rightarrow>
            (case programLocked cf X gens active False s of
              (Some e, s) \<Rightarrow> (Some (Wrap ''restore restart active assignment'' [e]), s)
            | (None, s) \<Rightarrow>
            (case reg_Activate active (c_eng s) of
              (Some e, eng) \<Rightarrow> tear_down cf X e (s\<lparr>c_eng := eng\<rparr>)
            | (None, eng) \<Rightarrow> (None, s\<lparr>c_eng := eng\<rparr>))))))"

text \<open>The process-local proof that repair is possible, made on an unsafe start.\<close>

definition startup_gate :: "ctl_config \<Rightarrow> 'h ctl_libs \<Rightarrow> u64 \<Rightarrow> ctl \<Rightarrow> err option \<times> ctl" where
  "startup_gate cf X startFaultEpoch s =
     (let interruption = Msg ''integrity signal interrupted startup recovery proof''
      in case Load at_faultEpoch s of
        (epoch, s) \<Rightarrow>
     (case (if epoch \<noteq> startFaultEpoch then (True, s) else Load at_integrityReconciling s) of
        (True, s) \<Rightarrow> (Some interruption, s)
      | (False, s) \<Rightarrow>
     (case reconstructAndVerifyLiveEnginesLocked X s of
        (Some e, s) \<Rightarrow> (Some (Wrap ''verify retained engines during startup recovery'' [e]), s)
      | (None, s) \<Rightarrow>
     (case verifyCurrentProgramLocked cf X s of
        (Some e, s) \<Rightarrow> (Some e, s)
      | (None, s) \<Rightarrow>
     (case integrityProofIntact startFaultEpoch s of
        (False, s) \<Rightarrow> (Some interruption, s)
      | (True, s) \<Rightarrow> (None, s))))))"

definition start_gate :: "ctl_config \<Rightarrow> 'h ctl_libs \<Rightarrow> u64 \<Rightarrow> bool \<Rightarrow> ctl \<Rightarrow> ctl" where
  "start_gate cf X startFaultEpoch authoritative s =
     (if \<not> (c_unsafe s \<and> authoritative \<and> cf_StateFile cf \<noteq> []) then s
      else case Load at_persistFatal s of
        (True, s) \<Rightarrow> s
      | (False, s) \<Rightarrow>
     (case startup_gate cf X startFaultEpoch (Guard True s) of
        (None, s) \<Rightarrow> s\<lparr>c_remediation := True, c_remediationEpoch := startFaultEpoch\<rparr>
      | (Some e, s) \<Rightarrow>
          appendFailureLocked (''verified-neutral recovery gate failed: '' @ err_Error e)
            (snd (DisarmGuard (no_remediation s)))))"

text \<open>From the persisted intent to a program in the kernel.\<close>

definition start_program ::
  "ctl_config \<Rightarrow> 'h ctl_libs \<Rightarrow> u64 \<Rightarrow> bool \<Rightarrow> bool \<Rightarrow> ctl \<Rightarrow> err option \<times> ctl" where
  "start_program cf X startFaultEpoch steering authoritative s =
     (case programLocked cf X (liveLocked s) (c_activeNew s) True s of
        (Some e, s) \<Rightarrow> tear_down cf X e s
      | (None, s) \<Rightarrow>
     (let s = start_gate cf X startFaultEpoch authoritative s
      in case (if \<not> steering \<and> c_offloads s \<noteq> None then restoreOffloads cf s else (None, s)) of
        (Some e, s) \<Rightarrow> (Some e, s)
      | (None, s) \<Rightarrow>
     (if c_activeNew s \<noteq> 0 then
        (case reg_Activate (c_activeNew s) (c_eng s) of
           (Some e, eng) \<Rightarrow> tear_down cf X e (s\<lparr>c_eng := eng\<rparr>)
         | (None, eng) \<Rightarrow> (None, s\<lparr>c_eng := eng\<rparr>))
      else (None, s\<lparr>c_eng := reg_Deactivate (c_eng s)\<rparr>))))"

definition Start :: "ctl_config \<Rightarrow> 'h ctl_libs \<Rightarrow> ctl \<Rightarrow> err option \<times> ctl" where
  "Start cf X s =
     (case Load at_faultEpoch s of
        (startFaultEpoch, s) \<Rightarrow>
     (case Load at_faultLatched s of
        (True, s) \<Rightarrow> (Some (Msg ''adapter integrity fault is latched''), s)
      | (False, s) \<Rightarrow>
     (case (if cf_NoNFT cf then (None, s) else removeRulesLocked cf X s) of
        (Some e, s) \<Rightarrow> (Some (Wrap ''remove stale steering before reconstruction'' [e]), s)
      | (None, s) \<Rightarrow>
     (case start_load cf X s of
        (Inl e, s) \<Rightarrow> (Some e, s)
      | (Inr loaded, s) \<Rightarrow>
     (case start_audit cf loaded s of
        (authoritative, s) \<Rightarrow>
     (case persistLocked cf (Guard False (start_unsafe s)) of
        (Some e, s) \<Rightarrow> (Some e, s)
      | (None, s) \<Rightarrow>
     (let steering = hasSteeringLocked s
      in case (if steering then ensureOffloadsDown cf X s else (None, s)) of
        (Some e, s) \<Rightarrow> (Some e, s)
      | (None, s) \<Rightarrow>
          if loaded \<and> c_activeNew s \<noteq> 0 \<and> \<not> c_unsafe s
          then restoreActiveAfterRestartLocked cf X s
          else start_program cf X startFaultEpoch steering authoritative s)))))))"

definition Close :: "ctl_config \<Rightarrow> 'h ctl_libs \<Rightarrow> ctl \<Rightarrow> err option \<times> ctl" where
  "Close cf X s =
     (case removeRulesLocked cf X s of
        (Some e, s) \<Rightarrow> (Some e, s)
      | (None, s) \<Rightarrow> restoreOffloads cf s)"

end
