(* ===== verification/Ctl_Wp.thy ===== *)
theory Ctl_Wp
  imports Ctl_Start
begin

text \<open>
  Reasoning about the controller's operations, which return a result and the next state: a
  weakest-precondition operator with one rule per program construct, and for each primitive
  operation the exact part of the state it may change.
\<close>

named_theorems wp_rules \<open>constructs: results, case distinctions, conditionals\<close>
named_theorems wp_prims \<open>primitive operations\<close>

definition wp :: "'r \<times> 's \<Rightarrow> ('r \<Rightarrow> 's \<Rightarrow> bool) \<Rightarrow> bool" where
  "wp p Q = Q (fst p) (snd p)"

lemma wp_I: "(\<And>r s. p = (r, s) \<Longrightarrow> Q r s) \<Longrightarrow> wp p Q"
  by (cases p) (simp add: wp_def)

lemma wp_D: "wp p Q \<Longrightarrow> p = (r, s) \<Longrightarrow> Q r s"
  by (simp add: wp_def)

lemma wp_mono: "wp p Q \<Longrightarrow> (\<And>r s. Q r s \<Longrightarrow> R r s) \<Longrightarrow> wp p R"
  by (simp add: wp_def)

lemma wp_pair [wp_rules]: "Q r s \<Longrightarrow> wp (r, s) Q"
  by (simp add: wp_def)

lemma wp_prod [wp_rules]: "wp p (\<lambda>r s. wp (f r s) Q) \<Longrightarrow> wp (case p of (r, s) \<Rightarrow> f r s) Q"
  by (cases p) (simp add: wp_def)

lemma wp_option [wp_rules]:
  "(x = None \<Longrightarrow> wp a Q) \<Longrightarrow> (\<And>e. x = Some e \<Longrightarrow> wp (b e) Q) \<Longrightarrow>
     wp (case x of None \<Rightarrow> a | Some e \<Rightarrow> b e) Q"
  by (cases x) auto

lemma wp_sum [wp_rules]:
  "(\<And>e. x = Inl e \<Longrightarrow> wp (a e) Q) \<Longrightarrow> (\<And>e. x = Inr e \<Longrightarrow> wp (b e) Q) \<Longrightarrow>
     wp (case x of Inl e \<Rightarrow> a e | Inr e \<Rightarrow> b e) Q"
  by (cases x) auto

lemma wp_bool [wp_rules]:
  "(b \<Longrightarrow> wp a Q) \<Longrightarrow> (\<not> b \<Longrightarrow> wp c Q) \<Longrightarrow> wp (case b of True \<Rightarrow> a | False \<Rightarrow> c) Q"
  by (cases b) auto

lemma wp_if [wp_rules]: "(b \<Longrightarrow> wp a Q) \<Longrightarrow> (\<not> b \<Longrightarrow> wp c Q) \<Longrightarrow> wp (if b then a else c) Q"
  by simp

lemma wp_tuple [wp_rules]: "wp (f (fst x) (snd x)) Q \<Longrightarrow> wp (case x of (a, b) \<Rightarrow> f a b) Q"
  by (cases x) simp

section \<open>Atomics\<close>

lemma tick_frame: "tick s = s\<lparr>c_atom := c_atom (tick s)\<rparr>"
  by (simp add: tick_def)

lemma wp_Load [wp_prims]: "(\<And>a. Q (f a) (s\<lparr>c_atom := a\<rparr>)) \<Longrightarrow> wp (Load f s) Q"
  by (simp add: wp_def Load_def tick_def)

lemma wp_DisarmGuard [wp_prims]: "(\<And>b a. Q b (s\<lparr>c_atom := a\<rparr>)) \<Longrightarrow> wp (DisarmGuard s) Q"
  by (simp add: wp_def DisarmGuard_def tick_def)

lemma tick_fields:
  "c_generations (tick s) = c_generations s" "c_activeNew (tick s) = c_activeNew s"
  "c_previous (tick s) = c_previous s" "c_eng (tick s) = c_eng s" "c_world (tick s) = c_world s"
  "c_fatal (tick s) = c_fatal s" "c_offloads (tick s) = c_offloads s" "c_unsafe (tick s) = c_unsafe s"
  "c_failure (tick s) = c_failure s" "c_remediation (tick s) = c_remediation s"
  "c_remediationEpoch (tick s) = c_remediationEpoch s"
  by (simp_all add: tick_def)

lemma Store_fields [simp, frame_simps]:
  "c_generations (Store f s) = c_generations s" "c_activeNew (Store f s) = c_activeNew s"
  "c_previous (Store f s) = c_previous s" "c_unsafe (Store f s) = c_unsafe s"
  "c_failure (Store f s) = c_failure s" "c_nft (Store f s) = c_nft s"
  "c_steeringInstalled (Store f s) = c_steeringInstalled s" "c_offloads (Store f s) = c_offloads s"
  "c_remediation (Store f s) = c_remediation s" "c_remediationEpoch (Store f s) = c_remediationEpoch s"
  "c_reserved (Store f s) = c_reserved s" "c_eng (Store f s) = c_eng s"
  "c_world (Store f s) = c_world s" "c_fatal (Store f s) = c_fatal s"
  by (simp_all add: Store_def tick_def)

lemma Latch_fields [simp, frame_simps]:
  "c_generations (Latch b s) = c_generations s" "c_activeNew (Latch b s) = c_activeNew s"
  "c_previous (Latch b s) = c_previous s" "c_unsafe (Latch b s) = c_unsafe s"
  "c_failure (Latch b s) = c_failure s" "c_offloads (Latch b s) = c_offloads s"
  "c_remediation (Latch b s) = c_remediation s" "c_remediationEpoch (Latch b s) = c_remediationEpoch s"
  "c_reserved (Latch b s) = c_reserved s" "c_eng (Latch b s) = c_eng s"
  "c_world (Latch b s) = c_world s" "c_fatal (Latch b s) = c_fatal s"
  by (simp_all add: Latch_def)

lemma Guard_fields [simp, frame_simps]:
  "c_generations (Guard b s) = c_generations s" "c_activeNew (Guard b s) = c_activeNew s"
  "c_previous (Guard b s) = c_previous s" "c_unsafe (Guard b s) = c_unsafe s"
  "c_failure (Guard b s) = c_failure s" "c_offloads (Guard b s) = c_offloads s"
  "c_remediation (Guard b s) = c_remediation s" "c_remediationEpoch (Guard b s) = c_remediationEpoch s"
  "c_reserved (Guard b s) = c_reserved s" "c_eng (Guard b s) = c_eng s"
  "c_world (Guard b s) = c_world s" "c_fatal (Guard b s) = c_fatal s"
  by (simp_all add: Guard_def)

lemma no_remediation_fields [simp, frame_simps]:
  "c_generations (no_remediation s) = c_generations s" "c_activeNew (no_remediation s) = c_activeNew s"
  "c_previous (no_remediation s) = c_previous s" "c_unsafe (no_remediation s) = c_unsafe s"
  "c_failure (no_remediation s) = c_failure s" "c_offloads (no_remediation s) = c_offloads s"
  "c_reserved (no_remediation s) = c_reserved s" "c_eng (no_remediation s) = c_eng s"
  "c_world (no_remediation s) = c_world s" "c_fatal (no_remediation s) = c_fatal s"
  "c_atom (no_remediation s) = c_atom s"
  by (simp_all add: no_remediation_def)

lemma recordIntegrityFailure_fields [simp, frame_simps]:
  "c_generations (recordIntegrityFailure s) = c_generations s"
  "c_activeNew (recordIntegrityFailure s) = c_activeNew s"
  "c_eng (recordIntegrityFailure s) = c_eng s" "c_world (recordIntegrityFailure s) = c_world s"
  "c_fatal (recordIntegrityFailure s) = c_fatal s"
  by (simp_all add: recordIntegrityFailure_def)

lemma call_Fatal_fields [simp, frame_simps]:
  "c_generations (call_Fatal cf s) = c_generations s" "c_activeNew (call_Fatal cf s) = c_activeNew s"
  "c_previous (call_Fatal cf s) = c_previous s" "c_eng (call_Fatal cf s) = c_eng s"
  "c_world (call_Fatal cf s) = c_world s" "c_offloads (call_Fatal cf s) = c_offloads s"
  "c_reserved (call_Fatal cf s) = c_reserved s" "c_unsafe (call_Fatal cf s) = c_unsafe s"
  "c_atom (call_Fatal cf s) = c_atom s"
  "c_fatal (call_Fatal cf s) \<longleftrightarrow> c_fatal s \<or> cf_Fatal cf"
  by (simp_all add: call_Fatal_def)

lemma appendFailure_fields [simp, frame_simps]:
  "c_generations (appendFailureLocked f s) = c_generations s"
  "c_activeNew (appendFailureLocked f s) = c_activeNew s" "c_eng (appendFailureLocked f s) = c_eng s"
  "c_world (appendFailureLocked f s) = c_world s" "c_offloads (appendFailureLocked f s) = c_offloads s"
  "c_reserved (appendFailureLocked f s) = c_reserved s" "c_unsafe (appendFailureLocked f s) = c_unsafe s"
  "c_fatal (appendFailureLocked f s) = c_fatal s" "c_atom (appendFailureLocked f s) = c_atom s"
  "c_previous (appendFailureLocked f s) = c_previous s"
  by (simp_all add: appendFailureLocked_def)

lemma reconcileReserved_fields [simp, frame_simps]:
  "c_generations (reconcileReservedGenerationsLocked n s) = c_generations s"
  "c_activeNew (reconcileReservedGenerationsLocked n s) = c_activeNew s"
  "c_eng (reconcileReservedGenerationsLocked n s) = c_eng s"
  "c_world (reconcileReservedGenerationsLocked n s) = c_world s"
  "c_fatal (reconcileReservedGenerationsLocked n s) = c_fatal s"
  "c_previous (reconcileReservedGenerationsLocked n s) = c_previous s"
  by (simp_all add: reconcileReservedGenerationsLocked_def Let_def)

text \<open>The proofs an operation makes of the epoch and the guard read atomics only.\<close>

lemma wp_integrityProofIntact [wp_prims]:
  "(\<And>b a. Q b (s\<lparr>c_atom := a\<rparr>)) \<Longrightarrow> wp (integrityProofIntact n s) Q"
  unfolding integrityProofIntact_def by (intro wp_rules wp_prims) simp_all

lemma wp_recoveryGate [wp_prims]:
  assumes "\<And>b a. Q b (s\<lparr>c_atom := a\<rparr>)"
  shows "wp (recoveryGateIntactLocked n s) Q"
proof -
  have "Q False s" using assms [of False "c_atom s"] by simp
  with assms show ?thesis unfolding recoveryGateIntactLocked_def by (intro wp_rules wp_prims) simp_all
qed

lemma wp_gate_broken [wp_prims]:
  assumes "\<And>e a. Q e (s\<lparr>c_atom := a\<rparr>)"
  shows "wp (gate_broken b n s) Q"
proof -
  have "Q None s" using assms [of None "c_atom s"] by simp
  with assms show ?thesis unfolding gate_broken_def by (intro wp_rules wp_prims)
qed

section \<open>The world\<close>

text \<open>Calls that change neither the network nor the disk.\<close>

definition quiet :: "world \<Rightarrow> world \<Rightarrow> bool" where
  "quiet w w' \<longleftrightarrow> net_part w' = net_part w \<and> disk_part w' = disk_part w"

lemma quiet_fields:
  "quiet w w' \<Longrightarrow> w_table w' = w_table w \<and> w_flows w' = w_flows w \<and> w_nics w' = w_nics w \<and>
     w_visible w' = w_visible w \<and> w_durable w' = w_durable w"
  by (simp add: quiet_def net_part_def disk_part_def)

lemma quiet_refl [simp]: "quiet w w"
  by (simp add: quiet_def)

lemma quiet_ext:
  fixes w w' :: world
  assumes "ext_world.more w' = ext_world.more w"
  shows "quiet w w'"
  using assms by (cases w; cases w') (simp add: quiet_def net_part_def disk_part_def)

lemma wp_ctx_Err: "(\<And>e w'. quiet w w' \<Longrightarrow> Q e w') \<Longrightarrow> wp (ctx_Err w) Q"
  for w :: world
  by (rule wp_I) (metis ctx_Err_more quiet_ext snd_conv)

lemma wp_ctxErr [wp_prims]:
  "(\<And>e w. quiet (c_world s) w \<Longrightarrow> Q e (s\<lparr>c_world := w\<rparr>)) \<Longrightarrow> wp (ctxErr s) Q"
  unfolding ctxErr_def by (intro wp_rules wp_ctx_Err) auto

lemma disk_more:
  fixes w w' :: world
  assumes "flow_world.more w' = flow_world.more w"
  shows "w_nics w' = w_nics w" and "disk_part w' = disk_part w"
  using assms by (cases w; cases w'; simp add: disk_part_def)+

lemma wp_bounded:
  "(\<And>r' w. quiet (c_world s) w \<Longrightarrow> r' = r \<or> (\<exists>e. r' = t e) \<Longrightarrow> Q r' (s\<lparr>c_world := w\<rparr>)) \<Longrightarrow>
     wp (bounded r t s) Q"
  unfolding bounded_def by (intro wp_rules wp_ctxErr) auto

lemma quiet_trans: "quiet w1 w2 \<Longrightarrow> quiet w2 w3 \<Longrightarrow> quiet w1 w3"
  by (simp add: quiet_def)

lemma Counts_quiet: "Counts port w = (r, w') \<Longrightarrow> quiet w w'"
  for w :: world
  using Counts_world [of port w r w'] disk_more [of w' w]
  by (simp add: quiet_def net_part_def)

lemma Count_quiet: "Count proc idle gid port w = (r, w') \<Longrightarrow> quiet w w'"
  for w :: world
  using Count_world [of proc idle gid port w r w'] disk_more [of w' w]
  by (simp add: quiet_def net_part_def)

lemma wp_connectionCounts [wp_prims]:
  assumes "\<And>r w. quiet (c_world s) w \<Longrightarrow> Q r (s\<lparr>c_world := w\<rparr>)"
  shows "wp (connectionCounts cf s) Q"
  unfolding connectionCounts_def
proof (rule wp_prod, rule wp_I)
  fix r w
  assume "Counts (nf_Port (cf_NFT cf)) (c_world s) = (r, w)"
  then have "quiet (c_world s) w" by (rule Counts_quiet)
  with assms show "wp (bounded r Inl (s\<lparr>c_world := w\<rparr>)) Q"
    by (intro wp_bounded) (auto intro: quiet_trans)
qed

lemma wp_connectionCount [wp_prims]:
  assumes "\<And>r w. quiet (c_world s) w \<Longrightarrow> Q r (s\<lparr>c_world := w\<rparr>)"
  shows "wp (connectionCount cf X gid s) Q"
proof (cases "cf_Connections cf")
  case False
  with assms [of "c_world s"] show ?thesis by (simp add: connectionCount_def wp_def)
next
  case True
  show ?thesis
    unfolding connectionCount_def
  proof (rule wp_if, goal_cases)
    case 2
    show ?case
    proof (rule wp_prod, rule wp_I)
      fix r w
      assume "Count (xl_proc X) (cf_IdleAfter cf) gid (nf_Port (cf_NFT cf)) (c_world s) = (r, w)"
      then have "quiet (c_world s) w" by (rule Count_quiet)
      with assms show "wp (bounded r Inl (s\<lparr>c_world := w\<rparr>)) Q"
        by (intro wp_bounded) (auto intro: quiet_trans)
    qed
  qed (use True in simp)
qed

text \<open>Neutralizing changes the flows only, as \<open>Neutralize_effect\<close> says.\<close>

definition neutral_step :: "u16 \<Rightarrow> bool \<Rightarrow> world \<Rightarrow> world \<Rightarrow> bool" where
  "neutral_step port complete w w' \<longleftrightarrow>
     w_table w' = w_table w \<and> w_nics w' = w_nics w \<and> disk_part w' = disk_part w \<and>
     (distinct_flows (w_flows w) \<longrightarrow>
        (\<exists>D \<subseteq> {f \<in> set (w_flows w). unowned port f}.
           w_flows w' = map (\<lambda>f. if f \<in> D then neutralized f else f) (w_flows w) \<and>
           (complete \<longrightarrow> D = {f \<in> set (w_flows w). unowned port f})))"

lemma wp_neutralizeConnections [wp_prims]:
  assumes "\<And>r w. neutral_step (nf_Port (cf_NFT cf)) (snd r = None) (c_world s) w \<Longrightarrow> Q r (s\<lparr>c_world := w\<rparr>)"
  shows "wp (neutralizeConnections cf s) Q"
  unfolding neutralizeConnections_def
proof (rule wp_prod, rule wp_I)
  fix r w
  assume n: "Neutralize (nf_Port (cf_NFT cf)) (c_world s) = (r, w)"
  obtain u e where r: "r = (u, e)" by (cases r)
  have step: "neutral_step (nf_Port (cf_NFT cf)) (e = None) (c_world s) w"
    using Neutralize_effect [OF n [unfolded r]] Neutralize_world [OF n] disk_more [of w "c_world s"]
    by (auto simp: neutral_step_def)
  show "wp (bounded r (\<lambda>e. (0, Some e)) (s\<lparr>c_world := w\<rparr>)) Q"
  proof (rule wp_bounded)
    fix r' w'
    assume q: "quiet (c_world (s\<lparr>c_world := w\<rparr>)) w'" and r': "r' = r \<or> (\<exists>e. r' = (0, Some e))"
    have "neutral_step (nf_Port (cf_NFT cf)) (snd r' = None) (c_world s) w'"
      using step q r r' by (auto simp: neutral_step_def quiet_def net_part_def)
    then have "Q r' (s\<lparr>c_world := w'\<rparr>)" by (rule assms)
    then show "Q r' (s\<lparr>c_world := w, c_world := w'\<rparr>)" by simp
  qed
qed

section \<open>Programming and verifying the table\<close>

lemma nft_more:
  fixes w w' :: world
  assumes "nft_world.more w' = nft_world.more w"
  shows "w_flows w' = w_flows w" "w_nics w' = w_nics w" "disk_part w' = disk_part w"
  using assms by (cases w; cases w'; simp add: disk_part_def)+

definition program_config :: "ctl_config \<Rightarrow> generationState list \<Rightarrow> u32 \<Rightarrow> bool \<Rightarrow> Config" where
  "program_config cf gens active neutral = nft_New ((managerLocked cf gens active)\<lparr>nf_NeutralizeNew := neutral\<rparr>)"

definition table_step :: "('h ctl_libs) \<Rightarrow> Config \<Rightarrow> bool \<Rightarrow> world \<Rightarrow> world \<Rightarrow> bool" where
  "table_step X m ok w w' \<longleftrightarrow>
     w_flows w' = w_flows w \<and> w_nics w' = w_nics w \<and> disk_part w' = disk_part w \<and>
     w_table w' \<in> {w_table w, target m} \<and> (ok \<longrightarrow> holds (xl_fp X) m (w_table w'))"

lemma wp_programModeLocked:
  assumes "\<And>e w n i. (cf_NoNFT cf \<longrightarrow> w = c_world s \<and> e = None) \<Longrightarrow>
    (\<not> cf_NoNFT cf \<longrightarrow> table_step X (program_config cf gens active neutral) (e = None) (c_world s) w) \<Longrightarrow>
    (e = None \<longrightarrow> i = programSteers (program_config cf gens active neutral)) \<Longrightarrow>
    Q e (s\<lparr>c_world := w, c_nft := n, c_steeringInstalled := i\<rparr>)"
  shows "wp (programModeLocked cf X gens active neutral verify s) Q"
proof (cases "cf_NoNFT cf")
  case True
  then show ?thesis
    using assms [of "c_world s" None "programSteers (program_config cf gens active neutral)"
        "Some (program_config cf gens active neutral)"]
    by (simp add: programModeLocked_def wp_def program_config_def Let_def)
next
  case False
  define m where "m = program_config cf gens active neutral"
  obtain e1 w1 where 1: "(if verify then nft_Verify m (c_world s) else (None, c_world s)) = (e1, w1)"
    by (cases "if verify then nft_Verify m (c_world s) else (None, c_world s)")
  have w1: "w_table w1 = w_table (c_world s)" "nft_world.more w1 = nft_world.more (c_world s)"
    using 1 nft_Verify_table [of m "c_world s"] nft_Verify_more [of m "c_world s"]
    by (metis Pair_inject snd_conv)+
  obtain e2 w2 where 2: "InstallVerified (xl_fp X) m w1 = (e2, w2)"
    by (cases "InstallVerified (xl_fp X) m w1")
  have w2: "w_table w2 \<in> {w_table w1, target m}" "nft_world.more w2 = nft_world.more w1"
    "e2 = None \<Longrightarrow> holds (xl_fp X) m (w_table w2)"
    using 2 nft.old_or_wanted [of "xl_fp X" m w1] InstallVerified_more [of "xl_fp X" m w1]
      nft.success_agrees [of "xl_fp X" m w1] by auto
  have step: "table_step X m (e = None) (c_world s) w"
    if "e \<noteq> None \<and> w = w1 \<or> w = w2 \<and> e = e2" for e w
    using that w1 w2 nft_more [of w1 "c_world s"] nft_more [of w2 "c_world s"]
    by (auto simp: table_step_def)
  have frame: "s\<lparr>c_steeringInstalled := False, c_world := w\<rparr> =
      s\<lparr>c_world := w, c_nft := c_nft s, c_steeringInstalled := False\<rparr>" for w
    by (cases s) simp
  have verified: "(if verify then nft_Verify m (c_world (s\<lparr>c_steeringInstalled := False\<rparr>))
      else (None, c_world (s\<lparr>c_steeringInstalled := False\<rparr>))) = (e1, w1)"
    using 1 by (cases verify) simp_all
  have N: "programModeLocked cf X gens active neutral verify s =
     (case (e1, w1) of
        (Some e, w) \<Rightarrow> (Some e, s\<lparr>c_steeringInstalled := False, c_world := w\<rparr>)
      | (None, w) \<Rightarrow>
          (case InstallVerified (xl_fp X) m w of
             (Some e, w) \<Rightarrow> (Some e, s\<lparr>c_steeringInstalled := False, c_world := w\<rparr>)
           | (None, w) \<Rightarrow>
               (None, s\<lparr>c_steeringInstalled := False, c_world := w, c_nft := Some m,
                  c_steeringInstalled := programSteers m\<rparr>)))"
    using False
    by (simp add: programModeLocked_def Let_def m_def [symmetric] program_config_def [symmetric] verified
        split del: if_split)
  show ?thesis
  proof (cases "e1 = None \<and> e2 = None")
    case True
    with False 2 have r: "programModeLocked cf X gens active neutral verify s =
        (None, s\<lparr>c_world := w2, c_nft := Some m, c_steeringInstalled := programSteers m\<rparr>)"
      by (simp add: N)
    show ?thesis
      unfolding r using False True step [of None w2] by (intro wp_pair assms) (auto simp: m_def)
  next
    case bad: False
    have "\<exists>e w. programModeLocked cf X gens active neutral verify s =
        (e, s\<lparr>c_steeringInstalled := False, c_world := w\<rparr>) \<and> (e \<noteq> None \<and> w = w1 \<or> w = w2 \<and> e = e2 \<and> e \<noteq> None)"
    proof (cases e1)
      case (Some x)
      then have "programModeLocked cf X gens active neutral verify s =
          (Some x, s\<lparr>c_steeringInstalled := False, c_world := w1\<rparr>)" by (simp add: N)
      then show ?thesis by blast
    next
      case None
      with bad obtain x where x: "e2 = Some x" by auto
      with None 2 have "programModeLocked cf X gens active neutral verify s =
          (Some x, s\<lparr>c_steeringInstalled := False, c_world := w2\<rparr>)"
        by (simp add: N)
      with x show ?thesis by blast
    qed
    then obtain e w where r: "programModeLocked cf X gens active neutral verify s =
        (e, s\<lparr>c_steeringInstalled := False, c_world := w\<rparr>)"
      and ew: "e \<noteq> None \<and> w = w1 \<or> w = w2 \<and> e = e2" "e \<noteq> None" by blast
    show ?thesis
      unfolding r frame using False ew step [OF ew(1)] by (intro wp_pair assms) (auto simp: m_def)
  qed
qed

text \<open>Every program call of the controller, by the configuration it asks for.\<close>

lemma wp_programLocked:
  assumes "\<And>e w n i. (cf_NoNFT cf \<longrightarrow> w = c_world s \<and> e = None) \<Longrightarrow>
    (\<not> cf_NoNFT cf \<longrightarrow> table_step X (program_config cf gens active False) (e = None) (c_world s) w) \<Longrightarrow>
    (e = None \<longrightarrow> i = programSteers (program_config cf gens active False)) \<Longrightarrow>
    Q e (s\<lparr>c_world := w, c_nft := n, c_steeringInstalled := i\<rparr>)"
  shows "wp (programLocked cf X gens active verify s) Q"
  unfolding programLocked_def using assms by (rule wp_programModeLocked)

lemma wp_verifyCurrentProgramLocked [wp_prims]:
  assumes "\<And>e w. quiet (c_world s) w \<Longrightarrow> Q e (s\<lparr>c_world := w\<rparr>)"
  shows "wp (verifyCurrentProgramLocked cf X s) Q"
proof (cases "cf_NoNFT cf")
  case True
  with assms [of "c_world s"] show ?thesis by (simp add: verifyCurrentProgramLocked_def wp_def)
next
  case False
  let ?m = "managerLocked cf (liveLocked s) (c_activeNew s)"
  obtain e w where v: "VerifyInstalled (xl_fp X) ?m (c_world s) = (e, w)"
    by (cases "VerifyInstalled (xl_fp X) ?m (c_world s)")
  have "w_table w = w_table (c_world s)" "nft_world.more w = nft_world.more (c_world s)"
    using v VerifyInstalled_table [of "xl_fp X" ?m "c_world s"]
      VerifyInstalled_more [of "xl_fp X" ?m "c_world s"] by (metis snd_conv)+
  then have "quiet (c_world s) w"
    using nft_more [of w "c_world s"] by (simp add: quiet_def net_part_def)
  with assms False v show ?thesis by (simp add: verifyCurrentProgramLocked_def wp_def Let_def)
qed

section \<open>Persisting\<close>

text \<open>What can change besides the disk when persisting fails.\<close>

definition failed_persist :: "ctl_config \<Rightarrow> ctl \<Rightarrow> ctl \<Rightarrow> bool" where
  "failed_persist cf s s' \<longleftrightarrow>
     (\<exists>a u r n f t. s' = s\<lparr>c_atom := a, c_unsafe := u, c_remediation := r, c_remediationEpoch := n,
        c_failure := f, c_fatal := t\<rparr> \<and> (c_fatal s \<longrightarrow> t) \<and> at_persistFatal a)"

definition disk_step :: "ctl \<Rightarrow> bool \<Rightarrow> world \<Rightarrow> world \<Rightarrow> bool" where
  "disk_step s ok w w' \<longleftrightarrow>
     net_part w' = net_part w \<and>
     (ok \<longrightarrow> w_visible w' = Some (Doc (json (snapshot s))) \<and>
             w_durable w' = [Some (Doc (json (snapshot s)))]) \<and>
     (disk_ok w \<longrightarrow> disk_ok w' \<and>
        set (w_durable w') \<subseteq> insert (Some (Doc (json (snapshot s)))) (set (w_durable w)))"

lemma signal_step_persistFatal [simp]: "at_persistFatal (signal_step i a) = at_persistFatal a"
  by (simp add: signal_step_def Let_def split: stage.splits)

lemma signal_steps_persistFatal [simp]: "at_persistFatal (signal_steps a) = at_persistFatal a"
proof -
  have "at_persistFatal (fold signal_step is a) = at_persistFatal a" for "is" a
    by (induction "is" arbitrary: a) simp_all
  then show ?thesis by (simp add: signal_steps_def split: list.splits)
qed

lemma atom_updates_persistFatal [simp]:
  "at_persistFatal (c_atom (tick s)) = at_persistFatal (c_atom s)"
  "at_persistFatal (c_atom (Latch b s)) = at_persistFatal (c_atom s)"
  "at_persistFatal (c_atom (Guard b s)) = at_persistFatal (c_atom s)"
  by (simp_all add: tick_def Latch_def Guard_def Store_def)

lemma persistenceFailureLocked_frame:
  "failed_persist cf s (snd (persistenceFailureLocked cf e s))"
proof -
  have "snd (persistenceFailureLocked cf e s) = s\<lparr>c_atom := c_atom s', c_unsafe := c_unsafe s',
      c_remediation := c_remediation s', c_remediationEpoch := c_remediationEpoch s',
      c_failure := c_failure s', c_fatal := c_fatal s'\<rparr> \<and> (c_fatal s \<longrightarrow> c_fatal s') \<and>
      at_persistFatal (c_atom s')"
    if "s' = snd (persistenceFailureLocked cf e s)" for s'
  proof (cases "at_persistFatal (c_atom (tick s))")
    case True
    then show ?thesis unfolding that by (simp add: persistenceFailureLocked_def tick_def)
  next
    case False
    then show ?thesis
      unfolding that
      by (cases s) (simp add: persistenceFailureLocked_def Let_def call_Fatal_def Latch_def Guard_def Store_def tick_def)
  qed
  then show ?thesis unfolding failed_persist_def by blast
qed

lemma wp_persistLocked:
  assumes ok: "\<And>w. (cf_StateFile cf \<noteq> [] \<longrightarrow> disk_step s True (c_world s) w) \<Longrightarrow>
      (cf_StateFile cf = [] \<longrightarrow> w = c_world s) \<Longrightarrow> Q None (s\<lparr>c_world := w\<rparr>)"
    and bad: "\<And>e w s'. cf_StateFile cf \<noteq> [] \<Longrightarrow> disk_step s False (c_world s) w \<Longrightarrow>
      failed_persist cf (s\<lparr>c_world := w\<rparr>) s' \<Longrightarrow> Q (Some e) s'"
  shows "wp (persistLocked cf s) Q"
proof (cases "cf_StateFile cf = []")
  case True
  with ok [of "c_world s"] show ?thesis by (simp add: persistLocked_def wp_def)
next
  case False
  obtain e w where w: "writeState (snapshot s) (c_world s) = (e, w)"
    by (cases "writeState (snapshot s) (c_world s)")
  have step: "disk_step s (e = None) (c_world s) w"
    using writeState_effect [OF w] by (auto simp: disk_step_def)
  show ?thesis
  proof (cases e)
    case None
    with False w step ok [of w] show ?thesis by (simp add: persistLocked_def wp_def)
  next
    case (Some x)
    obtain c s' where p: "persistenceFailureLocked cf x (s\<lparr>c_world := w\<rparr>) = (c, s')"
      by (cases "persistenceFailureLocked cf x (s\<lparr>c_world := w\<rparr>)")
    with persistenceFailureLocked_frame [of cf "s\<lparr>c_world := w\<rparr>" x]
    have "failed_persist cf (s\<lparr>c_world := w\<rparr>) s'" by simp
    with bad [of w s' c] step Some False p w show ?thesis
      by (simp add: persistLocked_def wp_def)
  qed
qed

end
