(* ===== verification/Ctl_Frame.thy ===== *)
theory Ctl_Frame
  imports Ctl_Wp
begin

text \<open>
  The steps of the controller that leave its lifecycle state, the kernel's table and the flows
  alone. Persisting and owning offloads are such steps: they only write documents that hold
  the current generations.
\<close>

section \<open>Frame steps\<close>

definition mem :: "ctl \<Rightarrow> (u32 \<times> generationState) list \<times> u32 \<times> u32 \<times> Registry" where
  "mem s = (c_generations s, c_activeNew s, c_previous s, c_eng s)"

text \<open>The generations of the document written for a state.\<close>

definition saved_gens :: "(u32 \<times> generationState) list \<Rightarrow> generationState list" where
  "saved_gens gens = sort_key gs_ID (map (\<lambda>(_, g). g\<lparr>gs_Scope := empty_scope\<rparr>) gens)"

lemma snapshot_gens: "ps_Generations (json (snapshot s)) = saved_gens (c_generations s)"
proof -
  have "map (\<lambda>g. g\<lparr>gs_Scope := empty_scope\<rparr>) gs = gs" if "\<forall>g\<in>set gs. gs_Scope g = empty_scope" for gs :: "generationState list"
    using that by (induction gs) auto
  moreover have "\<forall>g\<in>set (saved_gens (c_generations s)). gs_Scope g = empty_scope"
    by (auto simp: saved_gens_def)
  ultimately show ?thesis by (simp add: json_def snapshot_def saved_gens_def)
qed

definition disk_kept :: "ctl_config \<Rightarrow> ctl \<Rightarrow> ctl \<Rightarrow> bool" where
  "disk_kept cf s s' \<longleftrightarrow>
     (disk_ok (c_world s) \<longrightarrow> disk_ok (c_world s') \<and>
        (\<forall>d\<in>set (w_durable (c_world s')). d \<in> set (w_durable (c_world s)) \<or>
           (\<exists>ps. d = Some (Doc ps) \<and> ps_Generations ps = saved_gens (c_generations s))))"

definition frame_step :: "ctl_config \<Rightarrow> ctl \<Rightarrow> ctl \<Rightarrow> bool" where
  "frame_step cf s s' \<longleftrightarrow>
     mem s' = mem s \<and> w_table (c_world s') = w_table (c_world s) \<and>
     w_flows (c_world s') = w_flows (c_world s) \<and> (c_fatal s \<longrightarrow> c_fatal s') \<and> disk_kept cf s s'"

lemma frame_step_refl [simp]: "frame_step cf s s"
  by (simp add: frame_step_def disk_kept_def)

lemma frame_step_trans:
  assumes "frame_step cf s1 s2" and "frame_step cf s2 s3"
  shows "frame_step cf s1 s3"
  using assms unfolding frame_step_def disk_kept_def mem_def by auto

lemma frame_step_fields:
  "frame_step cf s s' \<Longrightarrow> c_generations s' = c_generations s \<and> c_activeNew s' = c_activeNew s \<and>
     c_previous s' = c_previous s \<and> c_eng s' = c_eng s \<and> w_table (c_world s') = w_table (c_world s) \<and>
     w_flows (c_world s') = w_flows (c_world s) \<and> (c_fatal s \<longrightarrow> c_fatal s')"
  by (simp add: frame_step_def mem_def)

text \<open>States that agree on what a frame step keeps are interchangeable before and after one.\<close>

definition like :: "ctl \<Rightarrow> ctl \<Rightarrow> bool" where
  "like s s' \<longleftrightarrow> mem s' = mem s \<and> c_world s' = c_world s \<and> c_fatal s' = c_fatal s"

lemma like_frame: "like s s' \<Longrightarrow> frame_step cf s s'"
  by (simp add: like_def frame_step_def disk_kept_def)

lemma frame_step_like:
  assumes "frame_step cf s1 s2" and "like s2 s3"
  shows "frame_step cf s1 s3"
  using assms by (blast intro: frame_step_trans like_frame)

lemma like_atom [simp]: "like s (s\<lparr>c_atom := a\<rparr>)"
  "like s (Latch b s)" "like s (Guard b s)" "like s (Store f s)" "like s (no_remediation s)"
  "like s (recordIntegrityFailure s)" "like s (appendFailureLocked m s)"
  "like s (reconcileReservedGenerationsLocked n s)"
  by (simp_all add: like_def mem_def recordIntegrityFailure_def)

lemma frame_quiet: "quiet (c_world s) w \<Longrightarrow> frame_step cf s (s\<lparr>c_world := w\<rparr>)"
  using quiet_fields [of "c_world s" w]
  by (simp add: frame_step_def disk_kept_def mem_def disk_ok_def)

section \<open>Persisting and offloads\<close>

text \<open>What a successful persist leaves on disk.\<close>

definition persisted :: "ctl_config \<Rightarrow> ctl \<Rightarrow> bool" where
  "persisted cf s \<longleftrightarrow> cf_StateFile cf = [] \<or>
     (\<exists>ps. w_durable (c_world s) = [Some (Doc ps)] \<and> w_visible (c_world s) = Some (Doc ps) \<and>
        ps_Generations ps = saved_gens (c_generations s) \<and> ps_ActiveNew ps = c_activeNew s)"

lemma disk_step_frame:
  assumes "disk_step s ok (c_world s) w" and "c_world s' = w" and "mem s' = mem s"
    and "c_fatal s \<longrightarrow> c_fatal s'"
  shows "frame_step cf s s'"
proof -
  have "disk_kept cf s s'"
    using assms(1,2) by (auto simp: disk_kept_def disk_step_def snapshot_gens)
  with assms show ?thesis by (auto simp: frame_step_def disk_step_def net_part_def)
qed

lemma wp_persist_frame [wp_prims]:
  assumes "\<And>e s'. frame_step cf s s' \<Longrightarrow> (e = None \<Longrightarrow> persisted cf s') \<Longrightarrow>
      (e = None \<Longrightarrow> c_offloads s' = c_offloads s \<and> c_atom s' = c_atom s \<and> c_unsafe s' = c_unsafe s \<and>
         c_failure s' = c_failure s \<and> c_nft s' = c_nft s \<and> c_steeringInstalled s' = c_steeringInstalled s \<and>
         c_fatal s' = c_fatal s) \<Longrightarrow>
      c_offloads s' = c_offloads s \<Longrightarrow> Q e s'"
  shows "wp (persistLocked cf s) Q"
proof (rule wp_persistLocked)
  fix w
  assume a: "cf_StateFile cf \<noteq> [] \<longrightarrow> disk_step s True (c_world s) w" "cf_StateFile cf = [] \<longrightarrow> w = c_world s"
  have "frame_step cf s (s\<lparr>c_world := w\<rparr>)"
    using a disk_step_frame [of s True w "s\<lparr>c_world := w\<rparr>"] by (cases "cf_StateFile cf = []") (simp_all add: mem_def)
  moreover have "persisted cf (s\<lparr>c_world := w\<rparr>)"
    using a snapshot_gens [of s]
    by (auto simp: persisted_def disk_step_def snapshot_def json_def)
  ultimately show "Q None (s\<lparr>c_world := w\<rparr>)" by (intro assms) auto
next
  fix e w s'
  assume d: "disk_step s False (c_world s) w" and f: "failed_persist cf (s\<lparr>c_world := w\<rparr>) s'"
  from f have s': "c_world s' = w" "mem s' = mem s" "c_fatal s \<longrightarrow> c_fatal s'" "c_offloads s' = c_offloads s"
    by (auto simp: failed_persist_def mem_def)
  with disk_step_frame [OF d] have "frame_step cf s s'" by blast
  then show "Q (Some e) s'" using s'(4) by (intro assms) auto
qed

lemma frame_nics:
  fixes w w' :: world
  assumes "w_flows w' = w_flows w \<and> w_table w' = w_table w \<and> nic_world.more w' = nic_world.more w"
    and "c_world s = w" and "like (s\<lparr>c_world := w'\<rparr>) s'"
  shows "frame_step cf s s'"
proof -
  have "disk_part w' = disk_part w"
    using assms(1) by (cases w; cases w') (simp add: disk_part_def)
  then show ?thesis
    using assms by (auto simp: frame_step_def disk_kept_def like_def mem_def disk_part_def disk_ok_def)
qed

lemma wp_Disable:
  fixes w :: world
  assumes "\<And>e w'. w_flows w' = w_flows w \<and> w_table w' = w_table w \<and> nic_world.more w' = nic_world.more w
     \<Longrightarrow> Q e w'"
  shows "wp (Disable orig w) Q"
  using Disable_world assms by (intro wp_I) blast

lemma wp_Restore:
  fixes w :: world
  assumes "\<And>r w'. w_flows w' = w_flows w \<and> w_table w' = w_table w \<and> nic_world.more w' = nic_world.more w
     \<Longrightarrow> Q r w'"
  shows "wp (Restore orig w) Q"
  using Restore_world assms by (intro wp_I) blast

lemma wp_Capture:
  fixes w :: world
  assumes "\<And>r w'. w_flows w' = w_flows w \<and> w_table w' = w_table w \<and> nic_world.more w' = nic_world.more w
     \<Longrightarrow> Q r w'"
  shows "wp (Capture l i w) Q"
  using Capture_world assms by (intro wp_I) blast

lemma like_self_world: "like (s\<lparr>c_world := w\<rparr>) (s\<lparr>c_world := w, c_offloads := r\<rparr>)"
  by (simp add: like_def mem_def)

lemma like_offloads: "like s (s\<lparr>c_offloads := r\<rparr>)"
  by (simp add: like_def mem_def)

lemma like_refl [simp]: "like s s"
  by (simp add: like_def)

lemma wp_persist_from:
  assumes "frame_step cf s0 s" and "\<And>e s'. frame_step cf s0 s' \<Longrightarrow> Q e s'"
  shows "wp (persistLocked cf s) Q"
  using assms frame_step_trans by (intro wp_persist_frame) blast

lemma wp_disableOwned:
  assumes "frame_step cf s0 s" and Q: "\<And>e s'. frame_step cf s0 s' \<Longrightarrow> Q e s'"
  shows "wp (disableOwned cf d s) Q"
  unfolding disableOwned_def
proof (rule wp_prod, rule wp_Disable)
  fix e w1
  assume 1: "w_flows w1 = w_flows (c_world s) \<and> w_table w1 = w_table (c_world s) \<and>
    nic_world.more w1 = nic_world.more (c_world s)"
  show "wp (case e of None \<Rightarrow> (None, s\<lparr>c_world := w1\<rparr>)
    | Some e \<Rightarrow>
        (case Restore d w1 of
           ((restoreErr, d), w) \<Rightarrow>
             (case persistLocked cf
                (s\<lparr>c_world := w, c_offloads := (if restoreErr = None then None else Some d)\<rparr>) of
                (persistErr, s) \<Rightarrow> (errors_Join [Some e, restoreErr, persistErr], s)))) Q"
  proof (rule wp_option)
    show "wp (None, s\<lparr>c_world := w1\<rparr>) Q"
      by (intro wp_pair Q frame_step_trans [OF assms(1)] frame_nics [OF 1 refl like_refl])
  next
    fix x
    show "wp (case Restore d w1 of
         ((restoreErr, d), w) \<Rightarrow>
           (case persistLocked cf
              (s\<lparr>c_world := w, c_offloads := (if restoreErr = None then None else Some d)\<rparr>) of
              (persistErr, s) \<Rightarrow> (errors_Join [Some x, restoreErr, persistErr], s))) Q"
    proof (rule wp_prod, rule wp_Restore)
      fix r w2
      assume "w_flows w2 = w_flows w1 \<and> w_table w2 = w_table w1 \<and> nic_world.more w2 = nic_world.more w1"
      with 1 have "w_flows w2 = w_flows (c_world s) \<and> w_table w2 = w_table (c_world s) \<and>
        nic_world.more w2 = nic_world.more (c_world s)" by simp
      note f = frame_step_trans [OF assms(1) frame_nics [OF this refl like_self_world]]
      show "wp (case r of (restoreErr, d) \<Rightarrow>
           (case persistLocked cf
              (s\<lparr>c_world := w2, c_offloads := (if restoreErr = None then None else Some d)\<rparr>) of
              (persistErr, s) \<Rightarrow> (errors_Join [Some x, restoreErr, persistErr], s))) Q"
        by (intro wp_tuple wp_prod wp_persist_from [OF f] wp_pair Q)
    qed
  qed
qed

lemma wp_takeOffloads:
  assumes "frame_step cf s0 s" and Q: "\<And>e s'. frame_step cf s0 s' \<Longrightarrow> Q e s'"
  shows "wp (takeOffloads cf d s) Q"
  unfolding takeOffloads_def
proof (rule wp_prod, rule wp_persist_from)
  show "frame_step cf s0 (s\<lparr>c_offloads := Some d\<rparr>)"
    using assms(1) like_offloads by (rule frame_step_like)
next
  fix e s1
  assume f: "frame_step cf s0 s1"
  show "wp (case e of None \<Rightarrow> disableOwned cf d s1 | Some e \<Rightarrow> (Some e, s1\<lparr>c_offloads := None\<rparr>)) Q"
    by (intro wp_option wp_pair wp_disableOwned [OF f] Q frame_step_like [OF f like_offloads])
qed

lemma wp_ensureOffloadsDown [wp_prims]:
  assumes Q: "\<And>e s'. frame_step cf s s' \<Longrightarrow> Q e s'"
  shows "wp (ensureOffloadsDown cf X s) Q"
  unfolding ensureOffloadsDown_def
proof (intro wp_option wp_if wp_pair Q frame_step_refl wp_prod wp_Capture wp_Disable)
  fix r w
  assume "w_flows w = w_flows (c_world s) \<and> w_table w = w_table (c_world s) \<and>
    nic_world.more w = nic_world.more (c_world s)"
  note f = frame_nics [OF this refl like_refl]
  show "wp (case r of Inl e \<Rightarrow> (Some e, s\<lparr>c_world := w\<rparr>)
      | Inr d \<Rightarrow> if length (o_Features d) = 0 then (None, s\<lparr>c_world := w\<rparr>)
                 else takeOffloads cf d (s\<lparr>c_world := w\<rparr>)) Q"
    by (intro wp_sum wp_if wp_pair Q f wp_takeOffloads [OF f])
next
  fix r w
  assume "w_flows w = w_flows (c_world s) \<and> w_table w = w_table (c_world s) \<and>
    nic_world.more w = nic_world.more (c_world s)"
  then show "frame_step cf s (s\<lparr>c_world := w\<rparr>)" by (rule frame_nics) simp_all
qed

lemma wp_restoreOffloads [wp_prims]:
  assumes Q: "\<And>e s'. frame_step cf s s' \<Longrightarrow> Q e s'"
  shows "wp (restoreOffloads cf s) Q"
  unfolding restoreOffloads_def
proof (rule wp_option)
  show "wp (None, s) Q" by (intro wp_pair Q frame_step_refl)
next
  fix orig
  show "wp (case Restore orig (c_world s) of
      ((Some e, orig), w) \<Rightarrow>
        (case persistLocked cf (s\<lparr>c_world := w, c_offloads := Some orig\<rparr>) of
           (persistErr, s) \<Rightarrow> (errors_Join [Some e, persistErr], s))
    | ((None, orig), w) \<Rightarrow> persistLocked cf (s\<lparr>c_world := w, c_offloads := None\<rparr>)) Q"
  proof (rule wp_prod, rule wp_Restore)
    fix r w
    assume "w_flows w = w_flows (c_world s) \<and> w_table w = w_table (c_world s) \<and>
      nic_world.more w = nic_world.more (c_world s)"
    note f = frame_nics [OF this refl like_self_world]
    show "wp (case r of (e, orig) \<Rightarrow> (case e of
          None \<Rightarrow> persistLocked cf (s\<lparr>c_world := w, c_offloads := None\<rparr>)
        | Some e \<Rightarrow>
            (case persistLocked cf (s\<lparr>c_world := w, c_offloads := Some orig\<rparr>) of
               (persistErr, s) \<Rightarrow> (errors_Join [Some e, persistErr], s)))) Q"
      by (intro wp_tuple wp_option wp_prod wp_persist_from [OF f] wp_pair Q)
  qed
qed

end
