(* ===== verification/Ctl_Invariant.thy ===== *)
theory Ctl_Invariant
  imports Ctl_Frame
begin

text \<open>
  The invariants of the controller between operations. Most of them do not look at lifecycle
  phases, so they are stated over the generations with the phase erased, and every operation
  that only moves phases keeps them for free.
\<close>

section \<open>Generations without their phase\<close>

definition core :: "generationState \<Rightarrow> generationState" where
  "core g = g\<lparr>gs_Phase := PhasePrepared\<rparr>"

definition cores :: "(u32 \<times> generationState) list \<Rightarrow> (u32 \<times> generationState) list" where
  "cores gens = map (\<lambda>(gid, g). (gid, core g)) gens"

lemma core_fields [simp]:
  "gs_ID (core g) = gs_ID g" "gs_DNA (core g) = gs_DNA g" "gs_Digest (core g) = gs_Digest g"
  "gs_Scope (core g) = gs_Scope g" "gs_Identity (core g) = gs_Identity g"
  "gs_Metadata (core g) = gs_Metadata g" "core (core g) = core g"
  "core (g\<lparr>gs_Phase := p\<rparr>) = core g"
  by (simp_all add: core_def)

lemma keys_cores [simp]: "map fst (cores gens) = keys gens"
  by (simp add: cores_def o_def case_prod_beta)

lemma cores_Nil [simp]: "cores [] = []"
  by (simp add: cores_def)

lemma map_of_cores: "map_of (cores gens) gid = map_option core (map_of gens gid)"
  unfolding cores_def by (induction gens) auto

lemma cores_update: "cores (AList.update gid g gens) = AList.update gid (core g) (cores gens)"
  by (induction gens) (auto simp: cores_def)

lemma cores_delete: "cores (AList.delete gid gens) = AList.delete gid (cores gens)"
  by (induction gens) (auto simp: cores_def AList.delete_eq)

lemma cores_set_phase [simp]: "cores (c_generations (set_phase gid p s)) = cores (c_generations s)"
  by (auto simp: set_phase_def cores_def)

lemma set_phase_fields [simp, frame_simps]:
  "c_activeNew (set_phase gid p s) = c_activeNew s" "c_previous (set_phase gid p s) = c_previous s"
  "c_eng (set_phase gid p s) = c_eng s" "c_world (set_phase gid p s) = c_world s"
  "c_fatal (set_phase gid p s) = c_fatal s" "c_unsafe (set_phase gid p s) = c_unsafe s"
  "c_failure (set_phase gid p s) = c_failure s" "c_atom (set_phase gid p s) = c_atom s"
  "c_offloads (set_phase gid p s) = c_offloads s" "c_remediation (set_phase gid p s) = c_remediation s"
  "c_remediationEpoch (set_phase gid p s) = c_remediationEpoch s"
  "c_reserved (set_phase gid p s) = c_reserved s"
  by (simp_all add: set_phase_def)

lemma keys_set_phase [simp]: "keys (c_generations (set_phase gid p s)) = keys (c_generations s)"
  by (metis cores_set_phase keys_cores)

lemma gen_of_other [simp]:
  "gen_of (s\<lparr>c_activeNew := n\<rparr>) = gen_of s" "gen_of (s\<lparr>c_previous := n\<rparr>) = gen_of s"
  "gen_of (s\<lparr>c_atom := a\<rparr>) = gen_of s" "gen_of (s\<lparr>c_world := w\<rparr>) = gen_of s"
  "gen_of (s\<lparr>c_eng := r\<rparr>) = gen_of s"
  by (simp_all add: gen_of_def fun_eq_iff)

lemma cores_mem: "(gid, g) \<in> set gens \<Longrightarrow> (gid, core g) \<in> set (cores gens)"
  by (force simp: cores_def)

lemma gen_of_mem: "gen_of s gid = Some g \<Longrightarrow> (gid, g) \<in> set (c_generations s)"
  by (simp add: gen_of_def map_of_SomeD)

lemma gen_of_keys: "gen_of s gid = None \<longleftrightarrow> gid \<notin> set (keys (c_generations s))"
  by (simp add: gen_of_def map_of_eq_None_iff)

lemma gen_of_set_phase:
  "gen_of (set_phase gid p s) i =
     (if i = gid then map_option (\<lambda>g. g\<lparr>gs_Phase := p\<rparr>) (gen_of s i) else gen_of s i)"
proof -
  have "map_of (map (\<lambda>(i, g). (i, if i = gid then g\<lparr>gs_Phase := p\<rparr> else g)) gens) i =
     (if i = gid then map_option (\<lambda>g. g\<lparr>gs_Phase := p\<rparr>) (map_of gens i) else map_of gens i)"
    for gens :: "(u32 \<times> generationState) list"
    by (induction gens) auto
  then show ?thesis by (simp add: gen_of_def set_phase_def)
qed

section \<open>The invariants\<close>

text \<open>One generation: its immutable contract, whatever its phase.\<close>

definition gen_ok :: "ctl_config \<Rightarrow> 'h ctl_libs \<Rightarrow> u32 \<Rightarrow> generationState \<Rightarrow> bool" where
  "gen_ok cf X gid g \<longleftrightarrow>
     gs_ID g = gid \<and> (\<exists>m. Mark gid = Inr m) \<and>
     ValidateFor (xl_sha X) \<lparr>a_metadata = gs_Metadata g, a_payload = gs_DNA g\<rparr> (Descriptor cf) = None \<and>
     gs_Identity g = metadata_Identity (gs_Metadata g) \<and>
     gs_Digest g = Digest (xl_sha X) (gs_DNA g) \<and>
     (\<exists>parsed. parseStrategy X (gs_DNA g) = Inr parsed \<and>
        gs_Scope g = widen (cf_ObserveInbound cf) (cf_Mode cf) (Of (Some parsed)))"

lemma gen_ok_core [simp]: "gen_ok cf X gid (core g) = gen_ok cf X gid g"
  by (simp add: gen_ok_def)

definition gens_ok :: "ctl_config \<Rightarrow> 'h ctl_libs \<Rightarrow> (u32 \<times> generationState) list \<Rightarrow> bool" where
  "gens_ok cf X cs \<longleftrightarrow>
     distinct (map fst cs) \<and> distinct (map (gs_Identity \<circ> snd) cs) \<and>
     (\<forall>(gid, g)\<in>set cs. gen_ok cf X gid g)"

text \<open>The document keeps a generation when it holds it in full, up to phase and scope.\<close>

definition bare :: "generationState \<Rightarrow> generationState" where
  "bare g = g\<lparr>gs_Phase := PhasePrepared, gs_Scope := empty_scope\<rparr>"

definition kept :: "contents option \<Rightarrow> generationState \<Rightarrow> bool" where
  "kept d g \<longleftrightarrow> (\<exists>ps. d = Some (Doc ps) \<and> bare g \<in> bare ` set (ps_Generations ps))"

lemma bare_core [simp]: "bare (core g) = bare g"
  by (simp add: bare_def core_def)

lemma kept_core [simp]: "kept d (core g) = kept d g"
  by (simp add: kept_def)

definition disk_inv ::
  "ctl_config \<Rightarrow> u32 set \<Rightarrow> (u32 \<times> generationState) list \<Rightarrow> world \<Rightarrow> bool" where
  "disk_inv cf P cs w \<longleftrightarrow>
     disk_ok w \<and>
     (cf_StateFile cf \<noteq> [] \<longrightarrow> (\<forall>d\<in>set (w_durable w). \<forall>(gid, g)\<in>set cs. gid \<in> P \<or> kept d g))"

text \<open>The generations a table refers to: those it queues packets for, and the one it assigns.\<close>

definition table_ids :: "Config option \<Rightarrow> u32 set" where
  "table_ids t = (case t of None \<Rightarrow> {}
     | Some c \<Rightarrow> gn_ID ` set (generations c) \<union> ({nf_ActiveGeneration c} - {0}))"

text \<open>
  A table is true to the configuration and the generations: it queues the configured port's packets to
  the configured queues, and selects for a number what the scope of that generation selects.
\<close>

definition table_true :: "ctl_config \<Rightarrow> (u32 \<times> generationState) list \<Rightarrow> Config option \<Rightarrow> bool" where
  "table_true cf cs t \<longleftrightarrow>
     (\<forall>c. t = Some c \<longrightarrow>
        nf_Port c = nf_Port (cf_NFT cf) \<and> nf_OutQueue c = nf_OutQueue (cf_NFT cf) \<and>
        nf_InQueue c = nf_InQueue (cf_NFT cf) \<and> nf_BypassUID c = nf_BypassUID (cf_NFT cf) \<and>
        (\<forall>e\<in>set (generations c). \<forall>g. (gn_ID e, g) \<in> set cs \<longrightarrow>
           gn_Outbound e = sc_Outbound (gs_Scope g) \<and> gn_Inbound e = sc_Inbound (gs_Scope g)))"

lemma table_true_None [simp]: "table_true cf cs None"
  by (simp add: table_true_def)

lemma table_true_mono:
  assumes "table_true cf cs t" and "\<And>gid g. (gid, g) \<in> set cs' \<Longrightarrow> (gid, g) \<in> set cs \<or> gid \<notin> table_ids t"
  shows "table_true cf cs' t"
proof -
  have "(gn_ID e, g) \<in> set cs" if "t = Some c" "e \<in> set (generations c)" "(gn_ID e, g) \<in> set cs'" for c e g
    using that assms(2) [OF that(3)] by (auto simp: table_ids_def)
  with assms(1) show ?thesis unfolding table_true_def by blast
qed

text \<open>
  \<open>P\<close> are generations in memory that are not durable yet, \<open>T\<close> are numbers the table may still
  use although memory has dropped them; both are empty between operations.
\<close>

definition cinv :: "ctl_config \<Rightarrow> 'h ctl_libs \<Rightarrow> u32 set \<Rightarrow> u32 set \<Rightarrow> ctl \<Rightarrow> bool" where
  "cinv cf X P T s \<longleftrightarrow>
     gens_ok cf X (cores (c_generations s)) \<and>
     (\<forall>(gid, g)\<in>set (cores (c_generations s)). dna_of (c_eng s) gid = Some (gs_DNA g)) \<and>
     disk_inv cf P (cores (c_generations s)) (c_world s) \<and>
     (\<not> cf_NoNFT cf \<longrightarrow> table_ids (w_table (c_world s)) \<subseteq> set (keys (c_generations s)) - P \<union> T) \<and>
     (\<not> cf_NoNFT cf \<longrightarrow> table_true cf (cores (c_generations s)) (w_table (c_world s))) \<and>
     (c_activeNew s = 0 \<or> c_activeNew s \<in> set (keys (c_generations s)) - P)"

text \<open>What the table assigns, and whether it neutralizes new connections.\<close>

definition assignment :: "Config option \<Rightarrow> u32 \<times> bool" where
  "assignment t = (case t of None \<Rightarrow> (0, False) | Some c \<Rightarrow> (nf_ActiveGeneration c, nf_NeutralizeNew c))"

text \<open>The assigned generation also has its rules in the table.\<close>

definition table_rules :: "Config option \<Rightarrow> u32 set" where
  "table_rules t = (case t of None \<Rightarrow> {} | Some c \<Rightarrow> gn_ID ` set (generations c))"

definition assigned :: "Config option \<Rightarrow> u32 \<Rightarrow> bool \<Rightarrow> bool" where
  "assigned t active neutral \<longleftrightarrow> assignment t = (active, neutral) \<and> (active = 0 \<or> active \<in> table_rules t)"

lemma assigned_assignment: "assigned t active neutral \<Longrightarrow> assignment t = (active, neutral)"
  by (simp add: assigned_def)

definition agrees :: "ctl_config \<Rightarrow> u32 \<Rightarrow> ctl \<Rightarrow> bool" where
  "agrees cf active s \<longleftrightarrow>
     g_active (c_eng s) = active \<and>
     (c_fatal s \<or> cf_NoNFT cf \<or> assigned (w_table (c_world s)) active False)"

definition budget_ok :: "ctl_config \<Rightarrow> (u32 \<times> generationState) list \<Rightarrow> bool" where
  "budget_ok cf cs \<longleftrightarrow>
     int (length cs) \<le> cf_MaxGenerations cf \<and>
     int (length (filter (\<lambda>(_, g). resourceClass (gs_Scope g) \<noteq> EveryPacket) cs)) \<le> cf_MaxScopedGenerations cf \<and>
     int (length (filter (\<lambda>(_, g). resourceClass (gs_Scope g) = EveryPacket) cs)) \<le> cf_MaxEveryPacketGenerations cf"

definition phase_ok :: "ctl \<Rightarrow> bool" where
  "phase_ok s \<longleftrightarrow> c_activeNew s \<noteq> 0 \<longrightarrow> map_option gs_Phase (gen_of s (c_activeNew s)) = Some PhaseActive"

definition settled :: "ctl_config \<Rightarrow> 'h ctl_libs \<Rightarrow> ctl \<Rightarrow> bool" where
  "settled cf X s \<longleftrightarrow> cinv cf X {} {} s \<and> budget_ok cf (cores (c_generations s)) \<and>
     agrees cf (c_activeNew s) s \<and> phase_ok s"

section \<open>Frame steps keep everything\<close>

lemma saved_gens_kept:
  assumes "(gid, g) \<in> set (cores gens)" and "ps_Generations ps = saved_gens gens"
  shows "kept (Some (Doc ps)) g"
proof -
  from assms(1) obtain g' where g': "(gid, g') \<in> set gens" "g = core g'" by (auto simp: cores_def)
  then have "bare g = bare (g'\<lparr>gs_Scope := empty_scope\<rparr>)" by (simp add: bare_def core_def)
  moreover have "g'\<lparr>gs_Scope := empty_scope\<rparr> \<in> set (saved_gens gens)"
    using g'(1) by (force simp: saved_gens_def)
  ultimately show ?thesis using assms(2) by (auto simp: kept_def)
qed

lemma disk_inv_kept:
  assumes "disk_kept cf s s'" and "disk_inv cf P (cores (c_generations s)) (c_world s)"
    and "cores gens = cores (c_generations s)"
  shows "disk_inv cf P (cores gens) (c_world s')"
  unfolding disk_inv_def assms(3)
proof (intro conjI impI ballI)
  show "disk_ok (c_world s')" using assms by (simp add: disk_kept_def disk_inv_def)
next
  fix d e
  assume sf: "cf_StateFile cf \<noteq> []" and d: "d \<in> set (w_durable (c_world s'))"
    and e: "e \<in> set (cores (c_generations s))"
  obtain gid g where g: "e = (gid, g)" by (cases e)
  from assms(1,2) d consider "d \<in> set (w_durable (c_world s))"
    | ps where "d = Some (Doc ps)" "ps_Generations ps = saved_gens (c_generations s)"
    unfolding disk_kept_def disk_inv_def by blast
  then have "gid \<in> P \<or> kept d g"
  proof cases
    case 1
    with assms(2) sf e g show ?thesis by (auto simp: disk_inv_def)
  next
    case 2
    with e g saved_gens_kept [of gid g "c_generations s" ps] show ?thesis by simp
  qed
  then show "case e of (gid, g) \<Rightarrow> gid \<in> P \<or> kept d g" by (simp add: g)
qed

lemma inv_frame: "frame_step cf s s' \<Longrightarrow> cinv cf X P T s \<Longrightarrow> cinv cf X P T s'"
  using disk_inv_kept [of cf s s' P "c_generations s"]
  by (simp add: cinv_def frame_step_def mem_def)

lemma agrees_frame: "frame_step cf s s' \<Longrightarrow> agrees cf a s \<Longrightarrow> agrees cf a s'"
  by (auto simp: agrees_def frame_step_def mem_def)

lemma phase_ok_frame: "frame_step cf s s' \<Longrightarrow> phase_ok s' = phase_ok s"
  by (simp add: phase_ok_def gen_of_def frame_step_def mem_def)

lemma settled_frame:
  assumes "frame_step cf s s'" and "settled cf X s"
  shows "settled cf X s'"
  using assms inv_frame [OF assms(1), of X "{}" "{}"] agrees_frame [OF assms(1)] phase_ok_frame [OF assms(1)]
  by (simp add: settled_def frame_step_def mem_def)

text \<open>Moving phases, and moving the active generation to one that is in memory.\<close>

lemma inv_phases:
  assumes "cinv cf X P T s" and "cores (c_generations s') = cores (c_generations s)"
    and "c_eng s' = c_eng s" and "c_world s' = c_world s"
    and "c_activeNew s' = 0 \<or> c_activeNew s' \<in> set (keys (c_generations s)) - P"
  shows "cinv cf X P T s'"
proof -
  have "keys (c_generations s') = keys (c_generations s)" using assms(2) by (metis keys_cores)
  with assms show ?thesis by (simp add: cinv_def)
qed

lemma inv_eng:
  "cinv cf X P T s \<Longrightarrow> dna_of eng = dna_of (c_eng s) \<Longrightarrow> cinv cf X P T (s\<lparr>c_eng := eng\<rparr>)"
  by (simp add: cinv_def)

section \<open>Programming\<close>

lemma program_config_fields [simp]:
  "nf_ActiveGeneration (program_config cf gens active neutral) = active"
  "nf_NeutralizeNew (program_config cf gens active neutral) = neutral"
  "gn_ID ` set (generations (program_config cf gens active neutral)) = gs_ID ` set gens"
  by (auto simp: program_config_def managerLocked_def generations_def sel_Empty_def image_image o_def)

lemma table_ids_target:
  "table_ids (target (program_config cf gens active neutral)) \<subseteq> gs_ID ` set gens \<union> ({active} - {0})"
  unfolding target_def table_ids_def by auto

text \<open>What is programmed are generations of memory.\<close>

definition remembered :: "generationState list \<Rightarrow> ctl \<Rightarrow> bool" where
  "remembered gens s \<longleftrightarrow> (\<lambda>g. (gs_ID g, core g)) ` set gens \<subseteq> set (cores (c_generations s))"

lemma cores_keys: "(i, g) \<in> set (cores gens) \<Longrightarrow> i \<in> set (keys gens)"
  by (metis fst_conv imageI keys_cores set_map)

lemma remembered_keys: "remembered gens s \<Longrightarrow> gs_ID ` set gens \<subseteq> set (keys (c_generations s))"
  unfolding remembered_def using cores_keys by blast

lemma remembered_Nil [simp]: "remembered [] s"
  by (simp add: remembered_def)

lemma remembered_cong: "c_generations s' = c_generations s \<Longrightarrow> remembered gens s' = remembered gens s"
  by (simp add: remembered_def)

lemma live_remembered:
  assumes "cinv cf X P T s"
  shows "remembered (liveLocked s) s"
proof -
  have "(gs_ID g, core g) \<in> set (cores (c_generations s))" if "g \<in> set (liveLocked s)" for g
  proof -
    from that obtain gid where m: "(gid, g) \<in> set (c_generations s)" by (auto simp: liveLocked_def)
    with assms have "gen_ok cf X gid (core g)" by (force simp: cinv_def gens_ok_def cores_def)
    with cores_mem [OF m] show ?thesis by (simp add: gen_ok_def)
  qed
  then show ?thesis by (auto simp: remembered_def)
qed

lemma live_phase:
  assumes "cinv cf X P T s" and "gen_of s gid = Some g" and "serving (gs_Phase g)"
  shows "gid \<in> gs_ID ` set (liveLocked s)"
proof -
  have m: "(gid, g) \<in> set (c_generations s)" using assms(2) by (rule gen_of_mem)
  with assms(1) have "gen_ok cf X gid (core g)" by (force simp: cinv_def gens_ok_def cores_def)
  then have "gs_ID g = gid" by (simp add: gen_ok_def)
  moreover have "g \<in> set (liveLocked s)" using m assms(3) by (force simp: liveLocked_def)
  ultimately show ?thesis by blast
qed

lemma live_active:
  assumes "cinv cf X P T s" and "phase_ok s"
  shows "c_activeNew s = 0 \<or> c_activeNew s \<in> gs_ID ` set (liveLocked s)"
  using assms live_phase [OF assms(1), of "c_activeNew s"] by (auto simp: phase_ok_def serving_def)

lemma target_true:
  assumes "gens_ok cf X (cores (c_generations s))" and "remembered gens s"
  shows "table_true cf (cores (c_generations s)) (target (program_config cf gens active neutral))"
proof -
  let ?c = "program_config cf gens active neutral"
  have one: "h = g" if "(i, h) \<in> set (cores (c_generations s))" "(i, g) \<in> set (cores (c_generations s))" for i g h
    using that assms(1) eq_key_imp_eq_value unfolding gens_ok_def by metis
  have entry: "\<exists>g\<in>set gens. gn_ID e = gs_ID g \<and> gn_Outbound e = sc_Outbound (gs_Scope g) \<and> gn_Inbound e = sc_Inbound (gs_Scope g)"
    if "e \<in> set (generations ?c)" for e
    using that by (cases "gens = []") (auto simp: program_config_def managerLocked_def generations_def sel_Empty_def)
  have "gn_Outbound e = sc_Outbound (gs_Scope h) \<and> gn_Inbound e = sc_Inbound (gs_Scope h)"
    if e: "e \<in> set (generations ?c)" and h: "(gn_ID e, h) \<in> set (cores (c_generations s))" for e h
  proof -
    obtain g where g: "g \<in> set gens" "gn_ID e = gs_ID g" "gn_Outbound e = sc_Outbound (gs_Scope g)"
        "gn_Inbound e = sc_Inbound (gs_Scope g)" using entry [OF e] by blast
    have "(gn_ID e, core g) \<in> set (cores (c_generations s))" using g(1,2) assms(2) by (auto simp: remembered_def)
    from one [OF h this] show ?thesis using g(3,4) by simp
  qed
  moreover have "nf_Port ?c = nf_Port (cf_NFT cf)" "nf_OutQueue ?c = nf_OutQueue (cf_NFT cf)"
    "nf_InQueue ?c = nf_InQueue (cf_NFT cf)" "nf_BypassUID ?c = nf_BypassUID (cf_NFT cf)"
    by (simp_all add: program_config_def managerLocked_def nft_New_def Let_def)
  ultimately show ?thesis unfolding table_true_def target_def by auto
qed

lemma Idle_assigns_nothing: "Idle c \<Longrightarrow> nf_ActiveGeneration c = 0 \<and> \<not> nf_NeutralizeNew c"
  by (simp add: Idle_def split: if_splits)

lemma assignment_target: "assignment (target c) = (nf_ActiveGeneration c, nf_NeutralizeNew c)"
  using Idle_assigns_nothing [of c] by (simp add: assignment_def target_def)

lemma assigned_target:
  assumes "active = 0 \<or> active \<in> gs_ID ` set gens"
  shows "assigned (target (program_config cf gens active neutral)) active neutral"
proof -
  let ?c = "program_config cf gens active neutral"
  have "active = 0 \<or> active \<in> table_rules (target ?c)"
    using assms Idle_assigns_nothing [of ?c] by (auto simp: table_rules_def target_def)
  then show ?thesis by (simp add: assigned_def assignment_target)
qed

lemma inv_program:
  assumes i: "cinv cf X {} T s" and known: "remembered gens s"
    and "active = 0 \<or> active \<in> set (keys (c_generations s))"
    and "cf_NoNFT cf \<longrightarrow> w = c_world s"
    and "\<not> cf_NoNFT cf \<longrightarrow> table_step X (program_config cf gens active neutral) ok (c_world s) w"
  shows "cinv cf X {} T (s\<lparr>c_world := w, c_nft := n, c_steeringInstalled := b\<rparr>)"
    and "inj (xl_fp X) \<Longrightarrow> ok \<Longrightarrow> cinv cf X {} {} (s\<lparr>c_world := w, c_nft := n, c_steeringInstalled := b\<rparr>)"
proof -
  have ids: "table_ids (target (program_config cf gens active neutral)) \<subseteq> set (keys (c_generations s))"
  proof -
    have "{active} - {0} \<subseteq> set (keys (c_generations s))" using assms(3) by blast
    with table_ids_target [of cf gens active neutral] remembered_keys [OF known] show ?thesis by blast
  qed
  have true: "table_true cf (cores (c_generations s)) (target (program_config cf gens active neutral))"
    using i known unfolding cinv_def by (blast intro: target_true)
  have disk: "disk_inv cf {} (cores (c_generations s)) w"
    using i assms(4,5) by (cases "cf_NoNFT cf")
      (auto simp: cinv_def table_step_def disk_inv_def disk_part_def disk_ok_def)
  show "cinv cf X {} T (s\<lparr>c_world := w, c_nft := n, c_steeringInstalled := b\<rparr>)"
    using i disk ids true assms(5) by (auto simp: cinv_def table_step_def)
  show "cinv cf X {} {} (s\<lparr>c_world := w, c_nft := n, c_steeringInstalled := b\<rparr>)"
    if "inj (xl_fp X)" ok
    using i disk ids true assms(5) that by (auto simp: cinv_def table_step_def holds_inj)
qed

end
