(* ===== verification/Ctl_Safety.thy ===== *)
theory Ctl_Safety
  imports Ctl_Invariant
begin

text \<open>
  The invariants through activation, deactivation and failing closed: what each operation may
  assume and what it establishes on every path, whatever the outside calls do.
\<close>

section \<open>Programming, as the invariants see it\<close>

definition assigns :: "ctl_config \<Rightarrow> u32 \<Rightarrow> bool \<Rightarrow> ctl \<Rightarrow> bool" where
  "assigns cf active neutral s \<longleftrightarrow>
     c_fatal s \<or> cf_NoNFT cf \<or> assigned (w_table (c_world s)) active neutral"

lemma agrees_alt: "agrees cf a s \<longleftrightarrow> g_active (c_eng s) = a \<and> assigns cf a False s"
  by (simp add: agrees_def assigns_def)

lemma wp_program:
  assumes inj: "inj (xl_fp X)" and i: "cinv cf X {} T s"
    and gens: "remembered gens s"
    and live: "active = 0 \<or> active \<in> gs_ID ` set gens"
    and Q: "\<And>e s'. mem s' = mem s \<Longrightarrow> c_fatal s' = c_fatal s \<Longrightarrow> c_offloads s' = c_offloads s \<Longrightarrow>
      cinv cf X {} T s' \<Longrightarrow> (e = None \<Longrightarrow> cinv cf X {} {} s' \<and> assigns cf active neutral s') \<Longrightarrow> Q e s'"
  shows "wp (programModeLocked cf X gens active neutral verify s) Q"
proof (rule wp_programModeLocked)
  fix e :: "err option" and w n b
  let ?s = "s\<lparr>c_world := w, c_nft := n, c_steeringInstalled := b\<rparr>"
  assume no: "cf_NoNFT cf \<longrightarrow> w = c_world s \<and> e = None"
    and yes: "\<not> cf_NoNFT cf \<longrightarrow> table_step X (program_config cf gens active neutral) (e = None) (c_world s) w"
  have no': "cf_NoNFT cf \<longrightarrow> w = c_world s" using no by blast
  have act: "active = 0 \<or> active \<in> set (keys (c_generations s))" using live remembered_keys [OF gens] by blast
  note I = inv_program [OF i gens act no' yes]
  show "Q e ?s"
  proof (rule Q)
    show "cinv cf X {} T ?s" by (rule I)
    show "e = None \<Longrightarrow> cinv cf X {} {} ?s \<and> assigns cf active neutral ?s"
      using I(2) [OF inj] yes inj
      by (auto simp: assigns_def table_step_def holds_inj assigned_target [OF live])
  qed (simp_all add: mem_def)
qed

lemma mem_fields:
  "mem s' = mem s \<longleftrightarrow> c_generations s' = c_generations s \<and> c_activeNew s' = c_activeNew s \<and>
     c_previous s' = c_previous s \<and> c_eng s' = c_eng s"
  by (simp add: mem_def)

lemma liveLocked_cong: "c_generations s' = c_generations s \<Longrightarrow> liveLocked s' = liveLocked s"
  by (simp add: liveLocked_def)

section \<open>Failing closed\<close>

definition failed_closed :: "ctl_config \<Rightarrow> 'h ctl_libs \<Rightarrow> ctl \<Rightarrow> ctl \<Rightarrow> bool" where
  "failed_closed cf X s s' \<longleftrightarrow>
     cinv cf X {} {} s' \<and> cores (c_generations s') = cores (c_generations s) \<and>
     c_activeNew s' = 0 \<and> agrees cf 0 s'"

lemma assigns_mem:
  "assigns cf a b s \<Longrightarrow> w_table (c_world s') = w_table (c_world s) \<Longrightarrow> (c_fatal s \<Longrightarrow> c_fatal s') \<Longrightarrow>
     assigns cf a b s'"
  by (auto simp: assigns_def)

lemma cinv_call_Fatal [simp]: "cinv cf X P T (call_Fatal cf' s) = cinv cf X P T s"
  by (simp add: cinv_def)

lemma wp_disableAssignment:
  assumes inj: "inj (xl_fp X)" and fatal: "cf_Fatal cf" and i: "cinv cf X {} {} s" and "c_activeNew s = 0"
    and Q: "\<And>c s'. mem s' = mem s \<Longrightarrow> cinv cf X {} {} s' \<Longrightarrow> assigns cf 0 False s' \<Longrightarrow> Q c s'"
  shows "wp (disableAssignment cf X cause s) Q"
  unfolding disableAssignment_def programLocked_def removeRulesLocked_def Let_def
proof (intro wp_prod wp_program [OF inj i live_remembered [OF i] disjI1 [OF refl]] wp_option, goal_cases)
  case (1 e s1)
  then show ?case by (intro wp_pair Q) auto
next
  case (2 e s1 x)
  then have i1: "cinv cf X {} {} s1" by simp
  show ?case
  proof (intro wp_prod wp_program [OF inj i1] wp_option, goal_cases)
    case (3 e2 s2)
    with 2 show ?case by (intro wp_pair Q) auto
  next
    case (4 e2 s2 y)
    with 2 fatal show ?case by (intro wp_pair Q) (auto simp: mem_fields assigns_def)
  qed simp_all
qed

lemma enterUnsafe_mem:
  "cores (c_generations (enterUnsafe c s)) = cores (c_generations s)"
  "c_activeNew (enterUnsafe c s) = 0" "c_world (enterUnsafe c s) = c_world s"
  "c_eng (enterUnsafe c s) = reg_Deactivate (c_eng s)" "c_fatal (enterUnsafe c s) = c_fatal s"
  "c_unsafe (enterUnsafe c s)" "c_atom (enterUnsafe c s) = c_atom s"
  by (auto simp: enterUnsafe_def Let_def)

lemma reconcile_closed:
  assumes inj: "inj (xl_fp X)" and fatal: "cf_Fatal cf" and i: "cinv cf X {} {} s"
  shows "failed_closed cf X s (reconcileIntegrityFailureLocked cf X cause s)"
proof -
  let ?u = "enterUnsafe cause s"
  have u: "cinv cf X {} {} ?u"
    using i enterUnsafe_mem [of cause s] inv_phases [of cf X "{}" "{}" "s\<lparr>c_eng := reg_Deactivate (c_eng s)\<rparr>" ?u]
      inv_eng [OF i, of "reg_Deactivate (c_eng s)"] by simp
  obtain c1 s1 where d: "disableAssignment cf X cause ?u = (c1, s1)"
    by (cases "disableAssignment cf X cause ?u")
  have s1: "mem s1 = mem ?u" "cinv cf X {} {} s1" "assigns cf 0 False s1"
    using wp_D [OF wp_disableAssignment [OF inj fatal u enterUnsafe_mem(2),
          of "\<lambda>_ s'. mem s' = mem ?u \<and> cinv cf X {} {} s' \<and> assigns cf 0 False s'"] d] by simp_all
  obtain e s2 where p: "persistLocked cf (s1\<lparr>c_failure := err_Error c1\<rparr>) = (e, s2)"
    by (cases "persistLocked cf (s1\<lparr>c_failure := err_Error c1\<rparr>)")
  have f: "frame_step cf (s1\<lparr>c_failure := err_Error c1\<rparr>) s2"
    by (rule wp_D [OF _ p]) (rule wp_persist_frame)
  have i2: "cinv cf X {} {} s2"
    using inv_frame [OF f, of X "{}" "{}"] s1(2) by (simp add: cinv_def)
  have res: "reconcileIntegrityFailureLocked cf X cause s =
      (case e of None \<Rightarrow> s2 | Some e \<Rightarrow> call_Fatal cf
         (s2\<lparr>c_failure := err_Error (Wrap [] [c1, Wrap ''persist integrity failure'' [e]])\<rparr>))"
    by (simp add: reconcileIntegrityFailureLocked_def d p)
  have m: "c_generations s2 = c_generations ?u" "c_activeNew s2 = 0" "c_eng s2 = reg_Deactivate (c_eng s)"
    "assigns cf 0 False s2"
    using frame_step_fields [OF f] s1 enterUnsafe_mem [of cause s] by (auto simp: mem_fields assigns_def)
  show ?thesis
    using i2 m enterUnsafe_mem(1) [of cause s] fatal
    by (auto simp: res failed_closed_def agrees_alt reg_Deactivate_def assigns_def cinv_def split: option.split)
qed

lemma integrityFailure_closed:
  assumes "inj (xl_fp X)" and "cf_Fatal cf" and "cinv cf X {} {} s"
  shows "failed_closed cf X s (integrityFailureLocked cf X cause s)"
proof -
  have "cinv cf X {} {} (recordIntegrityFailure s)" using assms(3) by (simp add: cinv_def)
  from reconcile_closed [OF assms(1,2) this, of cause] show ?thesis
    by (simp add: integrityFailureLocked_def failed_closed_def)
qed

section \<open>Restoring the state before an activation\<close>

lemma set_phase_list:
  "c_generations (set_phase gid p s) =
     map (\<lambda>(i, g). (i, if i = gid then g\<lparr>gs_Phase := p\<rparr> else g)) (c_generations s)"
  by (simp add: set_phase_def)

lemma restore_phases_list:
  fixes gens gens0 :: "(u32 \<times> generationState) list"
  assumes "cores gens = cores gens0" and "distinct (keys gens0)"
  shows "fold (\<lambda>(gid, p). map (\<lambda>(i, g). (i, if i = gid then g\<lparr>gs_Phase := p\<rparr> else g)))
     (map (\<lambda>(gid, g). (gid, gs_Phase g)) gens0) gens = gens0"
  using assms
proof (induction gens0 arbitrary: gens)
  case Nil
  then show ?case by (simp add: cores_def)
next
  case (Cons e gens0)
  obtain gid g0 where e: "e = (gid, g0)" by (cases e)
  with Cons.prems(1) obtain g rest where gens: "gens = (gid, g) # rest" "core g = core g0"
    "cores rest = cores gens0" by (cases gens) (auto simp: cores_def)
  let ?set = "\<lambda>gid p. map (\<lambda>(i, g). (i, if i = gid then g\<lparr>gs_Phase := p\<rparr> else g))"
  have head: "fold (\<lambda>(gid, p). ?set gid p) phs ((gid, h) # hs) =
      (gid, h) # fold (\<lambda>(gid, p). ?set gid p) phs hs" if "gid \<notin> fst ` set phs" for phs :: "(u32 \<times> Phase) list" and h :: generationState and hs
    using that by (induction phs arbitrary: hs) auto
  have g: "g\<lparr>gs_Phase := gs_Phase g0\<rparr> = g0"
    using gens(2) by (cases g; cases g0) (simp add: core_def)
  have "keys rest = keys gens0" using gens(3) by (metis keys_cores)
  then have "?set gid (gs_Phase g0) rest = rest"
    using Cons.prems(2) e by (intro map_idI) (force simp: image_iff dest: arg_cong [where f = set])
  moreover have notin: "gid \<notin> fst ` set (map (\<lambda>(gid, g). (gid, gs_Phase g)) gens0)"
    using Cons.prems(2) e by (force simp: image_iff)
  ultimately show ?case
    using head [OF notin] Cons.IH [OF gens(3)] Cons.prems(2) by (simp add: e gens(1) g)
qed

lemma restoreLocked_fold:
  "c_generations (fold (\<lambda>(gid, p) s. set_phase gid p s) phs s) =
     fold (\<lambda>(gid, p). map (\<lambda>(i, g). (i, if i = gid then g\<lparr>gs_Phase := p\<rparr> else g))) phs (c_generations s)"
  by (induction phs arbitrary: s) (auto simp: set_phase_list)

lemma fold_set_phase_fields:
  "c_activeNew (fold (\<lambda>(gid, p) s. set_phase gid p s) phs s) = c_activeNew s"
  "c_previous (fold (\<lambda>(gid, p) s. set_phase gid p s) phs s) = c_previous s"
  "c_eng (fold (\<lambda>(gid, p) s. set_phase gid p s) phs s) = c_eng s"
  "c_world (fold (\<lambda>(gid, p) s. set_phase gid p s) phs s) = c_world s"
  "c_fatal (fold (\<lambda>(gid, p) s. set_phase gid p s) phs s) = c_fatal s"
  "c_offloads (fold (\<lambda>(gid, p) s. set_phase gid p s) phs s) = c_offloads s"
  by (induction phs arbitrary: s) (auto simp del: fold_simps simp: fold_simps)

text \<open>\<open>sv\<close> was captured in a state like \<open>s0\<close>.\<close>

definition captured :: "saved \<Rightarrow> ctl \<Rightarrow> bool" where
  "captured sv s0 \<longleftrightarrow>
     sv_active sv = c_activeNew s0 \<and> sv_previous sv = c_previous s0 \<and> sv_phases sv = phasesLocked s0 \<and>
     sv_hadSteering sv = hasSteeringLocked s0"

lemma restoreState_mem:
  assumes "captured sv s0" and "cores (c_generations s) = cores (c_generations s0)"
    and "distinct (keys (c_generations s0))"
  shows "c_generations (restoreState sv s) = c_generations s0"
    and "c_activeNew (restoreState sv s) = c_activeNew s0"
    and "c_previous (restoreState sv s) = c_previous s0"
    and "c_eng (restoreState sv s) = c_eng s" and "c_world (restoreState sv s) = c_world s"
    and "c_fatal (restoreState sv s) = c_fatal s" and "c_offloads (restoreState sv s) = c_offloads s"
proof -
  let ?t = "s\<lparr>c_activeNew := sv_active sv, c_previous := sv_previous sv, c_unsafe := sv_unsafe sv,
     c_failure := sv_failure sv, c_remediation := sv_remediation sv,
     c_remediationEpoch := sv_remediationEpoch sv\<rparr>"
  let ?r = "fold (\<lambda>(gid, p) s. set_phase gid p s) (sv_phases sv) ?t"
  have r: "c_generations ?r = c_generations s0" "c_activeNew ?r = c_activeNew s0"
    "c_previous ?r = c_previous s0" "c_eng ?r = c_eng s" "c_world ?r = c_world s"
    "c_fatal ?r = c_fatal s" "c_offloads ?r = c_offloads s"
    using assms restore_phases_list [OF assms(2,3)]
    by (simp_all add: restoreLocked_fold fold_set_phase_fields captured_def phasesLocked_def)
  have "c_generations (restoreState sv s) = c_generations ?r"
    "c_activeNew (restoreState sv s) = c_activeNew ?r" "c_previous (restoreState sv s) = c_previous ?r"
    "c_eng (restoreState sv s) = c_eng ?r" "c_world (restoreState sv s) = c_world ?r"
    "c_fatal (restoreState sv s) = c_fatal ?r" "c_offloads (restoreState sv s) = c_offloads ?r"
    by (simp_all add: restoreState_def restoreLocked_def Let_def Load_def tick_fields split: bool.split)
  with r show "c_generations (restoreState sv s) = c_generations s0"
    and "c_activeNew (restoreState sv s) = c_activeNew s0"
    and "c_previous (restoreState sv s) = c_previous s0"
    and "c_eng (restoreState sv s) = c_eng s" and "c_world (restoreState sv s) = c_world s"
    and "c_fatal (restoreState sv s) = c_fatal s" and "c_offloads (restoreState sv s) = c_offloads s"
    by simp_all
qed

section \<open>Activation\<close>

definition unchanged :: "ctl \<Rightarrow> ctl \<Rightarrow> bool" where
  "unchanged s0 s \<longleftrightarrow>
     c_generations s = c_generations s0 \<and> c_activeNew s = c_activeNew s0 \<and> c_previous s = c_previous s0"

text \<open>How a failed activation may end: as if it had not been asked for, or failed closed.\<close>

definition withdrawn :: "ctl_config \<Rightarrow> 'h ctl_libs \<Rightarrow> ctl \<Rightarrow> ctl \<Rightarrow> bool" where
  "withdrawn cf X s0 s \<longleftrightarrow>
     cinv cf X {} {} s \<and> cores (c_generations s) = cores (c_generations s0) \<and>
     agrees cf (c_activeNew s) s \<and> (unchanged s0 s \<or> c_activeNew s = 0)"

lemma withdrawn_settled:
  assumes "settled cf X s0" and "withdrawn cf X s0 s"
  shows "settled cf X s"
  using assms by (auto simp: settled_def withdrawn_def unchanged_def phase_ok_def gen_of_def)

lemma failed_closed_withdrawn:
  "failed_closed cf X s s' \<Longrightarrow> cores (c_generations s) = cores (c_generations s0) \<Longrightarrow> withdrawn cf X s0 s'"
  by (simp add: failed_closed_def withdrawn_def)

text \<open>The state inside an activation, against the settled state it started from.\<close>

definition midway :: "ctl_config \<Rightarrow> 'h ctl_libs \<Rightarrow> ctl \<Rightarrow> ctl \<Rightarrow> bool" where
  "midway cf X s0 s \<longleftrightarrow>
     settled cf X s0 \<and> cinv cf X {} {} s \<and> cores (c_generations s) = cores (c_generations s0) \<and>
     c_eng s = c_eng s0 \<and> (c_fatal s0 \<longrightarrow> c_fatal s)"

lemma midway_frame:
  assumes "frame_step cf s s'" and "midway cf X s0 s"
  shows "midway cf X s0 s'"
  using inv_frame [OF assms(1), of X "{}" "{}"] frame_step_fields [OF assms(1)] assms(2)
  by (auto simp: midway_def)

lemma midway_mem:
  "midway cf X s0 s \<Longrightarrow> mem s' = mem s \<Longrightarrow> cinv cf X {} {} s' \<Longrightarrow> c_fatal s' = c_fatal s \<Longrightarrow>
     midway cf X s0 s'"
  by (simp add: midway_def mem_fields)

lemma settled_keys:
  assumes "settled cf X s0"
  shows "distinct (keys (c_generations s0))"
    and "c_activeNew s0 = 0 \<or> c_activeNew s0 \<in> set (keys (c_generations s0))"
  using assms by (auto simp: settled_def cinv_def gens_ok_def)

lemma midway_keys: "midway cf X s0 s \<Longrightarrow> keys (c_generations s) = keys (c_generations s0)"
  by (metis keys_cores midway_def)

lemma restoreState_midway:
  assumes c: "captured sv s0" and m: "midway cf X s0 s"
  shows "midway cf X s0 (restoreState sv s)" and "unchanged s0 (restoreState sv s)"
    and "c_world (restoreState sv s) = c_world s" and "c_fatal (restoreState sv s) = c_fatal s"
proof -
  have d: "distinct (keys (c_generations s0))" using m settled_keys(1) by (auto simp: midway_def)
  have co: "cores (c_generations s) = cores (c_generations s0)" using m by (simp add: midway_def)
  note R = restoreState_mem [OF c co d]
  have s0: "settled cf X s0" and i: "cinv cf X {} {} s" using m by (simp_all add: midway_def)
  have k: "c_activeNew (restoreState sv s) = 0 \<or>
      c_activeNew (restoreState sv s) \<in> set (keys (c_generations s)) - {}"
    using settled_keys(2) [OF s0] unfolding R midway_keys [OF m] by simp
  have "c_eng (restoreState sv s) = c_eng s" "cores (c_generations (restoreState sv s)) = cores (c_generations s)"
    using R co by simp_all
  from inv_phases [OF i this(2,1) R(5) k] m R co show "midway cf X s0 (restoreState sv s)"
    by (simp add: midway_def)
  show "unchanged s0 (restoreState sv s)" using R by (simp add: unchanged_def)
  show "c_world (restoreState sv s) = c_world s" and "c_fatal (restoreState sv s) = c_fatal s"
    by (rule R)+
qed

text \<open>When the table still is the old one, restoring the state is enough.\<close>

lemma restored_withdrawn:
  assumes "midway cf X s0 s" and "unchanged s0 s" and "assigns cf (c_activeNew s0) False s"
  shows "withdrawn cf X s0 s"
  using assms by (auto simp: midway_def withdrawn_def unchanged_def agrees_alt settled_def)

lemma settled_assigns: "settled cf X s0 \<Longrightarrow> assigns cf (c_activeNew s0) False s0"
  by (simp add: settled_def agrees_alt)

lemma unchanged_frame: "frame_step cf s s' \<Longrightarrow> unchanged s0 s \<Longrightarrow> unchanged s0 s'"
  using frame_step_fields [of cf s s'] by (simp add: unchanged_def)

lemma assigns_frame: "frame_step cf s s' \<Longrightarrow> assigns cf a b s \<Longrightarrow> assigns cf a b s'"
  using frame_step_fields [of cf s s'] by (auto simp: assigns_def)

lemma withdrawn_closed:
  assumes "inj (xl_fp X)" and "cf_Fatal cf" and "midway cf X s0 s"
  shows "withdrawn cf X s0 (integrityFailureLocked cf X cause s)"
proof (rule failed_closed_withdrawn)
  show "failed_closed cf X s (integrityFailureLocked cf X cause s)"
    using assms by (intro integrityFailure_closed) (simp_all add: midway_def)
  show "cores (c_generations s) = cores (c_generations s0)" using assms(3) by (simp add: midway_def)
qed

lemma wp_act_compensate:
  assumes inj: "inj (xl_fp X)" and fatal: "cf_Fatal cf"
    and c: "captured sv s0" and m: "midway cf X s0 s"
    and Q: "\<And>r s'. r \<noteq> None \<Longrightarrow> withdrawn cf X s0 s' \<Longrightarrow> Q r s'"
  shows "wp (act_compensate cf X sv offloads e result s) Q"
proof -
  note R = restoreState_midway [OF c m]
  let ?s = "restoreState sv s"
  have i: "cinv cf X {} {} ?s" using R(1) by (simp add: midway_def)
  have act: "sv_active sv = 0 \<or> sv_active sv \<in> gs_ID ` set (liveLocked ?s)"
    using m c R(2) live_active [of cf X "{}" "{}" s0]
    by (simp add: captured_def midway_def unchanged_def settled_def liveLocked_def)
  have sv: "sv_active sv = c_activeNew s0" using c by (simp add: captured_def)
  show ?thesis
    unfolding act_compensate_def programLocked_def Let_def
  proof (intro wp_prod wp_program [OF inj i live_remembered [OF i] act], goal_cases)
    case (1 programErr s1)
    then have m1: "midway cf X s0 s1" and u1: "unchanged s0 s1"
      using midway_mem [OF R(1)] R(2) by (auto simp: unchanged_def mem_fields)
    have a1: "programErr = None \<Longrightarrow> assigns cf (c_activeNew s0) False s1" using 1 sv by simp
    show ?case
    proof (intro wp_persist_from [OF frame_step_refl [of cf s1]], goal_cases)
      case (1 persistErr s2)
      show ?case
      proof (rule wp_prod, rule wp_mono [of _ "\<lambda>_ s3. frame_step cf s1 s3"])
        show "wp (if offloads \<and> \<not> sv_hadSteering sv then restoreOffloads cf s2 else (None, s2))
            (\<lambda>_ s3. frame_step cf s1 s3)"
          using 1 frame_step_trans by (intro wp_if wp_restoreOffloads wp_pair) blast+
      next
        fix restoreErr s3
        assume f: "frame_step cf s1 s3"
        note m3 = midway_frame [OF f m1] and u3 = unchanged_frame [OF f u1]
        show "wp (case errors_Join [errors_Join [programErr, persistErr], restoreErr] of
            None \<Rightarrow> (Some result, s3)
          | Some recoveryErr \<Rightarrow>
              (Some (Wrap [] [e, Wrap ''compensation failed'' [recoveryErr]]),
               integrityFailureLocked cf X (Wrap [] [e, Wrap ''compensation failed'' [recoveryErr]]) s3)) Q"
        proof (intro wp_option wp_pair Q)
          assume "errors_Join [errors_Join [programErr, persistErr], restoreErr] = None"
          then have "programErr = None" by simp
          with a1 f have "assigns cf (c_activeNew s0) False s3" by (blast intro: assigns_frame)
          with m3 u3 show "withdrawn cf X s0 s3" by (rule restored_withdrawn)
        qed (simp_all add: withdrawn_closed [OF inj fatal m3])
      qed
    qed
  qed
qed

lemma wp_act_offloads:
  assumes inj: "inj (xl_fp X)" and fatal: "cf_Fatal cf"
    and c: "captured sv s0" and m: "midway cf X s0 s" and a: "assigns cf (c_activeNew s0) False s"
    and Q: "\<And>s'. frame_step cf s s' \<Longrightarrow> Q None s'"
      "\<And>r s'. r \<noteq> None \<Longrightarrow> withdrawn cf X s0 s' \<Longrightarrow> Q r s'"
  shows "wp (act_offloads cf X sv s) Q"
  unfolding act_offloads_def Let_def
proof (intro wp_prod wp_ensureOffloadsDown wp_option wp_pair Q(1), goal_cases)
  case (1 e s1)
  then show ?case by simp
next
  case (2 e s1 x)
  then have f: "frame_step cf s s1" by simp
  note R = restoreState_midway [OF c midway_frame [OF f m]]
  have a1: "assigns cf (c_activeNew s0) False (restoreState sv s1)"
    using assigns_frame [OF f a] R(3,4) by (simp add: assigns_def)
  show ?case
  proof (intro wp_persist_from [OF frame_step_refl [of cf "restoreState sv s1"]] wp_option wp_pair Q(2), goal_cases)
    case (2 r s2)
    then have f2: "frame_step cf (restoreState sv s1) s2" by simp
    show ?case
      using midway_frame [OF f2 R(1)] unchanged_frame [OF f2 R(2)] assigns_frame [OF f2 a1]
      by (rule restored_withdrawn)
  next
    case (4 r s2 y)
    then have f2: "frame_step cf (restoreState sv s1) s2" by simp
    show ?case using midway_frame [OF f2 R(1)] by (rule withdrawn_closed [OF inj fatal])
  qed simp_all
qed

lemma cinv_world:
  assumes "cinv cf X P T s" and "w_table w = w_table (c_world s)" and "disk_part w = disk_part (c_world s)"
  shows "cinv cf X P T (s\<lparr>c_world := w\<rparr>)"
  using assms by (simp add: cinv_def disk_inv_def disk_ok_def disk_part_def)

lemma cinv_engine:
  assumes "cinv cf X P T s" and "gid \<in> set (keys (c_generations s))"
  shows "map_of (g_byID (c_eng s)) gid \<noteq> None"
proof -
  from assms(2) obtain g' where "(gid, g') \<in> set (c_generations s)" by auto
  then obtain g where "(gid, g) \<in> set (cores (c_generations s))" using cores_mem by blast
  with assms(1) have "dna_of (c_eng s) gid = Some (gs_DNA g)" by (auto simp: cinv_def)
  then show ?thesis by (metis dna_of_None option.distinct(1))
qed

lemma reg_Activate_present:
  assumes "map_of (g_byID r) gid \<noteq> None"
  shows "\<exists>r'. reg_Activate gid r = (None, r') \<and> dna_of r' = dna_of r \<and> g_active r' = gid"
  using assms by (auto simp: reg_Activate_def Let_def)

lemma wp_act_program:
  assumes inj: "inj (xl_fp X)" and fatal: "cf_Fatal cf"
    and c: "captured sv s0" and m: "midway cf X s0 s" and gid: "gid \<in> set (keys (c_generations s0))"
    and live: "sv_active sv = 0 \<or> sv_active sv \<in> gs_ID ` set (liveLocked s)" "gid \<in> gs_ID ` set (liveLocked s)"
    and Q: "\<And>s'. c_generations s' = c_generations s \<Longrightarrow> c_activeNew s' = c_activeNew s \<Longrightarrow>
        c_previous s' = c_previous s \<Longrightarrow> cinv cf X {} {} s' \<Longrightarrow> agrees cf gid s' \<Longrightarrow> Q None s'"
      "\<And>r s'. r \<noteq> None \<Longrightarrow> withdrawn cf X s0 s' \<Longrightarrow> Q r s'"
  shows "wp (act_program cf X sv gid s) Q"
proof -
  have s0: "settled cf X s0" and i: "cinv cf X {} {} s" using m by (simp_all add: midway_def)
  note k = midway_keys [OF m]
  have comp: "wp (act_compensate cf X sv b e r s1) Q" if "midway cf X s0 s1" for b e r s1
    by (rule wp_act_compensate [OF inj fatal c that Q(2)])
  show ?thesis
    unfolding act_program_def Let_def
  proof (intro wp_prod wp_program [OF inj i live_remembered [OF i] live(1)] wp_option, goal_cases)
    case (2 e s1 x)
    then show ?case by (intro comp midway_mem [OF m])
  next
    case (1 e s1)
    then have m1: "midway cf X s0 s1" by (intro midway_mem [OF m])
    have neutral: "wp (if sv_active sv = 0 \<and> cf_Connections cf then neutralizeConnections cf s1 else ((0, None), s1))
        (\<lambda>_ s2. mem s2 = mem s1 \<and> cinv cf X {} {} s2 \<and> c_fatal s2 = c_fatal s1)"
      using 1 by (intro wp_if wp_neutralizeConnections wp_pair) (auto simp: neutral_step_def mem_fields intro: cinv_world)
    show ?case
    proof (rule wp_mono [OF neutral])
      fix r s2
      assume s2: "mem s2 = mem s1 \<and> cinv cf X {} {} s2 \<and> c_fatal s2 = c_fatal s1"
      then have m2: "midway cf X s0 s2" by (intro midway_mem [OF m1]) simp_all
      have i2: "cinv cf X {} {} s2" using s2 by simp
      have g2: "c_generations s2 = c_generations s" using s2 1 by (simp add: mem_fields)
      have known: "remembered (liveLocked s) s2" using live_remembered [OF i] g2 by (simp add: remembered_def)
      show "wp (case r of (n, e) \<Rightarrow> (case e of
            None \<Rightarrow>
              (case programLocked cf X (liveLocked s) gid False s2 of
                 (None, s) \<Rightarrow>
                   (case reg_Activate gid (c_eng s) of
                      (None, eng) \<Rightarrow> (None, s\<lparr>c_eng := eng\<rparr>)
                    | (Some e, eng) \<Rightarrow> (Some e, integrityFailureLocked cf X e (s\<lparr>c_eng := eng\<rparr>)))
               | (Some e, s) \<Rightarrow> act_compensate cf X sv True e e s)
          | Some e \<Rightarrow>
              act_compensate cf X sv False e (Wrap ''neutralize pre-activation conntracks'' [e]) s2)) Q"
        unfolding programLocked_def
      proof (rule wp_tuple, rule wp_option)
        show "wp (act_compensate cf X sv False x (Wrap ''neutralize pre-activation conntracks'' [x]) s2) Q" for x
          by (rule comp [OF m2])
        show "wp (case programModeLocked cf X (liveLocked s) gid False False s2 of
             (None, s) \<Rightarrow>
               (case reg_Activate gid (c_eng s) of
                  (None, eng) \<Rightarrow> (None, s\<lparr>c_eng := eng\<rparr>)
                | (Some e, eng) \<Rightarrow> (Some e, integrityFailureLocked cf X e (s\<lparr>c_eng := eng\<rparr>)))
           | (Some e, s) \<Rightarrow> act_compensate cf X sv True e e s) Q"
        proof (rule wp_prod, rule wp_program [OF inj i2 known disjI2 [OF live(2)]], rule wp_option)
          fix e s3 x
          assume "mem s3 = mem s2" "c_fatal s3 = c_fatal s2" "cinv cf X {} {} s3"
          then show "wp (act_compensate cf X sv True x x s3) Q" by (intro comp midway_mem [OF m2])
        next
          fix e s3
          assume "e = None" and s3: "mem s3 = mem s2" "cinv cf X {} {} s3"
            "e = None \<Longrightarrow> cinv cf X {} {} s3 \<and> assigns cf gid False s3"
          have "gid \<in> set (keys (c_generations s3))" using s3(1) gid k g2 by (simp add: mem_fields)
          with s3(2) cinv_engine [of cf X "{}" "{}" s3 gid] reg_Activate_present [of "c_eng s3" gid]
          obtain eng where eng: "reg_Activate gid (c_eng s3) = (None, eng)" "dna_of eng = dna_of (c_eng s3)"
            "g_active eng = gid" by blast
          have "Q None (s3\<lparr>c_eng := eng\<rparr>)"
          proof (rule Q(1))
            show "cinv cf X {} {} (s3\<lparr>c_eng := eng\<rparr>)" using s3(2) eng(2) by (intro inv_eng) simp_all
            show "agrees cf gid (s3\<lparr>c_eng := eng\<rparr>)"
              using s3(3) \<open>e = None\<close> eng(3) by (simp add: agrees_alt assigns_def)
          qed (use 1 s2 s3(1) in \<open>simp_all add: mem_fields\<close>)
          then show "wp (case reg_Activate gid (c_eng s3) of
              (None, eng) \<Rightarrow> (None, s3\<lparr>c_eng := eng\<rparr>)
            | (Some e, eng) \<Rightarrow> (Some e, integrityFailureLocked cf X e (s3\<lparr>c_eng := eng\<rparr>))) Q"
            by (simp add: eng(1) wp_def)
        qed
      qed
    qed
  qed
qed

section \<open>Repair\<close>

lemma parse_engine:
  assumes "parseStrategy X dna = Inr p"
  shows "\<exists>e. engine_New (xl_gen X) dna = Inr e"
  using assms by (auto simp: engine_New_Inr_iff parseStrategy_def split: sum.splits option.splits)

lemma Prepare_present:
  assumes "parseStrategy X dna = Inr p" and "dna_of r gid = Some dna"
  shows "Prepare (xl_gen X) gid dna r = (None, r)"
proof -
  obtain e where "engine_New (xl_gen X) dna = Inr e" using parse_engine [OF assms(1)] by blast
  moreover from assms(2) obtain old where "map_of (g_byID r) gid = Some old" "DNA old = dna"
    by (auto simp: dna_of_def)
  ultimately show ?thesis by (simp add: Prepare_def)
qed

lemma reconstruct_present:
  assumes "\<And>g. g \<in> set gens \<Longrightarrow> (\<exists>p. parseStrategy X (gs_DNA g) = Inr p) \<and>
    dna_of (c_eng s) (gs_ID g) = Some (gs_DNA g)"
  shows "reconstructLoop X gens s = (None, s)" and "verifyLoop gens s = None"
proof -
  show "reconstructLoop X gens s = (None, s)"
    using assms
  proof (induction gens)
    case (Cons g gens)
    from Cons.prems [of g] obtain p where "parseStrategy X (gs_DNA g) = Inr p"
      "dna_of (c_eng s) (gs_ID g) = Some (gs_DNA g)" by auto
    then have "Prepare (xl_gen X) (gs_ID g) (gs_DNA g) (c_eng s) = (None, c_eng s)" by (rule Prepare_present)
    with Cons show ?case by simp
  qed simp
  show "verifyLoop gens s = None"
    using assms by (induction gens) (simp_all add: VerifyGeneration_None [THEN iffD2])
qed

text \<open>Under the invariant every retained engine is there, so the reconstruction changes nothing.\<close>

lemma reconstruct_invariant:
  assumes "cinv cf X P T s"
  shows "reconstructAndVerifyLiveEnginesLocked X s = (None, s)"
proof -
  have present: "(\<exists>p. parseStrategy X (gs_DNA g) = Inr p) \<and> dna_of (c_eng s) (gs_ID g) = Some (gs_DNA g)"
    if "g \<in> set (liveLocked s)" for g
  proof -
    from that obtain gid where "(gid, g) \<in> set (c_generations s)" by (auto simp: liveLocked_def)
    then have "(gid, core g) \<in> set (cores (c_generations s))" by (force simp: cores_def)
    with assms have "gen_ok cf X gid (core g)" "dna_of (c_eng s) gid = Some (gs_DNA (core g))"
      by (auto simp: cinv_def gens_ok_def)
    then show ?thesis by (auto simp: gen_ok_def)
  qed
  show ?thesis
    unfolding reconstructAndVerifyLiveEnginesLocked_def Let_def
    by (simp add: reconstruct_present [OF present])
qed

lemma act_refuse_midway:
  assumes c: "captured sv s0" and m: "midway cf X s0 s" and a: "assigns cf (c_activeNew s0) False s"
  shows "withdrawn cf X s0 (act_refuse sv s)"
proof -
  note R = restoreState_midway [OF c m]
  have "like (restoreState sv s) (act_refuse sv s)" by (simp add: act_refuse_def like_def mem_fields)
  then have f: "frame_step cf (restoreState sv s) (act_refuse sv s)" by (rule like_frame)
  have "assigns cf (c_activeNew s0) False (restoreState sv s)" using a R(3,4) by (simp add: assigns_def)
  from restored_withdrawn [OF midway_frame [OF f R(1)] unchanged_frame [OF f R(2)] assigns_frame [OF f this]]
  show ?thesis .
qed

lemma wp_act_repair:
  assumes c: "captured sv s0" and m: "midway cf X s0 s" and a: "assigns cf (c_activeNew s0) False s"
    and Q: "\<And>s'. frame_step cf s s' \<Longrightarrow> Q None s'" "\<And>r s'. r \<noteq> None \<Longrightarrow> withdrawn cf X s0 s' \<Longrightarrow> Q r s'"
  shows "wp (act_repair X sv s) Q"
proof -
  define s1 where "s1 = no_remediation ((if \<not> sv_remediation sv then Guard True s else s)\<lparr>c_unsafe := False, c_failure := []\<rparr>)"
  have "like s s1" by (simp add: s1_def like_def mem_fields)
  then have f: "frame_step cf s s1" by (rule like_frame)
  have r: "reconstructAndVerifyLiveEnginesLocked X s1 = (None, s1)"
    using midway_frame [OF f m] by (intro reconstruct_invariant [of cf X "{}" "{}"]) (simp add: midway_def)
  have fa: "frame_step cf s (s1\<lparr>c_atom := a\<rparr>)" for a
    using f like_atom(1) by (rule frame_step_like)
  show ?thesis
    unfolding act_repair_def Let_def s1_def [symmetric] r prod.case option.case
    by (intro wp_prod wp_integrityProofIntact wp_bool wp_pair Q fa
        act_refuse_midway [OF c midway_frame [OF fa m] assigns_frame [OF fa a]]) simp_all
qed

section \<open>The whole of an activation\<close>

lemma wp_act_save:
  assumes "\<And>sv a. captured sv s \<Longrightarrow> sv_active sv = c_activeNew s \<Longrightarrow> Q sv (s\<lparr>c_atom := a\<rparr>)"
  shows "wp (act_save s) Q"
  unfolding act_save_def
  by (intro wp_prod wp_Load wp_pair) (simp add: assms captured_def phasesLocked_def hasSteeringLocked_def liveLocked_def)

lemma act_intend_mem:
  "cores (c_generations (act_intend sv gid s)) = cores (c_generations s)"
  "c_activeNew (act_intend sv gid s) = gid" "c_eng (act_intend sv gid s) = c_eng s"
  "c_world (act_intend sv gid s) = c_world s" "c_fatal (act_intend sv gid s) = c_fatal s"
  by (auto simp: act_intend_def Let_def)

lemma act_intend_phase:
  assumes "gid \<in> set (keys (c_generations s))"
  shows "map_option gs_Phase (gen_of (act_intend sv gid s) gid) = Some PhaseActive"
proof -
  have "gen_of s gid \<noteq> None" using assms by (simp add: gen_of_keys)
  then show ?thesis by (auto simp: act_intend_def Let_def gen_of_set_phase)
qed

lemma wp_act_unlatch: "(\<And>r a. Q r (s\<lparr>c_atom := a\<rparr>)) \<Longrightarrow> wp (act_unlatch sv s) Q"
  unfolding act_unlatch_def
proof -
  assume Q: "\<And>r a. Q r (s\<lparr>c_atom := a\<rparr>)"
  have L: "Latch b (s\<lparr>c_atom := a\<rparr>) = s\<lparr>c_atom := c_atom (Latch b (s\<lparr>c_atom := a\<rparr>))\<rparr>" for a b
    by (simp add: Latch_def Store_def tick_def)
  have L0: "Latch False s = s\<lparr>c_atom := c_atom (Latch False s)\<rparr>"
    by (simp add: Latch_def Store_def tick_def)
  show "wp (case DisarmGuard (Latch False s) of (guardIntact, s) \<Rightarrow>
      if \<not> guardIntact then (Some (Msg ''integrity failure interrupted lifecycle remediation''), Latch True s)
      else case Load at_faultEpoch s of (epoch, s) \<Rightarrow>
        if epoch \<noteq> sv_repairEpoch sv
        then (Some (Msg ''integrity failure interrupted lifecycle remediation''), Latch True s)
        else (None, s)) Q"
    apply (subst L0)
    apply (intro wp_prod wp_DisarmGuard wp_if wp_Load wp_pair)
      apply (simp, subst L, rule Q)
     apply (simp, subst L, rule Q)
    apply (simp add: Q)
    done
qed

end
