(* ===== verification/Ctl_Lifecycle.thy ===== *)
theory Ctl_Lifecycle
  imports Ctl_Safety
begin

text \<open>
  Every public operation of the controller keeps \<open>settled\<close>, on every path: activation,
  deactivation, rollback, preparation, draining and garbage collection.
\<close>

section \<open>Activation\<close>

text \<open>How an operation that may move the active generation ends.\<close>

definition moved :: "ctl_config \<Rightarrow> 'h ctl_libs \<Rightarrow> ctl \<Rightarrow> ctl \<Rightarrow> bool" where
  "moved cf X s s' \<longleftrightarrow> settled cf X s' \<and> cores (c_generations s') = cores (c_generations s)"

lemma moved_frame:
  assumes "frame_step cf s s'" and "settled cf X s"
  shows "moved cf X s s'"
  using settled_frame [OF assms] frame_step_fields [OF assms(1)] by (simp add: moved_def)

lemma withdrawn_moved: "settled cf X s \<Longrightarrow> withdrawn cf X s s' \<Longrightarrow> moved cf X s s'"
  using withdrawn_settled [of cf X s s'] by (simp add: moved_def withdrawn_def)

lemma act_intend_midway:
  assumes s: "settled cf X s" and sv: "captured sv s" and gid: "gid \<in> set (keys (c_generations s))"
  shows "midway cf X s (act_intend sv gid (s\<lparr>c_atom := a\<rparr>))"
    and "assigns cf (c_activeNew s) False (act_intend sv gid (s\<lparr>c_atom := a\<rparr>))"
proof -
  let ?t = "act_intend sv gid (s\<lparr>c_atom := a\<rparr>)"
  have i: "cinv cf X {} {} s" using s by (simp add: settled_def)
  have "cinv cf X {} {} ?t"
    using gid by (intro inv_phases [OF i]) (simp_all add: act_intend_mem)
  then show "midway cf X s ?t" using s by (simp add: midway_def act_intend_mem)
  show "assigns cf (c_activeNew s) False ?t"
    using settled_assigns [OF s] by (simp add: assigns_def act_intend_mem)
qed

lemma act_intend_live:
  assumes s: "settled cf X s" and sv: "sv_active sv = c_activeNew s" and gid: "gid \<in> set (keys (c_generations s))"
    and m: "midway cf X s (act_intend sv gid (s\<lparr>c_atom := a\<rparr>))"
  shows "sv_active sv = 0 \<or> sv_active sv \<in> gs_ID ` set (liveLocked (act_intend sv gid (s\<lparr>c_atom := a\<rparr>)))"
proof (cases "sv_active sv = 0")
  case False
  let ?t = "act_intend sv gid (s\<lparr>c_atom := a\<rparr>)"
  have i: "cinv cf X {} {} ?t" using m by (simp add: midway_def)
  have "gen_of s gid \<noteq> None" using gid by (simp add: gen_of_keys)
  moreover have "gen_of s (sv_active sv) \<noteq> None" using s sv False by (auto simp: settled_def phase_ok_def)
  ultimately have "\<exists>g. gen_of ?t (sv_active sv) = Some g \<and> serving (gs_Phase g)"
    using False by (auto simp: act_intend_def Let_def gen_of_set_phase serving_def)
  then show ?thesis using live_phase [OF i] by blast
qed simp

lemma agrees_atom: "settled cf X (s\<lparr>c_atom := a\<rparr>) = settled cf X s"
  by (simp add: settled_def cinv_def agrees_def phase_ok_def)

text \<open>Past the repair: the persisted intent, the offloads, the two transactions, the unlatching.\<close>

lemma wp_act_rest:
  assumes inj: "inj (xl_fp X)" and fatal: "cf_Fatal cf" and s: "settled cf X s" and c: "captured sv s"
    and m: "midway cf X s t" and a: "assigns cf (c_activeNew s) False t"
    and gid: "gid \<in> set (keys (c_generations s))" and act: "c_activeNew t = gid"
    and ph: "map_option gs_Phase (gen_of t gid) = Some PhaseActive"
    and old: "sv_active sv = 0 \<or> sv_active sv \<in> gs_ID ` set (liveLocked t)"
    and Q: "\<And>e s'. moved cf X s s' \<Longrightarrow> c_activeNew s' = gid \<Longrightarrow> (e \<noteq> None \<Longrightarrow> repair) \<Longrightarrow> Q e s'"
      "\<And>e s'. e \<noteq> None \<Longrightarrow> withdrawn cf X s s' \<Longrightarrow> Q e s'"
  shows "wp (case persistLocked cf t of
        (Some e, s) \<Rightarrow> (Some e, restoreState sv s)
      | (None, s) \<Rightarrow>
     (case act_offloads cf X sv s of
        (Some e, s) \<Rightarrow> (Some e, s)
      | (None, s) \<Rightarrow>
     (case act_program cf X sv gid s of
        (Some e, s) \<Rightarrow> (Some e, s)
      | (None, s) \<Rightarrow> (if repair then act_unlatch sv s else (None, s))))) Q"
proof (intro wp_prod wp_persist_from [OF frame_step_refl [of cf t]] wp_option, goal_cases)
  case (2 e s1 x)
  note R = restoreState_midway [OF c midway_frame [OF 2(1) m]]
  have "assigns cf (c_activeNew s) False (restoreState sv s1)"
    using assigns_frame [OF 2(1) a] R(3,4) by (simp add: assigns_def)
  then show ?case by (intro wp_pair Q restored_withdrawn R(1,2)) simp_all
next
  case (1 e s1)
  note m1 = midway_frame [OF 1(1) m] and a1 = assigns_frame [OF 1(1) a]
  show ?case
  proof (intro wp_prod wp_act_offloads [OF inj fatal c m1 a1] wp_option, goal_cases)
    case (4 r s2 x)
    then show ?case by (intro wp_pair Q) simp_all
  next
    case (1 s2)
    note f2 = frame_step_trans [OF \<open>frame_step cf t s1\<close> \<open>frame_step cf s1 s2\<close>]
    note m2 = midway_frame [OF f2 m]
    have "liveLocked s2 = liveLocked t" using frame_step_fields [OF f2] by (simp add: liveLocked_def)
    moreover have "gid \<in> gs_ID ` set (liveLocked t)"
      using m ph live_phase [of cf X "{}" "{}" t gid] by (auto simp: midway_def serving_def)
    ultimately have live: "sv_active sv = 0 \<or> sv_active sv \<in> gs_ID ` set (liveLocked s2)" "gid \<in> gs_ID ` set (liveLocked s2)"
      using old by simp_all
    have good: "moved cf X s (s3\<lparr>c_atom := b\<rparr>) \<and> c_activeNew s3 = gid"
      if "c_generations s3 = c_generations s2" "c_activeNew s3 = c_activeNew s2"
        "cinv cf X {} {} s3" "agrees cf gid s3" for s3 b
    proof -
      have k: "c_generations s3 = c_generations t" "c_activeNew s3 = gid"
        using that frame_step_fields [OF f2] act by simp_all
      have co: "cores (c_generations t) = cores (c_generations s)" using m by (simp add: midway_def)
      have "phase_ok s3" using ph k by (simp add: phase_ok_def gen_of_def)
      then have "settled cf X s3"
        using that s k co by (simp add: settled_def)
      with k co show ?thesis by (simp add: moved_def agrees_atom)
    qed
    show ?case
    proof (intro wp_prod wp_act_program [OF inj fatal c m2 gid live] wp_option wp_if wp_act_unlatch, goal_cases)
      case (1 s3 r b)
      with good [of s3] show ?case by (intro Q(1)) simp_all
    next
      case (2 s3)
      with good [of s3 "c_atom s3"] show ?case by (intro wp_pair Q(1)) simp_all
    qed (auto intro!: wp_pair Q)
  qed simp_all
qed

lemma wp_activateLocked:
  assumes inj: "inj (xl_fp X)" and fatal: "cf_Fatal cf" and s: "settled cf X s"
    and Q: "\<And>s'. moved cf X s s' \<Longrightarrow> c_activeNew s' = gid \<Longrightarrow> Q None s'"
      "\<And>e s'. moved cf X s s' \<Longrightarrow> unchanged s s' \<or> c_activeNew s' = 0 \<or> repair \<and> c_activeNew s' = gid \<Longrightarrow>
         Q (Some e) s'"
  shows "wp (activateLocked cf X gid repair s) Q"
proof -
  have s_s: "moved cf X s s" "unchanged s s" using s by (simp_all add: moved_def unchanged_def)
  have W: "Q (Some e) s'" if "withdrawn cf X s s'" for e s'
    using that withdrawn_moved [OF s that] by (intro Q(2)) (auto simp: withdrawn_def)
  show ?thesis
    unfolding activateLocked_def
  proof (rule wp_option, goal_cases)
    case 1
    show ?case by (intro wp_pair Q(2) s_s disjI1)
  next
    case (2 tgt)
    show ?case
    proof (rule wp_if, goal_cases)
    case 1
    show ?case by (intro wp_pair Q(2) s_s disjI1)
  next
    case 2
    show ?case
  proof (intro wp_prod wp_act_save, goal_cases)
    case (1 sv a)
    have gid: "gid \<in> set (keys (c_generations s))" using \<open>gen_of s gid = Some tgt\<close> gen_of_keys [of s gid] by auto
    let ?t = "act_intend sv gid (s\<lparr>c_atom := a\<rparr>)"
    note m = act_intend_midway [OF s 1(1) gid, of a]
    have ph: "map_option gs_Phase (gen_of ?t gid) = Some PhaseActive" and act: "c_activeNew ?t = gid"
      using act_intend_phase [of gid "s\<lparr>c_atom := a\<rparr>" sv] gid by (simp_all add: act_intend_mem)
    have rest: "wp (case persistLocked cf t of
        (Some e, s) \<Rightarrow> (Some e, restoreState sv s)
      | (None, s) \<Rightarrow>
     (case act_offloads cf X sv s of
        (Some e, s) \<Rightarrow> (Some e, s)
      | (None, s) \<Rightarrow>
     (case act_program cf X sv gid s of
        (Some e, s) \<Rightarrow> (Some e, s)
      | (None, s) \<Rightarrow> (if repair then act_unlatch sv s else (None, s))))) Q"
      if f: "frame_step cf ?t t" for t
    proof (rule wp_act_rest [OF inj fatal s 1(1) midway_frame [OF f m(1)] assigns_frame [OF f m(2)] gid])
      show "c_activeNew t = gid" "map_option gs_Phase (gen_of t gid) = Some PhaseActive"
        using frame_step_fields [OF f] act ph by (simp_all add: gen_of_def)
      show "sv_active sv = 0 \<or> sv_active sv \<in> gs_ID ` set (liveLocked t)"
        using act_intend_live [OF s _ gid m(1)] 1 frame_step_fields [OF f] by (simp add: captured_def liveLocked_def)
      show "Q e s'" if "moved cf X s s'" "c_activeNew s' = gid" "e \<noteq> None \<Longrightarrow> repair" for e s'
        using that Q by (cases e) auto
      show "Q e s'" if "e \<noteq> None" "withdrawn cf X s s'" for e s'
        using that W by (cases e) auto
    qed
    show ?case
    proof (rule wp_mono [of _ "\<lambda>e t. (e = None \<longrightarrow> frame_step cf ?t t) \<and> (e \<noteq> None \<longrightarrow> withdrawn cf X s t)"])
      show "wp (if repair then act_repair X sv ?t else (None, ?t))
          (\<lambda>e t. (e = None \<longrightarrow> frame_step cf ?t t) \<and> (e \<noteq> None \<longrightarrow> withdrawn cf X s t))"
        by (intro wp_if wp_pair wp_act_repair [OF 1(1) m]) auto
    next
      fix e :: "err option" and t
      assume e: "(e = None \<longrightarrow> frame_step cf ?t t) \<and> (e \<noteq> None \<longrightarrow> withdrawn cf X s t)"
      show "wp (case e of None \<Rightarrow> (case persistLocked cf t of
            (None, s) \<Rightarrow>
              (case act_offloads cf X sv s of
                 (None, s) \<Rightarrow>
                   (case act_program cf X sv gid s of
                      (None, s) \<Rightarrow> if repair then act_unlatch sv s else (None, s)
                    | (Some e, s) \<Rightarrow> (Some e, s))
               | (Some e, s) \<Rightarrow> (Some e, s))
          | (Some e, s) \<Rightarrow> (Some e, restoreState sv s))
        | Some e \<Rightarrow> (Some e, t)) Q"
        using e by (intro wp_option rest wp_pair W) simp_all
    qed
  qed
  qed
  qed
qed


section \<open>Steps that keep the state\<close>

lemma frame_atom: "frame_step cf s0 s \<Longrightarrow> frame_step cf s0 (s\<lparr>c_atom := a\<rparr>)"
  by (erule frame_step_like) simp

lemma frame_world: "frame_step cf s0 s \<Longrightarrow> quiet (c_world s) w \<Longrightarrow> frame_step cf s0 (s\<lparr>c_world := w\<rparr>)"
  by (blast intro: frame_step_trans frame_quiet)

named_theorems wp_from \<open>steps from a state that agrees with an earlier one\<close>

lemma wp_from_steps [wp_from]:
  assumes "frame_step cf s0 s"
  shows "(\<And>r s'. frame_step cf s0 s' \<Longrightarrow> Q1 r s') \<Longrightarrow> wp (Load f s) Q1"
    and "(\<And>r s'. frame_step cf s0 s' \<Longrightarrow> Q2 r s') \<Longrightarrow> wp (integrityProofIntact n s) Q2"
    and "(\<And>r s'. frame_step cf s0 s' \<Longrightarrow> Q3 r s') \<Longrightarrow> wp (recoveryGateIntactLocked n s) Q3"
    and "(\<And>r s'. frame_step cf s0 s' \<Longrightarrow> Q4 r s') \<Longrightarrow> wp (gate_broken b n s) Q4"
    and "(\<And>r s'. frame_step cf s0 s' \<Longrightarrow> Q5 r s') \<Longrightarrow> wp (ctxErr s) Q5"
    and "(\<And>r s'. frame_step cf s0 s' \<Longrightarrow> Q6 r s') \<Longrightarrow> wp (connectionCounts cf s) Q6"
    and "(\<And>r s'. frame_step cf s0 s' \<Longrightarrow> Q7 r s') \<Longrightarrow> wp (connectionCount cf X gid s) Q7"
    and "(\<And>r s'. frame_step cf s0 s' \<Longrightarrow> Q8 r s') \<Longrightarrow> wp (verifyCurrentProgramLocked cf X s) Q8"
    and "(\<And>r s'. frame_step cf s0 s' \<Longrightarrow> Q9 r s') \<Longrightarrow> wp (persistLocked cf s) Q9"
    and "(\<And>r s'. frame_step cf s0 s' \<Longrightarrow> Q10 r s') \<Longrightarrow> wp (restoreOffloads cf s) Q10"
    and "(\<And>r s'. frame_step cf s0 s' \<Longrightarrow> Q11 r s') \<Longrightarrow> wp (ensureOffloadsDown cf X s) Q11"
  by (intro wp_prims; blast intro: assms frame_atom frame_world frame_step_trans)+

section \<open>The operations that activate\<close>

lemma moved_from: "frame_step cf s0 s \<Longrightarrow> moved cf X s s' \<Longrightarrow> moved cf X s0 s'"
  using frame_step_fields [of cf s0 s] by (simp add: moved_def)

lemma wp_moved_activate:
  assumes "inj (xl_fp X)" and "cf_Fatal cf" and "settled cf X s0" and "frame_step cf s0 s"
  shows "wp (activateLocked cf X gid repair s) (\<lambda>e s'. moved cf X s0 s')"
  by (intro wp_activateLocked [OF assms(1,2) settled_frame [OF assms(4,3)]] moved_from [OF assms(4)])


lemma ActivateForNewConnections_moved:
  assumes inj: "inj (xl_fp X)" and fatal: "cf_Fatal cf" and s: "settled cf X s"
  shows "wp (ActivateForNewConnections cf X artifact s) (\<lambda>e s'. moved cf X s s')"
  unfolding ActivateForNewConnections_def
  by (intro wp_rules moved_frame [OF _ s] wp_moved_activate [OF inj fatal s]
      wp_from [where cf = cf and ?s0.0 = s]; (assumption | rule frame_step_refl))

lemma ActivateDeployment_moved:
  assumes inj: "inj (xl_fp X)" and fatal: "cf_Fatal cf" and s: "settled cf X s"
  shows "wp (ActivateDeployment cf X d expected s) (\<lambda>e s'. moved cf X s s')"
  unfolding ActivateDeployment_def
  by (intro wp_rules moved_frame [OF _ s] wp_moved_activate [OF inj fatal s]
      wp_from [where cf = cf and ?s0.0 = s]; (assumption | rule frame_step_refl))

lemma ActivateNew_moved:
  assumes inj: "inj (xl_fp X)" and fatal: "cf_Fatal cf" and s: "settled cf X s"
  shows "wp (ActivateNew cf X gid s) (\<lambda>e s'. moved cf X s s')"
  unfolding ActivateNew_def
  by (intro wp_rules moved_frame [OF _ s] wp_moved_activate [OF inj fatal s]
      wp_from [where cf = cf and ?s0.0 = s]; (assumption | rule frame_step_refl))

lemma RollbackGeneration_moved:
  assumes inj: "inj (xl_fp X)" and fatal: "cf_Fatal cf" and s: "settled cf X s"
  shows "wp (RollbackGeneration cf X gid s) (\<lambda>e s'. moved cf X s s')"
  unfolding RollbackGeneration_def Let_def
  by (intro wp_rules moved_frame [OF _ s] wp_moved_activate [OF inj fatal s]; (assumption | rule frame_step_refl))

lemma RollbackDeployment_moved:
  assumes inj: "inj (xl_fp X)" and fatal: "cf_Fatal cf" and s: "settled cf X s"
  shows "wp (RollbackDeployment cf X d expected s) (\<lambda>e s'. moved cf X s s')"
  unfolding RollbackDeployment_def
  by (intro wp_rules moved_frame [OF _ s] wp_moved_activate [OF inj fatal s]; (assumption | rule frame_step_refl))


section \<open>Deactivation\<close>

lemma set_phase_back:
  assumes "distinct (keys (c_generations s))" and "map_option gs_Phase (gen_of s gid) = Some p"
    and "c_generations t = c_generations (set_phase gid q s)"
  shows "c_generations (set_phase gid p t) = c_generations s"
proof -
  have "g\<lparr>gs_Phase := p\<rparr> = g" if "(gid, g) \<in> set (c_generations s)" for g
    using that assms(1,2) by (cases g) (auto simp: gen_of_def)
  then show ?thesis
    unfolding set_phase_list assms(3) set_phase_list by (auto intro!: map_idI simp: o_def)
qed

lemma midway_step:
  assumes "midway cf X s0 s" and "cores (c_generations t) = cores (c_generations s)"
    and "c_eng t = c_eng s" "c_world t = c_world s" "c_fatal t = c_fatal s"
    and "c_activeNew t = 0 \<or> c_activeNew t \<in> set (keys (c_generations s0))"
  shows "midway cf X s0 t"
proof -
  have i: "cinv cf X {} {} s" using assms(1) by (simp add: midway_def)
  have "cinv cf X {} {} t"
    using assms(6) by (intro inv_phases [OF i assms(2,3,4)]) (simp add: midway_keys [OF assms(1)])
  then show ?thesis using assms by (simp add: midway_def)
qed

lemma settled_midway: "settled cf X s \<Longrightarrow> midway cf X s s"
  by (simp add: midway_def settled_def)

lemma wp_deactivateLocked:
  assumes inj: "inj (xl_fp X)" and fatal: "cf_Fatal cf" and s: "settled cf X s"
    and Q: "\<And>s'. moved cf X s s' \<Longrightarrow> c_activeNew s' = 0 \<Longrightarrow> Q None s'"
      "\<And>e s'. e \<noteq> None \<Longrightarrow> withdrawn cf X s s' \<Longrightarrow> Q e s'"
  shows "wp (deactivateLocked cf X s) Q"
proof (cases "c_activeNew s = 0")
  case True
  with s show ?thesis by (simp add: deactivateLocked_def wp_def Q(1) moved_def)
next
  case old: False
  let ?old = "c_activeNew s"
  define t where "t = (set_phase ?old PhaseDraining s)\<lparr>c_previous := ?old, c_activeNew := 0\<rparr>"
  have d: "distinct (keys (c_generations s))" and k: "?old \<in> set (keys (c_generations s))"
    using settled_keys [OF s] old by auto
  have ph: "map_option gs_Phase (gen_of s ?old) = Some PhaseActive"
    using s old by (simp add: settled_def phase_ok_def)
  have t: "midway cf X s t" "assigns cf ?old False t"
    using midway_step [OF settled_midway [OF s], of t] settled_assigns [OF s]
    by (simp_all add: t_def assigns_def)
  let ?undone = "\<lambda>u. (set_phase ?old PhaseActive u)\<lparr>c_previous := c_previous s, c_activeNew := ?old\<rparr>"
  have undo: "midway cf X s (?undone u) \<and> unchanged s (?undone u) \<and> c_world (?undone u) = c_world u \<and>
      c_fatal (?undone u) = c_fatal u"
    if "midway cf X s u" "c_generations u = c_generations t" for u
    using midway_step [OF that(1), of "?undone u"] k set_phase_back [OF d ph, of u PhaseDraining] that(2)
    by (simp add: unchanged_def t_def)
  show ?thesis
    unfolding deactivateLocked_def Let_def t_def [symmetric] if_not_P [OF old]
  proof (intro wp_prod wp_persist_from [OF frame_step_refl [of cf t]] wp_option, goal_cases)
    case (2 e u x)
    note f = frame_step_fields [OF 2(1)]
    from undo [OF midway_frame [OF 2(1) t(1)]] f assigns_frame [OF 2(1) t(2)] show ?case
      by (intro wp_pair Q(2) restored_withdrawn) (auto simp: assigns_def)
  next
    case (1 e u)
    note f = frame_step_fields [OF 1(1)] and m = midway_frame [OF 1(1) t(1)]
    have i: "cinv cf X {} {} u" using m by (simp add: midway_def)
    show ?case
      unfolding programLocked_def
    proof (intro wp_prod wp_program [OF inj i live_remembered [OF i] disjI1 [OF refl]] wp_option, goal_cases)
      case (1 e v)
      have v: "c_generations v = c_generations t" "c_activeNew v = 0" "c_eng v = c_eng s"
        using 1 f m by (simp_all add: mem_fields t_def midway_def)
      have "cores (c_generations t) = cores (c_generations s)" using t by (simp add: midway_def)
      moreover have "cinv cf X {} {} (v\<lparr>c_eng := reg_Deactivate (c_eng v)\<rparr>)"
        using 1 by (intro inv_eng) simp_all
      ultimately show ?case
        using 1 v s by (intro wp_pair Q(1))
          (simp_all add: moved_def settled_def agrees_alt assigns_def phase_ok_def reg_Deactivate_def)
    next
      case (2 e v x)
      have mv: "midway cf X s v" using 2 by (intro midway_mem [OF m])
      have "c_generations v = c_generations t" using 2 f by (simp add: mem_fields)
      note b = undo [OF mv this]
      have ib: "cinv cf X {} {} (?undone v)" using b by (simp add: midway_def)
      have act: "?old = 0 \<or> ?old \<in> gs_ID ` set (liveLocked (?undone v))"
        using live_active [of cf X "{}" "{}" s] s b by (simp add: settled_def unchanged_def liveLocked_def)
      show ?case
      proof (intro wp_prod wp_program [OF inj ib live_remembered [OF ib] act], goal_cases)
        case (1 programErr w)
        then have mw: "midway cf X s w" "unchanged s w"
          using midway_mem [of cf X s "?undone v" w] b by (auto simp: unchanged_def mem_fields)
        show ?case
        proof (intro wp_persist_from [OF frame_step_refl [of cf w]] wp_option wp_pair Q(2), goal_cases)
          case (2 persistErr z)
          then show ?case
            using 1 mw by (auto intro!: restored_withdrawn midway_frame [OF 2(1)] unchanged_frame [OF 2(1)]
              assigns_frame [OF 2(1)])
        next
          case (4 persistErr z y)
          then show ?case using mw by (intro withdrawn_closed inj fatal midway_frame [of cf w z])
        qed simp_all
      qed
    qed
  qed
qed

lemma wp_moved_deactivate:
  assumes "inj (xl_fp X)" and "cf_Fatal cf" and "settled cf X s0" and "frame_step cf s0 s"
  shows "wp (deactivateLocked cf X s) (\<lambda>e s'. moved cf X s0 s')"
  by (intro wp_deactivateLocked [OF assms(1,2) settled_frame [OF assms(4,3)]] moved_from [OF assms(4)])
    (simp_all add: withdrawn_moved settled_frame [OF assms(4,3)])

lemma DeactivateForNewConnections_moved:
  assumes inj: "inj (xl_fp X)" and fatal: "cf_Fatal cf" and s: "settled cf X s"
  shows "wp (DeactivateForNewConnections cf X ident s) (\<lambda>e s'. moved cf X s s')"
  unfolding DeactivateForNewConnections_def
  by (intro wp_rules moved_frame [OF _ s] wp_moved_deactivate [OF inj fatal s]
      wp_from [where cf = cf and ?s0.0 = s]; (assumption | rule frame_step_refl))

lemma DeactivateDeployment_moved:
  assumes inj: "inj (xl_fp X)" and fatal: "cf_Fatal cf" and s: "settled cf X s"
  shows "wp (DeactivateDeployment cf X expected s) (\<lambda>e s'. moved cf X s s')"
  unfolding DeactivateDeployment_def
  by (intro wp_rules moved_frame [OF _ s] wp_moved_deactivate [OF inj fatal s]; (assumption | rule frame_step_refl))

end
