(* ===== verification/Ctl_Generations.thy ===== *)
theory Ctl_Generations
  imports Ctl_Lifecycle
begin

text \<open>
  The operations that add generations to memory and remove them. A new generation is in the
  registry and in memory before it is durable, and no table may use it until it is; a
  collected one leaves the table first.
\<close>

section \<open>A generation that is not durable yet\<close>

text \<open>\<open>s\<close> is the settled \<open>s0\<close> with one more generation.\<close>

definition fresh :: "ctl_config \<Rightarrow> 'h ctl_libs \<Rightarrow> u32 \<Rightarrow> ctl \<Rightarrow> ctl \<Rightarrow> bool" where
  "fresh cf X gid s0 s \<longleftrightarrow>
     settled cf X s0 \<and> gid \<noteq> 0 \<and> gid \<notin> set (keys (c_generations s0)) \<and>
     int (length (c_generations s0)) < cf_MaxGenerations cf \<and>
     (\<exists>g. c_generations s = AList.update gid g (c_generations s0) \<and> gs_Phase g = PhasePrepared) \<and>
     c_activeNew s = c_activeNew s0 \<and> c_previous s = c_previous s0 \<and>
     cinv cf X {gid} {} s \<and> agrees cf (c_activeNew s0) s"

lemma fresh_frame:
  assumes "frame_step cf s s'" and "fresh cf X gid s0 s"
  shows "fresh cf X gid s0 s'"
  using inv_frame [OF assms(1), of X "{gid}" "{}"] agrees_frame [OF assms(1), of "c_activeNew s0"]
    frame_step_fields [OF assms(1)] assms(2)
  by (simp add: fresh_def)

lemma fresh_active: "fresh cf X gid s0 s \<Longrightarrow> c_activeNew s0 \<noteq> gid"
  using settled_keys(2) [of cf X s0] by (auto simp: fresh_def)

lemma delete_update_new: "k \<notin> set (keys m) \<Longrightarrow> AList.delete k (AList.update k v m) = m"
  by (induction m) (auto simp: AList.delete_eq)

lemma update_new: "k \<notin> set (keys m) \<Longrightarrow> AList.update k v m = m @ [(k, v)]"
  by (induction m) auto

text \<open>Discarding it brings the settled state back.\<close>

lemma dna_of_Remove: "i \<noteq> gid \<Longrightarrow> dna_of (snd (reg_Remove gid r)) i = dna_of r i"
  by (simp add: reg_Remove_dna)

lemma discard_fresh:
  assumes f: "fresh cf X gid s0 s"
  shows "settled cf X (discard_gen gid s)" and "c_generations (discard_gen gid s) = c_generations s0"
    and "c_activeNew (discard_gen gid s) = c_activeNew s0"
proof -
  let ?t = "discard_gen gid s"
  obtain g where g: "c_generations s = AList.update gid g (c_generations s0)" using f by (auto simp: fresh_def)
  have new: "gid \<notin> set (keys (c_generations s0))" using f by (simp add: fresh_def)
  have gens: "c_generations ?t = c_generations s0"
    using delete_update_new [OF new] by (simp add: discard_gen_def delete_gen_def g)
  then show "c_generations ?t = c_generations s0" .
  show act: "c_activeNew ?t = c_activeNew s0"
    using f by (simp add: discard_gen_def delete_gen_def fresh_def)
  have s0: "settled cf X s0" and i: "cinv cf X {gid} {} s" using f by (simp_all add: fresh_def)
  have sub: "e \<in> set (cores (c_generations s))" "fst e \<noteq> gid" if "e \<in> set (cores (c_generations s0))" for e
  proof -
    show ne: "fst e \<noteq> gid" using that new by (metis imageI keys_cores set_map)
    have "AList.delete gid (cores (c_generations s)) = cores (c_generations s0)"
      using new by (simp add: g cores_update delete_update_new)
    moreover have "set (AList.delete gid (cores (c_generations s))) \<subseteq> set (cores (c_generations s))"
      by (auto simp: AList.delete_eq)
    ultimately show "e \<in> set (cores (c_generations s))" using that by auto
  qed
  have world: "c_world ?t = c_world s" by (simp add: discard_gen_def delete_gen_def)
  have "\<forall>(i, h)\<in>set (cores (c_generations s0)). dna_of (c_eng ?t) i = Some (gs_DNA h)"
  proof clarify
    fix i h
    assume e: "(i, h) \<in> set (cores (c_generations s0))"
    with sub [OF e] i show "dna_of (c_eng ?t) i = Some (gs_DNA h)"
      by (auto simp: cinv_def discard_gen_def dna_of_Remove)
  qed
  moreover have "disk_inv cf {} (cores (c_generations s0)) (c_world s)"
    using i sub by (fastforce simp: cinv_def disk_inv_def)
  moreover have "set (keys (c_generations s)) - {gid} = set (keys (c_generations s0))"
    unfolding g set_keys_update using new by auto
  moreover have "\<not> cf_NoNFT cf \<longrightarrow> table_true cf (cores (c_generations s0)) (w_table (c_world s))"
    using i sub(1) unfolding cinv_def by (blast intro: table_true_mono)
  ultimately have "cinv cf X {} {} ?t"
    using i s0 act gens world by (auto simp: cinv_def settled_def)
  moreover have "agrees cf (c_activeNew s0) ?t"
    using f by (simp add: agrees_def fresh_def discard_gen_def delete_gen_def)
  ultimately show "settled cf X ?t"
    using s0 act gens by (simp add: settled_def phase_ok_def gen_of_def)
qed


text \<open>Once durable and within the budgets it is settled.\<close>

lemma filter_cores:
  "length (filter (\<lambda>(_, g). P (gs_Scope g)) (cores gens)) = length (filter (\<lambda>(_, g). P (gs_Scope g)) gens)"
  by (induction gens) (auto simp: cores_def)

lemma length_cores [simp]: "length (cores gens) = length gens"
  by (simp add: cores_def)

lemma within_budget:
  assumes "validateResourceBudgetsLocked cf s = None" and "int (length (c_generations s)) \<le> cf_MaxGenerations cf"
  shows "budget_ok cf (cores (c_generations s))"
  using assms filter_cores [of "\<lambda>sc. resourceClass sc = EveryPacket"]
    filter_cores [of "\<lambda>sc. resourceClass sc \<noteq> EveryPacket"]
  by (simp add: budget_ok_def validateResourceBudgetsLocked_def Let_def split: if_splits)

lemma fresh_settled:
  assumes f: "fresh cf X gid s0 s" and p: "persisted cf s" and b: "validateResourceBudgetsLocked cf s = None"
  shows "settled cf X s" and "gid \<in> set (keys (c_generations s))"
proof -
  obtain g where g: "c_generations s = AList.update gid g (c_generations s0)" using f by (auto simp: fresh_def)
  have new: "gid \<notin> set (keys (c_generations s0))" using f by (simp add: fresh_def)
  have s0: "settled cf X s0" and i: "cinv cf X {gid} {} s" and act: "c_activeNew s = c_activeNew s0"
    using f by (simp_all add: fresh_def)
  have "disk_inv cf {} (cores (c_generations s)) (c_world s)"
    using p i saved_gens_kept [of _ _ "c_generations s"] by (auto simp: persisted_def disk_inv_def cinv_def)
  then have "cinv cf X {} {} s" using i by (auto simp: cinv_def)
  moreover have "budget_ok cf (cores (c_generations s))"
    using b f by (intro within_budget) (auto simp: fresh_def length_update_new)
  moreover have "phase_ok s"
    using s0 act fresh_active [OF f] by (simp add: settled_def phase_ok_def gen_of_def g)
  ultimately show "settled cf X s" using f by (simp add: settled_def fresh_def)
  show "gid \<in> set (keys (c_generations s))" unfolding g set_keys_update by simp
qed

section \<open>Looking up an identity\<close>

lemma findIdentity_Inr:
  assumes "findIdentity ident gens found = Inr r"
  shows "r = None \<longrightarrow> found = None \<and> (\<forall>(i, g)\<in>set gens. gs_Identity g \<noteq> ident)"
    and "r = Some (i, g) \<longrightarrow> found = Some (i, g) \<or> (i, g) \<in> set gens \<and> gs_Identity g = ident"
  using assms by (induction ident gens found rule: findIdentity.induct) (auto split: if_splits)

lemma generationForIdentity_None:
  "generationForIdentityLocked ident s = Inr None \<Longrightarrow> (i, g) \<in> set (c_generations s) \<Longrightarrow> gs_Identity g \<noteq> ident"
  using findIdentity_Inr(1) [of ident "c_generations s" None None] by (auto simp: generationForIdentityLocked_def)

lemma generationForIdentity_Some:
  "generationForIdentityLocked ident s = Inr (Some (i, g)) \<Longrightarrow>
     (i, g) \<in> set (c_generations s) \<and> gs_Identity g = ident"
  using findIdentity_Inr(2) [of ident "c_generations s" None "Some (i, g)" i g]
  by (simp add: generationForIdentityLocked_def)

section \<open>Preparing\<close>

lemma settled_engine:
  assumes s: "settled cf X s" and "g_active eng = g_active (c_eng s)"
    and "\<And>i. i \<in> set (keys (c_generations s)) \<Longrightarrow> dna_of eng i = dna_of (c_eng s) i"
  shows "settled cf X (s\<lparr>c_eng := eng\<rparr>)"
proof -
  have "dna_of eng i = dna_of (c_eng s) i" if "(i, g) \<in> set (cores (c_generations s))" for i g
    using that assms(3) by (metis fst_conv imageI keys_cores set_map)
  then have "\<forall>(i, g)\<in>set (cores (c_generations s)). dna_of eng i = Some (gs_DNA g)"
    using s by (fastforce simp: settled_def cinv_def)
  then show ?thesis using s assms(2) by (simp add: settled_def cinv_def agrees_def phase_ok_def)
qed

lemma valid_gen:
  assumes "NewArtifact (xl_sha X) metadata dna = Inr artifact"
    and "ValidateFor (xl_sha X) artifact (Descriptor cf) = None"
    and "parseStrategy X dna = Inr parsed" and "gid \<noteq> 0" and "gid \<le> MaxID"
  shows "gen_ok cf X gid \<lparr>gs_ID = gid, gs_DNA = dna, gs_Digest = Digest (xl_sha X) dna, gs_Phase = p,
    gs_Scope = widen (cf_ObserveInbound cf) (cf_Mode cf) (Of (Some parsed)),
    gs_Identity = a_Identity artifact, gs_Metadata = metadata\<rparr>"
  using assms by (auto simp: gen_ok_def NewArtifact_Inr Mark_Inr a_Identity_def)

lemma gens_ok_update:
  assumes "gens_ok cf X (cores gens)" and "gid \<notin> set (keys gens)" and "gen_ok cf X gid g"
    and "\<And>i h. (i, h) \<in> set gens \<Longrightarrow> gs_Identity h \<noteq> gs_Identity g"
  shows "gens_ok cf X (cores (AList.update gid g gens))"
proof -
  show ?thesis using assms by (force simp: gens_ok_def cores_def update_new)
qed


lemma fresh_prepared:
  assumes s: "settled cf X s" and new: "gid \<notin> set (keys (c_generations s))" and gid: "gid \<noteq> 0"
    and room: "int (length (c_generations s)) < cf_MaxGenerations cf"
    and g: "gen_ok cf X gid g" "gs_Phase g = PhasePrepared"
      "\<And>i h. (i, h) \<in> set (c_generations s) \<Longrightarrow> gs_Identity h \<noteq> gs_Identity g"
    and eng: "dna_of eng = (dna_of (c_eng s))(gid \<mapsto> gs_DNA g)" "g_active eng = g_active (c_eng s)"
  shows "fresh cf X gid s (s\<lparr>c_eng := eng, c_generations := AList.update gid g (c_generations s)\<rparr>)"
proof -
  let ?t = "s\<lparr>c_eng := eng, c_generations := AList.update gid g (c_generations s)\<rparr>"
  have i: "cinv cf X {} {} s" using s by (simp add: settled_def)
  have mem: "e \<in> set (cores (c_generations s)) \<or> e = (gid, core g)"
    if "e \<in> set (cores (AList.update gid g (c_generations s)))" for e
  proof -
    have "AList.update gid g (c_generations s) = c_generations s @ [(gid, g)]" using new by (rule update_new)
    with that show ?thesis by (auto simp: cores_def)
  qed
  have notin: "i \<noteq> gid" if "(i, h) \<in> set (cores (c_generations s))" for i h
    using that new by (metis fst_conv imageI keys_cores set_map)
  have "gens_ok cf X (cores (c_generations ?t))"
    using i gens_ok_update [OF _ new g(1,3)] by (simp add: cinv_def)
  moreover have "\<forall>(j, h)\<in>set (cores (c_generations ?t)). dna_of (c_eng ?t) j = Some (gs_DNA h)"
    using i eng(1) notin by (fastforce simp: cinv_def dest!: mem)
  moreover have "disk_inv cf {gid} (cores (c_generations ?t)) (c_world ?t)"
    using i by (fastforce simp: cinv_def disk_inv_def dest!: mem)
  moreover have "set (keys (c_generations ?t)) - {gid} = set (keys (c_generations s))"
    unfolding ctl.select_convs ctl.update_convs using new by (auto simp: set_keys_update simp del: set_map)
  moreover have "\<not> cf_NoNFT cf \<longrightarrow> table_true cf (cores (c_generations ?t)) (w_table (c_world ?t))"
  proof
    assume n: "\<not> cf_NoNFT cf"
    with i have t: "table_true cf (cores (c_generations s)) (w_table (c_world s))"
      "table_ids (w_table (c_world s)) \<subseteq> set (keys (c_generations s))" unfolding cinv_def by blast+
    have "table_true cf (cores (AList.update gid g (c_generations s))) (w_table (c_world s))"
      using t(1)
    proof (rule table_true_mono)
      fix j h assume "(j, h) \<in> set (cores (AList.update gid g (c_generations s)))"
      with mem new t(2) show "(j, h) \<in> set (cores (c_generations s)) \<or> j \<notin> table_ids (w_table (c_world s))" by blast
    qed
    then show "table_true cf (cores (c_generations ?t)) (w_table (c_world ?t))" by simp
  qed
  ultimately have "cinv cf X {gid} {} ?t" using i by (simp add: cinv_def)
  moreover have "agrees cf (c_activeNew s) ?t" using s eng(2) by (simp add: settled_def agrees_def)
  ultimately show ?thesis using s new gid room g(2) by (simp add: fresh_def) blast
qed


definition calm :: "ctl_config \<Rightarrow> 'h ctl_libs \<Rightarrow> ctl \<Rightarrow> ctl \<Rightarrow> bool" where
  "calm cf X s s' \<longleftrightarrow> settled cf X s' \<and> unchanged s s'"

lemma calm_frame: "frame_step cf s s' \<Longrightarrow> settled cf X s \<Longrightarrow> calm cf X s s'"
  using settled_frame [of cf s s' X] frame_step_fields [of cf s s'] by (simp add: calm_def unchanged_def)

lemma calm_discard: "fresh cf X gid s0 s \<Longrightarrow> calm cf X s0 (discard_gen gid s)"
  using discard_fresh [of cf X gid s0 s]
  by (simp add: calm_def unchanged_def) (simp add: discard_gen_def delete_gen_def fresh_def)

lemma calm_engine: "calm cf X s (s\<lparr>c_eng := eng\<rparr>) \<longleftrightarrow> settled cf X (s\<lparr>c_eng := eng\<rparr>)"
  by (simp add: calm_def unchanged_def)

lemma wp_prepareArtifactLocked:
  assumes s: "settled cf X s" and new: "gid \<notin> set (keys (c_generations s))"
    and gid: "gid \<noteq> 0" "gid \<le> MaxID" and room: "int (length (c_generations s)) < cf_MaxGenerations cf"
    and ident: "\<And>i h. (i, h) \<in> set (c_generations s) \<Longrightarrow> gs_Identity h \<noteq> metadata_Identity metadata"
    and Q: "\<And>e s'. calm cf X s s' \<Longrightarrow> Q (Some e) s'" "\<And>s'. fresh cf X gid s s' \<Longrightarrow> Q None s'"
  shows "wp (prepareArtifactLocked cf X gid metadata dna s) Q"
proof -
  have s_s: "calm cf X s s" using s by (simp add: calm_def unchanged_def)
  have act: "gid \<noteq> g_active (c_eng s)"
    using s settled_keys(2) [OF s] new gid(1) by (auto simp: settled_def agrees_def)
  show ?thesis
    unfolding prepareArtifactLocked_def Let_def
  proof (intro wp_if wp_sum wp_option wp_pair Q(1) s_s, goal_cases)
    case (1 artifact parsed)
    obtain e eng where p: "Prepare (xl_gen X) gid dna (c_eng s) = (e, eng)"
      by (cases "Prepare (xl_gen X) gid dna (c_eng s)")
    have eng: "dna_of eng = (if e = None then (dna_of (c_eng s))(gid \<mapsto> dna) else dna_of (c_eng s))"
      "g_active eng = g_active (c_eng s)"
      using Prepare_dna [of "xl_gen X" gid dna "c_eng s"] Prepare_fixed [of "xl_gen X" gid dna "c_eng s"]
      by (simp_all add: p)
    let ?g = "\<lparr>gs_ID = gid, gs_DNA = dna, gs_Digest = Digest (xl_sha X) dna, gs_Phase = PhasePrepared,
      gs_Scope = widen (cf_ObserveInbound cf) (cf_Mode cf) (Of (Some parsed)),
      gs_Identity = a_Identity artifact, gs_Metadata = metadata\<rparr>"
    have ok: "gen_ok cf X gid ?g" using 1 gid by (intro valid_gen) simp_all
    have art: "a_Identity artifact = metadata_Identity metadata"
      using 1 by (auto simp: NewArtifact_Inr a_Identity_def)
    show ?case
      unfolding p
    proof (intro wp_prod wp_pair wp_option, goal_cases)
      case (3 x)
      with eng new show ?case by (intro Q(1)) (auto simp: calm_engine intro!: settled_engine [OF s])
    next
      case (2 y)
      have "dna_of (snd (reg_Remove gid eng)) i = dna_of (c_eng s) i" if "i \<in> set (keys (c_generations s))" for i
      proof -
        have "i \<noteq> gid" using that new by blast
        then show ?thesis using eng 2 by (simp add: dna_of_Remove)
      qed
      then have "settled cf X (s\<lparr>c_eng := snd (reg_Remove gid eng)\<rparr>)"
        using eng(2) by (intro settled_engine [OF s]) simp_all
      then show ?case by (intro Q(1)) (simp add: calm_engine)
    next
      case none: 1
      have "fresh cf X gid s (s\<lparr>c_eng := eng, c_generations := AList.update gid ?g (c_generations s)\<rparr>)"
        using eng none ident art by (intro fresh_prepared [OF s new gid(1) room ok]) auto
      then show ?case by (intro Q(2)) simp
    qed
  qed
qed

lemma wp_or_discard:
  assumes "wp p (\<lambda>r s. (r = None \<longrightarrow> Q None s) \<and> (\<forall>e. r = Some e \<longrightarrow> Q (Some (w e)) (discard_gen gid s)))"
  shows "wp (or_discard gid w p) Q"
  using assms by (cases p) (auto simp: or_discard_def wp_def split: option.split)


section \<open>The number of a new generation\<close>

lemma nextLoop_zero: "\<forall>i\<in>set ids. i \<noteq> 0 \<Longrightarrow> nextLoop ids 0 = 0"
  by (cases ids) (auto simp: word_gt_0)

lemma word_step:
  fixes c j :: u32
  assumes "c + 1 \<noteq> 0"
  shows "c < c + 1" and "c < j \<longleftrightarrow> c + 1 \<le> j"
proof -
  have "unat (c + 1) = Suc (unat c)" using assms unatSuc [of c] by (simp add: add.commute)
  then show "c < c + 1" and "c < j \<longleftrightarrow> c + 1 \<le> j" by (auto simp: word_less_nat_alt word_le_nat_alt)
qed

lemma nextLoop_least:
  fixes c :: u32
  assumes "sorted ids" and "c \<noteq> 0" and "nextLoop ids c \<noteq> 0"
  shows "c \<le> nextLoop ids c \<and> nextLoop ids c \<notin> set ids \<and>
    (\<forall>j. c \<le> j \<and> j < nextLoop ids c \<longrightarrow> j \<in> set ids)"
  using assms
proof (induction ids arbitrary: c)
  case (Cons i ids)
  consider "i = c" | "i > c" | "i < c" by (cases i c rule: linorder_cases) auto
  then show ?case
  proof cases
    case 1
    have ne: "c + 1 \<noteq> 0"
    proof
      assume "c + 1 = 0"
      moreover have "\<forall>j\<in>set ids. j \<noteq> 0" using Cons.prems 1 word_zero_le antisym by auto
      ultimately show False using Cons.prems(3) 1 nextLoop_zero by simp
    qed
    have IH: "c + 1 \<le> nextLoop ids (c + 1) \<and> nextLoop ids (c + 1) \<notin> set ids \<and>
        (\<forall>j. c + 1 \<le> j \<and> j < nextLoop ids (c + 1) \<longrightarrow> j \<in> set ids)"
      using Cons.prems 1 ne by (intro Cons.IH) auto
    then have "c < nextLoop ids (c + 1)" by (simp add: word_step(2) [OF ne])
    moreover have "j \<in> set (i # ids)" if "c \<le> j \<and> j < nextLoop ids (c + 1)" for j
    proof (cases "j = c")
      case False
      with that have "c < j" by (metis order_le_less)
      then have "c + 1 \<le> j" by (simp only: word_step(2) [OF ne])
      with IH that show ?thesis by simp
    qed (use 1 in simp)
    ultimately show ?thesis using IH 1 by auto
  next
    case 2
    then show ?thesis using Cons.prems by auto
  next
    case 3
    with Cons.prems Cons.IH [of c] show ?thesis by auto
  qed
qed (simp add: not_less)

lemma nextGeneration_new:
  assumes "nextGenerationLocked s \<noteq> 0"
  shows "nextGenerationLocked s \<notin> set (keys (c_generations s))" and "nextGenerationLocked s \<le> MaxID"
    and "gen_of s (nextGenerationLocked s) = None" and "nextGenerationLocked s \<notin> set (c_reserved s)"
    and "\<And>j. j \<noteq> 0 \<Longrightarrow> j < nextGenerationLocked s \<Longrightarrow>
      gen_of s j \<noteq> None \<or> j \<in> set (c_reserved s)"
proof -
  let ?ids = "sort (keys (c_generations s) @ filter (\<lambda>gid. gen_of s gid = None) (c_reserved s))"
  have r: "nextGenerationLocked s = nextLoop ?ids 1" "nextLoop ?ids 1 \<noteq> 0" "nextLoop ?ids 1 \<le> MaxID"
    using assms unfolding nextGenerationLocked_def Let_def by (metis not_less)+
  have n: "nextLoop ?ids 1 \<notin> set ?ids" "\<And>j. 1 \<le> j \<Longrightarrow> j < nextLoop ?ids 1 \<Longrightarrow> j \<in> set ?ids"
    using nextLoop_least [of ?ids 1] r(2) by (simp_all del: set_sort)
  show k: "nextGenerationLocked s \<notin> set (keys (c_generations s))" and "nextGenerationLocked s \<le> MaxID"
    using n(1) r unfolding r(1) by simp_all
  then show g: "gen_of s (nextGenerationLocked s) = None" by (simp add: gen_of_keys)
  then show "nextGenerationLocked s \<notin> set (c_reserved s)" using n(1) unfolding r(1) by auto
  show "gen_of s j \<noteq> None \<or> j \<in> set (c_reserved s)" if "j \<noteq> 0" "j < nextGenerationLocked s" for j
  proof -
    have "1 \<le> j" using that(1) by (simp add: word_le_nat_alt Suc_le_eq unat_gt_0)
    with n(2) [of j] that(2) r(1) gen_of_keys [of s j] show ?thesis by auto
  qed
qed


section \<open>The operations that prepare\<close>

text \<open>What every step after a successful reconstruction does: keep it fresh, or discard it.\<close>

lemma or_discard_step:
  assumes p: "wp p (\<lambda>r s. fresh cf X gid s0 s \<and> (r = None \<longrightarrow> P s))"
    and k: "\<And>s. fresh cf X gid s0 s \<Longrightarrow> P s \<Longrightarrow> Q None s" and Q: "\<And>e s. calm cf X s0 s \<Longrightarrow> Q (Some e) s"
  shows "wp (or_discard gid w p) Q"
proof -
  obtain r s where rs: "p = (r, s)" by (cases p)
  with p have f: "fresh cf X gid s0 s" "r = None \<Longrightarrow> P s" by (simp_all add: wp_def)
  show ?thesis
    using k [OF f(1) f(2)] Q [OF calm_discard [OF f(1)]] rs by (cases r) (simp_all add: or_discard_def wp_def)
qed

lemma fresh_atom: "fresh cf X gid s0 s \<Longrightarrow> fresh cf X gid s0 (s\<lparr>c_atom := a\<rparr>)"
  by (rule fresh_frame [OF frame_atom [OF frame_step_refl]])

lemma fresh_world: "fresh cf X gid s0 s \<Longrightarrow> quiet (c_world s) w \<Longrightarrow> fresh cf X gid s0 (s\<lparr>c_world := w\<rparr>)"
  by (rule fresh_frame [OF frame_quiet])

text \<open>The last two steps: the budgets, then the durable record.\<close>

lemma wp_durable:
  assumes f: "fresh cf X gid s0 s" and b: "validateResourceBudgetsLocked cf s = None"
    and Q: "\<And>s'. settled cf X s' \<Longrightarrow> fresh cf X gid s0 s' \<Longrightarrow> persisted cf s' \<Longrightarrow> Q None s'"
      "\<And>e s'. calm cf X s0 s' \<Longrightarrow> Q (Some e) s'"
  shows "wp (or_discard gid w (persistLocked cf s)) Q"
proof (rule wp_or_discard, rule wp_persist_frame)
  fix e :: "err option" and s'
  assume fr: "frame_step cf s s'" and p: "e = None \<Longrightarrow> persisted cf s'"
  note f' = fresh_frame [OF fr f]
  have "validateResourceBudgetsLocked cf s' = None"
    using b frame_step_fields [OF fr] by (simp add: validateResourceBudgetsLocked_def)
  then show "(e = None \<longrightarrow> Q None s') \<and> (\<forall>x. e = Some x \<longrightarrow> Q (Some (w x)) (discard_gen gid s'))"
    using p fresh_settled [OF f'] f' by (auto intro: Q calm_discard [OF f'])
qed

definition prepared :: "ctl_config \<Rightarrow> 'h ctl_libs \<Rightarrow> ctl \<Rightarrow> err option \<Rightarrow> ctl \<Rightarrow> bool" where
  "prepared cf X s e s' \<longleftrightarrow>
     settled cf X s' \<and> c_activeNew s' = c_activeNew s \<and> c_previous s' = c_previous s \<and>
     (c_generations s' = c_generations s \<or>
      e = None \<and> persisted cf s' \<and>
      (\<exists>gid g. gid \<notin> set (keys (c_generations s)) \<and> gs_Phase g = PhasePrepared \<and>
         c_generations s' = AList.update gid g (c_generations s)))"

lemma calm_prepared: "calm cf X s s' \<Longrightarrow> prepared cf X s e s'"
  by (simp add: calm_def prepared_def unchanged_def)

lemma fresh_is_prepared: "settled cf X s' \<Longrightarrow> fresh cf X gid s s' \<Longrightarrow> persisted cf s' \<Longrightarrow> prepared cf X s None s'"
  by (auto simp: prepared_def fresh_def)

lemma calm_self: "settled cf X s \<Longrightarrow> calm cf X s s"
  by (simp add: calm_def unchanged_def)

lemma calm_trans: "frame_step cf s s1 \<Longrightarrow> calm cf X s1 s' \<Longrightarrow> calm cf X s s'"
  using frame_step_fields [of cf s s1] by (simp add: calm_def unchanged_def)

lemma prepared_from: "frame_step cf s s1 \<Longrightarrow> prepared cf X s1 e s' \<Longrightarrow> prepared cf X s e s'"
  using frame_step_fields [of cf s s1] by (simp add: prepared_def)

lemma wp_prepareNew:
  assumes s: "settled cf X s" and id_new: "generationForIdentityLocked (a_Identity artifact) s = Inr None"
  shows "wp (prepareNew cf X recovery epoch artifact s) (\<lambda>e s'. prepared cf X s e s')"
  unfolding prepareNew_def Let_def
proof (intro wp_if wp_pair calm_prepared calm_self s wp_prod wp_gate_broken wp_option, goal_cases)
  case (2 e a x)
  then show ?case by (intro calm_frame [OF frame_atom s]) simp
next
  case (1 e a)
  let ?gid = "nextGenerationLocked s" and ?s = "s\<lparr>c_atom := a\<rparr>"
  have s1: "settled cf X ?s" using s by (simp add: agrees_atom)
  have fr: "frame_step cf s ?s" by (rule frame_atom) simp
  note new = nextGeneration_new [OF 1(2)]
  have idn: "gs_Identity h \<noteq> metadata_Identity (a_metadata artifact)" if "(i, h) \<in> set (c_generations ?s)" for i h
    using generationForIdentity_None [OF id_new, of i h] that by (simp add: a_Identity_def)
  have k: "?gid \<notin> set (keys (c_generations ?s))" "int (length (c_generations ?s)) < cf_MaxGenerations cf"
    using new 1(1) by simp_all
  have B: "prepared cf X s e s'" if "calm cf X ?s s'" for e s'
    using calm_prepared [OF calm_trans [OF fr that]] .
  have G: "wp (gate_broken recovery epoch t)
      (\<lambda>r u. fresh cf X ?gid ?s u \<and> (r = None \<longrightarrow> c_generations u = c_generations t))" if "fresh cf X ?gid ?s t" for t
    by (intro wp_gate_broken) (simp add: fresh_atom that)
  show ?case
  proof (intro wp_prod wp_prepareArtifactLocked [OF s1 k(1) 1(2) new(2) k(2) idn] wp_option wp_pair B, goal_cases)
    case (4 t)
    show ?case
    proof (rule or_discard_step [OF G [OF 4(1)]]; unfold option.case)
      fix t
      assume t: "fresh cf X ?gid ?s t"
      let ?b = "validateResourceBudgetsLocked cf t"
      have V: "wp (?b, t) (\<lambda>r u. fresh cf X ?gid ?s u \<and> (r = None \<longrightarrow> ?b = None \<and> u = t))"
        using t by (intro wp_pair) simp
      show "wp (case or_discard ?gid (\<lambda>e. Wrap ''budget'' [Sent ErrLifecycleConflict]) (?b, t) of
           (None, s) \<Rightarrow>
             (case or_discard ?gid (\<lambda>e. e) (gate_broken recovery epoch s) of
                (None, s) \<Rightarrow> or_discard ?gid (\<lambda>e. e) (persistLocked cf s)
              | (Some e, s) \<Rightarrow> (Some e, s))
         | (Some e, s) \<Rightarrow> (Some e, s)) (prepared cf X s)"
      proof (rule wp_prod, rule or_discard_step [OF V]; unfold option.case)
        fix u
        assume u: "?b = None \<and> u = t" and u': "fresh cf X ?gid ?s u"
        show "wp (case or_discard ?gid (\<lambda>e. e) (gate_broken recovery epoch u) of
            (None, s) \<Rightarrow> or_discard ?gid (\<lambda>e. e) (persistLocked cf s)
          | (Some e, s) \<Rightarrow> (Some e, s)) (prepared cf X s)"
        proof (rule wp_prod, rule or_discard_step [OF G [OF u']]; unfold option.case)
          fix v
          assume v: "fresh cf X ?gid ?s v" "c_generations v = c_generations u"
          then have "validateResourceBudgetsLocked cf v = None"
            using u by (simp add: validateResourceBudgetsLocked_def)
          with v(1) show "wp (or_discard ?gid (\<lambda>e. e) (persistLocked cf v)) (prepared cf X s)"
            by (rule wp_durable) (auto intro: B prepared_from [OF fr] fresh_is_prepared)
        qed (intro wp_pair B)
      qed (intro wp_pair B)
    qed (intro wp_pair B)
  qed simp_all
qed


section \<open>The remediation gate\<close>

text \<open>Changes of the atomics, the permission and the reservations, from an earlier state.\<close>

lemma frame_like_from:
  assumes "frame_step cf s0 s"
  shows "frame_step cf s0 (Guard b s)" "frame_step cf s0 (Latch b s)" "frame_step cf s0 (no_remediation s)"
    "frame_step cf s0 (reconcileReservedGenerationsLocked n s)" "frame_step cf s0 (appendFailureLocked m s)"
    "frame_step cf s0 (s\<lparr>c_remediation := r, c_remediationEpoch := k\<rparr>)"
    "frame_step cf s0 (s\<lparr>c_unsafe := u, c_remediation := r, c_remediationEpoch := k\<rparr>)"
  by (rule frame_step_like [OF assms]; simp add: like_def mem_fields)+

lemma sys_call_quiet: "sys_call w = (e, w') \<Longrightarrow> quiet w w'"
  for w :: world
  using sys_call_world [of w e w'] by (simp add: quiet_def)

lemma wp_sys_call: "(\<And>e w'. quiet w w' \<Longrightarrow> Q e w') \<Longrightarrow> wp (sys_call w) Q"
  for w :: world
  by (rule wp_I) (metis sys_call_quiet)

lemma wp_remediationProof:
  assumes s: "settled cf X s0" and f: "frame_step cf s0 s" and Q: "\<And>e s'. frame_step cf s0 s' \<Longrightarrow> Q e s'"
  shows "wp (remediationProof cf X epoch s) Q"
proof -
  have r: "reconstructAndVerifyLiveEnginesLocked X t = (None, t)" if "frame_step cf s0 t" for t
    using settled_frame [OF that s] by (intro reconstruct_invariant [of cf X "{}" "{}"]) (simp add: settled_def)
  have R: "wp (reconstructAndVerifyLiveEnginesLocked X t) Q'"
    if "frame_step cf s0 t" "\<And>e s'. frame_step cf s0 s' \<Longrightarrow> Q' e s'" for t Q'
    using that by (simp add: r wp_def)
  show ?thesis
    unfolding remediationProof_def
    by (intro wp_rules wp_from [where cf = cf and ?s0.0 = s0] R Q; (intro frame_like_from)?; (assumption | rule f))
qed

lemma wp_establishRemediationGate:
  assumes s: "settled cf X s0" and f: "frame_step cf s0 s" and Q: "\<And>e s'. frame_step cf s0 s' \<Longrightarrow> Q e s'"
  shows "wp (establishRemediationGateLocked cf X s) Q"
proof -
  have D: "frame_step cf s0 (snd (DisarmGuard t))" if "frame_step cf s0 t" for t
    using frame_atom [OF that] by (simp add: DisarmGuard_def tick_def)
  show ?thesis
    unfolding establishRemediationGateLocked_def Let_def
    by (intro wp_rules wp_from [where cf = cf and ?s0.0 = s0] wp_sys_call wp_remediationProof [OF s] Q;
        (intro frame_like_from D frame_world)?; (assumption | rule f)?)
qed


lemma wp_prod_iff: "wp (case p of (r, s) \<Rightarrow> f r s) Q \<longleftrightarrow> wp p (\<lambda>r s. wp (f r s) Q)"
  by (cases p) (simp add: wp_def)

text \<open>The result of a lookup by identity.\<close>

lemma wp_lookup:
  assumes "\<And>e. x = Inl e \<Longrightarrow> wp (a e) Q" and "x = Inr None \<Longrightarrow> wp b Q"
    and "\<And>gid g. x = Inr (Some (gid, g)) \<Longrightarrow> wp (c gid g) Q"
  shows "wp (case x of Inl e \<Rightarrow> a e | Inr None \<Rightarrow> b | Inr (Some (gid, g)) \<Rightarrow> c gid g) Q"
  using assms by (cases x; cases "projr x") auto

lemma frame_prepared: "frame_step cf s s' \<Longrightarrow> settled cf X s \<Longrightarrow> prepared cf X s e s'"
  by (intro calm_prepared calm_frame)

lemma ctl_Prepare_prepared:
  assumes s: "settled cf X s"
  shows "wp (ctl_Prepare cf X artifact s) (\<lambda>e s'. prepared cf X s e s')"
proof -
  have N: "wp (prepareNew cf X b n artifact t) (prepared cf X s)"
    if "frame_step cf s t" "generationForIdentityLocked (a_Identity artifact) t = Inr None" for t b n
    using wp_prepareNew [OF settled_frame [OF that(1) s] that(2)] by (rule wp_mono) (rule prepared_from [OF that(1)])
  show ?thesis
    unfolding ctl_Prepare_def Let_def
    by (intro wp_lookup wp_rules wp_from [where cf = cf and ?s0.0 = s] wp_establishRemediationGate [OF s] N
        frame_prepared [OF _ s]; (assumption | rule frame_step_refl)?)
qed

text \<open>Preparing by number, from a state in which the number and the identity are free.\<close>

lemma wp_prepare_tail:
  assumes f: "fresh cf X gid s t"
  shows "wp (case or_discard gid (\<lambda>e. e) (ctxErr t) of
        (Some e, s) \<Rightarrow> (Some e, s)
      | (None, s) \<Rightarrow>
     (case or_discard gid (\<lambda>e. e) (validateResourceBudgetsLocked cf s, s) of
        (Some e, s) \<Rightarrow> (Some e, s)
      | (None, s) \<Rightarrow> or_discard gid (\<lambda>e. e) (persistLocked cf s))) (prepared cf X s)"
proof -
  have E: "wp (ctxErr t) (\<lambda>r u. fresh cf X gid s u \<and> (r = None \<longrightarrow> True))"
    by (intro wp_ctxErr) (simp add: fresh_world [OF f])
  show ?thesis
  proof (rule wp_prod, rule or_discard_step [OF E]; unfold option.case)
    fix u
    assume u: "fresh cf X gid s u"
    let ?b = "validateResourceBudgetsLocked cf u"
    have V: "wp (?b, u) (\<lambda>r v. fresh cf X gid s v \<and> (r = None \<longrightarrow> ?b = None \<and> v = u))"
      using u by (intro wp_pair) simp
    show "wp (case or_discard gid (\<lambda>e. e) (?b, u) of
          (None, s) \<Rightarrow> or_discard gid (\<lambda>e. e) (persistLocked cf s)
        | (Some e, s) \<Rightarrow> (Some e, s)) (prepared cf X s)"
    proof (rule wp_prod, rule or_discard_step [OF V]; unfold option.case)
      fix v
      assume v: "fresh cf X gid s v" "?b = None \<and> v = u"
      then show "wp (or_discard gid (\<lambda>e. e) (persistLocked cf v)) (prepared cf X s)"
        by (intro wp_durable [OF v(1)]) (auto intro: calm_prepared fresh_is_prepared)
    qed (intro wp_pair calm_prepared)
  qed (intro wp_pair calm_prepared)
qed

lemma prepare_prepared:
  assumes s: "settled cf X s"
  shows "wp (prepare cf X gid ident dna s) (\<lambda>e s'. prepared cf X s e s')"
proof -
  have N: "wp (case prepareLocked cf X gid ident dna t of
        (Some e, s) \<Rightarrow> (Some e, s)
      | (None, s) \<Rightarrow>
     (case or_discard gid (\<lambda>e. e) (ctxErr s) of
        (Some e, s) \<Rightarrow> (Some e, s)
      | (None, s) \<Rightarrow>
     (case or_discard gid (\<lambda>e. e) (validateResourceBudgetsLocked cf s, s) of
        (Some e, s) \<Rightarrow> (Some e, s)
      | (None, s) \<Rightarrow> or_discard gid (\<lambda>e. e) (persistLocked cf s)))) (prepared cf X s)"
    if fr: "frame_step cf s t" and m: "Mark gid = Inr m" and g: "gen_of t gid = None"
      and i: "generationForIdentityLocked ident t = Inr existing"
      "\<not> (case existing of None \<Rightarrow> False | Some (existingID, _) \<Rightarrow> existingID \<noteq> gid)"
      and r: "\<not> cf_MaxGenerations cf \<le> int (length (c_generations t))" for t m existing
  proof -
    have t: "settled cf X t" by (rule settled_frame [OF fr s])
    have new: "gid \<notin> set (keys (c_generations t))" using g by (simp add: gen_of_keys)
    have "existing = None"
    proof (rule ccontr)
      assume "existing \<noteq> None"
      with i obtain h where "generationForIdentityLocked ident t = Inr (Some (gid, h))" by auto
      then have "(gid, h) \<in> set (c_generations t)" using generationForIdentity_Some by blast
      with new show False by force
    qed
    with i(1) have idn: "gs_Identity h \<noteq> ident" if "(j, h) \<in> set (c_generations t)" for j h
      using generationForIdentity_None that by blast
    have T: "wp k (prepared cf X s)" if "wp k (prepared cf X t)" for k
      using that by (rule wp_mono) (rule prepared_from [OF fr])
    show ?thesis
      unfolding prepareLocked_def Let_def
    proof (rule wp_prod, rule wp_prepareArtifactLocked [OF t new], goal_cases)
      case (4 j h)
      with idn [of j h] show ?case by (cases ident) (simp add: metadata_Identity_def)
    next
      case (5 e u)
      then show ?case by (simp add: wp_pair prepared_from [OF fr] calm_prepared)
    next
      case (6 u)
      then show ?case unfolding option.case by (intro T wp_prepare_tail)
    qed (use m r in \<open>auto simp: Mark_Inr\<close>)
  qed
  show ?thesis
    unfolding prepare_def
    by (intro wp_rules wp_from [where cf = cf and ?s0.0 = s] frame_prepared [OF _ s] N [THEN wp_prod_iff [THEN iffD1]];
        (assumption | rule frame_step_refl)?)
qed

end
