(* ===== verification/Ctl_Removal.thy ===== *)
theory Ctl_Removal
  imports Ctl_Generations
begin

text \<open>
  Rollback with a missing artifact, draining, garbage collection and the background
  reconciliation keep \<open>settled\<close>, in the halves the released mutex cuts them into.
\<close>

section \<open>Failing closed\<close>

lemma failed_closed_settled:
  assumes "failed_closed cf X s s'" and "settled cf X s"
  shows "settled cf X s'"
  using assms by (simp add: failed_closed_def settled_def phase_ok_def)

lemma integrityFailure_settled:
  assumes "inj (xl_fp X)" and "cf_Fatal cf" and "settled cf X s"
  shows "settled cf X (integrityFailureLocked cf X cause s)"
  using assms by (intro failed_closed_settled [OF integrityFailure_closed]) (simp_all add: settled_def)

lemma reconcile_body_settled:
  assumes "inj (xl_fp X)" and "cf_Fatal cf" and "settled cf X s"
  shows "settled cf X (reconcile_body cf X s)"
proof -
  have "settled cf X (s\<lparr>c_atom := (c_atom s)\<lparr>at_pending := False\<rparr>\<rparr>)" using assms(3) by (simp add: agrees_atom)
  then have "settled cf X (reconcileIntegrityFailureLocked cf X (Msg ''integrity failure'')
      (s\<lparr>c_atom := (c_atom s)\<lparr>at_pending := False\<rparr>\<rparr>))"
    using assms(1,2) by (intro failed_closed_settled [OF reconcile_closed]) (simp_all add: settled_def)
  then show ?thesis using assms(3) by (simp add: reconcile_body_def)
qed

lemma reconcile_done_settled: "settled cf X s \<Longrightarrow> settled cf X (reconcile_done s)"
  by (auto simp: reconcile_done_def intro: settled_frame [OF like_frame [OF like_atom(4)]])

lemma tick_settled: "settled cf X s \<Longrightarrow> settled cf X (tick s)"
  by (simp add: tick_def agrees_atom)

section \<open>Rollback\<close>

lemma wp_activate_settled:
  assumes "inj (xl_fp X)" and "cf_Fatal cf" and "settled cf X s"
  shows "wp (activateLocked cf X gid repair s) (\<lambda>e s'. settled cf X s')"
  using wp_moved_activate [OF assms frame_step_refl] by (rule wp_mono) (simp add: moved_def)

lemma wp_rollbackRetained:
  assumes inj: "inj (xl_fp X)" and fatal: "cf_Fatal cf" and s: "settled cf X s"
  shows "wp (rollbackRetained cf X artifact gid gen s) (\<lambda>e s'. settled cf X s')"
  unfolding rollbackRetained_def by (intro wp_if wp_pair s wp_activate_settled [OF inj fatal s])

lemma rollback_begin_settled:
  assumes inj: "inj (xl_fp X)" and fatal: "cf_Fatal cf" and s: "settled cf X s"
  shows "wp (rollback_begin cf X artifact s) (\<lambda>e s'. settled cf X s')"
proof -
  have S: "settled cf X t" if "frame_step cf s t" for t using that s by (rule settled_frame)
  show ?thesis
    unfolding rollback_begin_def
    by (intro wp_lookup wp_rules wp_from [where cf = cf and ?s0.0 = s]
        wp_rollbackRetained [OF inj fatal S, THEN wp_mono]; (assumption | rule frame_step_refl | rule S)+)
qed

lemma rollback_uncounted_settled:
  assumes inj: "inj (xl_fp X)" and fatal: "cf_Fatal cf" and s: "settled cf X s"
  shows "wp (rollback_uncounted cf X e s) (\<lambda>e s'. settled cf X s')"
proof -
  let ?s = "\<lambda>m. appendFailureLocked m ((Guard False (Latch True s))\<lparr>c_unsafe := True, c_remediation := False, c_remediationEpoch := 0\<rparr>)"
  have "settled cf X (?s m)" for m
    by (rule settled_frame [OF _ s]) (intro frame_like_from frame_step_refl)
  then show ?thesis
    unfolding rollback_uncounted_def Let_def
    by (intro wp_pair) (simp add: integrityFailure_settled inj fatal)
qed

lemma rollback_finish_settled:
  assumes inj: "inj (xl_fp X)" and fatal: "cf_Fatal cf" and s: "settled cf X s"
  shows "wp (rollback_finish cf X artifact counts s) (\<lambda>e s'. settled cf X s')"
  unfolding rollback_finish_def Let_def
proof (intro wp_lookup wp_if wp_pair s wp_rollbackRetained [OF inj fatal s], goal_cases)
  case 1
  show ?case
    by (rule settled_frame [OF _ s]) (intro frame_like_from frame_step_refl)
next
  case 2
  let ?t = "reconcileReservedGenerationsLocked counts s"
  let ?gid = "nextGenerationLocked ?t"
  have fr: "frame_step cf s ?t" by (intro frame_like_from frame_step_refl)
  have t: "settled cf X ?t" using fr s by (rule settled_frame)
  note new = nextGeneration_new [OF 2(3)]
  have idn: "gs_Identity h \<noteq> metadata_Identity (a_metadata artifact)" if "(i, h) \<in> set (c_generations ?t)" for i h
    using generationForIdentity_None [OF 2(1), of i h] that by (simp add: a_Identity_def)
  have room: "int (length (c_generations ?t)) < cf_MaxGenerations cf" using 2(2) by simp
  show ?case
  proof (rule wp_prod, rule wp_prepareArtifactLocked [OF t new(1) 2(3) new(2) room idn]; (unfold option.case)?)
    fix e u
    assume "calm cf X ?t u"
    then show "wp (Some e, u) (\<lambda>e. settled cf X)" by (intro wp_pair) (simp add: calm_def)
  next
    fix u
    assume u: "fresh cf X ?gid ?t u"
    let ?b = "validateResourceBudgetsLocked cf u"
    have V: "wp (?b, u) (\<lambda>r v. fresh cf X ?gid ?t v \<and> (r = None \<longrightarrow> ?b = None \<and> v = u))"
      using u by (intro wp_pair) simp
    show "wp (case or_discard ?gid (\<lambda>e. Wrap ''budget'' [Sent ErrLifecycleConflict]) (?b, u) of
         (None, s) \<Rightarrow>
           (case or_discard ?gid (\<lambda>e. e) (persistLocked cf s) of
              (None, s) \<Rightarrow> activateLocked cf X ?gid True s
            | (Some e, s) \<Rightarrow> (Some e, s))
       | (Some e, s) \<Rightarrow> (Some e, s)) (\<lambda>e. settled cf X)"
    proof (rule wp_prod, rule or_discard_step [OF V]; unfold option.case)
      fix v
      assume v: "fresh cf X ?gid ?t v" and b: "?b = None \<and> v = u"
      show "wp (case or_discard ?gid (\<lambda>e. e) (persistLocked cf v) of
            (None, s) \<Rightarrow> activateLocked cf X ?gid True s
          | (Some e, s) \<Rightarrow> (Some e, s)) (\<lambda>e. settled cf X)"
        using b by (intro wp_prod wp_durable [OF v]) (auto simp: calm_def intro!: wp_activate_settled inj fatal wp_pair)
    qed (intro wp_pair, simp add: calm_def)
  qed
qed

section \<open>Draining\<close>

lemma settled_phase:
  assumes "settled cf X s" and "c_activeNew s \<noteq> gid"
  shows "settled cf X (set_phase gid p s)"
proof -
  have i: "cinv cf X {} {} s" using assms by (simp add: settled_def)
  have "cinv cf X {} {} (set_phase gid p s)"
    using settled_keys(2) [OF assms(1)] by (intro inv_phases [OF i]) simp_all
  then show ?thesis using assms by (simp add: settled_def agrees_def phase_ok_def gen_of_set_phase)
qed

lemma drain_finish_settled:
  assumes s: "settled cf X s"
  shows "wp (drain_finish cf gid ident n s) (\<lambda>e s'. settled cf X s')"
  unfolding drain_finish_def
proof (intro wp_rules wp_pair s, goal_cases)
  case 1
  then have "settled cf X (set_phase gid PhaseDrained s)" by (intro settled_phase [OF s]) simp
  then show ?case by (intro wp_persist_frame wp_rules) (auto intro: settled_frame)
qed (auto intro: settled_phase [OF s])


section \<open>Garbage collection\<close>

lemma cinv_cong:
  assumes "cinv cf X P T s" and "c_generations s' = c_generations s" "c_eng s' = c_eng s"
    "c_world s' = c_world s" "c_activeNew s' = c_activeNew s"
  shows "cinv cf X P T s'"
  using assms by (simp add: cinv_def)

lemma delete_subset: "set (AList.delete k m) \<subseteq> set m"
  by (auto simp: AList.delete_eq)

lemma filter_delete_le: "length (filter Q (AList.delete k m)) \<le> length (filter Q m)"
  by (induction m) (auto simp: AList.delete_eq)

lemma keys_delete: "set (keys (AList.delete k m)) = set (keys m) - {k}"
  by (auto simp: AList.delete_eq)

lemma gens_ok_delete: "gens_ok cf X (cores gens) \<Longrightarrow> gens_ok cf X (cores (AList.delete gid gens))"
proof -
  have "distinct (map f (AList.delete gid m))" if "distinct (map f m)" for f :: "u32 \<times> generationState \<Rightarrow> 'z" and m
    using that by (simp add: AList.delete_eq distinct_map_filter)
  then show "gens_ok cf X (cores gens) \<Longrightarrow> gens_ok cf X (cores (AList.delete gid gens))"
    using delete_subset [of gid "cores gens"] by (auto simp: gens_ok_def cores_delete)
qed

text \<open>Memory without the generation, while the table may still use its number.\<close>

lemma cinv_delete:
  assumes i: "cinv cf X {} {} s" and act: "c_activeNew s \<noteq> gid"
  shows "cinv cf X {} {gid} (s\<lparr>c_generations := AList.delete gid (c_generations s), c_previous := p\<rparr>)"
proof -
  have sub: "set (cores (AList.delete gid (c_generations s))) \<subseteq> set (cores (c_generations s))"
    unfolding cores_delete by (rule delete_subset)
  have "disk_inv cf {} (cores (AList.delete gid (c_generations s))) (c_world s)"
    using i sub unfolding cinv_def disk_inv_def by blast
  moreover have "\<forall>(j, g)\<in>set (cores (AList.delete gid (c_generations s))). dna_of (c_eng s) j = Some (gs_DNA g)"
    using i sub unfolding cinv_def by blast
  moreover have "set (keys (AList.delete gid (c_generations s))) = set (keys (c_generations s)) - {gid}"
    by (rule keys_delete)
  moreover have "\<not> cf_NoNFT cf \<longrightarrow> table_true cf (cores (AList.delete gid (c_generations s))) (w_table (c_world s))"
    using i sub unfolding cinv_def by (blast intro: table_true_mono)
  ultimately show ?thesis
    using i act gens_ok_delete [of cf X "c_generations s" gid] by (auto simp: cinv_def)
qed

lemma cinv_remove_engine:
  assumes i: "cinv cf X {} {} s" and "gid \<notin> set (keys (c_generations s))"
  shows "cinv cf X {} {} (s\<lparr>c_eng := snd (reg_Remove gid (c_eng s))\<rparr>)"
proof -
  have "dna_of (snd (reg_Remove gid (c_eng s))) j = dna_of (c_eng s) j" if "(j, g) \<in> set (cores (c_generations s))" for j g
  proof -
    have "j \<in> set (keys (c_generations s))" using that by (metis fst_conv imageI keys_cores set_map)
    with assms(2) show ?thesis by (intro dna_of_Remove) blast
  qed
  with i show ?thesis unfolding cinv_def by fastforce
qed

lemma gc_compensate_settled:
  assumes inj: "inj (xl_fp X)" and fatal: "cf_Fatal cf" and s: "settled cf X s"
    and t: "cinv cf X {} {} t" "c_generations t = c_generations s" "c_activeNew t = c_activeNew s"
      "g_active (c_eng t) = c_activeNew s"
    and u: "t = u\<lparr>c_generations := gens, c_previous := prev\<rparr>"
  shows "wp (gc_compensate cf X what gens prev e u) (\<lambda>e s'. settled cf X s')"
proof -
  have act: "c_activeNew t = 0 \<or> c_activeNew t \<in> gs_ID ` set (liveLocked t)"
    using live_active [of cf X "{}" "{}" s] s t by (simp add: settled_def liveLocked_def)
  have good: "settled cf X v" if "mem v = mem t" "cinv cf X {} {} v" "assigns cf (c_activeNew t) False v" for v
    using that s t by (simp add: settled_def mem_fields agrees_alt phase_ok_def gen_of_def)
  show ?thesis
    unfolding gc_compensate_def Let_def u [symmetric] programLocked_def
  proof (intro wp_prod wp_program [OF inj t(1) live_remembered [OF t(1)] act] wp_option wp_pair, goal_cases)
    case (1 e v)
    then show ?case by (intro good) simp_all
  next
    case (2 e v x)
    have "failed_closed cf X v (integrityFailureLocked cf X c v)" for c
      using 2 by (intro integrityFailure_closed inj fatal)
    then show ?case
      using 2 s t unfolding failed_closed_def settled_def by (simp add: mem_fields phase_ok_def)
  qed
qed


text \<open>Collecting a generation that is in memory and not active.\<close>

lemma gc_delete_eq:
  "gc_delete gid s = s\<lparr>c_generations := AList.delete gid (c_generations s),
     c_previous := (if c_previous s = gid then 0 else c_previous s)\<rparr>"
  by (simp add: gc_delete_def delete_gen_def Let_def)

lemma gc_delete_fields:
  "c_activeNew (gc_delete gid s) = c_activeNew s" "c_eng (gc_delete gid s) = c_eng s"
  "c_world (gc_delete gid s) = c_world s" "c_fatal (gc_delete gid s) = c_fatal s"
  "c_generations (gc_delete gid s) = AList.delete gid (c_generations s)"
  "set (keys (c_generations (gc_delete gid s))) = set (keys (c_generations s)) - {gid}"
proof -
  show gens: "c_generations (gc_delete gid s) = AList.delete gid (c_generations s)" by (simp add: gc_delete_eq)
  show "set (keys (c_generations (gc_delete gid s))) = set (keys (c_generations s)) - {gid}"
    unfolding gens by (rule keys_delete)
qed (simp_all add: gc_delete_eq)

lemma gc_removed_settled:
  assumes s: "settled cf X s" and gid: "c_activeNew s \<noteq> gid" and act: "c_activeNew t = c_activeNew s"
    and gens: "c_generations t = AList.delete gid (c_generations s)"
    and t: "cinv cf X {} {} t" "agrees cf (c_activeNew s) t"
  shows "settled cf X t"
proof -
  have "budget_ok cf (cores (c_generations t))"
    using s filter_delete_le [of _ gid "cores (c_generations s)"] length_delete_le [of gid "cores (c_generations s)"]
    unfolding settled_def budget_ok_def gens cores_delete by (meson of_nat_le_iff order_trans)
  moreover have "phase_ok t" using s gid by (auto simp: settled_def phase_ok_def gen_of_def gens act)
  ultimately show ?thesis using t act by (simp add: settled_def)
qed

lemma reg_Remove_present:
  assumes "map_of (g_byID r) gid \<noteq> None" and "g_active r \<noteq> gid"
  shows "reg_Remove gid r = (None, snd (reg_Remove gid r))"
  using assms by (auto simp: reg_Remove_def)

lemma gc_collect_settled:
  assumes inj: "inj (xl_fp X)" and fatal: "cf_Fatal cf" and s: "settled cf X s"
    and mem: "gid \<in> set (keys (c_generations s))" and act: "c_activeNew s \<noteq> gid"
  shows "wp (gc_collect cf X gid s) (\<lambda>e s'. settled cf X s')"
proof -
  let ?d = "gc_delete gid s"
  have i: "cinv cf X {} {} s" using s by (simp add: settled_def)
  have d: "cinv cf X {} {gid} ?d" unfolding gc_delete_eq by (rule cinv_delete [OF i act])
  note dk = gc_delete_fields [of gid s]
  have ids: "remembered (liveLocked ?d) ?d" by (rule live_remembered [OF d])
  have actd: "c_activeNew ?d = 0 \<or> c_activeNew ?d \<in> set (keys (c_generations ?d))"
    using settled_keys(2) [OF s] act unfolding dk(1) dk(6) by blast
  have lived: "c_activeNew ?d = 0 \<or> c_activeNew ?d \<in> gs_ID ` set (liveLocked ?d)"
  proof (rule live_active [OF d])
    show "phase_ok ?d" using s act by (simp add: settled_def phase_ok_def gen_of_def dk)
  qed
  have ids0: "remembered (liveLocked ?d) s"
    using ids delete_subset [of gid "cores (c_generations s)"] unfolding remembered_def dk(5) cores_delete by blast
  have act0: "c_activeNew ?d = 0 \<or> c_activeNew ?d \<in> set (keys (c_generations s))"
    using settled_keys(2) [OF s] unfolding dk(1) .
  show ?thesis
    unfolding gc_collect_def Let_def
  proof (rule wp_prod, rule wp_programLocked)
    fix e :: "err option" and w m b
    let ?cfg = "program_config cf (liveLocked ?d) (c_activeNew ?d) False"
    let ?u = "?d\<lparr>c_world := w, c_nft := m, c_steeringInstalled := b\<rparr>"
    assume no: "cf_NoNFT cf \<longrightarrow> w = c_world ?d \<and> e = None"
      and yes: "\<not> cf_NoNFT cf \<longrightarrow> table_step X ?cfg (e = None) (c_world ?d) w"
    have no': "cf_NoNFT cf \<longrightarrow> w = c_world ?d" using no by blast
    have comp: "wp (gc_compensate cf X what (c_generations s) (c_previous s) x ?u) (\<lambda>e s'. settled cf X s')" for x what
    proof (rule gc_compensate_settled [OF inj fatal s _ _ _ _ refl])
      have "cinv cf X {} {} (s\<lparr>c_world := w, c_nft := m, c_steeringInstalled := b\<rparr>)"
        using no' yes unfolding dk by (intro inv_program(1) [OF i ids0 act0, unfolded dk])
      then show "cinv cf X {} {} (?u\<lparr>c_generations := c_generations s, c_previous := c_previous s\<rparr>)"
        by (rule cinv_cong) (simp_all add: dk)
    qed (use s in \<open>simp_all add: dk settled_def agrees_def\<close>)
    show "wp (case e of
            Some e \<Rightarrow> gc_compensate cf X ''GC compensation failed'' (c_generations s) (c_previous s) e ?u
          | None \<Rightarrow>
            (case reg_Remove gid (c_eng ?u) of
               (Some e, eng) \<Rightarrow> gc_compensate cf X ''engine-removal compensation failed'' (c_generations s) (c_previous s) e (?u\<lparr>c_eng := eng\<rparr>)
             | (None, eng) \<Rightarrow>
               (case (if hasSteeringLocked (?u\<lparr>c_eng := eng\<rparr>) then (None, ?u\<lparr>c_eng := eng\<rparr>)
                       else restoreOffloads cf (?u\<lparr>c_eng := eng\<rparr>)) of
                   (Some e, s) \<Rightarrow> (Some e, s)
                 | (None, s) \<Rightarrow> persistLocked cf s))) (\<lambda>e s'. settled cf X s')"
    proof (rule wp_option)
      show "wp (gc_compensate cf X ''GC compensation failed'' (c_generations s) (c_previous s) x ?u) (\<lambda>e s'. settled cf X s')" for x by (rule comp)
    next
      assume e: "e = None"
      let ?eng = "snd (reg_Remove gid (c_eng ?u))"
      have u: "cinv cf X {} {} ?u" using inv_program(2) [OF d ids actd no' yes inj] e by simp
      have "map_of (g_byID (c_eng ?u)) gid \<noteq> None" "g_active (c_eng ?u) \<noteq> gid"
        using cinv_engine [OF i mem] s act by (simp_all add: dk settled_def agrees_def)
      then have "reg_Remove gid (c_eng ?u) = (None, ?eng)" by (rule reg_Remove_present)
      then obtain eng where r: "reg_Remove gid (c_eng ?u) = (None, eng)" and eng: "eng = ?eng" by blast
      have out: "gid \<notin> set (keys (c_generations ?u))" unfolding gc_delete_fields(6) [symmetric] using dk(6) by simp
      have t: "settled cf X (?u\<lparr>c_eng := eng\<rparr>)"
        unfolding eng
      proof (rule gc_removed_settled [OF s act])
        show "cinv cf X {} {} (?u\<lparr>c_eng := ?eng\<rparr>)" by (rule cinv_remove_engine [OF u out])
        have "assigns cf (c_activeNew ?d) False ?u"
          using yes inj e by (auto simp: assigns_def table_step_def holds_inj assigned_target [OF lived])
        then show "agrees cf (c_activeNew s) (?u\<lparr>c_eng := ?eng\<rparr>)"
          using s by (simp add: agrees_alt assigns_def dk settled_def agrees_def)
      qed (simp_all add: dk)
      have S: "settled cf X v" if "frame_step cf (?u\<lparr>c_eng := eng\<rparr>) v" for v
        using that t by (rule settled_frame)
      show "wp (case reg_Remove gid (c_eng ?u) of
               (Some e, eng) \<Rightarrow> gc_compensate cf X ''engine-removal compensation failed'' (c_generations s) (c_previous s) e (?u\<lparr>c_eng := eng\<rparr>)
             | (None, eng) \<Rightarrow>
               (case (if hasSteeringLocked (?u\<lparr>c_eng := eng\<rparr>) then (None, ?u\<lparr>c_eng := eng\<rparr>)
                       else restoreOffloads cf (?u\<lparr>c_eng := eng\<rparr>)) of
                   (Some e, s) \<Rightarrow> (Some e, s)
                 | (None, s) \<Rightarrow> persistLocked cf s)) (\<lambda>e s'. settled cf X s')"
        unfolding r prod.case option.case Let_def
        by (intro wp_rules wp_from [where cf = cf and ?s0.0 = "?u\<lparr>c_eng := eng\<rparr>"] S;
            (assumption | rule frame_step_refl)?)
    qed
  qed
qed

lemma gc_finish_settled:
  assumes inj: "inj (xl_fp X)" and fatal: "cf_Fatal cf" and s: "settled cf X s"
  shows "wp (gc_finish cf X gid ident n s) (\<lambda>e s'. settled cf X s')"
proof -
  have S: "settled cf X (s\<lparr>c_atom := a\<rparr>)" for a using s by (rule settled_frame [OF like_frame [OF like_atom(1)]])
  show ?thesis
    unfolding gc_finish_def
  proof (intro wp_rules wp_Load S s, goal_cases)
    case (1 a)
    from 1(3) have "gen_of s gid \<noteq> None" by (auto simp: gen_of_def split: option.splits)
    then have "gid \<in> set (keys (c_generations s))" by (auto simp: gen_of_def map_of_eq_None_iff)
    with 1(3) show ?case by (intro gc_collect_settled [OF inj fatal S]) simp_all
  qed
qed

end
