(* ===== verification/Ctl_Boot.thy ===== *)
theory Ctl_Boot
  imports Ctl_Removal
begin

text \<open>
  Startup establishes \<open>settled\<close>: the stale table goes first, the generations are rebuilt from
  the durable document or the document is quarantined, and what results is made durable again
  before a program is installed.
\<close>

section \<open>Reading generations back\<close>

text \<open>What \<open>checkSaved\<close> guarantees, and how a generation relates to the one it was read from.\<close>

definition checked :: "'h ctl_libs \<Rightarrow> generationState \<Rightarrow> bool" where
  "checked X saved \<longleftrightarrow>
     gs_ID saved \<noteq> 0 \<and> gs_ID saved \<le> MaxID \<and> gs_Identity saved = metadata_Identity (gs_Metadata saved) \<and>
     gs_Digest saved = Digest (xl_sha X) (gs_DNA saved)"

definition reread :: "generationState \<Rightarrow> u32 \<times> generationState \<Rightarrow> bool" where
  "reread saved e \<longleftrightarrow>
     fst e = gs_ID saved \<and> bare (snd e) = bare saved \<and> gs_Phase (snd e) = gs_Phase saved"

lemma bare_eq:
  "bare g = bare h \<longleftrightarrow> gs_ID g = gs_ID h \<and> gs_DNA g = gs_DNA h \<and> gs_Digest g = gs_Digest h \<and>
     gs_Identity g = gs_Identity h \<and> gs_Metadata g = gs_Metadata h"
  by (cases g; cases h) (auto simp: bare_def)

lemma checkSaved_None:
  assumes "checkSaved cf X before saved = None"
  shows "checked X saved" and "gs_ID saved \<notin> gs_ID ` set before"
    and "gs_Identity saved \<notin> gs_Identity ` set before"
proof -
  from assms obtain m a where a: "Mark (gs_ID saved) = Inr m" "gs_ID saved \<notin> gs_ID ` set before"
      "gs_Identity saved \<notin> gs_Identity ` set before"
      "NewArtifact (xl_sha X) (gs_Metadata saved) (gs_DNA saved) = Inr a" "a_Identity a = gs_Identity saved"
      "gs_Digest saved = m_Digest (gs_Metadata saved)"
    by (auto simp: checkSaved_def split: sum.splits if_splits option.splits)
  then show "gs_ID saved \<notin> gs_ID ` set before" "gs_Identity saved \<notin> gs_Identity ` set before" by simp_all
  have "Digest (xl_sha X) (gs_DNA saved) = m_Digest (gs_Metadata saved)"
    using a(4) by (auto simp: NewArtifact_Inr Validate_None a_Identity_def metadata_Identity_def)
  with a show "checked X saved" by (auto simp: checked_def Mark_Inr NewArtifact_Inr a_Identity_def)
qed

lemma checkAll_None:
  assumes "checkAll cf X before l = None"
  shows "(\<forall>saved\<in>set l. checked X saved) \<and>
    (distinct (map gs_ID before) \<longrightarrow> distinct (map gs_ID (before @ l))) \<and>
    (distinct (map gs_Identity before) \<longrightarrow> distinct (map gs_Identity (before @ l)))"
  using assms
proof (induction l arbitrary: before)
  case (Cons saved rest)
  then have c: "checkSaved cf X before saved = None" "checkAll cf X (before @ [saved]) rest = None"
    by (simp_all split: option.splits)
  from Cons.IH [OF c(2)] checkSaved_None [OF c(1)] show ?case by auto
qed simp

text \<open>What a reconstruction changes.\<close>

definition rebuilt :: "ctl \<Rightarrow> ctl \<Rightarrow> bool" where
  "rebuilt s s' \<longleftrightarrow> c_world s' = c_world s \<and> c_activeNew s' = c_activeNew s \<and> c_fatal s' = c_fatal s \<and>
     c_unsafe s' = c_unsafe s \<and> g_active (c_eng s') = g_active (c_eng s)"

lemma prepareArtifact_result:
  assumes "prepareArtifactLocked cf X gid metadata dna s = (e, s')"
  shows "rebuilt s s'" and "e \<noteq> None \<Longrightarrow> c_generations s' = c_generations s"
    and "e = None \<Longrightarrow> \<exists>g. c_generations s' = AList.update gid g (c_generations s) \<and> gs_ID g = gid \<and>
       gs_DNA g = dna \<and> gs_Metadata g = metadata \<and> gs_Digest g = Digest (xl_sha X) dna \<and>
       gs_Identity g = metadata_Identity metadata"
proof -
  obtain e1 eng where p: "Prepare (xl_gen X) gid dna (c_eng s) = (e1, eng)"
    by (cases "Prepare (xl_gen X) gid dna (c_eng s)")
  have eng: "g_active eng = g_active (c_eng s)"
    using Prepare_fixed [of "xl_gen X" gid dna "c_eng s"] by (simp add: p)
  note D = assms [unfolded prepareArtifactLocked_def Let_def p]
  show "rebuilt s s'"
    using D eng by (auto simp: rebuilt_def split: if_splits sum.splits option.splits)
  show "e \<noteq> None \<Longrightarrow> c_generations s' = c_generations s"
    using D by (auto split: if_splits sum.splits option.splits)
  show "e = None \<Longrightarrow> \<exists>g. c_generations s' = AList.update gid g (c_generations s) \<and> gs_ID g = gid \<and>
       gs_DNA g = dna \<and> gs_Metadata g = metadata \<and> gs_Digest g = Digest (xl_sha X) dna \<and>
       gs_Identity g = metadata_Identity metadata"
    using D by (fastforce simp: NewArtifact_Inr a_Identity_def split: if_splits sum.splits option.splits)
qed

text \<open>
  Reconstruction counts neither on the document nor on the budgets by resource class, so it
  keeps \<open>settled\<close> for a configuration without them.
\<close>

definition roomy :: "ctl_config \<Rightarrow> ctl_config" where
  "roomy cf = cf\<lparr>cf_StateFile := [], cf_MaxScopedGenerations := cf_MaxGenerations cf,
     cf_MaxEveryPacketGenerations := cf_MaxGenerations cf\<rparr>"

lemma roomy_fields [simp]:
  "cf_StateFile (roomy cf) = []" "cf_MaxGenerations (roomy cf) = cf_MaxGenerations cf"
  "cf_NoNFT (roomy cf) = cf_NoNFT cf" "Descriptor (roomy cf) = Descriptor cf"
  "cf_ObserveInbound (roomy cf) = cf_ObserveInbound cf" "cf_Mode (roomy cf) = cf_Mode cf"
  by (simp_all add: roomy_def Descriptor_def)

lemma roomy_prepare: "prepareArtifactLocked (roomy cf) X = prepareArtifactLocked cf X"
  by (intro ext) (unfold prepareArtifactLocked_def roomy_fields, rule refl)

lemma roomy_gens [simp]: "gens_ok (roomy cf) X cs = gens_ok cf X cs"
  by (simp add: gens_ok_def gen_ok_def)

lemma roomy_budget:
  assumes "int (length (c_generations s)) \<le> cf_MaxGenerations cf"
  shows "validateResourceBudgetsLocked (roomy cf) s = None"
proof -
  have "int (length (filter P (c_generations s))) \<le> cf_MaxGenerations cf" for P
    using assms of_nat_mono [OF length_filter_le [of P "c_generations s"], where 'a = int] by linarith
  then show ?thesis by (simp add: validateResourceBudgetsLocked_def roomy_def not_less)
qed

text \<open>Memory while the document is being read: nothing is assigned and there is no table.\<close>

definition idle_table :: "ctl_config \<Rightarrow> ctl \<Rightarrow> bool" where
  "idle_table cf s \<longleftrightarrow> cf_NoNFT cf \<or> w_table (c_world s) = None"

definition loading :: "ctl_config \<Rightarrow> 'h ctl_libs \<Rightarrow> ctl \<Rightarrow> bool" where
  "loading cf X s \<longleftrightarrow> settled (roomy cf) X s \<and> c_activeNew s = 0 \<and> idle_table cf s"

lemma loading_empty:
  assumes "c_generations s = []" and "c_activeNew s = 0" and "idle_table cf s"
    and "disk_ok (c_world s)" and "g_active (c_eng s) = 0" and "0 \<le> cf_MaxGenerations cf"
  shows "loading cf X s"
  using assms
  by (auto simp: loading_def settled_def cinv_def gens_ok_def disk_inv_def table_ids_def idle_table_def
      agrees_def assigned_def assignment_def budget_ok_def phase_ok_def roomy_def)

lemma loading_step:
  assumes s: "loading cf X s" and new: "gs_ID saved \<notin> set (keys (c_generations s))"
    and room: "int (length (c_generations s)) < cf_MaxGenerations cf"
    and c: "checked X saved" and ident: "\<forall>e\<in>set (c_generations s). gs_Identity (snd e) \<noteq> gs_Identity saved"
    and p: "prepareArtifactLocked cf X (gs_ID saved) (gs_Metadata saved) (gs_DNA saved) s = (None, s')"
  shows "loading cf X (set_phase (gs_ID saved) (gs_Phase saved) s')"
    and "\<exists>e. c_generations (set_phase (gs_ID saved) (gs_Phase saved) s') = c_generations s @ [e] \<and> reread saved e"
proof -
  let ?gid = "gs_ID saved" and ?t = "set_phase (gs_ID saved) (gs_Phase saved) s'"
  have st: "settled (roomy cf) X s" and act: "c_activeNew s = 0" and idle: "idle_table cf s"
    using s by (simp_all add: loading_def)
  note r = prepareArtifact_result [OF p]
  have "wp (prepareArtifactLocked (roomy cf) X ?gid (gs_Metadata saved) (gs_DNA saved) s)
      (\<lambda>e s'. e = None \<longrightarrow> fresh (roomy cf) X ?gid s s')"
    using c room ident by (intro wp_prepareArtifactLocked [OF st new]) (auto simp: checked_def)
  then have f: "fresh (roomy cf) X ?gid s s'" using p by (simp add: roomy_prepare wp_def)
  have len: "int (length (c_generations s')) \<le> cf_MaxGenerations cf"
    using r(3) new room by (auto simp: length_update_new)
  have "settled (roomy cf) X s'"
    by (rule fresh_settled(1) [OF f]) (simp_all add: persisted_def roomy_budget len)
  then have "settled (roomy cf) X ?t"
    using f act c by (intro settled_phase) (auto simp: fresh_def checked_def)
  then show "loading cf X ?t"
    using act idle r(1) by (simp add: loading_def rebuilt_def idle_table_def)
  from r(3) obtain g where g: "c_generations s' = c_generations s @ [(?gid, g)]" "gs_ID g = ?gid"
      "gs_DNA g = gs_DNA saved" "gs_Metadata g = gs_Metadata saved"
      "gs_Digest g = Digest (xl_sha X) (gs_DNA saved)" "gs_Identity g = metadata_Identity (gs_Metadata saved)"
    using new by (auto simp: update_new)
  have others: "(if i = ?gid then h\<lparr>gs_Phase := gs_Phase saved\<rparr> else h) = h" if "(i, h) \<in> set (c_generations s)" for i h
    using that new by force
  have "c_generations ?t = c_generations s @ [(?gid, g\<lparr>gs_Phase := gs_Phase saved\<rparr>)]"
    unfolding set_phase_list g(1) using others by (auto intro!: map_idI)
  moreover have "reread saved (?gid, g\<lparr>gs_Phase := gs_Phase saved\<rparr>)"
    using g c by (simp add: reread_def bare_def checked_def)
  ultimately show "\<exists>e. c_generations ?t = c_generations s @ [e] \<and> reread saved e" by blast
qed


text \<open>\<open>cleanupPrepared\<close> takes every generation of a failed load out again.\<close>

lemma cleanup_fields:
  "c_generations (cleanupPrepared ids s) = filter (\<lambda>e. fst e \<notin> set ids) (c_generations s)"
  "rebuilt s (cleanupPrepared ids s)"
proof -
  have step: "c_generations (discard_gen i s) = filter (\<lambda>e. fst e \<noteq> i) (c_generations s)" "rebuilt s (discard_gen i s)"
    for i s by (auto simp: discard_gen_def delete_gen_def AList.delete_eq rebuilt_def intro!: filter_cong)
  show "c_generations (cleanupPrepared ids s) = filter (\<lambda>e. fst e \<notin> set ids) (c_generations s)"
    unfolding cleanupPrepared_def
    by (induction ids arbitrary: s) (auto simp: step(1) conj_commute intro: filter_cong)
  show "rebuilt s (cleanupPrepared ids s)"
    unfolding cleanupPrepared_def
  proof (induction ids arbitrary: s)
    case (Cons i ids)
    from Cons.IH [of "discard_gen i s"] step(2) [of s i] show ?case by (simp add: rebuilt_def)
  qed (simp add: rebuilt_def)
qed

lemma cleanup_all: "keys (c_generations s) = ids \<Longrightarrow> c_generations (cleanupPrepared ids s) = []"
  by (force simp: cleanup_fields(1) filter_empty_conv)

lemma rebuilt_trans: "rebuilt s t \<Longrightarrow> rebuilt t u \<Longrightarrow> rebuilt s u"
  by (simp add: rebuilt_def)

lemma rebuilt_set_phase: "rebuilt s t \<Longrightarrow> rebuilt s (set_phase gid p t)"
  by (simp add: rebuilt_def)

text \<open>The loop: all of the document, or nothing.\<close>

lemma loadLoop_result:
  assumes "loadLoop cf X rest ids s = (r, s')" and "loading cf X s" and "keys (c_generations s) = ids"
    and "distinct (ids @ map gs_ID rest)" and "\<forall>saved\<in>set rest. checked X saved"
    and "distinct (map (gs_Identity \<circ> snd) (c_generations s) @ map gs_Identity rest)"
    and "int (length (c_generations s) + length rest) \<le> cf_MaxGenerations cf"
  shows "rebuilt s s'" and "\<And>e. r = Inl e \<Longrightarrow> c_generations s' = []"
    and "\<And>ids'. r = Inr ids' \<Longrightarrow> loading cf X s' \<and> keys (c_generations s') = ids' \<and>
      (\<exists>new. c_generations s' = c_generations s @ new \<and> list_all2 reread rest new)"
proof -
  have "rebuilt s s' \<and> (\<forall>e. r = Inl e \<longrightarrow> c_generations s' = []) \<and>
    (\<forall>ids'. r = Inr ids' \<longrightarrow> loading cf X s' \<and> keys (c_generations s') = ids' \<and>
      (\<exists>new. c_generations s' = c_generations s @ new \<and> list_all2 reread rest new))"
    using assms
  proof (induction rest arbitrary: ids s)
    case Nil
    then show ?case by (auto simp: rebuilt_def)
  next
    case (Cons saved rest)
    obtain e t where p: "prepareArtifactLocked cf X (gs_ID saved) (gs_Metadata saved) (gs_DNA saved) s = (e, t)"
      by fastforce
    note R = prepareArtifact_result [OF p]
    show ?case
    proof (cases e)
      case (Some x)
      then have "r = Inl (Wrap ''reconstruct generation'' [x])" "s' = cleanupPrepared ids t"
        using Cons.prems(1) p by simp_all
      then show ?thesis
        using R(1,2) Some Cons.prems(3) cleanup_all [of t ids] cleanup_fields(2) [of t ids] rebuilt_trans by simp
    next
      case None
      let ?t = "set_phase (gs_ID saved) (gs_Phase saved) t"
      have new: "gs_ID saved \<notin> set (keys (c_generations s))"
        unfolding Cons.prems(3) using Cons.prems(4) by simp
      have "gs_Identity saved \<notin> set (map (gs_Identity \<circ> snd) (c_generations s))" using Cons.prems(6) by simp
      then have idn: "\<forall>e\<in>set (c_generations s). gs_Identity (snd e) \<noteq> gs_Identity saved" by force
      have room: "int (length (c_generations s)) < cf_MaxGenerations cf" and ok: "checked X saved"
        using Cons.prems by simp_all
      note L = loading_step [OF Cons.prems(2) new room ok idn p [unfolded None]]
      from L(2) obtain el where el: "c_generations ?t = c_generations s @ [el]" "reread saved el" by blast
      have el_id: "fst el = gs_ID saved" "gs_Identity (snd el) = gs_Identity saved"
        using el(2) by (simp_all add: reread_def bare_eq)
      have "loadLoop cf X rest (ids @ [gs_ID saved]) ?t = (r, s')"
        using Cons.prems(1) p None by simp
      then have IH: "rebuilt ?t s' \<and> (\<forall>e. r = Inl e \<longrightarrow> c_generations s' = []) \<and>
        (\<forall>ids'. r = Inr ids' \<longrightarrow> loading cf X s' \<and> keys (c_generations s') = ids' \<and>
          (\<exists>new. c_generations s' = c_generations ?t @ new \<and> list_all2 reread rest new))"
      proof (rule Cons.IH [OF _ L(1)])
        show "keys (c_generations ?t) = ids @ [gs_ID saved]" using Cons.prems(3) el_id unfolding el(1) by simp
        show "distinct ((ids @ [gs_ID saved]) @ map gs_ID rest)" using Cons.prems(4) by simp
        show "\<forall>saved\<in>set rest. checked X saved" using Cons.prems(5) by simp
        show "distinct (map (gs_Identity \<circ> snd) (c_generations ?t) @ map gs_Identity rest)"
          using Cons.prems(6) el_id unfolding el(1) by (simp add: o_def)
        show "int (length (c_generations ?t) + length rest) \<le> cf_MaxGenerations cf"
          using Cons.prems(7) unfolding el(1) by simp
      qed
      have "rebuilt s s'"
        using rebuilt_trans [OF rebuilt_set_phase [OF R(1)]] IH by blast
      moreover have "\<exists>new. c_generations s' = c_generations s @ new \<and> list_all2 reread (saved # rest) new"
        if "\<exists>new. c_generations s' = c_generations ?t @ new \<and> list_all2 reread rest new"
        using that el by (force intro: exI [of _ "el # _"])
      ultimately show ?thesis using IH by blast
    qed
  qed
  then show "rebuilt s s'" and "\<And>e. r = Inl e \<Longrightarrow> c_generations s' = []"
    and "\<And>ids'. r = Inr ids' \<Longrightarrow> loading cf X s' \<and> keys (c_generations s') = ids' \<and>
      (\<exists>new. c_generations s' = c_generations s @ new \<and> list_all2 reread rest new)" by blast+
qed


section \<open>From a new process to a durable state\<close>

text \<open>
  Memory between the first step of \<open>Start\<close> and its \<open>persistLocked\<close>: the generations are in the
  registry, nothing is assigned, and what the document holds is not yet known.
\<close>

definition booting :: "ctl_config \<Rightarrow> 'h ctl_libs \<Rightarrow> ctl \<Rightarrow> bool" where
  "booting cf X s \<longleftrightarrow>
     gens_ok cf X (cores (c_generations s)) \<and>
     (\<forall>(gid, g)\<in>set (cores (c_generations s)). dna_of (c_eng s) gid = Some (gs_DNA g)) \<and>
     disk_ok (c_world s) \<and> idle_table cf s \<and> g_active (c_eng s) = 0 \<and>
     budget_ok cf (cores (c_generations s)) \<and> phase_ok s"

definition budgets_ok :: "ctl_config \<Rightarrow> bool" where
  "budgets_ok cf \<longleftrightarrow> 0 \<le> cf_MaxGenerations cf \<and> 0 \<le> cf_MaxScopedGenerations cf \<and>
     0 \<le> cf_MaxEveryPacketGenerations cf"

lemma booting_empty:
  assumes "budgets_ok cf" and "c_generations s = []" and "c_activeNew s = 0"
    and "disk_ok (c_world s)" and "idle_table cf s" and "g_active (c_eng s) = 0"
  shows "booting cf X s"
  using assms by (simp add: booting_def gens_ok_def budget_ok_def phase_ok_def budgets_ok_def)

lemma booting_loaded:
  assumes "loading cf X s" and "validateResourceBudgetsLocked cf s = None"
  shows "booting cf X s"
proof -
  from assms(1) have s: "settled (roomy cf) X s" "c_activeNew s = 0" "idle_table cf s"
    by (simp_all add: loading_def)
  then have "budget_ok cf (cores (c_generations s))"
    using assms(2) by (intro within_budget) (simp_all add: settled_def budget_ok_def)
  with s show ?thesis by (simp add: booting_def settled_def cinv_def disk_inv_def agrees_def)
qed

lemma booting_cong:
  assumes "booting cf X s" and "cores (c_generations s') = cores (c_generations s)" and "c_eng s' = c_eng s"
    and "w_table (c_world s') = w_table (c_world s)" "disk_ok (c_world s')" and "phase_ok s'"
  shows "booting cf X s'"
  using assms by (simp add: booting_def idle_table_def)

text \<open>Reading the document: everything it holds, or nothing.\<close>

definition reread_all :: "persistedState \<Rightarrow> ctl \<Rightarrow> bool" where
  "reread_all ps s \<longleftrightarrow> list_all2 reread (ps_Generations ps) (c_generations s) \<and> c_activeNew s = ps_ActiveNew ps"

lemma list_all2_ids: "list_all2 reread l m \<Longrightarrow> map fst m = map gs_ID l"
  by (induction rule: list_all2_induct) (simp_all add: reread_def)

lemma list_all2_mem: "list_all2 reread l m \<Longrightarrow> saved \<in> set l \<Longrightarrow> \<exists>e\<in>set m. reread saved e"
  by (induction rule: list_all2_induct) auto

lemma loadDocument_result:
  assumes b: "budgets_ok cf" and s: "c_generations s = []" "c_activeNew s = 0" "disk_ok (c_world s)"
      "idle_table cf s" "g_active (c_eng s) = 0"
    and d: "loadDocument cf X ps s = (r, s')"
  shows "booting cf X s'" and "c_world s' = c_world s" and "c_fatal s' = c_fatal s"
    and "\<And>e. r = Inl e \<Longrightarrow> c_generations s' = [] \<and> c_activeNew s' = 0 \<and> c_unsafe s' = c_unsafe s"
    and "\<And>l. r = Inr l \<Longrightarrow> l \<and> reread_all ps s' \<and> c_unsafe s' = ps_Unsafe ps"
proof -
  let ?s = "s\<lparr>c_offloads := ps_Offloads ps\<rparr>"
  have E: "booting cf X t" if "c_generations t = []" "rebuilt ?s t" for t
    using that s by (intro booting_empty [OF b]) (simp_all add: rebuilt_def idle_table_def)
  have "booting cf X s' \<and> c_world s' = c_world s \<and> c_fatal s' = c_fatal s \<and>
    (\<forall>e. r = Inl e \<longrightarrow> c_generations s' = [] \<and> c_activeNew s' = 0 \<and> c_unsafe s' = c_unsafe s) \<and>
    (\<forall>l. r = Inr l \<longrightarrow> l \<and> reread_all ps s' \<and> c_unsafe s' = ps_Unsafe ps)"
  proof (cases "\<exists>e t. r = Inl e \<and> (s' = s \<or> s' = ?s)")
    case True
    then have "booting cf X s'" using s by (auto intro!: booting_empty [OF b] simp: idle_table_def)
    with True s show ?thesis by auto
  next
    case F: False
    from F d have c: "checkAll cf X [] (ps_Generations ps) = None" "checkActive ps = None"
        "int (length (ps_Generations ps)) \<le> cf_MaxGenerations cf"
      unfolding loadDocument_def Let_def by (force split: if_splits option.splits)+
    obtain q t where l: "loadLoop cf X (ps_Generations ps) [] ?s = (q, t)" by fastforce
    note C = checkAll_None [OF c(1)]
    have ld: "loading cf X ?s" using s b by (intro loading_empty) (simp_all add: idle_table_def budgets_ok_def)
    have L: "rebuilt ?s t" "\<And>e. q = Inl e \<Longrightarrow> c_generations t = []"
      "\<And>ids. q = Inr ids \<Longrightarrow> loading cf X t \<and> keys (c_generations t) = ids \<and>
        list_all2 reread (ps_Generations ps) (c_generations t)"
      using loadLoop_result [OF l ld] C c(3) s by auto
    from F d c l consider (err) e where "q = Inl e" "r = Inl e" "s' = t"
      | (budget) ids e where "q = Inr ids" "r = Inl e" "s' = cleanupPrepared ids t"
      | (all) ids where "q = Inr ids" "r = Inr True" "validateResourceBudgetsLocked cf t = None"
        "s' = t\<lparr>c_activeNew := ps_ActiveNew ps, c_previous := ps_Previous ps, c_unsafe := ps_Unsafe ps,
             c_failure := ps_Failure ps, c_offloads := ps_Offloads ps,
             c_remediation := False, c_remediationEpoch := 0\<rparr>"
      unfolding loadDocument_def Let_def
      by (auto split: if_splits option.splits sum.splits)
    then show ?thesis
    proof cases
      case err
      with L E [of t] s show ?thesis by (auto simp: rebuilt_def)
    next
      case budget
      with L(3) have "c_generations s' = []" by (intro cleanup_all [of t ids, folded budget(3)]) auto
      moreover have "rebuilt ?s s'" using budget(3) rebuilt_trans [OF L(1) cleanup_fields(2)] by simp
      ultimately show ?thesis using E [of s'] s budget by (auto simp: rebuilt_def)
    next
      case all
      have lt: "loading cf X t" "list_all2 reread (ps_Generations ps) (c_generations t)" using L(3) all by auto
      have ph: "phase_ok s'"
      proof (cases "ps_ActiveNew ps = 0")
        case False
        then obtain sv where sv: "sv \<in> set (ps_Generations ps)" "gs_ID sv = ps_ActiveNew ps" "gs_Phase sv = PhaseActive"
          using c(2) by (auto simp: checkActive_def find_Some_iff split: option.splits if_splits) (metis nth_mem)
        with list_all2_mem [OF lt(2)] obtain g where "(ps_ActiveNew ps, g) \<in> set (c_generations t)"
            "gs_Phase g = PhaseActive" by (force simp: reread_def)
        moreover have "distinct (keys (c_generations t))" using C by (simp add: list_all2_ids [OF lt(2)])
        ultimately show ?thesis by (simp add: phase_ok_def gen_of_def all(4))
      qed (simp add: phase_ok_def all(4))
      have bt: "booting cf X t" using lt(1) all(3) by (rule booting_loaded)
      then have "disk_ok (c_world t)" unfolding booting_def by blast
      then have "booting cf X s'" by (intro booting_cong [OF bt _ _ _ _ ph]) (simp_all add: all(4))
      moreover have "c_world s' = c_world s" "c_fatal s' = c_fatal s" "c_unsafe s' = ps_Unsafe ps" "reread_all ps s'"
        using L(1) lt(2) by (simp_all add: all(4) rebuilt_def reread_all_def)
      ultimately show ?thesis using all(2) by simp
    qed
  qed
  then show "booting cf X s'" and "c_world s' = c_world s" and "c_fatal s' = c_fatal s"
    and "\<And>e. r = Inl e \<Longrightarrow> c_generations s' = [] \<and> c_activeNew s' = 0 \<and> c_unsafe s' = c_unsafe s"
    and "\<And>l. r = Inr l \<Longrightarrow> l \<and> reread_all ps s' \<and> c_unsafe s' = ps_Unsafe ps" by blast+
qed


text \<open>A process that has removed the stale table and read nothing yet.\<close>

definition blank_ctl :: "ctl_config \<Rightarrow> ctl \<Rightarrow> bool" where
  "blank_ctl cf s \<longleftrightarrow> c_generations s = [] \<and> c_activeNew s = 0 \<and> disk_ok (c_world s) \<and>
     idle_table cf s \<and> g_active (c_eng s) = 0"

lemma blank_quiet: "blank_ctl cf s \<Longrightarrow> quiet (c_world s) w \<Longrightarrow> blank_ctl cf (s\<lparr>c_world := w\<rparr>)"
  using quiet_fields [of "c_world s" w] by (simp add: blank_ctl_def idle_table_def disk_ok_def)

lemma quiet_readState: "readState w = (r, w') \<Longrightarrow> quiet w w'"
  for w :: world
  by (simp add: quiet_def readState_world)

text \<open>The document \<open>loadLocked\<close> accepted is the one a reader of the state file sees.\<close>

lemma wp_loadLocked:
  assumes b: "budgets_ok cf" and s: "blank_ctl cf s"
    and Q: "\<And>r s'. booting cf X s' \<Longrightarrow> quiet (c_world s) (c_world s') \<Longrightarrow> c_fatal s' = c_fatal s \<Longrightarrow>
      (\<And>e. r = Inl e \<or> r = Inr False \<Longrightarrow> blank_ctl cf s') \<Longrightarrow>
      (r = Inr True \<Longrightarrow> cf_StateFile cf \<noteq> [] \<and>
         (\<exists>ps. w_visible (c_world s) = Some (Doc ps) \<and> reread_all ps s' \<and> c_unsafe s' = ps_Unsafe ps)) \<Longrightarrow> Q r s'"
  shows "wp (loadLocked cf X s) Q"
proof -
  have B: "booting cf X t" if "blank_ctl cf t" for t
    using that by (intro booting_empty [OF b]) (simp_all add: blank_ctl_def)
  show ?thesis
    unfolding loadLocked_def
  proof (intro wp_if wp_pair, goal_cases)
    case 1
    show ?case by (rule Q) (use s B in simp_all)
  next
    case 2
    obtain r w where r: "readState (c_world s) = (r, w)" by fastforce
    let ?s = "s\<lparr>c_world := w\<rparr>"
    note q = quiet_readState [OF r]
    note w = blank_quiet [OF s q]
    have miss: "wp (x, ?s) Q" if "x \<noteq> Inr True" for x
      using that q w B by (intro wp_pair Q) auto
    show ?case
    proof (cases "\<exists>ps. r = Inr (Some (Doc ps))")
      case False
      with miss show ?thesis
        unfolding r by (cases r) (auto split: option.split contents.split)
    next
      case True
      then obtain ps where ps: "r = Inr (Some (Doc ps))" by blast
      then have vis: "w_visible (c_world s) = Some (Doc ps)" using readState_Inr [OF r [unfolded ps]] by simp
      show ?thesis
        unfolding r ps prod.case sum.case option.case contents.case
      proof (intro wp_if miss, goal_cases)
        case 2
        show ?case
        proof (rule wp_I)
          fix x t
          assume d: "loadDocument cf X ps ?s = (x, t)"
          have blk: "c_generations ?s = []" "c_activeNew ?s = 0" "disk_ok (c_world ?s)" "idle_table cf ?s"
            "g_active (c_eng ?s) = 0" using w unfolding blank_ctl_def by blast+
          note D = loadDocument_result [OF b blk d]
          show "Q x t"
          proof (rule Q)
            show "booting cf X t" by (rule D)
            show "quiet (c_world s) (c_world t)" using q D(2) by simp
            show "c_fatal t = c_fatal s" using D(3) by simp
            show "blank_ctl cf t" if "x = Inl e \<or> x = Inr False" for e
              using that D by (auto simp: blank_ctl_def booting_def)
            show "cf_StateFile cf \<noteq> [] \<and> (\<exists>ps. w_visible (c_world s) = Some (Doc ps) \<and> reread_all ps t \<and>
                c_unsafe t = ps_Unsafe ps)" if "x = Inr True"
              using that D(5) vis \<open>cf_StateFile cf \<noteq> []\<close> by blast
          qed
        qed
      qed simp
    qed
  qed
qed

lemma blank_atom:
  "blank_ctl cf s \<Longrightarrow> blank_ctl cf ((Latch True (s\<lparr>c_unsafe := u, c_activeNew := 0\<rparr>))\<lparr>c_failure := f\<rparr>)"
  by (simp add: blank_ctl_def idle_table_def)

definition loaded_from :: "ctl_config \<Rightarrow> contents option \<Rightarrow> ctl \<Rightarrow> bool" where
  "loaded_from cf d s \<longleftrightarrow> cf_StateFile cf \<noteq> [] \<and>
     (\<exists>ps. d = Some (Doc ps) \<and> reread_all ps s \<and> c_unsafe s = ps_Unsafe ps)"

lemma wp_start_load:
  assumes b: "budgets_ok cf" and s: "blank_ctl cf s"
    and Q: "\<And>s' l. booting cf X s' \<Longrightarrow> c_fatal s' = c_fatal s \<Longrightarrow> w_flows (c_world s') = w_flows (c_world s) \<Longrightarrow>
        (l \<Longrightarrow> loaded_from cf (w_visible (c_world s)) s') \<Longrightarrow> (\<not> l \<Longrightarrow> blank_ctl cf s') \<Longrightarrow> Q (Inr l) s'"
      "\<And>e s'. Q (Inl e) s'"
  shows "wp (start_load cf X s) Q"
  unfolding start_load_def
proof (rule wp_prod, rule wp_loadLocked [OF b s], goal_cases)
  case (1 r t)
  note t = quiet_fields [OF 1(2)]
  show ?case
  proof (cases r)
    case (Inr l)
    then show ?thesis using 1 t by (cases l) (auto intro!: wp_pair Q simp: loaded_from_def)
  next
    case (Inl e)
    then have blk: "blank_ctl cf t" using 1 by blast
    have "wp (quarantineStateLocked cf t) (\<lambda>q u. \<exists>w. u = t\<lparr>c_world := w\<rparr> \<and> blank_ctl cf u \<and> w_flows w = w_flows (c_world t))"
      unfolding quarantineStateLocked_def
    proof (intro wp_if wp_pair)
      show "\<exists>w. t = t\<lparr>c_world := w\<rparr> \<and> blank_ctl cf t \<and> w_flows w = w_flows (c_world t)"
        using blk by (intro exI [of _ "c_world t"]) simp
    next
      obtain q w where q: "quarantineFile (c_world t) = (q, w)" by fastforce
      with quarantineFile_effect [OF q] blk show "wp (case quarantineFile (c_world t) of (e, w) \<Rightarrow> (e, t\<lparr>c_world := w\<rparr>))
          (\<lambda>q u. \<exists>w. u = t\<lparr>c_world := w\<rparr> \<and> blank_ctl cf u \<and> w_flows w = w_flows (c_world t))"
        unfolding q prod.case
        by (intro wp_pair exI [of _ w]) (simp add: blank_ctl_def idle_table_def net_part_def)
    qed
    then show ?thesis
      unfolding Inl sum.case
    proof (intro wp_prod_iff [THEN iffD2], rule wp_mono, goal_cases)
      case (1 q u)
      then have u: "blank_ctl cf u" "c_fatal u = c_fatal t" "w_flows (c_world u) = w_flows (c_world t)" by auto
      then show ?case
        using \<open>c_fatal t = c_fatal s\<close> t blank_atom [OF u(1)] b
        by (cases q) (auto simp: Let_def wp_def blank_ctl_def intro!: Q booting_empty)
    qed
  qed
qed


section \<open>The audit, and what is made durable\<close>

text \<open>Where the memory of a starting process comes from.\<close>

definition regained :: "persistedState \<Rightarrow> ctl \<Rightarrow> bool" where
  "regained ps s \<longleftrightarrow>
     list_all2 (\<lambda>saved e. fst e = gs_ID saved \<and> bare (snd e) = bare saved) (ps_Generations ps)
       (cores (c_generations s))"

definition origin :: "contents option \<Rightarrow> bool \<Rightarrow> ctl \<Rightarrow> bool" where
  "origin d l s \<longleftrightarrow>
     (if l then \<exists>ps. d = Some (Doc ps) \<and> regained ps s \<and> (c_activeNew s = 0 \<or> c_activeNew s = ps_ActiveNew ps)
      else c_generations s = [] \<and> c_activeNew s = 0)"

lemma origin_loaded: "loaded_from cf d s \<Longrightarrow> origin d True s"
proof -
  have "list_all2 (\<lambda>saved e. fst e = gs_ID saved \<and> bare (snd e) = bare saved) l (cores m)"
    if "list_all2 reread l m" for l m
    using that by (induction rule: list_all2_induct) (auto simp: reread_def cores_def)
  then show "loaded_from cf d s \<Longrightarrow> origin d True s"
    by (auto simp: loaded_from_def reread_all_def origin_def regained_def)
qed

lemma origin_cores:
  assumes "origin d l s" and "cores (c_generations s') = cores (c_generations s)"
    and "c_activeNew s' = c_activeNew s \<or> c_activeNew s' = 0"
  shows "origin d l s'"
proof -
  have "c_generations s' = [] \<longleftrightarrow> c_generations s = []" using assms(2) by (metis length_cores length_0_conv)
  with assms show ?thesis by (auto simp: origin_def regained_def)
qed

definition resumed :: "ctl_config \<Rightarrow> 'h ctl_libs \<Rightarrow> contents option \<Rightarrow> bool \<Rightarrow> ctl \<Rightarrow> bool" where
  "resumed cf X d l s \<longleftrightarrow> booting cf X s \<and> origin d l s"

lemma resumed_cong:
  assumes s: "resumed cf X d l s" and "cores (c_generations s') = cores (c_generations s)" and "c_eng s' = c_eng s"
    and "c_world s' = c_world s" and "c_activeNew s' = 0"
  shows "resumed cf X d l s'"
proof -
  have "disk_ok (c_world s')" using s assms(4) by (simp add: resumed_def booting_def)
  moreover have "phase_ok s'" using assms(5) by (simp add: phase_ok_def)
  ultimately show ?thesis
    using s assms booting_cong [of cf X s s'] origin_cores [of d l s s'] by (simp add: resumed_def)
qed

lemma resumed_frame:
  assumes f: "frame_step cf s s'" and s: "resumed cf X d l s"
  shows "resumed cf X d l s'"
proof -
  note ff = frame_step_fields [OF f]
  have "disk_ok (c_world s')" using f s by (simp add: frame_step_def disk_kept_def resumed_def booting_def)
  then show ?thesis
    using s ff booting_cong [of cf X s s'] origin_cores [of d l s s'] phase_ok_frame [OF f]
    by (simp add: resumed_def booting_def)
qed

lemma cores_demote [simp]: "cores (c_generations (demote_active s)) = cores (c_generations s)"
  "cores (c_generations (all_prepared s)) = cores (c_generations s)"
  by (auto simp: demote_active_def all_prepared_def cores_def)

lemma demote_fields [simp]:
  "c_eng (demote_active s) = c_eng s" "c_world (demote_active s) = c_world s"
  "c_activeNew (demote_active s) = c_activeNew s" "c_fatal (demote_active s) = c_fatal s"
  "c_eng (all_prepared s) = c_eng s" "c_world (all_prepared s) = c_world s"
  "c_activeNew (all_prepared s) = c_activeNew s" "c_fatal (all_prepared s) = c_fatal s"
  by (simp_all add: demote_active_def all_prepared_def)

lemma wp_start_audit:
  assumes s: "resumed cf X d l s"
  shows "wp (start_audit cf l s) (\<lambda>_ s'. resumed cf X d l s' \<and> c_fatal s' = c_fatal s \<and>
    w_flows (c_world s') = w_flows (c_world s))"
proof -
  have R: "resumed cf X d l t \<and> c_fatal t = c_fatal s \<and> w_flows (c_world t) = w_flows (c_world s)"
    if "resumed cf X d l u" "cores (c_generations t) = cores (c_generations u)" "c_eng t = c_eng u"
      "c_world t = c_world u" "c_activeNew t = 0" "c_fatal t = c_fatal s" "w_flows (c_world u) = w_flows (c_world s)" for t u
    using that resumed_cong [OF that(1-5)] by simp
  show ?thesis
    unfolding start_audit_def Let_def
  proof (intro wp_if wp_pair wp_prod wp_connectionCounts wp_sum, goal_cases)
    case 1
    then show ?case using s by simp
  next
    case (2 r w x)
    have u: "resumed cf X d l (s\<lparr>c_world := w\<rparr>)" by (rule resumed_frame [OF frame_quiet [OF 2(2)] s])
    show ?case by (rule R [OF u]) (simp_all add: quiet_fields [OF 2(2)])
  next
    case (3 r w x)
    have u: "resumed cf X d l (reconcileReservedGenerationsLocked x (s\<lparr>c_world := w\<rparr>))"
      by (rule resumed_frame [OF _ s]) (intro frame_like_from frame_quiet 3)
    have v: "resumed cf X d l (appendFailureLocked m ((reconcileReservedGenerationsLocked x (s\<lparr>c_world := w\<rparr>))
        \<lparr>c_unsafe := True, c_activeNew := 0\<rparr>))" for m
      by (rule resumed_cong [OF u]) simp_all
    have v': "resumed cf X d l (all_prepared (appendFailureLocked m ((reconcileReservedGenerationsLocked x (s\<lparr>c_world := w\<rparr>))
        \<lparr>c_unsafe := True, c_activeNew := 0\<rparr>)))" for m
      by (rule resumed_cong [OF v]) simp_all
    show ?case using quiet_fields [OF 3(2)] u v v' by (cases l) auto
  qed
qed

lemma start_unsafe_resumed:
  assumes "resumed cf X d l s"
  shows "resumed cf X d l (Guard False (start_unsafe s))" and "c_unsafe s \<Longrightarrow> c_activeNew (start_unsafe s) = 0"
    and "c_fatal (start_unsafe s) = c_fatal s" and "c_world (start_unsafe s) = c_world s"
    and "c_unsafe (start_unsafe s) = c_unsafe s"
proof -
  have "resumed cf X d l (start_unsafe s)"
    using assms by (cases "c_unsafe s") (auto simp: start_unsafe_def Let_def intro!: resumed_cong [OF assms])
  then show "resumed cf X d l (Guard False (start_unsafe s))"
    by (rule resumed_frame [OF like_frame [OF like_atom(3)]])
qed (simp_all add: start_unsafe_def Let_def)

text \<open>Once the document holds what memory holds, the invariants of a running adapter hold.\<close>

definition ready :: "ctl_config \<Rightarrow> 'h ctl_libs \<Rightarrow> contents option \<Rightarrow> bool \<Rightarrow> ctl \<Rightarrow> bool" where
  "ready cf X d l s \<longleftrightarrow> cinv cf X {} {} s \<and> budget_ok cf (cores (c_generations s)) \<and> phase_ok s \<and>
     g_active (c_eng s) = 0 \<and> origin d l s"

lemma phase_ok_keys: "phase_ok s \<Longrightarrow> c_activeNew s = 0 \<or> c_activeNew s \<in> set (keys (c_generations s))"
  using gen_of_keys [of s "c_activeNew s"] by (auto simp: phase_ok_def simp del: set_map)

lemma resumed_ready:
  assumes s: "resumed cf X d l s" and p: "persisted cf s"
  shows "ready cf X d l s"
proof -
  have b: "booting cf X s" using s by (simp add: resumed_def)
  have "disk_inv cf {} (cores (c_generations s)) (c_world s)"
    using b p saved_gens_kept [of _ _ "c_generations s"] by (auto simp: persisted_def disk_inv_def booting_def)
  moreover have "\<not> cf_NoNFT cf \<longrightarrow> w_table (c_world s) = None" "table_ids None = {}"
    using b by (auto simp: booting_def idle_table_def table_ids_def)
  ultimately have "cinv cf X {} {} s"
    using b phase_ok_keys [of s] by (simp add: cinv_def booting_def)
  then show ?thesis using s b by (simp add: ready_def resumed_def booting_def)
qed

lemma ready_frame: "frame_step cf s s' \<Longrightarrow> ready cf X d l s \<Longrightarrow> ready cf X d l s'"
  using inv_frame [of cf s s' X "{}" "{}"] frame_step_fields [of cf s s'] phase_ok_frame [of cf s s']
    origin_cores [of d l s s']
  by (simp add: ready_def)


section \<open>From a durable state to an installed program\<close>

text \<open>What a successful start ends in.\<close>

definition started :: "ctl_config \<Rightarrow> 'h ctl_libs \<Rightarrow> contents option \<Rightarrow> bool \<Rightarrow> err option \<Rightarrow> ctl \<Rightarrow> bool" where
  "started cf X d l e s \<longleftrightarrow> e = None \<longrightarrow> settled cf X s \<and> origin d l s"

lemma started_err [simp]: "started cf X d l (Some e) s"
  by (simp add: started_def)

lemma ready_mem:
  assumes "ready cf X d l s" and "mem s' = mem s" and "cinv cf X {} {} s'"
  shows "ready cf X d l s'"
  using assms origin_cores [of d l s s'] by (auto simp: ready_def mem_fields phase_ok_def gen_of_def)

lemma ready_started:
  assumes s: "ready cf X d l s" and "assigns cf (c_activeNew s) False s"
    and "dna_of eng = dna_of (c_eng s)" and "g_active eng = c_activeNew s"
  shows "started cf X d l None (s\<lparr>c_eng := eng\<rparr>)"
proof -
  have "cinv cf X {} {} (s\<lparr>c_eng := eng\<rparr>)" using s assms(3) by (intro inv_eng) (simp_all add: ready_def)
  moreover have "origin d l (s\<lparr>c_eng := eng\<rparr>)" using s by (auto simp: ready_def origin_def regained_def)
  ultimately show ?thesis
    using s assms by (simp add: started_def settled_def ready_def agrees_alt phase_ok_def assigns_def)
qed

lemma ready_keys:
  "ready cf X d l s \<Longrightarrow> c_activeNew s = 0 \<or> c_activeNew s \<in> set (keys (c_generations s))"
  using phase_ok_keys [of s] by (simp add: ready_def)

lemma tear_down_err: "wp (tear_down cf X e s) (\<lambda>r s'. started cf X d l r s')"
  unfolding tear_down_def by (rule wp_I) (auto simp: errors_Join_def split: prod.splits if_splits)

lemma wp_engine_active:
  assumes s: "ready cf X d l s" and a: "assigns cf (c_activeNew s) False s"
  shows "wp (case reg_Activate (c_activeNew s) (c_eng s) of
      (Some e, eng) \<Rightarrow> tear_down cf X e (s\<lparr>c_eng := eng\<rparr>)
    | (None, eng) \<Rightarrow> (None, s\<lparr>c_eng := eng\<rparr>)) (\<lambda>r s'. started cf X d l r s')"
proof -
  obtain e eng where r: "reg_Activate (c_activeNew s) (c_eng s) = (e, eng)" by fastforce
  have dna: "dna_of eng = dna_of (c_eng s)" using reg_Activate_dna [of "c_activeNew s" "c_eng s"] by (simp add: r)
  show ?thesis
  proof (cases e)
    case None
    then have "g_active eng = c_activeNew s" using r by (auto simp: reg_Activate_def Let_def split: if_splits)
    with None dna show ?thesis by (simp add: r wp_def ready_started [OF s a])
  next
    case (Some x)
    then show ?thesis by (simp add: r tear_down_err)
  qed
qed

lemma cinv_neutral:
  assumes "cinv cf X P T s" and "neutral_step port c (c_world s) w"
  shows "cinv cf X P T (s\<lparr>c_world := w\<rparr>)"
proof -
  have "w_table w = w_table (c_world s)" "w_visible w = w_visible (c_world s)" "w_durable w = w_durable (c_world s)"
    using assms(2) by (simp_all add: neutral_step_def disk_part_def)
  with assms(1) show ?thesis by (simp add: cinv_def disk_inv_def disk_ok_def)
qed

lemma ready_live: "ready cf X d l s \<Longrightarrow> c_activeNew s = 0 \<or> c_activeNew s \<in> gs_ID ` set (liveLocked s)"
  by (auto simp: ready_def dest: live_active)

lemma wp_restoreActive:
  assumes inj: "inj (xl_fp X)" and s: "ready cf X d l s"
  shows "wp (restoreActiveAfterRestartLocked cf X s) (\<lambda>r s'. started cf X d l r s')"
  unfolding restoreActiveAfterRestartLocked_def Let_def programLocked_def
proof (rule wp_if, rule wp_pair, simp)
  have i: "cinv cf X {} {} s" using s by (simp add: ready_def)
  let ?gens = "liveLocked s"
  show "wp (case programModeLocked cf X ?gens 0 True True s of
      (Some e, s) \<Rightarrow> (Some (Wrap ''install restart neutral boundary'' [e]), s)
    | (None, s') \<Rightarrow>
      (case neutralizeConnections cf s' of
        ((_, Some e), s) \<Rightarrow> (Some (Wrap ''neutralize conntracks during active restart'' [e]), s)
      | ((_, None), s') \<Rightarrow>
      (case programModeLocked cf X ?gens (c_activeNew s) False False s' of
        (Some e, s) \<Rightarrow> (Some (Wrap ''restore restart active assignment'' [e]), s)
      | (None, s') \<Rightarrow>
      (case reg_Activate (c_activeNew s) (c_eng s') of
        (Some e, eng) \<Rightarrow> tear_down cf X e (s'\<lparr>c_eng := eng\<rparr>)
      | (None, eng) \<Rightarrow> (None, s'\<lparr>c_eng := eng\<rparr>))))) (\<lambda>r s'. started cf X d l r s')"
  proof (rule wp_prod, rule wp_program [OF inj i live_remembered [OF i] disjI1 [OF refl]], rule wp_option)
    fix e :: "err option" and t
    assume t: "mem t = mem s" "cinv cf X {} {} t"
    show "wp (case neutralizeConnections cf t of
        ((_, Some e), s) \<Rightarrow> (Some (Wrap ''neutralize conntracks during active restart'' [e]), s)
      | ((_, None), s') \<Rightarrow>
      (case programModeLocked cf X ?gens (c_activeNew s) False False s' of
        (Some e, s) \<Rightarrow> (Some (Wrap ''restore restart active assignment'' [e]), s)
      | (None, s') \<Rightarrow>
      (case reg_Activate (c_activeNew s) (c_eng s') of
        (Some e, eng) \<Rightarrow> tear_down cf X e (s'\<lparr>c_eng := eng\<rparr>)
      | (None, eng) \<Rightarrow> (None, s'\<lparr>c_eng := eng\<rparr>)))) (\<lambda>r s'. started cf X d l r s')"
    proof (rule wp_prod, rule wp_neutralizeConnections, rule wp_tuple, rule wp_option)
      fix r w
      assume n: "neutral_step (nf_Port (cf_NFT cf)) (snd r = None) (c_world t) w"
      let ?u = "t\<lparr>c_world := w\<rparr>"
      have u: "cinv cf X {} {} ?u" "mem ?u = mem s" using cinv_neutral [OF t(2) n] t(1) by (simp_all add: mem_def)
      have ids: "remembered ?gens ?u"
        using live_remembered [OF i] u(2) by (simp add: mem_fields remembered_def)
      show "wp (case programModeLocked cf X ?gens (c_activeNew s) False False ?u of
        (Some e, s) \<Rightarrow> (Some (Wrap ''restore restart active assignment'' [e]), s)
      | (None, s') \<Rightarrow>
      (case reg_Activate (c_activeNew s) (c_eng s') of
        (Some e, eng) \<Rightarrow> tear_down cf X e (s'\<lparr>c_eng := eng\<rparr>)
      | (None, eng) \<Rightarrow> (None, s'\<lparr>c_eng := eng\<rparr>))) (\<lambda>r s'. started cf X d l r s')"
      proof (rule wp_prod, rule wp_program [OF inj u(1) ids ready_live [OF s]], rule wp_option)
        fix e :: "err option" and v
        assume v: "mem v = mem ?u" and ok: "e = None \<Longrightarrow> cinv cf X {} {} v \<and> assigns cf (c_activeNew s) False v"
          and "e = None"
        then have "ready cf X d l v" "c_activeNew v = c_activeNew s"
          using ready_mem [OF s, of v] u(2) by (simp_all add: mem_fields)
        with ok \<open>e = None\<close> show "wp (case reg_Activate (c_activeNew s) (c_eng v) of
            (Some e, eng) \<Rightarrow> tear_down cf X e (v\<lparr>c_eng := eng\<rparr>)
          | (None, eng) \<Rightarrow> (None, v\<lparr>c_eng := eng\<rparr>)) (\<lambda>r s'. started cf X d l r s')"
          using wp_engine_active [of cf X d l v] by simp
      qed (intro wp_pair started_err)
    qed (intro wp_pair started_err)
  qed (intro wp_pair started_err)
qed


text \<open>The recovery gate of an unsafe start only reads.\<close>

lemma wp_startup_gate:
  assumes i: "cinv cf X {} {} s0" and f: "frame_step cf s0 s" and Q: "\<And>e s'. frame_step cf s0 s' \<Longrightarrow> Q e s'"
  shows "wp (startup_gate cf X n s) Q"
proof -
  have R: "wp (reconstructAndVerifyLiveEnginesLocked X t) Q'"
    if "frame_step cf s0 t" "\<And>e s'. frame_step cf s0 s' \<Longrightarrow> Q' e s'" for t Q'
    using that reconstruct_invariant [OF inv_frame [OF that(1) i]] by (simp add: wp_def)
  show ?thesis
    unfolding startup_gate_def Let_def
    by (intro wp_rules wp_from [where cf = cf and ?s0.0 = s0] R Q; (assumption | rule f)?)
qed

lemma wp_start_gate:
  assumes i: "cinv cf X {} {} s"
  shows "frame_step cf s (start_gate cf X n b s)"
proof -
  have D: "frame_step cf s (snd (DisarmGuard t))" if "frame_step cf s t" for t
    using frame_atom [OF that] by (simp add: DisarmGuard_def tick_def)
  obtain q t where load: "Load at_persistFatal s = (q, t)" by fastforce
  have t: "frame_step cf s t"
    using load like_frame [OF like_atom(1)] by (auto simp: Load_def tick_def Let_def)
  obtain e u where gate: "startup_gate cf X n (Guard True t) = (e, u)" by fastforce
  have "wp (startup_gate cf X n (Guard True t)) (\<lambda>_ u. frame_step cf s u)"
    by (intro wp_startup_gate [OF i] frame_like_from t)
  then have u: "frame_step cf s u" by (simp add: gate wp_def)
  show ?thesis
    using t u by (cases q; cases e) (auto simp: start_gate_def load gate intro!: frame_like_from D)
qed

lemma wp_start_program:
  assumes inj: "inj (xl_fp X)" and s: "ready cf X d l s"
  shows "wp (start_program cf X n b c s) (\<lambda>r s'. started cf X d l r s')"
proof -
  have i: "cinv cf X {} {} s" using s by (simp add: ready_def)
  show ?thesis
    unfolding start_program_def Let_def programLocked_def
  proof (rule wp_prod, rule wp_program [OF inj i live_remembered [OF i] ready_live [OF s]], rule wp_option)
    fix e :: "err option" and t
    assume m: "mem t = mem s" and e: "e = None" and ok: "e = None \<Longrightarrow> cinv cf X {} {} t \<and> assigns cf (c_activeNew s) False t"
    have t: "ready cf X d l t" "assigns cf (c_activeNew t) False t" "cinv cf X {} {} t"
      using ready_mem [OF s m] ok e m by (simp_all add: mem_fields)
    let ?u = "start_gate cf X n c t"
    have f: "frame_step cf t ?u" by (rule wp_start_gate [OF t(3)])
    have K: "wp (case e of Some e \<Rightarrow> (Some e, v) | None \<Rightarrow>
         if c_activeNew v \<noteq> 0 then
          (case reg_Activate (c_activeNew v) (c_eng v) of
             (Some e, eng) \<Rightarrow> tear_down cf X e (v\<lparr>c_eng := eng\<rparr>)
           | (None, eng) \<Rightarrow> (None, v\<lparr>c_eng := eng\<rparr>))
        else (None, v\<lparr>c_eng := reg_Deactivate (c_eng v)\<rparr>)) (\<lambda>r s'. started cf X d l r s')"
      if "frame_step cf t v" for e v
    proof -
      have v: "ready cf X d l v" "assigns cf (c_activeNew v) False v"
        using ready_frame [OF that t(1)] assigns_frame [OF that t(2)] frame_step_fields [OF that] by simp_all
      show ?thesis
        by (intro wp_option wp_if wp_engine_active [OF v] wp_pair ready_started [OF v] started_err)
          (simp_all add: reg_Deactivate_def)
    qed
    show "wp (case (if \<not> b \<and> c_offloads ?u \<noteq> None then restoreOffloads cf ?u else (None, ?u)) of
        (Some e, s) \<Rightarrow> (Some e, s)
      | (None, s) \<Rightarrow>
         (if c_activeNew s \<noteq> 0 then
            (case reg_Activate (c_activeNew s) (c_eng s) of
               (Some e, eng) \<Rightarrow> tear_down cf X e (s\<lparr>c_eng := eng\<rparr>)
             | (None, eng) \<Rightarrow> (None, s\<lparr>c_eng := eng\<rparr>))
          else (None, s\<lparr>c_eng := reg_Deactivate (c_eng s)\<rparr>))) (\<lambda>r s'. started cf X d l r s')"
    proof (rule wp_prod, rule wp_if, goal_cases)
      case 1
      show ?case by (rule wp_from_steps(10) [OF f]) (rule K)
    next
      case 2
      show ?case by (rule wp_pair) (rule K [OF f])
    qed
  qed (rule tear_down_err)
qed

section \<open>Start\<close>

text \<open>A new process: nothing in memory, and a disk on which the visible state is a possible one.\<close>

definition newborn :: "ctl \<Rightarrow> bool" where
  "newborn s \<longleftrightarrow> c_generations s = [] \<and> c_activeNew s = 0 \<and> g_active (c_eng s) = 0 \<and> disk_ok (c_world s)"

lemma target_removed: "target (program_config cf [] 0 False) = None"
  by (simp add: target_def Idle_def program_config_def managerLocked_def generations_def sel_Empty_def)

lemma wp_removeRules_blank:
  assumes inj: "inj (xl_fp X)" and s: "newborn s"
    and Q: "\<And>e s'. (e = None \<Longrightarrow> blank_ctl cf s') \<Longrightarrow> w_visible (c_world s') = w_visible (c_world s) \<Longrightarrow> Q e s'"
  shows "wp (removeRulesLocked cf X s) Q"
  unfolding removeRulesLocked_def
proof (rule wp_programLocked, rule Q, goal_cases)
  case (1 e w n i)
  then have "\<not> cf_NoNFT cf \<longrightarrow> w_table w = None \<and> w_visible w = w_visible (c_world s) \<and> w_durable w = w_durable (c_world s)"
    using inj by (simp add: table_step_def holds_inj target_removed disk_part_def)
  with 1 s show ?case by (auto simp: blank_ctl_def newborn_def idle_table_def disk_ok_def)
next
  case (2 e w n i)
  then show ?case by (cases "cf_NoNFT cf") (auto simp: table_step_def disk_part_def)
qed

lemma newborn_blank: "newborn s \<Longrightarrow> cf_NoNFT cf \<Longrightarrow> blank_ctl cf s"
  by (simp add: newborn_def blank_ctl_def idle_table_def)

text \<open>The second half, from the durable write on.\<close>

lemma wp_start_installed:
  assumes inj: "inj (xl_fp X)" and s: "resumed cf X d l s"
  shows "wp (case persistLocked cf s of
        (Some e, s) \<Rightarrow> (Some e, s)
      | (None, s) \<Rightarrow>
     (let steering = hasSteeringLocked s
      in case (if steering then ensureOffloadsDown cf X s else (None, s)) of
        (Some e, s) \<Rightarrow> (Some e, s)
      | (None, s) \<Rightarrow>
          if l \<and> c_activeNew s \<noteq> 0 \<and> \<not> c_unsafe s
          then restoreActiveAfterRestartLocked cf X s
          else start_program cf X n steering c s)) (\<lambda>e s'. started cf X d l e s')"
proof (rule wp_prod, rule wp_persist_frame, rule wp_option)
  fix e :: "err option" and t
  assume f: "frame_step cf s t" and p: "e = None \<Longrightarrow> persisted cf t" and e: "e = None"
  have t: "ready cf X d l t" using resumed_ready [OF resumed_frame [OF f s] p [OF e]] .
  have K: "wp (case e of Some e \<Rightarrow> (Some e, u) | None \<Rightarrow>
          if l \<and> c_activeNew u \<noteq> 0 \<and> \<not> c_unsafe u
          then restoreActiveAfterRestartLocked cf X u
          else start_program cf X n b c u) (\<lambda>e s'. started cf X d l e s')" if "frame_step cf t u" for e b u
    using ready_frame [OF that t]
    by (intro wp_option wp_if wp_pair started_err wp_restoreActive wp_start_program inj)
  show "wp (let steering = hasSteeringLocked t
      in case (if steering then ensureOffloadsDown cf X t else (None, t)) of
        (Some e, s) \<Rightarrow> (Some e, s)
      | (None, s) \<Rightarrow>
          if l \<and> c_activeNew s \<noteq> 0 \<and> \<not> c_unsafe s
          then restoreActiveAfterRestartLocked cf X s
          else start_program cf X n steering c s) (\<lambda>e s'. started cf X d l e s')"
    unfolding Let_def
  proof (rule wp_prod, rule wp_if, goal_cases)
    case 1
    show ?case by (rule wp_from_steps(11) [OF frame_step_refl]) (rule K)
  next
    case 2
    show ?case by (rule wp_pair) (rule K [OF frame_step_refl])
  qed
qed (intro wp_pair started_err)

lemma wp_start_loaded:
  assumes inj: "inj (xl_fp X)" and b: "budgets_ok cf" and s: "blank_ctl cf s"
  shows "wp (case start_load cf X s of
        (Inl e, s) \<Rightarrow> (Some e, s)
      | (Inr loaded, s) \<Rightarrow>
     (case start_audit cf loaded s of
        (authoritative, s) \<Rightarrow>
     (case persistLocked cf (Guard False (start_unsafe s)) of
        (Some e, s) \<Rightarrow> (Some e, s)
      | (None, s) \<Rightarrow>
     (let steering = hasSteeringLocked s
      in case (if steering then ensureOffloadsDown cf X s else (None, s)) of
        (Some e, s) \<Rightarrow> (Some e, s)
      | (None, s) \<Rightarrow>
          if loaded \<and> c_activeNew s \<noteq> 0 \<and> \<not> c_unsafe s
          then restoreActiveAfterRestartLocked cf X s
          else start_program cf X n steering authoritative s))))
    (\<lambda>e s'. \<exists>l. started cf X (w_visible (c_world s)) l e s')"
proof (rule wp_prod, rule wp_start_load [OF b s], goal_cases)
  case (1 t l)
  have "origin (w_visible (c_world s)) l t"
    using 1 origin_loaded [of cf "w_visible (c_world s)" t] by (cases l) (simp_all add: origin_def blank_ctl_def)
  with 1 have t: "resumed cf X (w_visible (c_world s)) l t" by (simp add: resumed_def)
  show ?case
    unfolding sum.case
  proof (rule wp_prod, rule wp_mono, rule wp_start_audit [OF t], elim conjE)
    fix c u
    assume "resumed cf X (w_visible (c_world s)) l u"
    from wp_start_installed [OF inj start_unsafe_resumed(1) [OF this]]
    show "wp (case persistLocked cf (Guard False (start_unsafe u)) of
        (Some e, s) \<Rightarrow> (Some e, s)
      | (None, s) \<Rightarrow>
     (let steering = hasSteeringLocked s
      in case (if steering then ensureOffloadsDown cf X s else (None, s)) of
        (Some e, s) \<Rightarrow> (Some e, s)
      | (None, s) \<Rightarrow>
          if l \<and> c_activeNew s \<noteq> 0 \<and> \<not> c_unsafe s
          then restoreActiveAfterRestartLocked cf X s
          else start_program cf X n steering c s))
      (\<lambda>e s'. \<exists>l. started cf X (w_visible (c_world s)) l e s')"
      by (rule wp_mono) blast
  qed
qed (simp add: wp_def)

lemma wp_Start:
  assumes inj: "inj (xl_fp X)" and b: "budgets_ok cf" and s: "newborn s"
  shows "wp (Start cf X s) (\<lambda>e s'. \<exists>l. started cf X (w_visible (c_world s)) l e s')"
proof -
  let ?Q = "\<lambda>e s'. \<exists>l. started cf X (w_visible (c_world s)) l e s'"
  show ?thesis
    unfolding Start_def
  proof (rule wp_prod, rule wp_Load, rule wp_prod, rule wp_Load, rule wp_bool)
    fix a a'
    let ?s = "s\<lparr>c_atom := a, c_atom := a'\<rparr>"
    show "wp (Some (Msg ''adapter integrity fault is latched''), ?s) ?Q" by (intro wp_pair exI) simp
    have ns: "newborn ?s" using s by (simp add: newborn_def)
    show "wp (case (if cf_NoNFT cf then (None, ?s) else removeRulesLocked cf X ?s) of
        (Some e, s) \<Rightarrow> (Some (Wrap ''remove stale steering before reconstruction'' [e]), s)
      | (None, s) \<Rightarrow>
     (case start_load cf X s of
        (Inl e, s) \<Rightarrow> (Some e, s)
      | (Inr loaded, s) \<Rightarrow>
     (case start_audit cf loaded s of
        (authoritative, s) \<Rightarrow>
     (case persistLocked cf (Guard False (start_unsafe s)) of
        (Some e, s) \<Rightarrow> (Some e, s)
      | (None, s) \<Rightarrow>
     (let steering = hasSteeringLocked s
      in case (if steering then ensureOffloadsDown cf X s else (None, s)) of
        (Some e, s) \<Rightarrow> (Some e, s)
      | (None, s) \<Rightarrow>
          if loaded \<and> c_activeNew s \<noteq> 0 \<and> \<not> c_unsafe s
          then restoreActiveAfterRestartLocked cf X s
          else start_program cf X (at_faultEpoch a) steering authoritative s))))) ?Q"
    proof (rule wp_prod, rule wp_if, goal_cases)
      case 1
      show ?case
        using wp_start_loaded [OF inj b newborn_blank [OF ns 1]] by (simp add: wp_pair)
    next
      case 2
      show ?case
      proof (rule wp_removeRules_blank [OF inj ns], rule wp_option)
        fix e :: "err option" and t
        assume "e = None" "e = None \<Longrightarrow> blank_ctl cf t" "w_visible (c_world t) = w_visible (c_world ?s)"
        with wp_start_loaded [OF inj b, of t] show "wp (case start_load cf X t of
            (Inl e, s) \<Rightarrow> (Some e, s)
          | (Inr loaded, s) \<Rightarrow>
         (case start_audit cf loaded s of
            (authoritative, s) \<Rightarrow>
         (case persistLocked cf (Guard False (start_unsafe s)) of
            (Some e, s) \<Rightarrow> (Some e, s)
          | (None, s) \<Rightarrow>
         (let steering = hasSteeringLocked s
          in case (if steering then ensureOffloadsDown cf X s else (None, s)) of
            (Some e, s) \<Rightarrow> (Some e, s)
          | (None, s) \<Rightarrow>
              if loaded \<and> c_activeNew s \<noteq> 0 \<and> \<not> c_unsafe s
              then restoreActiveAfterRestartLocked cf X s
              else start_program cf X (at_faultEpoch a) steering authoritative s)))) ?Q"
          by simp
      qed (intro wp_pair exI, simp)
    qed
  qed
qed

end
