(* ===== verification/Ctl_System.thy ===== *)
theory Ctl_System
  imports Ctl_Boot
begin

text \<open>
  The controller as a system: a process starts, and then sections of code that hold the mutex
  run one after the other in any order, with packets, integrity signals, context cancellations
  and changes of the outside world between them. Operations that release the mutex in the
  middle are two sections.
\<close>

section \<open>Sections\<close>

datatype mutex_section =
    Prepare_s Artifact
  | PrepareDeployment_s Deployment string
  | Verify_s Artifact
  | ActivateForNewConnections_s Artifact
  | ActivateDeployment_s Deployment Deployment
  | ActivateNew_s u32
  | DeactivateForNewConnections_s Identity
  | DeactivateNew_s
  | DeactivateDeployment_s Deployment
  | Rollback_begin_s Artifact
  | Rollback_uncounted_s err
  | Rollback_finish_s Artifact "(u32 \<times> int) list"
  | RollbackGeneration_s u32
  | RollbackDeployment_s Deployment Deployment
  | Drain_begin_s u32
  | Drain_finish_s u32 Identity int
  | Gc_begin_s u32
  | Gc_finish_s u32 Identity int
  | Count_s u32
  | Counts_s
  | Reconcile_s
  | Reconcile_done_s

fun section_step :: "ctl_config \<Rightarrow> 'h ctl_libs \<Rightarrow> mutex_section \<Rightarrow> ctl \<Rightarrow> ctl" where
  "section_step cf X (Prepare_s a) s = snd (ctl_Prepare cf X a s)"
| "section_step cf X (PrepareDeployment_s d dna) s = snd (PrepareDeployment cf X d dna s)"
| "section_step cf X (Verify_s a) s = snd (ctl_Verify cf X a s)"
| "section_step cf X (ActivateForNewConnections_s a) s = snd (ActivateForNewConnections cf X a s)"
| "section_step cf X (ActivateDeployment_s d x) s = snd (ActivateDeployment cf X d x s)"
| "section_step cf X (ActivateNew_s gid) s = snd (ActivateNew cf X gid s)"
| "section_step cf X (DeactivateForNewConnections_s i) s = snd (DeactivateForNewConnections cf X i s)"
| "section_step cf X DeactivateNew_s s = snd (DeactivateNew cf X s)"
| "section_step cf X (DeactivateDeployment_s x) s = snd (DeactivateDeployment cf X x s)"
| "section_step cf X (Rollback_begin_s a) s = snd (rollback_begin cf X a s)"
| "section_step cf X (Rollback_uncounted_s e) s = snd (rollback_uncounted cf X e s)"
| "section_step cf X (Rollback_finish_s a counts) s = snd (rollback_finish cf X a counts s)"
| "section_step cf X (RollbackGeneration_s gid) s = snd (RollbackGeneration cf X gid s)"
| "section_step cf X (RollbackDeployment_s d x) s = snd (RollbackDeployment cf X d x s)"
| "section_step cf X (Drain_begin_s gid) s = snd (drain_begin gid s)"
| "section_step cf X (Drain_finish_s gid i n) s = snd (drain_finish cf gid i n s)"
| "section_step cf X (Gc_begin_s gid) s = snd (gc_begin gid s)"
| "section_step cf X (Gc_finish_s gid i n) s = snd (gc_finish cf X gid i n s)"
| "section_step cf X (Count_s gid) s = snd (connectionCount cf X gid s)"
| "section_step cf X Counts_s s = snd (connectionCounts cf s)"
| "section_step cf X Reconcile_s s = reconcile_body cf X s"
| "section_step cf X Reconcile_done_s s = reconcile_done s"

text \<open>What happens outside the mutex.\<close>

inductive outside_step :: "'h ctl_libs \<Rightarrow> ctl \<Rightarrow> ctl \<Rightarrow> bool" for X where
  signals: "outside_step X s (tick (s\<lparr>c_atom := (c_atom s)\<lparr>at_sched := sched\<rparr>\<rparr>))"
| schedule: "outside_step X s (s\<lparr>c_atom := (c_atom s)\<lparr>at_sched := sched\<rparr>\<rparr>)"
| packet: "outside_step X s (s\<lparr>c_eng := snd (ProcessGeneration (xl_gen X) gid raw dir (c_eng s))\<rparr>)"
| world: "w_table w = w_table (c_world s) \<Longrightarrow> disk_part w = disk_part (c_world s) \<Longrightarrow>
    outside_step X s (s\<lparr>c_world := w\<rparr>)"

inductive reachable :: "ctl_config \<Rightarrow> 'h ctl_libs \<Rightarrow> ctl \<Rightarrow> bool" for cf X where
  start: "newborn s \<Longrightarrow> Start cf X s = (None, s') \<Longrightarrow> reachable cf X s'"
| locked: "reachable cf X s \<Longrightarrow> reachable cf X (section_step cf X q s)"
| outside: "reachable cf X s \<Longrightarrow> outside_step X s s' \<Longrightarrow> reachable cf X s'"


section \<open>The invariant\<close>

text \<open>What the rest of this development assumes of the configuration and the fingerprint.\<close>

definition sound_setup :: "ctl_config \<Rightarrow> 'h ctl_libs \<Rightarrow> bool" where
  "sound_setup cf X \<longleftrightarrow> inj (xl_fp X) \<and> cf_Fatal cf \<and> budgets_ok cf"

lemma outside_settled:
  assumes "outside_step X s s'" and s: "settled cf X s"
  shows "settled cf X s'"
  using assms(1)
proof cases
  case (signals sched)
  then show ?thesis using s by (simp add: tick_settled agrees_atom)
next
  case (schedule sched)
  then show ?thesis using s by (simp add: agrees_atom)
next
  case (packet gid raw dir)
  have "g_active (snd (ProcessGeneration (xl_gen X) gid raw dir (c_eng s))) = g_active (c_eng s)"
    by (auto simp: ProcessGeneration_def split: option.splits prod.splits)
  then show ?thesis unfolding packet by (intro settled_engine [OF s]) simp_all
next
  case (world w)
  then show ?thesis
    using s
    by (simp add: settled_def cinv_def disk_inv_def disk_ok_def disk_part_def agrees_def phase_ok_def)
qed

lemma wp_settled_frame:
  assumes "settled cf X s" and "wp p (\<lambda>e s'. frame_step cf s s')"
  shows "settled cf X (snd p)"
  using assms settled_frame by (simp add: wp_def)

lemma verify_frame: "wp (ctl_Verify cf X a s) (\<lambda>e s'. frame_step cf s s')"
  unfolding ctl_Verify_def
  by (intro wp_lookup wp_rules wp_from [where cf = cf and ?s0.0 = s]; (assumption | rule frame_step_refl)?)

lemma gc_begin_frame: "wp (gc_begin gid s) (\<lambda>e s'. frame_step cf s s')"
  unfolding gc_begin_def
  by (intro wp_rules wp_from [where cf = cf and ?s0.0 = s]; (assumption | rule frame_step_refl)?)

lemma counts_frame:
  "wp (connectionCounts cf s) (\<lambda>e s'. frame_step cf s s')"
  "wp (connectionCount cf X gid s) (\<lambda>e s'. frame_step cf s s')"
  by (intro wp_from [where cf = cf and ?s0.0 = s]; (assumption | rule frame_step_refl)?)+

lemma wp_moved_settled: "wp p (\<lambda>e s'. moved cf X s s') \<Longrightarrow> settled cf X (snd p)"
  by (simp add: wp_def moved_def)

lemma section_settled:
  assumes set_up: "sound_setup cf X" and s: "settled cf X s"
  shows "settled cf X (section_step cf X q s)"
proof -
  have inj: "inj (xl_fp X)" and fatal: "cf_Fatal cf" using set_up by (simp_all add: sound_setup_def)
  note op = inj fatal s
  show ?thesis
  proof (cases q)
    case (Prepare_s a)
    then show ?thesis using ctl_Prepare_prepared [OF s, of a] by (simp add: wp_def prepared_def)
  next
    case (PrepareDeployment_s d dna)
    then show ?thesis using prepare_prepared [OF s, of "dp_Generation d" "dp_Identity d" dna]
      by (simp add: PrepareDeployment_def wp_def prepared_def)
  next
    case (Verify_s a)
    then show ?thesis using wp_settled_frame [OF s verify_frame] by simp
  next
    case (ActivateForNewConnections_s a)
    then show ?thesis using wp_moved_settled [OF ActivateForNewConnections_moved [OF op]] by simp
  next
    case (ActivateDeployment_s d x)
    then show ?thesis using wp_moved_settled [OF ActivateDeployment_moved [OF op]] by simp
  next
    case (ActivateNew_s gid)
    then show ?thesis using wp_moved_settled [OF ActivateNew_moved [OF op]] by simp
  next
    case (DeactivateForNewConnections_s i)
    then show ?thesis using wp_moved_settled [OF DeactivateForNewConnections_moved [OF op]] by simp
  next
    case DeactivateNew_s
    then show ?thesis
      using wp_moved_settled [OF wp_moved_deactivate [OF op frame_step_refl]] by (simp add: DeactivateNew_def)
  next
    case (DeactivateDeployment_s x)
    then show ?thesis using wp_moved_settled [OF DeactivateDeployment_moved [OF op]] by simp
  next
    case (Rollback_begin_s a)
    then show ?thesis using rollback_begin_settled [OF op, of a] by (simp add: wp_def)
  next
    case (Rollback_uncounted_s e)
    then show ?thesis using rollback_uncounted_settled [OF op, of e] by (simp add: wp_def)
  next
    case (Rollback_finish_s a counts)
    then show ?thesis using rollback_finish_settled [OF op, of a counts] by (simp add: wp_def)
  next
    case (RollbackGeneration_s gid)
    then show ?thesis using wp_moved_settled [OF RollbackGeneration_moved [OF op]] by simp
  next
    case (RollbackDeployment_s d x)
    then show ?thesis using wp_moved_settled [OF RollbackDeployment_moved [OF op]] by simp
  next
    case (Drain_begin_s gid)
    then show ?thesis using s by (simp add: drain_begin_def split: option.split)
  next
    case (Drain_finish_s gid i n)
    then show ?thesis using drain_finish_settled [OF s, of gid i n] by (simp add: wp_def)
  next
    case (Gc_begin_s gid)
    then show ?thesis using wp_settled_frame [OF s gc_begin_frame] by simp
  next
    case (Gc_finish_s gid i n)
    then show ?thesis using gc_finish_settled [OF op, of gid i n] by (simp add: wp_def)
  next
    case (Count_s gid)
    then show ?thesis using wp_settled_frame [OF s counts_frame(2)] by simp
  next
    case Counts_s
    then show ?thesis using wp_settled_frame [OF s counts_frame(1)] by simp
  next
    case Reconcile_s
    then show ?thesis by (simp add: reconcile_body_settled op)
  next
    case Reconcile_done_s
    then show ?thesis by (simp add: reconcile_done_settled s)
  qed
qed

lemma reachable_settled:
  assumes "reachable cf X s" and set_up: "sound_setup cf X"
  shows "settled cf X s"
  using assms(1)
proof (induction rule: reachable.induct)
  case (start s s')
  then show ?case
    using wp_Start [of X cf s] set_up by (auto simp: wp_def started_def sound_setup_def)
next
  case (locked s q)
  then show ?case using section_settled [OF set_up] by blast
next
  case (outside s s')
  then show ?case by (blast intro: outside_settled)
qed

end
