(* ===== verification/Ctl_Example.thy ===== *)
theory Ctl_Example
  imports Ctl_System
begin

text \<open>
  A small concrete setup on which the theorems about the controller are instantiated: a strategy
  library that knows one strategy, an adapter with a state file, one flow that nobody owns.
\<close>

text \<open>The size limits compared as integers, so that evaluation does not count to them.\<close>

lemma size_limits [code_unfold]:
  "maxGenerationArtifact < n \<longleftrightarrow> 262144 < int n"
  "MaxArtifactSize < n \<longleftrightarrow> 262144 < int n"
  "int maxGenerationArtifact = 262144"
  by (simp_all add: maxGenerationArtifact_def MaxArtifactSize_def)

definition ex_strategy :: Strategy where
  "ex_strategy = \<lparr>s_Outbound = [Some (Some \<lparr>t_Protocol = ''TCP'', t_Field = ''flags'', t_String = ''[TCP:flags:SA]''\<rparr>)],
     s_Inbound = [], s_Apply = (\<lambda>raw _. Inr [raw])\<rparr>"

definition ex_libs :: "Config ctl_libs" where
  "ex_libs = \<lparr>xl_gen = \<lparr>x_NewStrategy = (\<lambda>_. Inr ex_strategy), x_Validate = (\<lambda>_. None), x_ErrorLayer = (\<lambda>_. None)\<rparr>,
     xl_sha = (\<lambda>_. replicate 32 0), xl_fp = (\<lambda>c. c), xl_listing = (\<lambda>_. []), xl_proc = (\<lambda>_. None),
     xl_size = (\<lambda>_. 0)\<rparr>"

definition ex_config :: ctl_config where
  "ex_config = ctl_defaults
     \<lparr>cf_Mode = ''inject'',
      cf_NFT = \<lparr>nf_Table = ''geneva'', nf_Port = 443, nf_Outbound = no_selector, nf_Inbound = no_selector,
        nf_Generations = [], nf_ActiveGeneration = 0, nf_NeutralizeNew = False, nf_Censor = False,
        nf_OutQueue = 100, nf_InQueue = 101, nf_BypassUID = 0, nf_NFTPath = []\<rparr>,
      cf_Iface = [], cf_NoNFT = False, cf_ObserveInbound = False, cf_StateFile = ''/state.json'',
      cf_Connections = True, cf_IdleAfter = 0, cf_MaxGenerations = 0, cf_MaxScopedGenerations = 0,
      cf_MaxEveryPacketGenerations = 0, cf_Fatal = True, cf_RuntimeVersion = []\<rparr>"

definition ex_flow :: Flow where
  "ex_flow = \<lparr>fl_SourceAddress = [10, 0, 0, 1], fl_DestinationAddress = [10, 0, 0, 2], fl_Protocol = 6,
     fl_SourcePort = 50000, fl_DestinationPort = 443, fl_Mark = 0, fl_Timeout = 100, fl_TCPState = Some 3\<rparr>"

definition ex_world :: world where
  "ex_world = \<lparr>w_script = [], w_table = None, w_flows = [ex_flow], w_nics = (\<lambda>_ _. None),
     w_visible = None, w_durable = [None], w_quarantined = []\<rparr>"

definition ex_artifact :: Artifact where
  "ex_artifact = \<lparr>a_metadata = \<lparr>m_Technique = TechniqueGeneva, m_Revision = ''r1'',
     m_Digest = EncodeToString (replicate 32 0), m_Size = 3, m_AdapterProtocol = Version1,
     m_RequiredRuntimeName = RuntimeNameGeneva, m_RequiredRuntimeVersion = RuntimeVersionGeneva,
     m_SchemaVersion = SchemaVersionV1\<rparr>, a_payload = ''dna''\<rparr>"

definition ex_new :: ctl where
  "ex_new = ctl_New (NewRegistry ''e'') ex_world []"

definition ex_started :: ctl where "ex_started = snd (Start ex_config ex_libs ex_new)"
definition ex_prepared :: ctl where "ex_prepared = snd (ctl_Prepare ex_config ex_libs ex_artifact ex_started)"
definition ex_active :: ctl where
  "ex_active = snd (ActivateForNewConnections ex_config ex_libs ex_artifact ex_prepared)"

text \<open>The active example crashes and starts again on what it left on the disk.\<close>

definition ex_document :: persistedState where
  "ex_document = \<lparr>ps_Version = 2, ps_ActiveNew = 1, ps_Previous = 0, ps_Unsafe = False, ps_Failure = [],
     ps_Offloads = None, ps_Generations = [\<lparr>gs_ID = 1, gs_DNA = ''dna'',
       gs_Digest = replicate 64 (CHR ''0''), gs_Phase = PhaseActive, gs_Scope = empty_scope,
       gs_Identity = \<lparr>i_Technique = ''geneva'', i_Revision = ''r1'', i_Digest = replicate 64 (CHR ''0'')\<rparr>,
       gs_Metadata = a_metadata ex_artifact\<rparr>]\<rparr>"

definition ex_reborn :: ctl where
  "ex_reborn = ctl_New (NewRegistry ''e2'')
     (ex_world\<lparr>w_visible := Some (Doc ex_document), w_durable := [Some (Doc ex_document)]\<rparr>) []"

definition ex_restarted :: ctl where
  "ex_restarted = snd (Start ex_config ex_libs ex_reborn)"

lemma ex_Start: "fst (Start ex_config ex_libs ex_new) = None"
  by code_simp

lemma ex_config_evaluated:
  "\<not> cf_NoNFT ex_config" "cf_StateFile ex_config \<noteq> []" "cf_Connections ex_config" "cf_Fatal ex_config"
  "budgets_ok ex_config" "0 \<le> state_limit ex_config"
  by code_simp+

text \<open>What the prepared and the active state look like, each evaluated once.\<close>

definition ex_prepared_facts :: "ctl \<Rightarrow> bool" where
  "ex_prepared_facts s \<longleftrightarrow> c_activeNew s = 0 \<and> w_flows (c_world s) = [ex_flow] \<and> gen_of s 1 \<noteq> None"

lemma ex_prepared_checked: "ex_prepared_facts ex_prepared"
  by code_simp

lemmas ex_prepared_evaluated = ex_prepared_checked [unfolded ex_prepared_facts_def]

definition ex_active_facts :: "ctl \<Rightarrow> bool" where
  "ex_active_facts s \<longleftrightarrow> c_activeNew s = 1 \<and> \<not> c_fatal s \<and> \<not> c_unsafe s \<and> 1 \<in> table_ids (w_table (c_world s)) \<and>
     w_durable (c_world s) = [Some (Doc ex_document)] \<and> json (snapshot s) = ex_document \<and>
     length (c_generations s) = 1 \<and> gen_of s 1 \<noteq> None \<and> c_offloads s = None \<and>
     map (gs_Phase \<circ> snd) (c_generations s) = [PhaseActive] \<and> w_script (c_world s) = []"

lemma ex_active_checked: "ex_active_facts ex_active"
  by code_simp

lemmas ex_active_evaluated = ex_active_checked [unfolded ex_active_facts_def]

lemma ex_restart_evaluated: "fst (Start ex_config ex_libs ex_reborn) = None" "c_activeNew ex_restarted = 1"
  by code_simp+

end
