(* ===== verification/Ctl_Properties.thy ===== *)
theory Ctl_Properties
  imports Ctl_Example
begin

text \<open>
  What the controller guarantees in every reachable state, whatever the outside calls return,
  wherever packets, signals and cancellations fall, and in whatever order sections run.
\<close>

section \<open>The example is reachable\<close>

lemma ex_setup: "sound_setup ex_config ex_libs"
  using ex_config_evaluated by (simp add: sound_setup_def inj_def ex_libs_def)

lemma ex_new_newborn: "newborn ex_new"
  by (simp add: newborn_def ex_new_def ctl_New_def NewRegistry_def ex_world_def disk_ok_def)

lemma ex_started_reachable: "reachable ex_config ex_libs ex_started"
proof -
  have "Start ex_config ex_libs ex_new = (None, ex_started)"
    using ex_Start by (simp add: ex_started_def prod_eq_iff)
  with ex_new_newborn show ?thesis by (rule reachable.start)
qed

lemma ex_prepared_reachable: "reachable ex_config ex_libs ex_prepared"
  using reachable.locked [OF ex_started_reachable, of "Prepare_s ex_artifact"] by (simp add: ex_prepared_def)

lemma ex_active_reachable: "reachable ex_config ex_libs ex_active"
  using reachable.locked [OF ex_prepared_reachable, of "ActivateForNewConnections_s ex_artifact"]
  by (simp add: ex_active_def)

lemmas ex_reachable = ex_setup ex_active_reachable

section \<open>The table, the registry and the document\<close>

text \<open>What \<open>settled\<close> says of one generation in memory.\<close>

lemma settled_gen:
  assumes "settled cf X s" and "gen_of s gid = Some g"
  shows "gen_ok cf X gid g" and "dna_of (c_eng s) gid = Some (gs_DNA g)"
    and "cf_StateFile cf \<noteq> [] \<Longrightarrow> d \<in> set (w_durable (c_world s)) \<Longrightarrow> kept d g"
proof -
  have i: "cinv cf X {} {} s" using assms(1) by (simp add: settled_def)
  have e: "(gid, core g) \<in> set (cores (c_generations s))" using assms(2) by (intro cores_mem gen_of_mem)
  from i have "\<forall>(j, h)\<in>set (cores (c_generations s)). gen_ok cf X j h" unfolding cinv_def gens_ok_def by blast
  with e show "gen_ok cf X gid g" by fastforce
  from i have "\<forall>(j, h)\<in>set (cores (c_generations s)). dna_of (c_eng s) j = Some (gs_DNA h)"
    unfolding cinv_def by blast
  with e show "dna_of (c_eng s) gid = Some (gs_DNA g)" by fastforce
  assume sf: "cf_StateFile cf \<noteq> []" and d: "d \<in> set (w_durable (c_world s))"
  have "\<forall>d\<in>set (w_durable (c_world s)). \<forall>(j, h)\<in>set (cores (c_generations s)). j \<in> {} \<or> kept d h"
    using i sf unfolding cinv_def disk_inv_def by blast
  with d e show "kept d g" by fastforce
qed

lemma table_id_known:
  assumes "settled cf X s" and "\<not> cf_NoNFT cf" and "gid \<in> table_ids (w_table (c_world s))"
  obtains g where "gen_of s gid = Some g"
proof -
  have "table_ids (w_table (c_world s)) \<subseteq> set (keys (c_generations s)) - {} \<union> {}"
    using assms(1,2) unfolding settled_def cinv_def by blast
  with assms(3) have "gid \<in> set (keys (c_generations s))" by blast
  then have "gen_of s gid \<noteq> None" by (simp only: gen_of_keys not_not)
  with that show thesis by blast
qed



text \<open>Whatever generation the table queues packets for or assigns is in memory under that number,
  and the registry holds an engine for it with exactly its DNA.\<close>

theorem table_has_engines:
  assumes "reachable cf X s" and "sound_setup cf X" and "\<not> cf_NoNFT cf"
    and "gid \<in> table_ids (w_table (c_world s))"
  shows "\<exists>g. gen_of s gid = Some g \<and> dna_of (c_eng s) gid = Some (gs_DNA g) \<and> gs_ID g = gid"
proof -
  have s: "settled cf X s" using assms by (simp add: reachable_settled)
  obtain g where g: "gen_of s gid = Some g" using table_id_known [OF s assms(3,4)] .
  with settled_gen(1,2) [OF s g] show ?thesis by (auto simp: gen_ok_def)
qed

theorem table_has_engines_witness:
  "\<exists>g. gen_of ex_active 1 = Some g \<and> dna_of (c_eng ex_active) 1 = Some (gs_DNA g) \<and> gs_ID g = 1"
  using ex_active_evaluated ex_config_evaluated
  by (intro table_has_engines [OF ex_active_reachable ex_setup]) blast+

text \<open>C3: Between operations the table assigns new connections to exactly the generation the controller
  calls active, or to none; the registry agrees; and that generation's phase is active. The only
  exception is a process whose fatal callback has been called.\<close>

theorem assignment_agrees:
  assumes "reachable cf X s" and "sound_setup cf X"
  shows "g_active (c_eng s) = c_activeNew s \<and>
    (c_fatal s \<or> cf_NoNFT cf \<or> assignment (w_table (c_world s)) = (c_activeNew s, False)) \<and>
    (c_activeNew s = 0 \<or> map_option gs_Phase (gen_of s (c_activeNew s)) = Some PhaseActive)"
  using reachable_settled [OF assms] by (auto simp: settled_def agrees_def phase_ok_def dest: assigned_assignment)

theorem assignment_agrees_witness:
  "g_active (c_eng ex_active) = 1 \<and> assignment (w_table (c_world ex_active)) = (1, False)"
  using assignment_agrees [OF ex_active_reachable ex_setup] ex_active_evaluated ex_config_evaluated by auto

lemma generations_within_budget: "settled cf X s \<Longrightarrow> validateResourceBudgetsLocked cf s = None"
  using filter_cores [of "\<lambda>sc. resourceClass sc = EveryPacket" "c_generations s"]
    filter_cores [of "\<lambda>sc. resourceClass sc \<noteq> EveryPacket" "c_generations s"]
  by (simp add: settled_def validateResourceBudgetsLocked_def budget_ok_def Let_def)



section \<open>Failing and succeeding\<close>


text \<open>The prepared example with an outside world in which the twentieth call fails.\<close>

definition ex_failing :: ctl where
  "ex_failing = ex_prepared\<lparr>c_world := (c_world ex_prepared)\<lparr>w_script := replicate 19 OK @ [Fail]\<rparr>\<rparr>"

lemma ex_failing_reachable: "reachable ex_config ex_libs ex_failing"
proof -
  have "outside_step ex_libs ex_prepared ex_failing"
    unfolding ex_failing_def by (rule outside_step.world) (simp_all add: disk_part_def)
  with ex_prepared_reachable show ?thesis by (rule reachable.outside)
qed


text \<open>C7: An integrity failure leaves nothing assigned: no active generation, no engine for new
  packets, and a table without assignment or the fatal callback called. The generations that
  connections may still be pinned to stay in memory unchanged but for their phase.\<close>

theorem integrity_failure_fails_closed:
  assumes "reachable cf X s" and "sound_setup cf X"
  shows "let s' = integrityFailureLocked cf X cause s in c_activeNew s' = 0 \<and> g_active (c_eng s') = 0 \<and>
    (c_fatal s' \<or> cf_NoNFT cf \<or> assignment (w_table (c_world s')) = (0, False)) \<and>
    cores (c_generations s') = cores (c_generations s)"
proof -
  have "settled cf X s" "inj (xl_fp X)" "cf_Fatal cf"
    using assms(1,2) reachable_settled by (auto simp: sound_setup_def)
  then have "failed_closed cf X s (integrityFailureLocked cf X cause s)"
    by (intro integrityFailure_closed) (simp_all add: settled_def)
  then show ?thesis by (auto simp: failed_closed_def agrees_def Let_def dest: assigned_assignment)
qed

theorem integrity_failure_fails_closed_witness:
  "c_activeNew ex_active = 1 \<and>
   c_activeNew (integrityFailureLocked ex_config ex_libs (Msg ''fault'') ex_active) = 0 \<and>
   cores (c_generations (integrityFailureLocked ex_config ex_libs (Msg ''fault'') ex_active)) =
     cores (c_generations ex_active)"
  using integrity_failure_fails_closed [OF ex_active_reachable ex_setup, of "Msg ''fault''"] ex_active_evaluated
  by (simp add: Let_def)

text \<open>What a successful activation does to the flows.\<close>

definition taken :: "ctl_config \<Rightarrow> ctl \<Rightarrow> ctl \<Rightarrow> bool" where
  "taken cf s s' \<longleftrightarrow>
     (if c_activeNew s = 0 \<and> cf_Connections cf
      then distinct_flows (w_flows (c_world s)) \<longrightarrow>
        w_flows (c_world s') = map (\<lambda>f. if unowned (nf_Port (cf_NFT cf)) f then neutralized f else f) (w_flows (c_world s))
      else w_flows (c_world s') = w_flows (c_world s))"

lemma act_compensate_err: "fst (act_compensate cf X sv b e r s) \<noteq> None"
  by (simp add: act_compensate_def Let_def split: prod.split option.split)

lemma wp_err: "fst p \<noteq> None \<Longrightarrow> wp p (\<lambda>e s'. e = None \<longrightarrow> P s')"
  by (auto simp: wp_def)

lemma wp_programMode_flows:
  assumes "\<And>e s'. w_flows (c_world s') = w_flows (c_world s) \<Longrightarrow> Q e s'"
  shows "wp (programModeLocked cf X gens active neutral verify s) Q"
  by (rule wp_programModeLocked, rule assms) (cases "cf_NoNFT cf"; simp add: table_step_def)

lemma act_program_taken:
  assumes "sv_active sv = c_activeNew s0" and "w_flows (c_world s) = w_flows (c_world s0)"
  shows "wp (act_program cf X sv gid s) (\<lambda>e s'. e = None \<longrightarrow> taken cf s0 s')"
  unfolding act_program_def Let_def programLocked_def
proof (rule wp_prod, rule wp_programMode_flows, rule wp_option)
  fix e :: "err option" and t :: ctl
  assume t: "w_flows (c_world t) = w_flows (c_world s)"
  have N: "wp (if sv_active sv = 0 \<and> cf_Connections cf then neutralizeConnections cf t else ((0, None), t))
      (\<lambda>r u. snd r = None \<longrightarrow> taken cf s0 u)"
  proof (rule wp_if, rule wp_neutralizeConnections)
    fix r w
    assume "neutral_step (nf_Port (cf_NFT cf)) (snd r = None) (c_world t) w" "sv_active sv = 0 \<and> cf_Connections cf"
    then show "snd r = None \<longrightarrow> taken cf s0 (t\<lparr>c_world := w\<rparr>)"
      using t assms by (auto simp: taken_def neutral_step_def)
  qed (intro wp_pair, use t assms in \<open>auto simp: taken_def\<close>)
  show "wp (case (if sv_active sv = 0 \<and> cf_Connections cf then neutralizeConnections cf t else ((0, None), t)) of
       ((_, Some e), s) \<Rightarrow> act_compensate cf X sv False e (Wrap ''neutralize pre-activation conntracks'' [e]) s
     | ((_, None), s') \<Rightarrow>
         (case programModeLocked cf X (liveLocked s) gid False False s' of
           (Some e, s) \<Rightarrow> act_compensate cf X sv True e e s
         | (None, s) \<Rightarrow>
         (case reg_Activate gid (c_eng s) of
           (Some e, eng) \<Rightarrow> (Some e, integrityFailureLocked cf X e (s\<lparr>c_eng := eng\<rparr>))
         | (None, eng) \<Rightarrow> (None, s\<lparr>c_eng := eng\<rparr>)))) (\<lambda>e s'. e = None \<longrightarrow> taken cf s0 s')"
  proof (rule wp_prod, rule wp_mono [OF N], rule wp_tuple, rule wp_option)
    fix r u
    assume "snd r = None \<longrightarrow> taken cf s0 u" "snd r = None"
    then have u: "taken cf s0 u" by simp
    show "wp (case programModeLocked cf X (liveLocked s) gid False False u of
           (Some e, s) \<Rightarrow> act_compensate cf X sv True e e s
         | (None, s) \<Rightarrow>
         (case reg_Activate gid (c_eng s) of
           (Some e, eng) \<Rightarrow> (Some e, integrityFailureLocked cf X e (s\<lparr>c_eng := eng\<rparr>))
         | (None, eng) \<Rightarrow> (None, s\<lparr>c_eng := eng\<rparr>))) (\<lambda>e s'. e = None \<longrightarrow> taken cf s0 s')"
    proof (rule wp_prod, rule wp_programMode_flows, rule wp_option)
      fix e :: "err option" and v :: ctl
      assume "w_flows (c_world v) = w_flows (c_world u)"
      with u have "taken cf s0 (v\<lparr>c_eng := g\<rparr>)" for g by (simp add: taken_def)
      then show "wp (case reg_Activate gid (c_eng v) of
           (Some e, eng) \<Rightarrow> (Some e, integrityFailureLocked cf X e (v\<lparr>c_eng := eng\<rparr>))
         | (None, eng) \<Rightarrow> (None, v\<lparr>c_eng := eng\<rparr>)) (\<lambda>e s'. e = None \<longrightarrow> taken cf s0 s')"
        by (auto simp: wp_def split: prod.split option.split)
    qed (rule wp_err [OF act_compensate_err])
  qed (rule wp_err [OF act_compensate_err])
qed (rule wp_err [OF act_compensate_err])

lemma taken_frame: "frame_step cf s s' \<Longrightarrow> taken cf s0 s \<Longrightarrow> taken cf s0 s'"
  using frame_step_fields [of cf s s'] by (auto simp: taken_def)

lemma activate_taken: "wp (activateLocked cf X gid False s) (\<lambda>e s'. e = None \<longrightarrow> taken cf s s')"
  unfolding activateLocked_def if_False
proof (rule wp_option, rule wp_err, simp, rule wp_if, rule wp_err, simp, rule wp_prod, rule wp_act_save, unfold prod.case option.case)
  fix tgt a and sv :: saved
  assume sv: "sv_active sv = c_activeNew s"
  let ?t = "act_intend sv gid (s\<lparr>c_atom := a\<rparr>)"
  show "wp (case persistLocked cf ?t of
        (Some e, s) \<Rightarrow> (Some e, restoreState sv s)
      | (None, s) \<Rightarrow>
     (case act_offloads cf X sv s of
        (Some e, s) \<Rightarrow> (Some e, s)
      | (None, s) \<Rightarrow>
     (case act_program cf X sv gid s of
        (Some e, s) \<Rightarrow> (Some e, s)
      | (None, s) \<Rightarrow> (None, s)))) (\<lambda>e s'. e = None \<longrightarrow> taken cf s s')"
  proof (rule wp_prod, rule wp_persist_frame, rule wp_option)
    fix e :: "err option" and u
    assume u: "frame_step cf ?t u"
    have O: "wp (act_offloads cf X sv u) (\<lambda>e v. e = None \<longrightarrow> frame_step cf u v)"
      unfolding act_offloads_def Let_def
      by (rule wp_prod, rule wp_ensureOffloadsDown, rule wp_option)
        (auto simp: wp_def split: prod.split option.split)
    show "wp (case act_offloads cf X sv u of
        (Some e, s) \<Rightarrow> (Some e, s)
      | (None, s) \<Rightarrow>
     (case act_program cf X sv gid s of
        (Some e, s) \<Rightarrow> (Some e, s)
      | (None, s) \<Rightarrow> (None, s))) (\<lambda>e s'. e = None \<longrightarrow> taken cf s s')"
    proof (rule wp_prod, rule wp_mono [OF O], rule wp_option)
      fix e :: "err option" and v
      assume "e = None \<longrightarrow> frame_step cf u v" "e = None"
      then have "frame_step cf ?t v" using u frame_step_trans by blast
      then have "w_flows (c_world v) = w_flows (c_world s)"
        using frame_step_fields [of cf ?t v] by (simp add: act_intend_mem)
      from act_program_taken [OF sv this, of cf X gid] show "wp (case act_program cf X sv gid v of
          (Some e, s) \<Rightarrow> (Some e, s) | (None, s) \<Rightarrow> (None, s)) (\<lambda>e s'. e = None \<longrightarrow> taken cf s s')"
        by (cases "act_program cf X sv gid v"; cases "fst (act_program cf X sv gid v)") (auto simp: wp_def)
    qed (rule wp_err, simp)
  qed (rule wp_err, simp)
qed



section \<open>Restarting\<close>

text \<open>A process that starts on a disk a crash of \<open>s\<close> may leave.\<close>

definition restarted :: "ctl_config \<Rightarrow> 'h ctl_libs \<Rightarrow> ctl \<Rightarrow> ctl \<Rightarrow> ctl \<Rightarrow> bool" where
  "restarted cf X s s0 s' \<longleftrightarrow> newborn s0 \<and> w_visible (c_world s0) \<in> set (w_durable (c_world s)) \<and>
     Start cf X s0 = (None, s')"

lemma regained_gen:
  assumes "regained ps s'" and "saved \<in> set (ps_Generations ps)" and "distinct (keys (c_generations s'))"
  shows "\<exists>g. gen_of s' (gs_ID saved) = Some g \<and> bare g = bare saved"
proof -
  have "\<exists>e\<in>set m. fst e = gs_ID saved \<and> bare (snd e) = bare saved"
    if "list_all2 (\<lambda>saved e. fst e = gs_ID saved \<and> bare (snd e) = bare saved) l m" "saved \<in> set l" for l and m :: "(u32 \<times> generationState) list"
    using that by (induction rule: list_all2_induct) auto
  from this [OF assms(1) [unfolded regained_def] assms(2)] obtain g where
    g: "(gs_ID saved, g) \<in> set (c_generations s')" "bare g = bare saved" by (auto simp: cores_def)
  with assms(3) show ?thesis by (auto simp: gen_of_def)
qed

lemma restart_origin:
  assumes "restarted cf X s s0 s'" and "sound_setup cf X"
  shows "settled cf X s' \<and> (\<exists>l. origin (w_visible (c_world s0)) l s')"
  using assms wp_Start [of X cf s0] by (auto simp: restarted_def sound_setup_def wp_def started_def)

text \<open>C2: Starting again after a crash, whichever of the possible contents of the state file it left,
  either brings back every generation of the adapter that crashed, under its number and with its
  DNA, digest, identity and scope, or starts with none at all; and it activates nothing but the
  generation the document calls active.\<close>

theorem restart_keeps_generations:
  assumes "reachable cf X s" and "sound_setup cf X" and "cf_StateFile cf \<noteq> []" and "restarted cf X s s0 s'"
  shows "(c_generations s' = [] \<and> c_activeNew s' = 0) \<or>
    (\<exists>ps. w_visible (c_world s0) = Some (Doc ps) \<and> (c_activeNew s' = 0 \<or> c_activeNew s' = ps_ActiveNew ps) \<and>
      (\<forall>gid g. gen_of s gid = Some g \<longrightarrow> map_option core (gen_of s' gid) = Some (core g)))"
proof -
  have s: "settled cf X s" using assms(1,2) by (rule reachable_settled)
  obtain l where l: "origin (w_visible (c_world s0)) l s'" and s': "settled cf X s'"
    using restart_origin [OF assms(4,2)] by blast
  show ?thesis
  proof (cases l)
    case False
    with l show ?thesis by (simp add: origin_def)
  next
    case True
    with l obtain ps where ps: "w_visible (c_world s0) = Some (Doc ps)" "regained ps s'"
        "c_activeNew s' = 0 \<or> c_activeNew s' = ps_ActiveNew ps" by (auto simp: origin_def)
    have "map_option core (gen_of s' gid) = Some (core g)" if g: "gen_of s gid = Some g" for gid g
    proof -
      have "kept (Some (Doc ps)) g"
        using settled_gen(3) [OF s g assms(3)] assms(4) ps(1) by (simp add: restarted_def)
      then obtain saved where sv: "saved \<in> set (ps_Generations ps)" "bare g = bare saved" by (auto simp: kept_def)
      obtain h where h: "gen_of s' (gs_ID saved) = Some h" "bare h = bare saved"
        using regained_gen [OF ps(2) sv(1) settled_keys(1) [OF s']] by blast
      have ok: "gen_ok cf X gid g" by (rule settled_gen(1) [OF s g])
      with sv(2) have id_eq: "gs_ID saved = gid" by (simp add: bare_eq gen_ok_def)
      have "gen_ok cf X gid h" using settled_gen(1) [OF s' h(1)] id_eq by simp
      with ok sv(2) h(2) have "gs_Scope h = gs_Scope g" by (auto simp: gen_ok_def bare_eq)
      with sv(2) h(2) have "core h = core g" by (cases h; cases g) (simp add: bare_eq core_def)
      with h(1) id_eq show ?thesis by simp
    qed
    with ps show ?thesis by blast
  qed
qed

theorem restart_keeps_generations_witness:
  "c_activeNew ex_restarted = 1 \<and> (\<exists>g. gen_of ex_active 1 = Some g \<and>
     map_option core (gen_of ex_restarted 1) = Some (core g))"
proof -
  have "Start ex_config ex_libs ex_reborn = (None, ex_restarted)"
    using ex_restart_evaluated by (simp add: ex_restarted_def prod_eq_iff)
  then have "restarted ex_config ex_libs ex_active ex_reborn ex_restarted"
    using ex_active_evaluated
    by (simp add: restarted_def newborn_def ex_reborn_def ctl_New_def NewRegistry_def disk_ok_def)
  then show ?thesis
    using restart_keeps_generations [OF ex_active_reachable ex_setup, of ex_reborn ex_restarted]
      ex_restart_evaluated ex_active_evaluated ex_config_evaluated by auto
qed

end
