(* ===== verification/Ctl_Roundtrip.thy ===== *)
theory Ctl_Roundtrip
  imports Ctl_Properties
begin

text \<open>
  The durable document read back: what \<open>persistLocked\<close> writes in a reachable state,
  \<open>loadLocked\<close> accepts, and memory comes back as it was.
\<close>

section \<open>One generation\<close>

definition strip :: "generationState \<Rightarrow> generationState" where
  "strip g = g\<lparr>gs_Scope := empty_scope\<rparr>"

lemma strip_fields [simp]:
  "gs_ID (strip g) = gs_ID g" "gs_DNA (strip g) = gs_DNA g" "gs_Digest (strip g) = gs_Digest g"
  "gs_Phase (strip g) = gs_Phase g" "gs_Identity (strip g) = gs_Identity g" "gs_Metadata (strip g) = gs_Metadata g"
  by (simp_all add: strip_def)

definition known_phase :: "Phase \<Rightarrow> bool" where
  "known_phase p \<longleftrightarrow> p \<in> {PhasePrepared, PhaseActive, PhaseDraining, PhaseDrained}"

text \<open>SHA-256 returns 32 bytes.\<close>

definition sha_length :: "'h ctl_libs \<Rightarrow> bool" where
  "sha_length X \<longleftrightarrow> (\<forall>x. length (xl_sha X x) = 32)"

lemma TrimSpace_Nil: "TrimSpace [] = []"
  by (simp add: TrimSpace_def trim_left.simps trim_right.simps)

lemma gen_ok_identity:
  assumes "gen_ok cf X gid g" and "sha_length X"
  shows "validateIdentity (gs_Identity g) (Digest (xl_sha X) (gs_DNA g)) = None"
  using assms
  by (auto simp: gen_ok_def ValidateFor_None Validate_None validateIdentity_def metadata_Identity_def Descriptor_def
      sha_length_def Digest_def Decode_Encode ToLower_Encode TrimSpace_Nil)

lemma checkSaved_accepts:
  assumes g: "gen_ok cf X gid g" and "sha_length X" and "known_phase (gs_Phase g)"
    and "gs_ID g \<notin> gs_ID ` set before" and "gs_Identity g \<notin> gs_Identity ` set before"
  shows "checkSaved cf X before (strip g) = None"
proof -
  obtain m where m: "Mark gid = Inr m" "gs_ID g = gid" using g by (auto simp: gen_ok_def)
  let ?a = "\<lparr>a_metadata = gs_Metadata g, a_payload = gs_DNA g\<rparr>"
  have v: "ValidateFor (xl_sha X) ?a (Descriptor cf) = None" "Validate (xl_sha X) ?a = None"
    using g by (simp_all add: gen_ok_def ValidateFor_None)
  then have "NewArtifact (xl_sha X) (gs_Metadata g) (gs_DNA g) = Inr ?a" by (simp add: NewArtifact_Inr)
  moreover have "gs_Digest g = m_Digest (gs_Metadata g)" "length (gs_DNA g) \<le> MaxArtifactSize"
    "gs_Identity g = a_Identity ?a" "\<exists>p. parseStrategy X (gs_DNA g) = Inr p"
    using g v(2) by (auto simp: gen_ok_def Validate_None a_Identity_def)
  moreover have "verifyArtifact X (gs_Identity g) (gs_DNA g) = None"
    using gen_ok_identity [OF g assms(2)] calculation(3,5) by (auto simp: verifyArtifact_def)
  ultimately show ?thesis
    using m v assms by (auto simp: checkSaved_def known_phase_def)
qed

lemma checkAll_accepts:
  assumes "\<forall>g\<in>set gs. gen_ok cf X (gs_ID g) g \<and> known_phase (gs_Phase g)" and "sha_length X"
    and "distinct (map gs_ID (before @ map strip gs))" and "distinct (map gs_Identity (before @ map strip gs))"
  shows "checkAll cf X before (map strip gs) = None"
  using assms
proof (induction gs arbitrary: before)
  case (Cons g gs)
  have "checkSaved cf X before (strip g) = None"
    using Cons.prems by (intro checkSaved_accepts [of cf X "gs_ID g"]) auto
  moreover have "checkAll cf X (before @ [strip g]) (map strip gs) = None"
    using Cons.prems by (intro Cons.IH) auto
  ultimately show ?case by simp
qed simp

lemma Prepare_new:
  assumes "parseStrategy X dna = Inr parsed" and "gid \<notin> set (keys (g_byID r))"
  shows "\<exists>eng. Prepare (xl_gen X) gid dna r = (None, r\<lparr>g_prepared := g_prepared r + 1, g_byID := AList.update gid eng (g_byID r)\<rparr>)"
proof -
  have "\<exists>eng. engine_New (xl_gen X) dna = Inr eng"
    using assms(1)
    by (auto simp: parseStrategy_def engine_New_def SetStrategy_def Let_def split: sum.splits option.splits)
  moreover have "map_of (g_byID r) gid = None" using assms(2) by (simp add: map_of_eq_None_iff)
  ultimately show ?thesis by (auto simp: Prepare_def Let_def)
qed

lemma prepareArtifact_accepts:
  assumes g: "gen_ok cf X gid g" and sha: "sha_length X" and new: "gid \<notin> set (keys (g_byID (c_eng s)))"
  shows "\<exists>r. set (keys (g_byID r)) = insert gid (set (keys (g_byID (c_eng s)))) \<and>
    prepareArtifactLocked cf X gid (gs_Metadata g) (gs_DNA g) s =
      (None, s\<lparr>c_eng := r, c_generations := AList.update gid (g\<lparr>gs_Phase := PhasePrepared\<rparr>) (c_generations s)\<rparr>)"
proof -
  obtain parsed where p: "parseStrategy X (gs_DNA g) = Inr parsed"
      "gs_Scope g = widen (cf_ObserveInbound cf) (cf_Mode cf) (Of (Some parsed))" using g by (auto simp: gen_ok_def)
  let ?a = "\<lparr>a_metadata = gs_Metadata g, a_payload = gs_DNA g\<rparr>"
  have v: "ValidateFor (xl_sha X) ?a (Descriptor cf) = None" "Validate (xl_sha X) ?a = None"
    using g by (simp_all add: gen_ok_def ValidateFor_None)
  have len: "\<not> maxGenerationArtifact < length (gs_DNA g)"
    using v(2) by (simp add: Validate_None MaxArtifactSize_def maxGenerationArtifact_def)
  obtain eng where P: "Prepare (xl_gen X) gid (gs_DNA g) (c_eng s) =
      (None, (c_eng s)\<lparr>g_prepared := g_prepared (c_eng s) + 1, g_byID := AList.update gid eng (g_byID (c_eng s))\<rparr>)"
    using Prepare_new [OF p(1) new] by blast
  have idn: "a_Identity ?a = gs_Identity g" using g by (simp add: gen_ok_def a_Identity_def)
  have "\<lparr>gs_ID = gid, gs_DNA = gs_DNA g, gs_Digest = Digest (xl_sha X) (gs_DNA g), gs_Phase = PhasePrepared,
      gs_Scope = gs_Scope g, gs_Identity = gs_Identity g, gs_Metadata = gs_Metadata g\<rparr> = g\<lparr>gs_Phase := PhasePrepared\<rparr>"
    using g by (cases g) (auto simp: gen_ok_def)
  moreover have "NewArtifact (xl_sha X) (gs_Metadata g) (gs_DNA g) = Inr ?a" using v(2) by (simp add: NewArtifact_Inr)
  ultimately have "prepareArtifactLocked cf X gid (gs_Metadata g) (gs_DNA g) s =
      (None, s\<lparr>c_eng := (c_eng s)\<lparr>g_prepared := g_prepared (c_eng s) + 1, g_byID := AList.update gid eng (g_byID (c_eng s))\<rparr>,
         c_generations := AList.update gid (g\<lparr>gs_Phase := PhasePrepared\<rparr>) (c_generations s)\<rparr>)"
    using len v(1) p P gen_ok_identity [OF g sha] idn by (simp add: prepareArtifactLocked_def Let_def)
  moreover have "set (keys (AList.update gid eng (g_byID (c_eng s)))) = insert gid (set (keys (g_byID (c_eng s))))"
    by (rule set_keys_update)
  ultimately show ?thesis
    by (intro exI [of _ "(c_eng s)\<lparr>g_prepared := g_prepared (c_eng s) + 1,
      g_byID := AList.update gid eng (g_byID (c_eng s))\<rparr>"] conjI) simp_all
qed

section \<open>The whole document\<close>

lemma set_phase_last:
  assumes "gs_ID g = gid" and "gid \<notin> set (keys gens)" and "c_generations t = AList.update gid (g\<lparr>gs_Phase := p\<rparr>) gens"
  shows "c_generations (set_phase gid (gs_Phase g) t) = gens @ [(gid, g)]"
proof -
  have "(if i = gid then h\<lparr>gs_Phase := gs_Phase g\<rparr> else h) = h" if "(i, h) \<in> set gens" for i h
    using that assms(2) by force
  then show ?thesis
    unfolding set_phase_list assms(3) update_new [OF assms(2)] by (auto intro!: map_idI)
qed

lemma loadLoop_accepts:
  assumes "\<forall>g\<in>set gs. gen_ok cf X (gs_ID g) g" and "sha_length X" and "distinct (map gs_ID gs)"
    and "\<forall>g\<in>set gs. gs_ID g \<notin> set (keys (g_byID (c_eng t))) \<and> gs_ID g \<notin> set (keys (c_generations t))"
  shows "\<exists>r. loadLoop cf X (map strip gs) ids t =
    (Inr (ids @ map gs_ID gs), t\<lparr>c_eng := r, c_generations := c_generations t @ map (\<lambda>g. (gs_ID g, g)) gs\<rparr>)"
  using assms
proof (induction gs arbitrary: ids t)
  case Nil
  show ?case by (intro exI [of _ "c_eng t"]) simp
next
  case (Cons g gs)
  have g: "gen_ok cf X (gs_ID g) g" "gs_ID g \<notin> set (keys (g_byID (c_eng t)))" "gs_ID g \<notin> set (keys (c_generations t))"
    using Cons.prems by auto
  obtain r where r: "set (keys (g_byID r)) = insert (gs_ID g) (set (keys (g_byID (c_eng t))))"
    and p: "prepareArtifactLocked cf X (gs_ID g) (gs_Metadata g) (gs_DNA g) t =
      (None, t\<lparr>c_eng := r, c_generations := AList.update (gs_ID g) (g\<lparr>gs_Phase := PhasePrepared\<rparr>) (c_generations t)\<rparr>)"
    using prepareArtifact_accepts [OF g(1) Cons.prems(2) g(2)] by blast
  let ?u = "t\<lparr>c_eng := r, c_generations := AList.update (gs_ID g) (g\<lparr>gs_Phase := PhasePrepared\<rparr>) (c_generations t)\<rparr>"
  have gens: "c_generations (set_phase (gs_ID g) (gs_Phase g) ?u) = c_generations t @ [(gs_ID g, g)]"
    by (rule set_phase_last [OF refl g(3)]) simp
  then have u: "set_phase (gs_ID g) (gs_Phase g) ?u = t\<lparr>c_eng := r, c_generations := c_generations t @ [(gs_ID g, g)]\<rparr>"
    by (simp add: set_phase_def)
  have "\<exists>r'. loadLoop cf X (map strip gs) (ids @ [gs_ID g]) (t\<lparr>c_eng := r, c_generations := c_generations t @ [(gs_ID g, g)]\<rparr>) =
      (Inr ((ids @ [gs_ID g]) @ map gs_ID gs), (t\<lparr>c_eng := r, c_generations := c_generations t @ [(gs_ID g, g)]\<rparr>)\<lparr>c_eng := r',
        c_generations := c_generations (t\<lparr>c_eng := r, c_generations := c_generations t @ [(gs_ID g, g)]\<rparr>) @ map (\<lambda>g. (gs_ID g, g)) gs\<rparr>)"
  proof (rule Cons.IH)
    show "\<forall>h\<in>set gs. gs_ID h \<notin> set (keys (g_byID (c_eng (t\<lparr>c_eng := r, c_generations := c_generations t @ [(gs_ID g, g)]\<rparr>)))) \<and>
        gs_ID h \<notin> set (keys (c_generations (t\<lparr>c_eng := r, c_generations := c_generations t @ [(gs_ID g, g)]\<rparr>)))"
      using Cons.prems(3,4) r by force
  qed (use Cons.prems in auto)
  then show ?case by (simp add: p u)
qed

lemma sort_key_map_strip: "sort_key gs_ID (map strip gs) = map strip (sort_key gs_ID gs)"
proof (induction gs)
  case (Cons g gs)
  have "insort_key gs_ID (strip g) (map strip hs) = map strip (insort_key gs_ID g hs)" for hs
    by (induction hs) simp_all
  with Cons show ?case by simp
qed simp

text \<open>The generations of the document, in its order and with their scopes.\<close>

definition listed :: "ctl \<Rightarrow> generationState list" where
  "listed s = sort_key gs_ID (map snd (c_generations s))"

lemma saved_listed: "saved_gens (c_generations s) = map strip (listed s)"
  by (simp add: saved_gens_def listed_def sort_key_map_strip [symmetric] o_def case_prod_unfold strip_def)

lemma listed_gens:
  assumes s: "settled cf X s"
  shows "\<forall>g\<in>set (listed s). gen_ok cf X (gs_ID g) g \<and> (gs_ID g, g) \<in> set (c_generations s)"
    and "distinct (map gs_ID (listed s))" and "distinct (map gs_Identity (listed s))"
    and "map_of (map (\<lambda>g. (gs_ID g, g)) (listed s)) = gen_of s"
proof -
  have ids: "gen_ok cf X i g \<and> gs_ID g = i" if "(i, g) \<in> set (c_generations s)" for i g
    using settled_gen(1) [OF s, of i g] that settled_keys(1) [OF s] by (auto simp: gen_of_def gen_ok_def)
  then show ok: "\<forall>g\<in>set (listed s). gen_ok cf X (gs_ID g) g \<and> (gs_ID g, g) \<in> set (c_generations s)"
    by (force simp: listed_def)
  have "map gs_ID (map snd (c_generations s)) = keys (c_generations s)" using ids by auto
  with settled_keys(1) [OF s] have dk: "distinct (map gs_ID (map snd (c_generations s)))" by (simp only:)
  then show d: "distinct (map gs_ID (listed s))"
    unfolding listed_def by (simp add: distinct_map sorted_sort_key del: map_map)
  have "distinct (map (gs_Identity \<circ> snd) (cores (c_generations s)))"
    using s by (simp add: settled_def cinv_def gens_ok_def)
  moreover have "map (gs_Identity \<circ> snd) (cores (c_generations s)) = map gs_Identity (map snd (c_generations s))"
    by (auto simp: cores_def)
  ultimately show "distinct (map gs_Identity (listed s))"
    using dk unfolding listed_def by (simp add: distinct_map del: map_map)
  have same: "set (map (\<lambda>g. (gs_ID g, g)) (listed s)) = set (c_generations s)"
    using ids by (force simp: listed_def)
  have "distinct (map fst (map (\<lambda>g. (gs_ID g, g)) (listed s)))" using d by (simp add: o_def)
  from map_of_inject_set [OF this settled_keys(1) [OF s]] same
  have "map_of (map (\<lambda>g. (gs_ID g, g)) (listed s)) = map_of (c_generations s)" by blast
  then show "map_of (map (\<lambda>g. (gs_ID g, g)) (listed s)) = gen_of s" by (simp only: gen_of_def fun_eq_iff simp_thms)
qed

lemma budget_listed:
  assumes "validateResourceBudgetsLocked cf s = None" and "c_generations t = map (\<lambda>g. (gs_ID g, g)) (listed s)"
  shows "validateResourceBudgetsLocked cf t = None"
proof -
  have "length (filter (\<lambda>(_, g). Q g) (map (\<lambda>g. (gs_ID g, g)) (listed s))) = length (filter (\<lambda>(_, g). Q g) (c_generations s))" for Q
    by (simp add: listed_def filter_map o_def filter_sort case_prod_unfold)
  with assms show ?thesis unfolding validateResourceBudgetsLocked_def by simp
qed

lemma readState_ok:
  fixes w :: world
  assumes "w_script w = []"
  shows "readState w = (Inr (w_visible w), w)"
  using assms by (simp add: readState_def sys_call_def pop_def split: option.split)

lemma checkActive_accepts:
  assumes s: "settled cf X s" and "ps_ActiveNew ps = c_activeNew s" and "ps_Generations ps = map strip (listed s)"
  shows "checkActive ps = None"
proof (cases "c_activeNew s = 0")
  case False
  then obtain g where g: "gen_of s (c_activeNew s) = Some g" "gs_Phase g = PhaseActive"
    using s by (auto simp: settled_def phase_ok_def)
  have "g \<in> set (listed s)" "gs_ID g = c_activeNew s"
    using settled_gen(1) [OF s g(1)] gen_of_mem [OF g(1)] by (force simp: listed_def gen_ok_def)+
  then have "find (\<lambda>g. gs_ID g = c_activeNew s) (map strip (listed s)) \<noteq> None"
    by (auto simp: find_None_iff)
  moreover have "gs_Phase h = PhaseActive" if "find (\<lambda>g. gs_ID g = c_activeNew s) (map strip (listed s)) = Some h" for h
  proof -
    from that obtain h' where h: "h = strip h'" "h' \<in> set (listed s)" "gs_ID h' = c_activeNew s"
      by (auto simp: find_Some_iff)
    with listed_gens(1) [OF s] have "(c_activeNew s, h') \<in> set (c_generations s)" by auto
    with g settled_keys(1) [OF s] h show ?thesis by (auto simp: gen_of_def)
  qed
  ultimately show ?thesis using assms(2,3) by (auto simp: checkActive_def split: option.split)
qed (simp add: checkActive_def assms(2))



end
