(* ===== verification/Ctl_Operations.thy ===== *)
theory Ctl_Operations
  imports Ctl_Roundtrip
begin

text \<open>
  What single operations of the controller do when they succeed, and which ones refuse.
\<close>

section \<open>Numbers\<close>

definition taken_number :: "ctl \<Rightarrow> u32 \<Rightarrow> bool" where
  "taken_number s j \<longleftrightarrow> gen_of s j \<noteq> None \<or> j \<in> set (c_reserved s)"

lemma nextLoop_exhausted:
  fixes c :: u32
  assumes "sorted ids" and "c \<noteq> 0" and "nextLoop ids c = 0" and "c \<le> j"
  shows "j \<in> set ids"
  using assms
proof (induction ids arbitrary: c)
  case (Cons i ids)
  consider "i = c" | "i > c" | "i < c" by (cases i c rule: linorder_cases) auto
  then show ?case
  proof cases
    case 1
    show ?thesis
    proof (cases "j = c")
      case False
      with Cons.prems(4) have less: "c < j" by (simp add: order_le_less)
      have ne: "c + 1 \<noteq> 0"
      proof
        assume "c + 1 = 0"
        then have "c = - 1" by (simp add: eq_neg_iff_add_eq_0)
        with less word_order.extremum [of j] show False by simp
      qed
      have "c + 1 \<le> j" using less word_step(2) [OF ne] by simp
      with Cons.IH [of "c + 1"] Cons.prems 1 ne show ?thesis by simp
    qed (use 1 in simp)
  next
    case 2
    then have "i \<noteq> c" by blast
    with 2 Cons.prems(2,3) show ?thesis by simp
  next
    case 3
    then have "i \<noteq> c" "\<not> i > c" by auto
    with Cons.prems Cons.IH [of c] show ?thesis by simp
  qed
qed simp

text \<open>The number given to a new generation is the least one that is neither in memory nor reserved
  for flows of a lost generation, and is within the range a mark can carry; zero is given only
  when every number in that range is taken.\<close>

theorem next_generation_least:
  "(nextGenerationLocked s \<noteq> 0 \<longrightarrow> nextGenerationLocked s \<le> MaxID \<and> \<not> taken_number s (nextGenerationLocked s) \<and>
      (\<forall>j. j \<noteq> 0 \<and> j < nextGenerationLocked s \<longrightarrow> taken_number s j)) \<and>
   (nextGenerationLocked s = 0 \<longrightarrow> (\<forall>j. j \<noteq> 0 \<and> j \<le> MaxID \<longrightarrow> taken_number s j))"
proof (intro conjI impI allI; (elim conjE)?)
  assume n: "nextGenerationLocked s \<noteq> 0"
  note N = nextGeneration_new [OF n]
  show "nextGenerationLocked s \<le> MaxID" by (rule N)
  show "\<not> taken_number s (nextGenerationLocked s)" using N by (simp add: taken_number_def)
  show "taken_number s j" if "j \<noteq> 0" "j < nextGenerationLocked s" for j
    using N(5) that by (simp add: taken_number_def)
next
  fix j
  assume z: "nextGenerationLocked s = 0" and j: "j \<noteq> 0" "j \<le> MaxID"
  let ?ids = "sort (keys (c_generations s) @ filter (\<lambda>gid. gen_of s gid = None) (c_reserved s))"
  have one: "1 \<le> j" using j(1) by (simp add: word_le_nat_alt Suc_le_eq unat_gt_0)
  have "j \<in> set ?ids"
  proof (cases "nextLoop ?ids 1 = 0")
    case True
    with one show ?thesis by (intro nextLoop_exhausted [of ?ids 1]) simp_all
  next
    case False
    then have "MaxID < nextLoop ?ids 1" using z by (simp add: nextGenerationLocked_def Let_def split: if_splits)
    with j(2) have "j < nextLoop ?ids 1" by simp
    with nextLoop_least [of ?ids 1] False one show ?thesis by (simp del: set_sort)
  qed
  then have "j \<in> set (keys (c_generations s)) \<or> j \<in> set (c_reserved s)" by auto
  then show "taken_number s j" using gen_of_keys [of s j] unfolding taken_number_def by blast
qed

theorem next_generation_least_witness:
  "nextGenerationLocked ex_prepared = 2 \<and> \<not> taken_number ex_prepared 2 \<and> taken_number ex_prepared 1"
proof -
  have "nextGenerationLocked ex_prepared = 2" by code_simp
  then show ?thesis using next_generation_least [of ex_prepared] ex_prepared_evaluated
    by (auto simp: taken_number_def)
qed

section \<open>Preparing\<close>

definition holds_artifact :: "Artifact \<Rightarrow> ctl \<Rightarrow> bool" where
  "holds_artifact a s \<longleftrightarrow>
     (\<exists>gid g. gen_of s gid = Some g \<and> gs_DNA g = a_payload a \<and> gs_Metadata g = a_metadata a)"

lemma holds_artifact_frame: "frame_step cf s s' \<Longrightarrow> holds_artifact a s \<Longrightarrow> holds_artifact a s'"
  using frame_step_fields [of cf s s'] by (simp add: holds_artifact_def gen_of_def)

lemma or_discard_err: "wp p (\<lambda>e s. e = None \<longrightarrow> P s) \<Longrightarrow> wp (or_discard gid w p) (\<lambda>e s. e = None \<longrightarrow> P s)"
  by (cases p) (auto simp: or_discard_def wp_def split: option.splits)

lemma wp_then:
  assumes "wp p (\<lambda>e s. e = None \<longrightarrow> P s)" and "\<And>s. P s \<Longrightarrow> wp (f s) (\<lambda>e s. e = None \<longrightarrow> R s)"
  shows "wp (case p of (Some e, s) \<Rightarrow> (Some e, s) | (None, s) \<Rightarrow> f s) (\<lambda>e s. e = None \<longrightarrow> R s)"
  using assms by (cases p) (auto simp: wp_def split: option.splits)

lemma wp_holds_persist: "holds_artifact a s \<Longrightarrow> wp (persistLocked cf s) (\<lambda>e s. e = None \<longrightarrow> holds_artifact a s)"
  by (intro wp_persist_frame) (blast intro: holds_artifact_frame)

lemma wp_holds_gate: "holds_artifact a s \<Longrightarrow> wp (gate_broken r n s) (\<lambda>e s. e = None \<longrightarrow> holds_artifact a s)"
  by (intro wp_gate_broken) (simp add: holds_artifact_def)

lemma wp_holds_budget:
  "holds_artifact a s \<Longrightarrow> wp (validateResourceBudgetsLocked cf s, s) (\<lambda>e s. e = None \<longrightarrow> holds_artifact a s)"
  by (simp add: wp_def)

lemma prepareArtifact_holds:
  "wp (prepareArtifactLocked cf X gid (a_metadata a) (a_payload a) s) (\<lambda>e s. e = None \<longrightarrow> holds_artifact a s)"
proof (rule wp_I, rule impI)
  fix e s'
  assume "prepareArtifactLocked cf X gid (a_metadata a) (a_payload a) s = (e, s')" "e = None"
  from prepareArtifact_result(3) [OF this] obtain g where
    "c_generations s' = AList.update gid g (c_generations s)" "gs_DNA g = a_payload a" "gs_Metadata g = a_metadata a"
    by blast
  then show "holds_artifact a s'"
    unfolding holds_artifact_def gen_of_def by (intro exI [of _ gid] exI [of _ g]) (simp add: update_conv')
qed

lemma prepareNew_holds: "wp (prepareNew cf X r n a s) (\<lambda>e s. e = None \<longrightarrow> holds_artifact a s)"
proof -
  have err: "wp (Some e, t) (\<lambda>e s. e = None \<longrightarrow> holds_artifact a s)" for e t by (simp add: wp_def)
  have gate: "wp (gate_broken r n s) (\<lambda>e s. e = None \<longrightarrow> True)" by (simp add: wp_def)
  show ?thesis
    unfolding prepareNew_def Let_def
    by (intro wp_if err wp_then [OF gate] wp_then [OF prepareArtifact_holds]
        wp_then [OF or_discard_err [OF wp_holds_gate]] wp_then [OF or_discard_err [OF wp_holds_budget]]
        or_discard_err wp_holds_persist)
qed

lemma ctl_Prepare_holds:
  assumes s: "settled cf X s"
  shows "wp (ctl_Prepare cf X a s) (\<lambda>e s. e = None \<longrightarrow> holds_artifact a s)"
proof -
  have err: "wp (Some e, t) (\<lambda>e s. e = None \<longrightarrow> holds_artifact a s)" for e t by (simp add: wp_def)
  have look: "wp (case generationForIdentityLocked (a_Identity a) t of
           Inl e \<Rightarrow> (Some e, t)
         | Inr (Some (gid, gen)) \<Rightarrow>
             (if gs_DNA gen \<noteq> a_payload a \<or> gs_Metadata gen \<noteq> a_metadata a
              then (Some (Wrap ''identity already mapped'' [Sent ErrLifecycleConflict]), t)
              else gate_broken r n t)
         | Inr None \<Rightarrow> prepareNew cf X r n a t) (\<lambda>e s. e = None \<longrightarrow> holds_artifact a s)"
    if f: "frame_step cf s t" for r n t
  proof (rule wp_lookup, rule err, rule prepareNew_holds, rule wp_if, rule err)
    fix gid g
    assume "generationForIdentityLocked (a_Identity a) t = Inr (Some (gid, g))"
      and "\<not> (gs_DNA g \<noteq> a_payload a \<or> gs_Metadata g \<noteq> a_metadata a)"
    moreover have "distinct (keys (c_generations t))" using settled_keys(1) [OF s] frame_step_fields [OF f] by simp
    ultimately have "holds_artifact a t"
      using generationForIdentity_Some by (auto simp: holds_artifact_def gen_of_def intro!: exI [of _ gid] exI [of _ g])
    then show "wp (gate_broken r n t) (\<lambda>e s. e = None \<longrightarrow> holds_artifact a s)" by (rule wp_holds_gate)
  qed
  show ?thesis
    unfolding ctl_Prepare_def Let_def
    by (intro look err wp_rules wp_from [where cf = cf and ?s0.0 = s] wp_establishRemediationGate [OF s];
        (assumption | rule frame_step_refl)?) simp_all
qed



section \<open>Deactivating, draining, collecting\<close>

lemma wp_deactivate_phase:
  assumes "c_activeNew s \<noteq> 0"
  shows "wp (deactivateLocked cf X s) (\<lambda>e s'. e = None \<longrightarrow>
    c_generations s' = c_generations (set_phase (c_activeNew s) PhaseDraining s) \<and> c_previous s' = c_activeNew s)"
proof -
  let ?t = "(set_phase (c_activeNew s) PhaseDraining s)\<lparr>c_previous := c_activeNew s, c_activeNew := 0\<rparr>"
  show ?thesis
    unfolding deactivateLocked_def Let_def if_not_P [OF assms] programLocked_def
  proof (rule wp_prod, rule wp_persist_frame, rule wp_option)
    fix e :: "err option" and t
    assume f: "frame_step cf ?t t"
    note F = frame_step_fields [OF f]
    show "wp (case programModeLocked cf X (liveLocked t) 0 False True t of
        (None, s) \<Rightarrow> (None, s\<lparr>c_eng := reg_Deactivate (c_eng s)\<rparr>)
      | (Some e, s') \<Rightarrow>
           case programModeLocked cf X
             (liveLocked ((set_phase (c_activeNew s) PhaseActive s')\<lparr>c_previous := c_previous s, c_activeNew := c_activeNew s\<rparr>))
             (c_activeNew s) False False
             ((set_phase (c_activeNew s) PhaseActive s')\<lparr>c_previous := c_previous s, c_activeNew := c_activeNew s\<rparr>) of
             (programErr, s) \<Rightarrow>
               (case persistLocked cf s of
                  (persistErr, s) \<Rightarrow>
                    (case errors_Join [programErr, persistErr] of
                       None \<Rightarrow> (Some e, s)
                     | Some recoveryErr \<Rightarrow>
                         (Some (Wrap [] [e, Wrap ''deactivation compensation failed'' [recoveryErr]]),
                          integrityFailureLocked cf X (Wrap [] [e, Wrap ''deactivation compensation failed'' [recoveryErr]]) s))))
      (\<lambda>e s'. e = None \<longrightarrow> c_generations s' = c_generations (set_phase (c_activeNew s) PhaseDraining s) \<and>
         c_previous s' = c_activeNew s)"
    proof (rule wp_prod, rule wp_programModeLocked, rule wp_option)
      fix e :: "err option" and w n i
      show "wp (None, t\<lparr>c_world := w, c_nft := n, c_steeringInstalled := i\<rparr>
          \<lparr>c_eng := reg_Deactivate (c_eng (t\<lparr>c_world := w, c_nft := n, c_steeringInstalled := i\<rparr>))\<rparr>)
        (\<lambda>e s'. e = None \<longrightarrow> c_generations s' = c_generations (set_phase (c_activeNew s) PhaseDraining s) \<and>
           c_previous s' = c_activeNew s)"
        using F by (simp add: wp_def)
    next
      fix e :: err and w n i
      show "wp (case programModeLocked cf X
             (liveLocked ((set_phase (c_activeNew s) PhaseActive (t\<lparr>c_world := w, c_nft := n, c_steeringInstalled := i\<rparr>))
               \<lparr>c_previous := c_previous s, c_activeNew := c_activeNew s\<rparr>)) (c_activeNew s) False False
             ((set_phase (c_activeNew s) PhaseActive (t\<lparr>c_world := w, c_nft := n, c_steeringInstalled := i\<rparr>))
               \<lparr>c_previous := c_previous s, c_activeNew := c_activeNew s\<rparr>) of
             (programErr, s) \<Rightarrow>
               (case persistLocked cf s of
                  (persistErr, s) \<Rightarrow>
                    (case errors_Join [programErr, persistErr] of
                       None \<Rightarrow> (Some e, s)
                     | Some recoveryErr \<Rightarrow>
                         (Some (Wrap [] [e, Wrap ''deactivation compensation failed'' [recoveryErr]]),
                          integrityFailureLocked cf X (Wrap [] [e, Wrap ''deactivation compensation failed'' [recoveryErr]]) s))))
        (\<lambda>e s'. e = None \<longrightarrow> c_generations s' = c_generations (set_phase (c_activeNew s) PhaseDraining s) \<and>
           c_previous s' = c_activeNew s)"
        by (rule wp_err) (simp split: prod.split option.split)
    qed
  qed (simp add: wp_def)
qed

text \<open>A successful deactivation leaves nothing assigned to new connections in the table and in the
  registry; the generation that was active serves its connections on, in the draining phase, and
  becomes the previous one.\<close>

theorem deactivated:
  assumes "reachable cf X s" and "sound_setup cf X" and "deactivateLocked cf X s = (None, s')"
    and "c_activeNew s \<noteq> 0"
  shows "c_activeNew s' = 0 \<and> g_active (c_eng s') = 0 \<and> c_previous s' = c_activeNew s \<and>
    (c_fatal s' \<or> cf_NoNFT cf \<or> assignment (w_table (c_world s')) = (0, False)) \<and>
    map_option gs_Phase (gen_of s' (c_activeNew s)) = Some PhaseDraining"
proof -
  have s: "settled cf X s" using assms(1,2) by (rule reachable_settled)
  have inj: "inj (xl_fp X)" and fatal: "cf_Fatal cf" using assms(2) by (simp_all add: sound_setup_def)
  have "wp (deactivateLocked cf X s) (\<lambda>e t. e = None \<longrightarrow> moved cf X s t \<and> c_activeNew t = 0)"
    by (rule wp_deactivateLocked [OF inj fatal s]) auto
  with assms(3) have m: "settled cf X s'" "c_activeNew s' = 0" by (simp_all add: wp_def moved_def)
  have ph: "c_generations s' = c_generations (set_phase (c_activeNew s) PhaseDraining s)" "c_previous s' = c_activeNew s"
    using wp_deactivate_phase [OF assms(4), of cf X] assms(3) by (simp_all add: wp_def)
  have "gen_of s' = gen_of (set_phase (c_activeNew s) PhaseDraining s)" using ph(1) by (simp add: gen_of_def fun_eq_iff)
  moreover have "gen_of s (c_activeNew s) \<noteq> None" using s assms(4) by (auto simp: settled_def phase_ok_def)
  ultimately have "map_option gs_Phase (gen_of s' (c_activeNew s)) = Some PhaseDraining"
    by (auto simp: gen_of_set_phase)
  with m ph(2) show ?thesis by (auto simp: settled_def agrees_def dest: assigned_assignment)
qed

theorem deactivated_witness:
  "c_activeNew (snd (deactivateLocked ex_config ex_libs ex_active)) = 0 \<and>
   map_option gs_Phase (gen_of (snd (deactivateLocked ex_config ex_libs ex_active)) 1) = Some PhaseDraining"
proof -
  let ?r = "deactivateLocked ex_config ex_libs ex_active"
  have "fst ?r = None" by code_simp
  then have r: "?r = (None, snd ?r)" by (metis prod.collapse)
  have a: "c_activeNew ex_active = 1" using ex_active_evaluated by blast
  then have n: "c_activeNew ex_active \<noteq> 0" by simp
  show ?thesis using deactivated [OF ex_active_reachable ex_setup r n] a by simp
qed

lemma gc_commit_fields:
  assumes "gc_collect cf X gid s = (None, s')"
  shows "c_generations s' = AList.delete gid (c_generations s)" and "c_activeNew s' = c_activeNew s"
proof -
  have comp: "wp (gc_compensate cf X what gens prev e t) (\<lambda>e s'. e = None \<longrightarrow> P s')" for what gens prev e t and P :: "ctl \<Rightarrow> bool"
    by (rule wp_err) (simp add: gc_compensate_def Let_def split: prod.split option.split)
  have "wp (gc_collect cf X gid s) (\<lambda>e s'. e = None \<longrightarrow>
      c_generations s' = AList.delete gid (c_generations s) \<and> c_activeNew s' = c_activeNew s)"
    unfolding gc_collect_def Let_def
  proof (rule wp_prod, rule wp_programLocked, rule wp_option)
    fix e :: "err option" and w n i
    let ?u = "(gc_delete gid s)\<lparr>c_world := w, c_nft := n, c_steeringInstalled := i\<rparr>"
    obtain r eng where R: "reg_Remove gid (c_eng ?u) = (r, eng)" by fastforce
    have F: "wp (case (if hasSteeringLocked (?u\<lparr>c_eng := eng\<rparr>) then (None, ?u\<lparr>c_eng := eng\<rparr>)
                 else restoreOffloads cf (?u\<lparr>c_eng := eng\<rparr>)) of
               (Some e, s) \<Rightarrow> (Some e, s) | (None, s) \<Rightarrow> persistLocked cf s) (\<lambda>e s'. frame_step cf (?u\<lparr>c_eng := eng\<rparr>) s')"
      by (intro wp_rules wp_from [where cf = cf and ?s0.0 = "?u\<lparr>c_eng := eng\<rparr>"]; (assumption | rule frame_step_refl)?)
    show "wp (case reg_Remove gid (c_eng ?u) of
              (Some e, eng) \<Rightarrow> gc_compensate cf X ''engine-removal compensation failed'' (c_generations s) (c_previous s) e (?u\<lparr>c_eng := eng\<rparr>)
            | (None, eng) \<Rightarrow>
               (case (if hasSteeringLocked (?u\<lparr>c_eng := eng\<rparr>) then (None, ?u\<lparr>c_eng := eng\<rparr>)
                      else restoreOffloads cf (?u\<lparr>c_eng := eng\<rparr>)) of
                    (Some e, s) \<Rightarrow> (Some e, s)
                  | (None, s) \<Rightarrow> persistLocked cf s)) (\<lambda>e s'. e = None \<longrightarrow>
      c_generations s' = AList.delete gid (c_generations s) \<and> c_activeNew s' = c_activeNew s)"
      unfolding R prod.case
    proof (rule wp_option, rule wp_mono [OF F])
      fix e :: "err option" and v
      assume "frame_step cf (?u\<lparr>c_eng := eng\<rparr>) v"
      from frame_step_fields [OF this] show "e = None \<longrightarrow>
          c_generations v = AList.delete gid (c_generations s) \<and> c_activeNew v = c_activeNew s"
        by (simp add: gc_delete_fields)
    qed (rule comp)
  qed (rule comp)
  with assms show "c_generations s' = AList.delete gid (c_generations s)" and "c_activeNew s' = c_activeNew s"
    by (simp_all add: wp_def)
qed



text \<open>The second half of a drain refuses a generation that is active again or whose number now
  belongs to another artifact; otherwise it returns the count, marks the generation drained exactly
  when the count is zero and draining when it is not, and changes no other generation.\<close>

theorem drained:
  assumes "drain_finish cf gid ident n s = (r, s')" and "distinct (keys (c_generations s))"
  shows "case r of
      Inr m \<Rightarrow> m = n \<and> c_activeNew s \<noteq> gid \<and> map_option gs_Identity (gen_of s gid) = Some ident \<and>
        gen_of s' = (gen_of s)(gid := map_option (\<lambda>g. g\<lparr>gs_Phase := if n = 0 then PhaseDrained else PhaseDraining\<rparr>) (gen_of s gid))
    | Inl e \<Rightarrow> s' = s \<or> n = 0"
proof (cases "(case gen_of s gid of None \<Rightarrow> True | Some gen \<Rightarrow> gs_Identity gen \<noteq> ident) \<or> c_activeNew s = gid")
  case True
  with assms(1) show ?thesis by (auto simp: drain_finish_def)
next
  case False
  have ph: "gen_of t = (gen_of s)(gid := map_option (\<lambda>g. g\<lparr>gs_Phase := p\<rparr>) (gen_of s gid))"
    if "c_generations t = c_generations (set_phase gid p s)" for t p
  proof -
    have "gen_of t = gen_of (set_phase gid p s)" using that by (simp add: gen_of_def fun_eq_iff)
    then show ?thesis by (auto simp: gen_of_set_phase fun_eq_iff)
  qed
  show ?thesis
  proof (cases "n = 0")
    case zero: True
    have "wp (persistLocked cf (set_phase gid PhaseDrained s)) (\<lambda>e t. c_generations t = c_generations (set_phase gid PhaseDrained s))"
      by (intro wp_persist_frame) (simp add: frame_step_fields)
    then show ?thesis
      using assms(1) False zero ph by (auto simp: drain_finish_def wp_def split: prod.splits option.splits sum.splits)
  next
    case n: False
    then have "r = Inr n" "s' = set_phase gid PhaseDraining s" using assms(1) False unfolding drain_finish_def by auto
    then show ?thesis using False n ph [of s' PhaseDraining] by (auto split: option.splits)
  qed
qed

theorem drained_witness:
  "gen_of (snd (drain_finish ex_config 1 (a_Identity ex_artifact) 0 ex_prepared)) 1 \<noteq> None \<and>
   map_option gs_Phase (gen_of (snd (drain_finish ex_config 1 (a_Identity ex_artifact) 0 ex_prepared)) 1) = Some PhaseDrained"
proof -
  let ?r = "drain_finish ex_config 1 (a_Identity ex_artifact) 0 ex_prepared"
  have "fst ?r = Inr 0" by code_simp
  then have r: "?r = (Inr 0, snd ?r)" by (metis prod.collapse)
  have d: "distinct (keys (c_generations ex_prepared))"
    using settled_keys(1) [OF reachable_settled [OF ex_prepared_reachable ex_setup]] .
  show ?thesis using drained [OF r d] ex_prepared_evaluated by auto
qed

section \<open>Latched, interrupted, quarantined\<close>

lemma signal_step_latched: "at_faultLatched a \<Longrightarrow> at_faultLatched (signal_step i a)"
  by (simp add: signal_step_def Let_def split: stage.split)

lemma signal_steps_latched: "at_faultLatched a \<Longrightarrow> at_faultLatched (signal_steps a)"
proof -
  have "at_faultLatched a \<Longrightarrow> at_faultLatched (fold signal_step l a)" for l a
    by (induction l arbitrary: a) (simp_all add: signal_step_latched)
  then show "at_faultLatched a \<Longrightarrow> at_faultLatched (signal_steps a)"
    by (simp add: signal_steps_def split: list.split)
qed

text \<open>While the fault latch is set, whatever signals arrive meanwhile, activating by number or by
  deployment, preparing by number, deactivating by identity and garbage collection all return an
  error and change nothing but the atomics the signals write.\<close>

theorem latched_refuses:
  assumes "at_faultLatched (c_atom s)"
  shows "\<forall>r\<in>{ActivateNew cf X gid s, ActivateDeployment cf X d x s, prepare cf X gid ident dna s,
      DeactivateForNewConnections cf X ident s, GarbageCollectGeneration cf X gid s}.
    fst r \<noteq> None \<and> snd r = s\<lparr>c_atom := c_atom (snd r)\<rparr>"
proof -
  have L: "Load at_faultLatched s = (True, tick s)"
    using signal_steps_latched [OF assms] by (simp add: Load_def tick_def Let_def)
  show ?thesis
    by (simp add: ActivateNew_def ActivateDeployment_def prepare_def DeactivateForNewConnections_def
        GarbageCollectGeneration_def gc_begin_def L) (simp add: tick_def)
qed

theorem latched_refuses_witness:
  "at_faultLatched (c_atom (integrityFailureLocked ex_config ex_libs (Msg ''fault'') ex_active)) \<and>
   fst (ActivateNew ex_config ex_libs 1 (integrityFailureLocked ex_config ex_libs (Msg ''fault'') ex_active)) \<noteq> None"
proof -
  have "at_faultLatched (c_atom (integrityFailureLocked ex_config ex_libs (Msg ''fault'') ex_active))" by code_simp
  with latched_refuses [OF this] show ?thesis by blast
qed

text \<open>C11: A lifecycle repair returns success only if no integrity signal has begun since the repair
  started: the fault epoch, which every signal raises first, is still the one it read then.\<close>

theorem repair_saw_no_signal:
  assumes "activateLocked cf X gid True s = (None, s')"
  shows "at_faultEpoch (c_atom s') = sv_repairEpoch (fst (act_save s))"
proof -
  obtain sv t where sv: "act_save s = (sv, t)" by fastforce
  have U: "wp (act_unlatch sv u) (\<lambda>e v. e = None \<longrightarrow> at_faultEpoch (c_atom v) = sv_repairEpoch sv)" for u
    unfolding act_unlatch_def
    by (auto simp: wp_def Load_def Let_def split: prod.splits if_splits)
  have any: "wp p (\<lambda>e s. e = None \<longrightarrow> True)" for p :: "err option \<times> ctl" by (simp add: wp_def)
  let ?P = "\<lambda>e v. e = None \<longrightarrow> at_faultEpoch (c_atom v) = sv_repairEpoch sv"
  have P: "wp (case persistLocked cf u of
        (Some e, s) \<Rightarrow> (Some e, restoreState sv s)
      | (None, s) \<Rightarrow>
     (case act_offloads cf X sv s of
        (Some e, s) \<Rightarrow> (Some e, s)
      | (None, s) \<Rightarrow>
     (case act_program cf X sv gid s of
        (Some e, s) \<Rightarrow> (Some e, s)
      | (None, s) \<Rightarrow> act_unlatch sv s))) ?P" for u
  proof (cases "persistLocked cf u"; cases "fst (persistLocked cf u)")
    fix e v assume "persistLocked cf u = (e, v)" "fst (persistLocked cf u) = None"
    then show ?thesis by (simp add: wp_then [OF any] U)
  qed (auto simp: wp_def)
  have "wp (activateLocked cf X gid True s) ?P"
    unfolding activateLocked_def sv if_True prod.case
    by (intro wp_option wp_if wp_then [OF any] P) (simp_all add: wp_def)
  with assms sv show ?thesis by (simp add: wp_def)
qed

text \<open>The active example after an integrity failure, repaired by activating its generation again.\<close>

definition ex_faulted :: ctl where
  "ex_faulted = integrityFailureLocked ex_config ex_libs (Msg ''fault'') ex_active"

theorem repair_saw_no_signal_witness:
  "at_faultLatched (c_atom ex_faulted) \<and>
   at_faultEpoch (c_atom (snd (activateLocked ex_config ex_libs 1 True ex_faulted))) =
     sv_repairEpoch (fst (act_save ex_faulted))"
proof -
  let ?r = "activateLocked ex_config ex_libs 1 True ex_faulted"
  have l: "at_faultLatched (c_atom ex_faulted)" by code_simp
  have "fst ?r = None" by code_simp
  then have r: "?r = (None, snd ?r)" by (metis prod.collapse)
  show ?thesis using repair_saw_no_signal [OF r] l by simp
qed


text \<open>The example reads a file that does not decode.\<close>

definition ex_garbled :: ctl where
  "ex_garbled = ctl_New (NewRegistry ''e3'') (ex_world\<lparr>w_visible := Some (Bad ''x''), w_durable := [Some (Bad ''x'')]\<rparr>) []"


end
