(* ===== verification/Ctl_Status.thy ===== *)
theory Ctl_Status
  imports Ctl_Properties "HOL-Library.Char_ord" "HOL-Library.List_Lexorder" "HOL-Library.Product_Lexorder"
begin

text \<open>
  The read-only half of \<open>internal/steering/controller.go\<close>: \<open>State\<close>, \<open>DetailedStatus\<close>, \<open>Status\<close> and
  what they are made of. A status report is put together from three sections under the mutex
  with a conntrack dump between them; each section is a definition of its own, so that a
  theorem can put any operations of the adapter between two of them.
\<close>

section \<open>What is reported\<close>

record GenerationStatus =
  ga_ID :: u32
  ga_Digest :: string
  ga_Phase :: Phase
  ga_Connections :: int
  ga_Outbound :: string
  ga_Inbound :: string
  ga_ResourceClass :: ResourceClass
  ga_Identity :: Identity

record State =
  sa_Version :: int
  sa_Steering :: bool
  sa_ActiveNew :: u32
  sa_Previous :: u32
  sa_OffloadsDisabled :: bool
  sa_Unsafe :: bool
  sa_Remediation :: bool
  sa_IntegrityFailure :: string
  sa_Generations :: "GenerationStatus list"

record GenerationActivity =
  ac_Identity :: Identity
  ac_Lineage :: string
  ac_PacketsIn :: u64
  ac_BytesIn :: u64
  ac_Unchanged :: u64
  ac_Dropped :: u64
  ac_Tampered :: u64
  ac_Expanded :: u64
  ac_Errors :: u64

record SteeringStatus =
  ss_Port :: u16
  ss_Active :: bool

record AdapterStatus =
  st_Active :: "Identity option"
  st_Prepared :: "Identity list"
  st_Draining :: "(Identity \<times> u64) list"
  st_Activity :: "GenerationActivity list"
  st_Steering :: "SteeringStatus option"

text \<open>\<open>describe\<close>: \<open>%#02x\<close> prints a byte as \<open>0x\<close> and two digits.\<close>

definition show_flag :: "FlagMatch \<Rightarrow> string" where
  "show_flag m = ''flags&0x'' @ hex_byte (fm_Mask m) @ ''==0x'' @ hex_byte (fm_Value m)"

definition describe :: "Selector \<Rightarrow> string" where
  "describe sel =
     (if sel_Any sel then ''all''
      else if sel_Empty sel then ''none''
      else join_with '','' (map show_flag (sel_Flags sel)))"

section \<open>The lifecycle view\<close>

definition generation_status :: "u32 \<times> generationState \<Rightarrow> GenerationStatus" where
  "generation_status = (\<lambda>(_, g).
     \<lparr>ga_ID = gs_ID g, ga_Digest = gs_Digest g, ga_Phase = gs_Phase g, ga_Connections = 0,
      ga_Outbound = describe (sc_Outbound (gs_Scope g)), ga_Inbound = describe (sc_Inbound (gs_Scope g)),
      ga_ResourceClass = resourceClass (gs_Scope g), ga_Identity = gs_Identity g\<rparr>)"

text \<open>\<open>c.unsafe || c.faultLatched.Load()\<close> reads the latch only when the flag is not set.\<close>

definition stateLocked :: "ctl \<Rightarrow> State \<times> ctl" where
  "stateLocked s =
     (case (if c_unsafe s then (True, s) else Load at_faultLatched s) of
        (bad, s) \<Rightarrow>
          (\<lparr>sa_Version = persistedStateVersion,
            sa_Steering = list_ex (\<lambda>(_, g). serving (gs_Phase g) \<and> \<not> sc_Idle (gs_Scope g)) (c_generations s),
            sa_ActiveNew = c_activeNew s, sa_Previous = c_previous s,
            sa_OffloadsDisabled = (c_offloads s \<noteq> None), sa_Unsafe = bad,
            sa_Remediation = c_remediation s, sa_IntegrityFailure = c_failure s,
            sa_Generations = sort_key ga_ID (map generation_status (c_generations s))\<rparr>, s))"

fun sameGenerations :: "GenerationStatus list \<Rightarrow> GenerationStatus list \<Rightarrow> bool" where
  "sameGenerations (a # as) (b # bs) =
     (ga_ID a = ga_ID b \<and> ga_Identity a = ga_Identity b \<and> ga_Phase a = ga_Phase b \<and> sameGenerations as bs)"
| "sameGenerations as bs = True"

definition sameStatusGenerationView :: "State \<Rightarrow> State \<Rightarrow> bool" where
  "sameStatusGenerationView a b =
     (if sa_ActiveNew a \<noteq> sa_ActiveNew b \<or> length (sa_Generations a) \<noteq> length (sa_Generations b) then False
      else sameGenerations (sa_Generations a) (sa_Generations b))"

section \<open>Connections of the serving generations\<close>

definition changed_status :: err where
  "changed_status = Msg ''adapter generations changed while conntrack status was in progress; retry status''"

definition add_counts :: "(u32 \<times> int) list \<Rightarrow> State \<Rightarrow> State" where
  "add_counts counts out =
     out\<lparr>sa_Generations := map (\<lambda>g.
            if serving (ga_Phase g)
            then g\<lparr>ga_Connections := (case map_of counts (ga_ID g) of Some n \<Rightarrow> n | None \<Rightarrow> 0)\<rparr>
            else g) (sa_Generations out)\<rparr>"

text \<open>The section of \<open>DetailedStatus\<close> after the dump.\<close>

definition detailed_finish :: "State \<Rightarrow> (u32 \<times> int) list \<Rightarrow> ctl \<Rightarrow> State res \<times> ctl" where
  "detailed_finish before counts s =
     (case stateLocked s of
        (out, s) \<Rightarrow>
          (if \<not> sameStatusGenerationView before out then Inl changed_status else Inr (add_counts counts out), s))"

definition DetailedStatus :: "ctl_config \<Rightarrow> ctl \<Rightarrow> State res \<times> ctl" where
  "DetailedStatus cf s =
     (case stateLocked s of
        (before, s) \<Rightarrow>
          (if \<not> cf_Connections cf then (Inl (Msg ''conntrack status counter is not configured''), s)
           else case connectionCounts cf s of
                  (Inl e, s) \<Rightarrow> (Inl e, s)
                | (Inr counts, s) \<Rightarrow> detailed_finish before counts s))"

section \<open>Activity\<close>

definition lineagesLocked :: "ctl \<Rightarrow> (u32 \<times> string) list" where
  "lineagesLocked s =
     List.map_filter (\<lambda>(gid, _). map_option (\<lambda>(lineage, _). (gid, lineage)) (GenerationSnapshot gid (c_eng s)))
       (c_generations s)"

definition generationActivity :: "Identity \<Rightarrow> string \<times> Stats \<Rightarrow> GenerationActivity" where
  "generationActivity ident snap = (case snap of (lineage, st) \<Rightarrow>
     \<lparr>ac_Identity = ident, ac_Lineage = lineage, ac_PacketsIn = st_PacketsIn st, ac_BytesIn = st_BytesIn st,
      ac_Unchanged = st_Unchanged st, ac_Dropped = st_Dropped st, ac_Tampered = st_Tampered st,
      ac_Expanded = st_Expanded st, ac_Errors = st_Errors st\<rparr>)"

definition changed_activity :: err where
  "changed_activity = Msg ''adapter generations changed while activity status was in progress; retry status''"

fun activityLoop ::
  "(u32 \<times> string) list \<Rightarrow> Registry \<Rightarrow> GenerationStatus list \<Rightarrow> GenerationActivity list \<Rightarrow>
     GenerationActivity list res" where
  "activityLoop lineages eng [] activity = Inr activity"
| "activityLoop lineages eng (g # gs) activity =
     (if ga_Phase g \<noteq> PhaseActive \<and> ga_Phase g \<noteq> PhaseDraining then activityLoop lineages eng gs activity
      else case GenerationSnapshot (ga_ID g) eng of
             None \<Rightarrow> activityLoop lineages eng gs activity
           | Some snap \<Rightarrow>
               if map_of lineages (ga_ID g) \<noteq> Some (fst snap) then Inl changed_activity
               else activityLoop lineages eng gs (activity @ [generationActivity (ga_Identity g) snap]))"

definition activityFor ::
  "ctl_config \<Rightarrow> State \<Rightarrow> (u32 \<times> string) list \<Rightarrow> ctl \<Rightarrow> (GenerationActivity list \<times> SteeringStatus) res \<times> ctl" where
  "activityFor cf view lineages s =
     (let steering = \<lparr>ss_Port = nf_Port (cf_NFT cf), ss_Active = c_steeringInstalled s\<rparr>
      in case stateLocked s of
           (now, s) \<Rightarrow>
             (if \<not> sameStatusGenerationView view now then (Inl changed_activity, s)
              else case activityLoop lineages (c_eng s) (sa_Generations view) [] of
                     Inl e \<Rightarrow> (Inl e, s)
                   | Inr activity \<Rightarrow> (Inr (activity, steering), s)))"

section \<open>The report\<close>

definition identity_key :: "Identity \<Rightarrow> string \<times> string \<times> string" where
  "identity_key i = (i_Technique i, i_Revision i, i_Digest i)"

text \<open>
  The loop and the three sorts of \<open>Status\<close>. Two identities of one revision may be reported in
  either order by \<open>sort.Slice\<close>; here they keep the order of their numbers.
\<close>

definition report :: "State \<Rightarrow> GenerationActivity list \<times> SteeringStatus \<Rightarrow> AdapterStatus" where
  "report detailed = (\<lambda>(activity, steering).
     \<lparr>st_Active = (case filter (\<lambda>g. ga_ID g = sa_ActiveNew detailed) (sa_Generations detailed) of
                     [] \<Rightarrow> None | gs \<Rightarrow> Some (ga_Identity (last gs))),
      st_Prepared = sort_key identity_key (map ga_Identity (sa_Generations detailed)),
      st_Draining = sort_key (\<lambda>d. i_Revision (fst d))
        (map (\<lambda>g. (ga_Identity g, of_int (ga_Connections g)))
          (filter (\<lambda>g. ga_Phase g = PhaseDraining) (sa_Generations detailed))),
      st_Activity = sort_key (\<lambda>a. i_Revision (ac_Identity a)) activity,
      st_Steering = Some steering\<rparr>)"

definition status_finish ::
  "ctl_config \<Rightarrow> (u32 \<times> string) list \<Rightarrow> State \<Rightarrow> ctl \<Rightarrow> AdapterStatus res \<times> ctl" where
  "status_finish cf lineages detailed s =
     (case activityFor cf detailed lineages s of
        (Inl e, s) \<Rightarrow> (Inl e, s)
      | (Inr r, s) \<Rightarrow> (Inr (report detailed r), s))"

definition ctl_Status :: "ctl_config \<Rightarrow> ctl \<Rightarrow> AdapterStatus res \<times> ctl" where
  "ctl_Status cf s =
     (let lineages = lineagesLocked s
      in case DetailedStatus cf s of
           (Inl e, s) \<Rightarrow> (Inl e, s)
         | (Inr detailed, s) \<Rightarrow> status_finish cf lineages detailed s)"

section \<open>A report is of one state\<close>

definition view_key :: "GenerationStatus \<Rightarrow> u32 \<times> Identity \<times> Phase" where
  "view_key g = (ga_ID g, ga_Identity g, ga_Phase g)"

lemma sameGenerations_keys:
  "length as = length bs \<Longrightarrow> sameGenerations as bs \<longleftrightarrow> map view_key as = map view_key bs"
  by (induction as bs rule: sameGenerations.induct) (auto simp: view_key_def)

lemma sameView_iff:
  "sameStatusGenerationView a b \<longleftrightarrow>
     sa_ActiveNew a = sa_ActiveNew b \<and> map view_key (sa_Generations a) = map view_key (sa_Generations b)"
  by (auto simp: sameStatusGenerationView_def sameGenerations_keys dest: map_eq_imp_length_eq)

lemma stateLocked_simps [simp]:
  "sa_ActiveNew (fst (stateLocked s)) = c_activeNew s"
  "sa_Generations (fst (stateLocked s)) = sort_key ga_ID (map generation_status (c_generations s))"
  "c_generations (snd (stateLocked s)) = c_generations s"
  "c_activeNew (snd (stateLocked s)) = c_activeNew s"
  "c_eng (snd (stateLocked s)) = c_eng s"
  by (simp_all add: stateLocked_def Load_def Let_def tick_def)

lemma add_counts_keys [simp]: "map view_key (sa_Generations (add_counts counts d)) = map view_key (sa_Generations d)"
  by (simp add: add_counts_def view_key_def comp_def)

text \<open>In a settled state the view lists every generation in memory under its own number.\<close>

lemma settled_distinct: "settled cf X s \<Longrightarrow> distinct (keys (c_generations s))"
  by (simp add: settled_def cinv_def gens_ok_def)

lemma settled_gen_of:
  "settled cf X s \<Longrightarrow> (gid, g) \<in> set (c_generations s) \<longleftrightarrow> gen_of s gid = Some g"
  by (simp add: gen_of_def map_of_eq_Some_iff [OF settled_distinct])

lemma settled_gs_ID: "settled cf X s \<Longrightarrow> gen_of s gid = Some g \<Longrightarrow> gs_ID g = gid"
  using settled_gen(1) [of cf X s gid g] by (simp add: gen_ok_def)

lemma settled_view:
  assumes "settled cf X s"
  shows "view_key ` set (map generation_status (c_generations s)) =
    {(gid, gs_Identity g, gs_Phase g) | gid g. gen_of s gid = Some g}"
  using settled_gs_ID [OF assms]
  by (force simp: generation_status_def view_key_def settled_gen_of [OF assms])

definition activity_of :: "Registry \<Rightarrow> GenerationStatus \<Rightarrow> GenerationActivity list" where
  "activity_of eng g = (if serving (ga_Phase g)
     then case GenerationSnapshot (ga_ID g) eng of None \<Rightarrow> [] | Some snap \<Rightarrow> [generationActivity (ga_Identity g) snap]
     else [])"

lemma option_list_mem: "x \<in> set (case v of None \<Rightarrow> [] | Some y \<Rightarrow> [f y]) \<longleftrightarrow> (\<exists>y. v = Some y \<and> x = f y)"
  by (cases v) auto

lemma in_activity_of:
  "a \<in> set (activity_of eng g) \<longleftrightarrow> serving (ga_Phase g) \<and>
     (\<exists>snap. GenerationSnapshot (ga_ID g) eng = Some snap \<and> a = generationActivity (ga_Identity g) snap)"
  unfolding activity_of_def option_list_mem [symmetric] by (cases "serving (ga_Phase g)") simp_all

lemma activityLoop_Inr:
  "activityLoop lineages eng gs acc = Inr r \<Longrightarrow> r = acc @ concat (map (activity_of eng) gs)"
proof (induction gs arbitrary: acc)
  case (Cons g gs)
  from Cons.prems show ?case
    by (auto simp: activity_of_def serving_def split: if_splits option.splits dest!: Cons.IH)
qed simp

lemma activityLoop_pinned:
  "activityLoop lineages eng gs acc = Inr r \<Longrightarrow> g \<in> set gs \<Longrightarrow> serving (ga_Phase g) \<Longrightarrow>
     GenerationSnapshot (ga_ID g) eng = Some snap \<Longrightarrow> map_of lineages (ga_ID g) = Some (fst snap)"
proof (induction gs arbitrary: acc)
  case (Cons h gs)
  show ?case
  proof (cases "g = h")
    case True
    with Cons.prems show ?thesis by (auto simp: serving_def split: if_splits)
  next
    case False
    with Cons.prems(2) have "g \<in> set gs" by simp
    with Cons.IH Cons.prems(1,3,4) show ?thesis by (auto split: if_splits option.splits)
  qed
qed simp


text \<open>What the parts of a report are made of, once the view is that of the state it ends in.\<close>

lemma view_has:
  assumes "view_key ` set gs = {(gid, gs_Identity g, gs_Phase g) | gid g. gen_of s gid = Some g}"
    and "gen_of s gid = Some g"
  shows "\<exists>h\<in>set gs. view_key h = (gid, gs_Identity g, gs_Phase g)"
proof -
  have "(gid, gs_Identity g, gs_Phase g) \<in> view_key ` set gs" unfolding assms(1) using assms(2) by blast
  then show ?thesis by (metis imageE)
qed

lemma report_parts:
  assumes s: "settled cf X s" and keys: "view_key ` set gs = {(gid, gs_Identity g, gs_Phase g) | gid g. gen_of s gid = Some g}"
  shows "ga_Identity ` {g \<in> set gs. ga_ID g = i} = gs_Identity ` {g. gen_of s i = Some g}"
    and "ga_Identity ` set gs = gs_Identity ` {g. \<exists>gid. gen_of s gid = Some g}"
    and "(\<Union>g\<in>set gs. set (activity_of eng g)) = {generationActivity (gs_Identity g) snap | gid g snap.
      gen_of s gid = Some g \<and> serving (gs_Phase g) \<and> GenerationSnapshot gid eng = Some snap}"
proof -
  note there = view_has [OF keys]
  have from_view: "\<exists>g. gen_of s (ga_ID h) = Some g \<and> gs_Identity g = ga_Identity h \<and> gs_Phase g = ga_Phase h"
    if "h \<in> set gs" for h
  proof -
    have "view_key h \<in> {(gid, gs_Identity g, gs_Phase g) | gid g. gen_of s gid = Some g}"
      unfolding keys [symmetric] using that by (rule imageI)
    then show ?thesis by (auto simp: view_key_def)
  qed
  have ident: "ga_Identity ` {g \<in> set gs. P (ga_ID g)} = gs_Identity ` {g. \<exists>gid. P gid \<and> gen_of s gid = Some g}" for P
  proof (intro equalityI subsetI)
    fix x assume "x \<in> ga_Identity ` {g \<in> set gs. P (ga_ID g)}"
    then obtain h where h: "h \<in> set gs" "P (ga_ID h)" "x = ga_Identity h" by blast
    with from_view [OF h(1)] show "x \<in> gs_Identity ` {g. \<exists>gid. P gid \<and> gen_of s gid = Some g}" by force
  next
    fix x assume "x \<in> gs_Identity ` {g. \<exists>gid. P gid \<and> gen_of s gid = Some g}"
    then obtain gid g where g: "P gid" "gen_of s gid = Some g" "x = gs_Identity g" by blast
    from there [OF g(2)] obtain h where "h \<in> set gs" "view_key h = (gid, gs_Identity g, gs_Phase g)" by blast
    with g show "x \<in> ga_Identity ` {g \<in> set gs. P (ga_ID g)}" by (force simp: view_key_def)
  qed
  show "ga_Identity ` {g \<in> set gs. ga_ID g = i} = gs_Identity ` {g. gen_of s i = Some g}"
    using ident [of "\<lambda>gid. gid = i"] by simp
  show "ga_Identity ` set gs = gs_Identity ` {g. \<exists>gid. gen_of s gid = Some g}"
    using ident [of "\<lambda>_. True"] by simp
  show "(\<Union>g\<in>set gs. set (activity_of eng g)) = {generationActivity (gs_Identity g) snap | gid g snap.
      gen_of s gid = Some g \<and> serving (gs_Phase g) \<and> GenerationSnapshot gid eng = Some snap}"
  proof (intro set_eqI iffI)
    fix a assume "a \<in> (\<Union>g\<in>set gs. set (activity_of eng g))"
    then obtain h where h: "h \<in> set gs" "a \<in> set (activity_of eng h)" by blast
    obtain g where g: "gen_of s (ga_ID h) = Some g" "gs_Identity g = ga_Identity h" "gs_Phase g = ga_Phase h"
      using from_view [OF h(1)] by blast
    from h(2) obtain snap where "serving (gs_Phase g)" "GenerationSnapshot (ga_ID h) eng = Some snap"
        "a = generationActivity (gs_Identity g) snap"
      unfolding g(2,3) in_activity_of by blast
    with g(1) show "a \<in> {generationActivity (gs_Identity g) snap | gid g snap.
      gen_of s gid = Some g \<and> serving (gs_Phase g) \<and> GenerationSnapshot gid eng = Some snap}"
      by blast
  next
    fix a assume "a \<in> {generationActivity (gs_Identity g) snap | gid g snap.
      gen_of s gid = Some g \<and> serving (gs_Phase g) \<and> GenerationSnapshot gid eng = Some snap}"
    then obtain gid g snap where g: "gen_of s gid = Some g" "serving (gs_Phase g)"
        "GenerationSnapshot gid eng = Some snap" "a = generationActivity (gs_Identity g) snap" by blast
    obtain h where "h \<in> set gs" "view_key h = (gid, gs_Identity g, gs_Phase g)" using there [OF g(1)] by blast
    with g have "h \<in> set gs" "a \<in> set (activity_of eng h)" by (simp_all add: in_activity_of view_key_def)
    then show "a \<in> (\<Union>g\<in>set gs. set (activity_of eng g))" by blast
  qed
qed

text \<open>C18: A status report describes the state its last section sees, whatever ran in between: the active
  and the prepared identities are those in memory, and there is exactly one activity per serving
  generation, with that generation's counters, whose lineage is the one pinned at the start.\<close>

theorem status_is_of_one_state:
  assumes "reachable cf X s" and "sound_setup cf X" and "status_finish cf lineages detailed s = (Inr rep, s')"
  shows "st_Active rep = map_option gs_Identity (gen_of s (c_activeNew s)) \<and>
    set (st_Prepared rep) = gs_Identity ` {g. \<exists>gid. gen_of s gid = Some g} \<and>
    set (st_Activity rep) = {generationActivity (gs_Identity g) snap | gid g snap. gen_of s gid = Some g \<and>
      serving (gs_Phase g) \<and> GenerationSnapshot gid (c_eng s) = Some snap \<and> map_of lineages gid = Some (fst snap)}"
proof -
  have s: "settled cf X s" using assms(1,2) by (rule reachable_settled)
  obtain r where a: "activityFor cf detailed lineages s = (Inr r, s')" and rep: "rep = report detailed r"
    using assms(3) by (auto simp: status_finish_def split: sum.splits prod.splits)
  let ?gs = "sa_Generations detailed"
  obtain now t where t: "stateLocked s = (now, t)" by (cases "stateLocked s")
  have now: "now = fst (stateLocked s)" "c_eng t = c_eng s"
    using t stateLocked_simps(5) [of s] by simp_all
  have same: "sameStatusGenerationView detailed now"
    and loop: "activityLoop lineages (c_eng s) ?gs [] = Inr (fst r)"
    using a now(2) by (auto simp: activityFor_def t Let_def split: if_splits sum.splits)
  have active: "sa_ActiveNew detailed = c_activeNew s" using same by (simp add: sameView_iff now(1))
  have "view_key ` set ?gs = view_key ` set (sa_Generations now)"
    using same by (metis sameView_iff list.set_map)
  also have "\<dots> = view_key ` set (map generation_status (c_generations s))" by (simp add: now(1))
  finally have keys: "view_key ` set ?gs = {(gid, gs_Identity g, gs_Phase g) | gid g. gen_of s gid = Some g}"
    unfolding settled_view [OF s] .
  note parts = report_parts [OF s keys]
  have pinned: "gen_of s gid = Some g \<Longrightarrow> serving (gs_Phase g) \<Longrightarrow> GenerationSnapshot gid (c_eng s) = Some snap
      \<Longrightarrow> map_of lineages gid = Some (fst snap)" for gid g snap
  proof -
    assume g: "gen_of s gid = Some g" "serving (gs_Phase g)" "GenerationSnapshot gid (c_eng s) = Some snap"
    obtain h where "h \<in> set ?gs" "view_key h = (gid, gs_Identity g, gs_Phase g)"
      using view_has [OF keys g(1)] by blast
    with activityLoop_pinned [OF loop, of h snap] g show ?thesis by (simp add: view_key_def)
  qed
  have acts: "set (st_Activity rep) = (\<Union>g\<in>set ?gs. set (activity_of (c_eng s) g))"
    unfolding rep report_def using activityLoop_Inr [OF loop] by (simp add: case_prod_beta)
  have prep: "set (st_Prepared rep) = ga_Identity ` set ?gs" unfolding rep report_def by (simp add: case_prod_beta)
  have act: "st_Active rep = map_option gs_Identity (gen_of s (c_activeNew s))"
  proof (cases "filter (\<lambda>g. ga_ID g = c_activeNew s) ?gs")
    case Nil
    then have "{g \<in> set ?gs. ga_ID g = c_activeNew s} = {}" by (auto simp: filter_empty_conv)
    with parts(1) [of "c_activeNew s"] have "gen_of s (c_activeNew s) = None"
      by (cases "gen_of s (c_activeNew s)") auto
    with Nil show ?thesis by (simp add: rep report_def case_prod_beta active)
  next
    case (Cons h hs)
    then have "last (h # hs) \<in> {g \<in> set ?gs. ga_ID g = c_activeNew s}"
      by (metis last_in_set list.distinct(1) set_filter)
    then have "ga_Identity (last (h # hs)) \<in> gs_Identity ` {g. gen_of s (c_activeNew s) = Some g}"
      unfolding parts(1) [symmetric] by blast
    with Cons show ?thesis by (auto simp: rep report_def case_prod_beta active)
  qed
  have "set (st_Activity rep) = {generationActivity (gs_Identity g) snap | gid g snap. gen_of s gid = Some g \<and>
      serving (gs_Phase g) \<and> GenerationSnapshot gid (c_eng s) = Some snap \<and> map_of lineages gid = Some (fst snap)}"
    unfolding acts parts(3) using pinned by blast
  then show ?thesis unfolding act prep parts(2) by simp
qed


definition ex_reported :: "AdapterStatus res \<times> ctl" where
  "ex_reported = status_finish ex_config (lineagesLocked ex_active) (fst (stateLocked ex_active)) ex_active"

lemma ex_reported_Inr: "\<not> isl (fst ex_reported)" "gen_of ex_active 1 \<noteq> None"
  by code_simp+

theorem status_is_of_one_state_witness:
  "st_Active (projr (fst ex_reported)) = map_option gs_Identity (gen_of ex_active 1) \<and>
   gen_of ex_active 1 \<noteq> None \<and> st_Prepared (projr (fst ex_reported)) \<noteq> []"
proof -
  obtain rep s' where r: "ex_reported = (Inr rep, s')"
    using ex_reported_Inr(1) by (metis prod.collapse sum.collapse(2))
  from status_is_of_one_state [OF ex_active_reachable ex_setup r [unfolded ex_reported_def]]
  have "st_Active rep = map_option gs_Identity (gen_of ex_active (c_activeNew ex_active))"
    "set (st_Prepared rep) = gs_Identity ` {g. \<exists>gid. gen_of ex_active gid = Some g}" by simp_all
  with ex_active_evaluated show ?thesis unfolding r by (auto simp del: set_empty simp flip: set_empty)
qed

end
