(* ===== verification/Ctl_Races.thy ===== *)
theory Ctl_Races
  imports Ctl_Operations
begin

text \<open>
  Concrete runs of the controller, each evaluated step by step, that show where its sections do
  not protect what its comments promise. Every state in them is reachable: the steps are
  sections of the code, and changes of the world that the code does not control.
\<close>

section \<open>A count that is stale\<close>

text \<open>
  A collection checks that the generation does not serve and counts its flows, none; before its
  second section the generation is activated, takes a connection, and is deactivated. The
  second section compares the identity and the active number only, and removes the engine.
\<close>

definition stale_identity :: Identity where
  "stale_identity = \<lparr>i_Technique = ''geneva'', i_Revision = ''r1'', i_Digest = replicate 64 (CHR ''0'')\<rparr>"

definition takes_connection :: "ctl \<Rightarrow> ctl" where
  "takes_connection s = s\<lparr>c_world := (c_world s)\<lparr>w_flows := [ex_flow\<lparr>fl_Mark := 0x67001000\<rparr>]\<rparr>\<rparr>"

definition stale_run :: bool where
  "stale_run \<longleftrightarrow>
     (case gc_begin 1 ex_prepared of (i, s) \<Rightarrow> i = Inr stale_identity \<and>
     (case connectionCount ex_config ex_libs 1 s of (n, s) \<Rightarrow> n = Inr 0 \<and>
     (case ActivateNew ex_config ex_libs 1 s of (e, s) \<Rightarrow> e = None \<and>
     (case DeactivateNew ex_config ex_libs (takes_connection s) of (e, s) \<Rightarrow> e = None \<and>
     (case gc_finish ex_config ex_libs 1 stale_identity 0 s of (e, s) \<Rightarrow> e = None \<and>
        gen_of s 1 = None \<and> map fl_Mark (w_flows (c_world s)) = [0x67001000])))))"

lemma stale_count_collects: stale_run
  by code_simp

section \<open>A durability failure that is repaired away\<close>

text \<open>
  A persist fails while deactivating. \<open>Rollback\<close> refuses from then on, as a durability failure requires
  a restart of the process; \<open>RollbackGeneration\<close> does not ask, and clears the latch.
\<close>

definition failing_disk :: "ctl \<Rightarrow> ctl" where
  "failing_disk s = s\<lparr>c_world := (c_world s)\<lparr>w_script := [Fail]\<rparr>\<rparr>"

definition repaired_run :: bool where
  "repaired_run \<longleftrightarrow>
     (case DeactivateNew ex_config ex_libs (failing_disk ex_active) of (e, s) \<Rightarrow>
        at_persistFatal (c_atom s) \<and> at_faultLatched (c_atom s) \<and>
     (case RollbackGeneration ex_config ex_libs 1 s of (e, s) \<Rightarrow> e = None \<and>
        at_persistFatal (c_atom s) \<and> \<not> at_faultLatched (c_atom s) \<and> \<not> c_unsafe s))"

lemma rollback_clears_durability_latch: repaired_run
  by code_simp

section \<open>A phase that outlives its assignment\<close>

text \<open>
  A restart finds a flow of a generation it cannot reconstruct. It clears the active number
  before the step that would demote the active generation, whose phase therefore stays active.
\<close>

definition orphaned :: ctl where
  "orphaned = snd (Start ex_config ex_libs (ctl_New (NewRegistry ''e2'')
     (ex_world\<lparr>w_visible := Some (Doc ex_document), w_durable := [Some (Doc ex_document)],
       w_flows := [ex_flow\<lparr>fl_Mark := 0x67005000\<rparr>]\<rparr>) []))"

definition orphaned_facts :: "ctl \<Rightarrow> bool" where
  "orphaned_facts s \<longleftrightarrow> c_activeNew s = 0 \<and> c_unsafe s \<and> map (gs_Phase \<circ> snd) (c_generations s) = [PhaseActive]"

lemma orphan_start_keeps_phase: "orphaned_facts orphaned"
  by code_simp

section \<open>A drained generation that wakes up\<close>

text \<open>
  A generation is drained: no connection of it was counted, an idle one included, when idle ones are
  left out. The next transaction drops its rules. Once its connection is counted again, \<open>DrainGeneration\<close> calls
  it draining again, a phase whose packets are to be steered, but programs nothing.
\<close>

definition second_artifact :: Artifact where
  "second_artifact = ex_artifact\<lparr>a_metadata := (a_metadata ex_artifact)\<lparr>m_Revision := ''r2''\<rparr>\<rparr>"

definition rules_of :: "ctl \<Rightarrow> u32 list" where
  "rules_of s = (case w_table (c_world s) of None \<Rightarrow> [] | Some c \<Rightarrow> map gn_ID (generations c))"

definition waking_run :: bool where
  "waking_run \<longleftrightarrow>
     (case DeactivateNew ex_config ex_libs ex_active of (e, s) \<Rightarrow> e = None \<and> rules_of s = [1] \<and>
     (case DrainGeneration ex_config ex_libs 1 s of (n, s) \<Rightarrow> n = Inr 0 \<and>
     (case ctl_Prepare ex_config ex_libs second_artifact s of (e, s) \<Rightarrow> e = None \<and>
     (case ActivateForNewConnections ex_config ex_libs second_artifact s of (e, s) \<Rightarrow> e = None \<and> rules_of s = [2] \<and>
     (case DrainGeneration ex_config ex_libs 1 (takes_connection s) of (n, s) \<Rightarrow> n = Inr 1 \<and>
        map_option gs_Phase (gen_of s 1) = Some PhaseDraining \<and> rules_of s = [2])))))"

lemma draining_without_rules: waking_run
  by code_simp

end
