(* ===== verification/Registry_Lineage.thy ===== *)
theory Registry_Lineage
  imports Registry
begin

text \<open>
  What a lineage is good for. Generation numbers are reused after garbage collection, so a
  status report pins the lineage of an engine: over any run of registry operations that is
  shorter than the 64-bit counter of preparations, equal lineages mean the same engine, and
  its packet counter has grown by exactly the packets processed meanwhile.
\<close>

section \<open>Lineages that have been given out\<close>

definition past :: "Registry \<Rightarrow> string \<Rightarrow> bool" where
  "past r l \<longleftrightarrow> (\<exists>k. k \<noteq> 0 \<and> k \<le> g_prepared r \<and> l = lineage_name (g_epoch r) k)"

definition is_process :: "u32 \<Rightarrow> reg_op \<Rightarrow> bool" where
  "is_process gid op \<longleftrightarrow> (case op of OpProcess i _ _ \<Rightarrow> i = gid | _ \<Rightarrow> False)"

definition lineages_ok :: "nat \<Rightarrow> Registry \<Rightarrow> bool" where
  "lineages_ok n r \<longleftrightarrow> unat (g_prepared r) \<le> n \<and>
     (\<forall>i e. map_of (g_byID r) i = Some e \<longrightarrow> past r (e_lineage e) \<and> unat (st_PacketsIn (e_Stats e)) \<le> n) \<and>
     (\<forall>i j e f. map_of (g_byID r) i = Some e \<longrightarrow> map_of (g_byID r) j = Some f \<longrightarrow> e_lineage e = e_lineage f \<longrightarrow> i = j)"

lemma lineages_ok_new: "lineages_ok 0 (NewRegistry epoch)"
  by (simp add: lineages_ok_def NewRegistry_def)

text \<open>One more preparation or packet, below the width of the counters.\<close>

lemma word_succ:
  fixes k :: "'a::len word"
  assumes "unat k \<le> n" and "n + 1 < 2 ^ LENGTH('a)"
  shows "unat (k + 1) = unat k + 1" and "k + 1 \<noteq> 0" and "k < k + 1"
proof -
  show u: "unat (k + 1) = unat k + 1"
    using assms by (simp add: unat_word_ariths)
  then show "k + 1 \<noteq> 0" by (metis add_is_0 one_neq_zero unsigned_0)
  show "k < k + 1" using u by (simp add: word_less_nat_alt)
qed

lemma past_mono: "past r l \<Longrightarrow> g_prepared r \<le> g_prepared r' \<Longrightarrow> g_epoch r' = g_epoch r \<Longrightarrow> past r' l"
  by (auto simp: past_def intro: order_trans)

lemma fresh_lineage:
  assumes "unat (g_prepared r) \<le> n" and "n + 1 < 2 ^ 64"
  shows "\<not> past r (lineage_name (g_epoch r) (g_prepared r + 1))"
  using word_succ [of "g_prepared r" n] assms by (auto simp: past_def lineage_name_inj)

section \<open>One operation\<close>

lemma Process_PacketsIn: "st_PacketsIn (e_Stats (snd (Process X raw dir e))) = st_PacketsIn (e_Stats e) + 1"
  by (simp add: Process_def Let_def record_result_fields split: option.split sum.split prod.split)

lemma not_processed:
  assumes "map_of (g_byID (reg_step X op r)) gid = Some e" and "map_of (g_byID r) gid = Some e"
  shows "\<not> is_process gid op"
proof
  assume "is_process gid op"
  then obtain raw dir where op: "op = OpProcess gid raw dir" by (auto simp: is_process_def split: reg_op.splits)
  with assms have "snd (Process X raw dir e) = e"
    by (auto simp: ProcessGeneration_def split: prod.splits)
  with Process_PacketsIn [of X raw dir e] show False by simp
qed

text \<open>Looking one operation back from an engine whose lineage was given out before it.\<close>

lemma step_back:
  assumes l: "lineages_ok n r" and n: "n + 1 < 2 ^ 64" and p: "past r (e_lineage e')"
    and e': "map_of (g_byID (reg_step X op r)) gid = Some e'"
  shows "\<exists>e. map_of (g_byID r) gid = Some e \<and> e_lineage e = e_lineage e' \<and> DNA e = DNA e' \<and>
    unat (st_PacketsIn (e_Stats e')) = unat (st_PacketsIn (e_Stats e)) + (if is_process gid op then 1 else 0)"
proof -
  have same: ?thesis if "map_of (g_byID r) gid = Some e'"
    using that not_processed [OF e' that] by auto
  show ?thesis
  proof (cases op)
    case (OpPrepare i d)
    have "\<not> past r (lineage_name (g_epoch r) (g_prepared r + 1))"
      using fresh_lineage [OF _ n] l by (simp add: lineages_ok_def)
    with e' p have "map_of (g_byID r) gid = Some e'"
      by (auto simp: OpPrepare Prepare_def Let_def split: sum.splits option.splits if_splits)
    then show ?thesis by (rule same)
  next
    case (OpProcess i raw dir)
    show ?thesis
    proof (cases "i = gid \<and> map_of (g_byID r) i \<noteq> None")
      case True
      then obtain e where e: "map_of (g_byID r) gid = Some e" "i = gid" by auto
      with e' have eq: "e' = snd (Process X raw dir e)"
        by (auto simp: OpProcess ProcessGeneration_def split: prod.splits)
      have "unat (st_PacketsIn (e_Stats e)) \<le> n" using l e(1) by (simp add: lineages_ok_def)
      with n have "unat (st_PacketsIn (e_Stats e')) = unat (st_PacketsIn (e_Stats e)) + 1"
        unfolding eq Process_PacketsIn by (intro word_succ(1)) simp_all
      with e eq show ?thesis by (auto simp: OpProcess is_process_def)
    next
      case False
      with e' have "map_of (g_byID r) gid = Some e'"
        by (auto simp: OpProcess ProcessGeneration_def split: option.splits prod.splits if_splits)
      then show ?thesis by (rule same)
    qed
  next
    case (OpActivate i)
    with e' show ?thesis by (intro same) (simp add: reg_Activate_def Let_def split: if_splits)
  next
    case OpDeactivate
    with e' show ?thesis by (intro same) (simp add: reg_Deactivate_def)
  next
    case (OpRemove i)
    with e' show ?thesis by (intro same) (auto simp: reg_Remove_def split: if_splits)
  qed
qed

lemma reg_step_prepared:
  assumes "unat (g_prepared r) \<le> n" and "n + 1 < 2 ^ 64"
  shows "g_epoch (reg_step X op r) = g_epoch r" and "g_prepared r \<le> g_prepared (reg_step X op r)"
    and "unat (g_prepared (reg_step X op r)) \<le> n + 1"
proof -
  have up: "g_prepared r \<le> g_prepared r + 1" "unat (g_prepared r + 1) \<le> n + 1"
    using word_succ [of "g_prepared r" n] assms by simp_all
  show "g_epoch (reg_step X op r) = g_epoch r"
    by (cases op) (auto simp: reg_Activate_def reg_Deactivate_def reg_Remove_def ProcessGeneration_def Let_def
        split: option.splits prod.splits)
  show "g_prepared r \<le> g_prepared (reg_step X op r)" "unat (g_prepared (reg_step X op r)) \<le> n + 1"
    using up assms(1)
    by (cases op; auto simp: Prepare_def reg_Activate_def reg_Deactivate_def reg_Remove_def ProcessGeneration_def Let_def
        split: sum.splits option.splits prod.splits)+
qed

text \<open>The engines after an operation: an old one, or a fresh one with no packets.\<close>

lemma step_engine:
  assumes l: "lineages_ok n r" and n: "n + 1 < 2 ^ 64" and e': "map_of (g_byID (reg_step X op r)) gid = Some e'"
  shows "past r (e_lineage e') \<or>
    (\<exists>d. op = OpPrepare gid d) \<and> e_lineage e' = lineage_name (g_epoch r) (g_prepared r + 1) \<and>
      g_prepared (reg_step X op r) = g_prepared r + 1 \<and> st_PacketsIn (e_Stats e') = 0"
proof -
  have old: "map_of (g_byID r) i = Some e \<Longrightarrow> past r (e_lineage e)" for i e using l by (simp add: lineages_ok_def)
  show ?thesis
  proof (cases op)
    case (OpPrepare i d)
    then show ?thesis using e' old
      by (auto simp: Prepare_def Let_def engine_New_Inr(2) zero_stats_def
          split: sum.splits option.splits if_splits)
  next
    case (OpProcess i raw dir)
    show ?thesis
    proof (cases "map_of (g_byID r) i")
      case (Some e)
      then show ?thesis using e' old [of gid] old [OF Some] Process_keeps(2) [of X raw dir e]
        by (auto simp: OpProcess ProcessGeneration_def simp del: Process_keeps split: prod.splits if_splits)
    qed (use e' old in \<open>simp add: OpProcess ProcessGeneration_def\<close>)
  qed (use e' old in \<open>auto simp: reg_Activate_def reg_Deactivate_def reg_Remove_def Let_def split: if_splits\<close>)
qed

lemma lineages_ok_step:
  assumes l: "lineages_ok n r" and n: "n + 1 < 2 ^ 64"
  shows "lineages_ok (n + 1) (reg_step X op r)"
proof -
  let ?r = "reg_step X op r"
  have prep: "unat (g_prepared r) \<le> n" using l by (simp add: lineages_ok_def)
  note up = reg_step_prepared [OF prep n, of X op]
  have p: "past r m \<Longrightarrow> past ?r m" for m using past_mono up by blast
  have one: "past ?r (e_lineage e) \<and> unat (st_PacketsIn (e_Stats e)) \<le> n + 1"
    if e: "map_of (g_byID ?r) i = Some e" for i e
    using step_engine [OF l n e]
  proof
    assume old: "past r (e_lineage e)"
    from step_back [OF l n old e] obtain f where "map_of (g_byID r) i = Some f"
      "unat (st_PacketsIn (e_Stats e)) \<le> unat (st_PacketsIn (e_Stats f)) + 1" by fastforce
    with l old p show ?thesis by (force simp: lineages_ok_def)
  next
    assume "(\<exists>d. op = OpPrepare i d) \<and> e_lineage e = lineage_name (g_epoch r) (g_prepared r + 1) \<and>
      g_prepared ?r = g_prepared r + 1 \<and> st_PacketsIn (e_Stats e) = 0"
    with word_succ(2) [OF prep] n up(1) show ?thesis by (auto simp: past_def)
  qed
  have two: "i = j" if e: "map_of (g_byID ?r) i = Some e" and f: "map_of (g_byID ?r) j = Some f"
    and eq: "e_lineage e = e_lineage f" for i j e f
  proof (cases "past r (e_lineage e)")
    case True
    from step_back [OF l n True e] obtain e0 where e0: "map_of (g_byID r) i = Some e0" "e_lineage e0 = e_lineage e" by blast
    from step_back [OF l n True [unfolded eq] f] obtain f0 where f0: "map_of (g_byID r) j = Some f0" "e_lineage f0 = e_lineage f" by blast
    from e0 f0 eq l show ?thesis unfolding lineages_ok_def by metis
  next
    case False
    with step_engine [OF l n e] step_engine [OF l n f] eq show ?thesis by auto
  qed
  from up one two show ?thesis unfolding lineages_ok_def by blast
qed

lemma lineages_ok_run: "lineages_ok n r \<Longrightarrow> n + length ops < 2 ^ 64 \<Longrightarrow> lineages_ok (n + length ops) (reg_run X ops r)"
proof (induction ops arbitrary: n r)
  case (Cons op ops)
  have "lineages_ok (n + 1) (reg_step X op r)" using Cons.prems by (intro lineages_ok_step) simp_all
  from Cons.IH [OF this] Cons.prems(2) show ?case by simp
qed simp

lemma run_back:
  "lineages_ok n r \<Longrightarrow> n + length ops < 2 ^ 64 \<Longrightarrow> past r (e_lineage e') \<Longrightarrow>
     map_of (g_byID (reg_run X ops r)) gid = Some e' \<Longrightarrow>
     \<exists>e. map_of (g_byID r) gid = Some e \<and> e_lineage e = e_lineage e' \<and> DNA e = DNA e' \<and>
       unat (st_PacketsIn (e_Stats e')) = unat (st_PacketsIn (e_Stats e)) + length (filter (is_process gid) ops)"
proof (induction ops arbitrary: n r)
  case (Cons op ops)
  have n: "n + 1 < 2 ^ 64" using Cons.prems(2) by simp
  have prep: "unat (g_prepared r) \<le> n" using Cons.prems(1) by (simp add: lineages_ok_def)
  have p: "past (reg_step X op r) (e_lineage e')"
    using past_mono [OF Cons.prems(3)] reg_step_prepared [OF prep n, of X op] by blast
  from Cons.IH [OF lineages_ok_step [OF Cons.prems(1) n] _ p] Cons.prems(2,4)
  obtain e where e: "map_of (g_byID (reg_step X op r)) gid = Some e" "e_lineage e = e_lineage e'" "DNA e = DNA e'"
    "unat (st_PacketsIn (e_Stats e')) = unat (st_PacketsIn (e_Stats e)) + length (filter (is_process gid) ops)" by auto
  from step_back [OF Cons.prems(1) n _ e(1)] e(2) Cons.prems(3)
  obtain f where "map_of (g_byID r) gid = Some f" "e_lineage f = e_lineage e" "DNA f = DNA e"
    "unat (st_PacketsIn (e_Stats e)) = unat (st_PacketsIn (e_Stats f)) + (if is_process gid op then 1 else 0)" by auto
  with e show ?case by (auto simp del: One_nat_def)
qed auto

section \<open>Equal lineages, equal engines\<close>

text \<open>C17: Over any run of registry operations that the 64-bit counters can count, two snapshots with
  the same lineage, however often generation numbers were reused in between, are of one engine:
  the same generation with the same DNA, whose packet counter has grown by exactly the packets
  it processed in between.\<close>

theorem same_lineage_same_engine:
  assumes "length ops0 + length ops < 2 ^ 64"
    and "GenerationSnapshot gid (reg_run X ops0 (NewRegistry epoch)) = Some (l, st)"
    and "GenerationSnapshot gid' (reg_run X ops (reg_run X ops0 (NewRegistry epoch))) = Some (l, st')"
  shows "gid' = gid \<and>
    dna_of (reg_run X ops (reg_run X ops0 (NewRegistry epoch))) gid = dna_of (reg_run X ops0 (NewRegistry epoch)) gid \<and>
    unat (st_PacketsIn st') = unat (st_PacketsIn st) + length (filter (is_process gid) ops)"
proof -
  let ?r = "reg_run X ops0 (NewRegistry epoch)"
  have ok: "lineages_ok (length ops0) ?r"
    using lineages_ok_run [OF lineages_ok_new, of ops0 X epoch] assms(1) by simp
  obtain e where e: "map_of (g_byID ?r) gid = Some e" "e_lineage e = l" "e_Stats e = st"
    using assms(2) by (auto simp: GenerationSnapshot_def)
  obtain e' where e': "map_of (g_byID (reg_run X ops ?r)) gid' = Some e'" "e_lineage e' = l" "e_Stats e' = st'"
    using assms(3) by (auto simp: GenerationSnapshot_def)
  have "past ?r l" using ok e by (auto simp: lineages_ok_def)
  with run_back [OF ok assms(1) _ e'(1)] e'(2) obtain f where
    f: "map_of (g_byID ?r) gid' = Some f" "e_lineage f = l" "DNA f = DNA e'"
      "unat (st_PacketsIn (e_Stats e')) = unat (st_PacketsIn (e_Stats f)) + length (filter (is_process gid') ops)" by auto
  with e ok have g: "gid' = gid" unfolding lineages_ok_def by metis
  with e f have "f = e" by simp
  with f e e' g show ?thesis by (simp add: dna_of_def)
qed

definition ex_genlib :: genlib where
  "ex_genlib = \<lparr>x_NewStrategy = \<lambda>_. Inr \<lparr>s_Outbound = [], s_Inbound = [], s_Apply = \<lambda>raw _. Inr [raw]\<rparr>,
     x_Validate = \<lambda>_. None, x_ErrorLayer = \<lambda>_. None\<rparr>"

theorem same_lineage_same_engine_witness:
  "GenerationSnapshot 7 (reg_run ex_genlib [OpRemove 9, OpProcess 7 [1] DirectionOutbound]
      (reg_run ex_genlib [OpPrepare 7 ''dna'', OpPrepare 9 ''other''] (NewRegistry ''e''))) =
    Some (''e-1'', zero_stats\<lparr>st_PacketsIn := 1, st_BytesIn := 1, st_PacketsOut := 1, st_BytesOut := 1, st_Unchanged := 1\<rparr>) \<and>
   dna_of (reg_run ex_genlib [OpRemove 9, OpProcess 7 [1] DirectionOutbound]
      (reg_run ex_genlib [OpPrepare 7 ''dna'', OpPrepare 9 ''other''] (NewRegistry ''e''))) 7 = Some ''dna''"
proof -
  let ?r = "reg_run ex_genlib [OpPrepare 7 ''dna'', OpPrepare 9 ''other''] (NewRegistry ''e'')"
  let ?s = "reg_run ex_genlib [OpRemove 9, OpProcess 7 [1] DirectionOutbound] ?r"
  have now: "GenerationSnapshot 7 ?s =
    Some (''e-1'', zero_stats\<lparr>st_PacketsIn := 1, st_BytesIn := 1, st_PacketsOut := 1, st_BytesOut := 1, st_Unchanged := 1\<rparr>)"
    and before: "GenerationSnapshot 7 ?r = Some (''e-1'', zero_stats)" and dna: "dna_of ?r 7 = Some ''dna''"
    by code_simp+
  have "dna_of ?s 7 = dna_of ?r 7" using same_lineage_same_engine [OF _ before now] by simp
  with now dna show ?thesis by simp
qed

end
