(* ===== verification/Nft_Semantics.thy ===== *)
theory Nft_Semantics
  imports Nft_Manager Scope Adapter
begin

text \<open>
  What the text of the ruleset means to the kernel. The evaluator reads the rules the way
  \<open>nft\<close> does: a rule is a sequence of words, each expression narrows the packets it applies to,
  and its statement queues the packet, accepts it, rewrites the conntrack mark or counts. It is
  an independent reading of the documented language, against which the rules that
  \<open>internal/nftables/manager.go\<close> prints are proved.
\<close>

section \<open>Words and numbers\<close>

fun pieces :: "char \<Rightarrow> string \<Rightarrow> string list" where
  "pieces sep [] = [[]]"
| "pieces sep (c # cs) =
     (if c = sep then [] # pieces sep cs
      else case pieces sep cs of [] \<Rightarrow> [[c]] | w # ws \<Rightarrow> (c # w) # ws)"

abbreviation words :: "string \<Rightarrow> string list" where
  "words \<equiv> pieces (CHR '' '')"

fun parse_base :: "nat \<Rightarrow> nat \<Rightarrow> string \<Rightarrow> nat option" where
  "parse_base b acc [] = Some acc"
| "parse_base b acc (c # cs) =
     (case hex_digit c of None \<Rightarrow> None
      | Some d \<Rightarrow> if d < b then parse_base b (b * acc + d) cs else None)"

definition parse_num :: "string \<Rightarrow> nat option" where
  "parse_num s = (if HasPrefix s ''0x'' then parse_base 16 0 (drop 2 s) else parse_base 10 0 s)"

definition flag_named :: "string \<Rightarrow> u8 option" where
  "flag_named n = map_of (map (\<lambda>(b, n). (n, b)) nftFlagNames) n"

fun or_flags :: "string list \<Rightarrow> u8 option" where
  "or_flags [] = Some 0"
| "or_flags (n # ns) =
     (case (flag_named n, or_flags ns) of (Some a, Some b) \<Rightarrow> Some (a OR b) | _ \<Rightarrow> None)"

definition parse_flags :: "string \<Rightarrow> u8 option" where
  "parse_flags s =
     (if HasPrefix s ''0x'' then map_option of_nat (parse_num s)
      else or_flags (pieces (CHR ''|'') (TrimSuffix (TrimPrefix s ''('') '')'')))"

section \<open>Packets, rules, chains\<close>

record nft_packet =
  pk_sport :: u16
  pk_dport :: u16
  pk_uid :: u32
  pk_mark :: u32
  pk_flags :: u8
  pk_new :: bool
  pk_length :: nat

datatype nft_action = Queue nat | SetMark u32 | Accept | Jump string | Count string

definition masked_is :: "u32 \<Rightarrow> string \<Rightarrow> string \<Rightarrow> bool" where
  "masked_is x m v =
     (case (parse_num m, parse_num v) of
        (Some m, Some v) \<Rightarrow> x AND of_nat m = of_nat v | _ \<Rightarrow> False)"

definition flags_are :: "u8 \<Rightarrow> string \<Rightarrow> string \<Rightarrow> bool" where
  "flags_are x m v =
     (case (parse_flags m, parse_flags v) of (Some m, Some v) \<Rightarrow> x AND m = v | _ \<Rightarrow> False)"

text \<open>One expression: whether it holds of the packet, and the words after it.\<close>

definition match_at :: "string list \<Rightarrow> nft_packet \<Rightarrow> (bool \<times> string list) option" where
  "match_at ws p =
     (case ws of
        u # v # w # ws \<Rightarrow>
          if u = ''meta'' \<and> v = ''nfproto'' then Some (w = ''ipv4'', ws)
          else if u = ''meta'' \<and> v = ''l4proto'' then Some (w = ''tcp'', ws)
          else if u = ''meta'' \<and> v = ''skuid'' then Some (parse_num w = Some (unat (pk_uid p)), ws)
          else if u = ''tcp'' \<and> v = ''sport'' then Some (parse_num w = Some (unat (pk_sport p)), ws)
          else if u = ''tcp'' \<and> v = ''dport'' then Some (parse_num w = Some (unat (pk_dport p)), ws)
          else if u = ''ct'' \<and> v = ''state'' then Some (w = ''new'' \<and> pk_new p, ws)
          else if u = ''meta'' \<and> v = ''length'' \<and> w = ''>'' then
            (case ws of n # ws \<Rightarrow> Some (case parse_num n of None \<Rightarrow> False | Some k \<Rightarrow> k < pk_length p, ws) | _ \<Rightarrow> None)
          else if u = ''ct'' \<and> v = ''mark'' \<and> w = ''&'' then
            (case ws of m # e # x # ws \<Rightarrow> Some (e = ''=='' \<and> masked_is (pk_mark p) m x, ws) | _ \<Rightarrow> None)
          else if u = ''tcp'' \<and> v = ''flags'' \<and> w = ''&'' then
            (case ws of m # e # x # ws \<Rightarrow> Some (e = ''=='' \<and> flags_are (pk_flags p) m x, ws) | _ \<Rightarrow> None)
          else None
      | _ \<Rightarrow> None)"

text \<open>The statement that ends a rule.\<close>

definition action_at :: "string list \<Rightarrow> nft_packet \<Rightarrow> nft_action option" where
  "action_at ws p =
     (case ws of
        [a] \<Rightarrow> if a = ''accept'' then Some Accept else None
      | [a, b] \<Rightarrow> if a = ''jump'' then Some (Jump b) else None
      | a # b # c # ws \<Rightarrow>
          if a = ''queue'' \<and> b = ''num'' \<and> ws = [''bypass''] then map_option Queue (parse_num c)
          else if a = ''counter'' \<and> b = ''name'' \<and> ws \<in> {[], [''return'']} then Some (Count c)
          else if a = ''ct'' \<and> b = ''mark'' \<and> c = ''set'' then
            (case ws of
               [d, e, f, m, g, x] \<Rightarrow>
                 if d = ''(ct'' \<and> e = ''mark'' \<and> f = ''&'' \<and> g = ''|'' then
                   (case (parse_num (TrimSuffix m '')''), parse_num x) of
                      (Some m, Some x) \<Rightarrow> Some (SetMark ((pk_mark p AND of_nat m) OR of_nat x))
                    | _ \<Rightarrow> None)
                 else None
             | _ \<Rightarrow> None)
          else None
      | _ \<Rightarrow> None)"

lemma match_at_shorter: "match_at ws p = Some (b, rest) \<Longrightarrow> length rest < length ws"
  by (auto simp: match_at_def split: list.splits if_splits)

function eval_rule :: "string list \<Rightarrow> nft_packet \<Rightarrow> nft_action option" where
  "eval_rule ws p =
     (case match_at ws p of
        Some (b, rest) \<Rightarrow> if b then eval_rule rest p else None
      | None \<Rightarrow> action_at ws p)"
  by pat_completeness auto
termination by (relation "measure (\<lambda>(ws, p). length ws)") (auto dest: match_at_shorter)

declare eval_rule.simps [simp del]

text \<open>A chain: the first rule with a verdict decides; marking and counting go on with the next.\<close>

fun eval_chain :: "string list \<Rightarrow> nft_packet \<Rightarrow> nft_action \<times> nft_packet" where
  "eval_chain [] p = (Accept, p)"
| "eval_chain (r # rs) p =
     (case eval_rule (words r) p of
        Some (Queue q) \<Rightarrow> (Queue q, p)
      | Some Accept \<Rightarrow> (Accept, p)
      | Some (SetMark m) \<Rightarrow> eval_chain rs (p\<lparr>pk_mark := m\<rparr>)
      | _ \<Rightarrow> eval_chain rs p)"

text \<open>The rules of a printed chain: its lines without the head, the type and the closing brace.\<close>

definition chain_body :: "string list \<Rightarrow> string list" where
  "chain_body lines = map (drop 2) (butlast (drop 2 lines))"

section \<open>Reading back what is printed\<close>

lemma pieces_nonempty [simp]: "pieces sep s \<noteq> []"
  by (induction s) (auto split: list.split)

lemma pieces_single: "sep \<notin> set a \<Longrightarrow> pieces sep a = [a]"
  by (induction a) auto

lemma pieces_append: "sep \<notin> set a \<Longrightarrow> pieces sep (a @ sep # b) = a # pieces sep b"
  by (induction a) auto

lemma parse_base_append: "parse_base b acc (xs @ [c]) =
    (case parse_base b acc xs of None \<Rightarrow> None
     | Some n \<Rightarrow> case hex_digit c of None \<Rightarrow> None | Some d \<Rightarrow> if d < b then Some (b * n + d) else None)"
  by (induction xs arbitrary: acc) (auto split: option.splits)

lemma parse_show_base: "2 \<le> b \<Longrightarrow> b \<le> 16 \<Longrightarrow> parse_base b 0 (show_base b n) = Some n"
proof (induction n rule: less_induct)
  case (less n)
  show ?case
  proof (cases "n < b")
    case True
    with less.prems show ?thesis by (simp add: show_base.simps [of b n] digit_char_hex)
  next
    case False
    then have "n div b < n" using less.prems by (intro div_less_dividend) auto
    moreover have d: "n mod b < b" using less.prems(1) by simp
    with less.prems(2) have "n mod b < 16" by linarith
    then have "hex_digit (digit_char (n mod b)) = Some (n mod b)" by (rule digit_char_hex)
    ultimately show ?thesis
      using less False d by (simp add: show_base.simps [of b n] parse_base_append)
  qed
qed

lemma show_base_chars: "2 \<le> b \<Longrightarrow> b \<le> 16 \<Longrightarrow> c \<in> set (show_base b n) \<Longrightarrow> hex_digit c \<noteq> None"
proof (induction n rule: less_induct)
  case (less n)
  show ?case
  proof (cases "n < b")
    case True
    with less.prems show ?thesis by (auto simp: show_base.simps [of b n] digit_char_hex)
  next
    case False
    then have "n div b < n" using less.prems by (intro div_less_dividend) auto
    moreover have "n mod b < b" using less.prems(1) by simp
    with less.prems(2) have "n mod b < 16" by linarith
    then have "hex_digit (digit_char (n mod b)) \<noteq> None" by (simp add: digit_char_hex)
    moreover have "show_base b n = show_base b (n div b) @ [digit_char (n mod b)]"
      using less.prems False by (simp add: show_base.simps [of b n])
    ultimately show ?thesis using less by auto
  qed
qed

lemma no_digit [simp]: "hex_digit (CHR '' '') = None" "hex_digit (CHR ''x'') = None" "hex_digit (CHR '')'') = None"
  by code_simp+

lemma show_dec_plain [simp]: "CHR '' '' \<notin> set (show_dec n)" "CHR ''x'' \<notin> set (show_dec n)"
  using show_base_chars [of 10 _ n] unfolding show_dec_def by fastforce+

lemma show_hex_plain [simp]: "CHR '' '' \<notin> set (show_hex n)"
  using show_base_chars [of 16 _ n] unfolding show_hex_def by fastforce+

lemma parse_show_dec [simp]: "parse_num (show_dec n) = Some n"
proof -
  have "\<not> HasPrefix (show_dec n) ''0x''"
  proof
    assume "HasPrefix (show_dec n) ''0x''"
    then have "take 2 (show_dec n) = ''0x''" by (simp add: HasPrefix_def numeral_2_eq_2)
    then have "CHR ''x'' \<in> set (take 2 (show_dec n))" by simp
    then show False using set_take_subset [of 2 "show_dec n"] show_dec_plain(2) by blast
  qed
  then show ?thesis by (simp add: parse_num_def show_dec_def parse_show_base)
qed

lemma parse_show_hex [simp]: "parse_num (show_hex n) = Some n"
  by (simp add: parse_num_def show_hex_def HasPrefix_def parse_show_base)

text \<open>A set of flags is printed in a way that reads back.\<close>

lemma flag_named: "\<forall>f\<in>set nftFlagNames. flag_named (snd f) = Some (fst f) \<and> parse_flags (snd f) = Some (fst f) \<and>
    CHR '' '' \<notin> set (snd f) \<and> CHR ''|'' \<notin> set (snd f)"
  by code_simp

lemma single_flag:
  fixes w :: u8
  assumes "c = 2 ^ k"
  shows "(if w AND c \<noteq> 0 then c else 0) = w AND c"
proof -
  have "w AND 2 ^ k = (if bit w k then 2 ^ k else 0)"
    by (rule bit_word_eqI) (auto simp: bit_simps)
  then show ?thesis by (simp add: assms)
qed

lemma flag_powers: "(0x80 :: u8) = 2 ^ 7" "(0x40 :: u8) = 2 ^ 6" "(0x20 :: u8) = 2 ^ 5" "(0x10 :: u8) = 2 ^ 4"
  "(0x08 :: u8) = 2 ^ 3" "(0x04 :: u8) = 2 ^ 2" "(0x02 :: u8) = 2 ^ 1" "(0x01 :: u8) = 2 ^ 0"
  by simp_all

lemma fold_or_filter:
  "fold (\<lambda>f b. fst f OR b) (filter P xs) acc = fold (\<lambda>f b. (if P f then fst f else 0) OR b) xs (acc :: u8)"
  by (induction xs arbitrary: acc) auto

lemma flag_bits: "fold (\<lambda>f b. fst f OR b) (filter (\<lambda>f. bits AND fst f \<noteq> 0) nftFlagNames) 0 = bits"
proof -
  have "fold (\<lambda>f b. fst f OR b) (filter (\<lambda>f. bits AND fst f \<noteq> 0) nftFlagNames) 0 =
      bits AND (0x80 OR (0x40 OR (0x20 OR (0x10 OR (0x08 OR (0x04 OR (0x02 OR 0x01)))))))"
    by (simp only: fold_or_filter nftFlagNames_def fold_simps fst_conv single_flag [OF flag_powers(1)]
        single_flag [OF flag_powers(2)] single_flag [OF flag_powers(3)] single_flag [OF flag_powers(4)]
        single_flag [OF flag_powers(5)] single_flag [OF flag_powers(6)] single_flag [OF flag_powers(7)]
        single_flag [OF flag_powers(8)] bit.conj_disj_distrib or.right_neutral)
  also have "\<dots> = bits" by (simp add: u8_full_mask)
  finally show ?thesis .
qed


lemma or_flags_named:
  "set xs \<subseteq> set nftFlagNames \<Longrightarrow> or_flags (map snd xs) = Some (foldr (\<lambda>f b. fst f OR b) xs 0)"
  by (induction xs) (use flag_named in auto)

lemma fold_or: "fold (\<lambda>f b. fst f OR b) xs (acc :: u8) = foldr (\<lambda>f b. fst f OR b) xs 0 OR acc"
  by (induction xs arbitrary: acc) (simp_all add: ac_simps)

lemma names_of_read: "or_flags (names_of bits) = Some bits"
proof -
  have "or_flags (names_of bits) = Some (foldr (\<lambda>f b. fst f OR b) (filter (\<lambda>f. bits AND fst f \<noteq> 0) nftFlagNames) 0)"
    unfolding names_of_def by (rule or_flags_named) auto
  also have "\<dots> = Some bits" using flag_bits [of bits] unfolding fold_or by simp
  finally show ?thesis .
qed

lemma names_of_named: "n \<in> set (names_of bits) \<Longrightarrow> \<exists>b. parse_flags n = Some b \<and> flag_named n = Some b \<and>
    CHR '' '' \<notin> set n \<and> CHR ''|'' \<notin> set n"
  unfolding names_of_def using flag_named by auto

lemma pieces_join: "xs \<noteq> [] \<Longrightarrow> \<forall>x\<in>set xs. sep \<notin> set x \<Longrightarrow> pieces sep (join_with [sep] xs) = xs"
  by (induction "[sep]" xs rule: join_with.induct) (simp_all add: pieces_single pieces_append)

lemma join_plain: "\<forall>x\<in>set xs. c \<notin> set x \<Longrightarrow> c \<notin> set sep \<Longrightarrow> c \<notin> set (join_with sep xs)"
  by (induction sep xs rule: join_with.induct) auto

lemma flagNames_read [simp]: "parse_flags (flagNames bits) = Some bits" "CHR '' '' \<notin> set (flagNames bits)"
proof -
  let ?ns = "names_of bits" and ?j = "join_with ''|'' (names_of bits)"
  have zero: "parse_flags ''0x0'' = Some 0" by code_simp
  show "parse_flags (flagNames bits) = Some bits"
  proof (cases "bits = 0")
    case False
    then have ne: "?ns \<noteq> []" using names_of_read [of bits] by auto
    show ?thesis
    proof (cases "length ?ns > 1")
      case True
      with False have "flagNames bits = ''('' @ ?j @ '')''" by (simp add: flagNames_def)
      moreover have "parse_flags (''('' @ ?j @ '')'') = or_flags (pieces (CHR ''|'') ?j)"
        unfolding parse_flags_def TrimPrefix_append TrimSuffix_append by (simp add: HasPrefix_def)
      moreover have "pieces (CHR ''|'') ?j = ?ns" using ne names_of_named [of _ bits] by (intro pieces_join) auto
      ultimately show ?thesis by (simp add: names_of_read)
    next
      case one: False
      with ne obtain n where n: "?ns = [n]" by (cases ?ns) auto
      from names_of_named [of n bits] n obtain b where b: "parse_flags n = Some b" "flag_named n = Some b" by auto
      with names_of_read [of bits] n have "b = bits" by simp
      with b n False show ?thesis by (simp add: flagNames_def)
    qed
  qed (simp add: flagNames_def zero)
  show "CHR '' '' \<notin> set (flagNames bits)"
  proof (cases "bits = 0")
    case False
    then have "?ns \<noteq> []" using names_of_read [of bits] by auto
    moreover have "CHR '' '' \<notin> set n" if "n \<in> set ?ns" for n using names_of_named [OF that] by blast
    moreover from this have "CHR '' '' \<notin> set ?j" by (intro join_plain) auto
    ultimately show ?thesis using False by (simp add: flagNames_def Let_def)
  qed (simp add: flagNames_def)
qed

section \<open>One rule\<close>

lemma eval_exprs:
  "eval_rule (''meta'' # ''nfproto'' # ''ipv4'' # ws) p = eval_rule ws p"
  "eval_rule (''meta'' # ''l4proto'' # ''tcp'' # ws) p = eval_rule ws p"
  "eval_rule (''meta'' # ''skuid'' # n # ws) p = (if parse_num n = Some (unat (pk_uid p)) then eval_rule ws p else None)"
  "eval_rule (''tcp'' # ''sport'' # n # ws) p = (if parse_num n = Some (unat (pk_sport p)) then eval_rule ws p else None)"
  "eval_rule (''tcp'' # ''dport'' # n # ws) p = (if parse_num n = Some (unat (pk_dport p)) then eval_rule ws p else None)"
  "eval_rule (''ct'' # ''state'' # ''new'' # ws) p = (if pk_new p then eval_rule ws p else None)"
  "eval_rule (''ct'' # ''mark'' # ''&'' # m # ''=='' # x # ws) p = (if masked_is (pk_mark p) m x then eval_rule ws p else None)"
  "eval_rule (''tcp'' # ''flags'' # ''&'' # m # ''=='' # x # ws) p = (if flags_are (pk_flags p) m x then eval_rule ws p else None)"
  "eval_rule (''meta'' # ''length'' # ''>'' # n # ws) p =
     (case parse_num n of None \<Rightarrow> None | Some k \<Rightarrow> if k < pk_length p then eval_rule ws p else None)"
  by (subst eval_rule.simps; simp add: match_at_def split: option.split)+

lemma eval_actions:
  "eval_rule [''queue'', ''num'', n, ''bypass''] p = map_option Queue (parse_num n)"
  "eval_rule [''accept''] p = Some Accept"
  "eval_rule [''jump'', c] p = Some (Jump c)"
  "eval_rule (''counter'' # ''name'' # q # ws) p = (if ws \<in> {[], [''return'']} then Some (Count q) else None)"
  "eval_rule [''ct'', ''mark'', ''set'', ''(ct'', ''mark'', ''&'', m, ''|'', x] p =
     (case (parse_num (TrimSuffix m '')''), parse_num x) of
        (Some m, Some x) \<Rightarrow> Some (SetMark ((pk_mark p AND of_nat m) OR of_nat x)) | _ \<Rightarrow> None)"
  by (subst eval_rule.simps; simp add: match_at_def action_at_def split: list.split)+

lemma flags_are_read: "flags_are x (flagNames m) (flagNames v) \<longleftrightarrow> x AND m = v"
  by (simp add: flags_are_def)

lemma masked_is_read: "masked_is x (show_hex (unat m)) (show_hex (unat v)) \<longleftrightarrow> x AND m = v"
  by (simp add: masked_is_def)

lemma parse_ff: "parse_flags ''0xff'' = Some 0xff"
  by code_simp

text \<open>A flag expression as printed is the test the configuration means.\<close>

lemma eval_flagExpr:
  "eval_rule (words (flagExpr m @ CHR '' '' # r)) p = (if flag_matches m (pk_flags p) then eval_rule (words r) p else None)"
  by (simp add: flagExpr_def pieces_append eval_exprs flags_are_read flag_matches_def flags_are_def parse_ff)


text \<open>The test that opens every queue rule: the listener's port and the generation's mark.\<close>

definition queue_test :: "string \<Rightarrow> u16 \<Rightarrow> u32 \<Rightarrow> nft_packet \<Rightarrow> bool" where
  "queue_test kw port mark p \<longleftrightarrow>
     (if kw = ''sport'' then pk_sport p else pk_dport p) = port \<and> pk_mark p AND Mask = mark"

definition queue_base :: "string \<Rightarrow> u16 \<Rightarrow> u32 \<Rightarrow> string" where
  "queue_base kw port mark = ''meta nfproto ipv4 meta l4proto tcp tcp '' @ kw @ '' '' @ show_dec (unat port) @
     '' ct mark & '' @ show_hex (unat Mask) @ '' == '' @ show_hex (unat mark)"

lemma eval_queue_base:
  assumes "kw \<in> {''sport'', ''dport''}"
  shows "eval_rule (words (queue_base kw port mark @ '' '' @ r)) p =
    (if queue_test kw port mark p then eval_rule (words r) p else None)"
  using assms
  by (auto simp: queue_base_def pieces_append eval_exprs masked_is_read queue_test_def simp flip: word_unat_eq_iff
      split: if_splits)

lemma eval_verdict: "eval_rule (words (''queue num '' @ show_dec n @ '' bypass'')) p = Some (Queue n)"
  by (simp add: pieces_append eval_actions)

text \<open>The rules of one generation: its packets, when the selector selects their flags.\<close>

lemma eval_chain_skip: "eval_rule (words r) p = None \<Longrightarrow> eval_chain (r # rs) p = eval_chain rs p"
  by simp

lemma eval_flag_rules:
  assumes "\<And>f. f \<in> set fs \<Longrightarrow> eval_rule (words (rule f)) p = (if P \<and> flag_matches f (pk_flags p) then Some (Queue q) else None)"
  shows "eval_chain (map rule fs @ rs) p =
    (if P \<and> (\<exists>f\<in>set fs. flag_matches f (pk_flags p)) then (Queue q, p) else eval_chain rs p)"
  using assms by (induction fs) auto

lemma eval_generation:
  assumes kw: "kw \<in> {''sport'', ''dport''}"
  shows "eval_chain (generationQueueRules g sel kw port queue @ rs) p =
    (if (\<exists>m. Mark (gn_ID g) = Inr m \<and> queue_test kw port m p) \<and> selects sel (pk_flags p)
     then (Queue (unat queue), p) else eval_chain rs p)"
proof (cases "Mark (gn_ID g)")
  case (Inr mark)
  define line where "line x = queue_base kw port mark @ '' '' @ x @ ''queue num '' @ show_dec (unat queue) @ '' bypass''" for x
  have all: "eval_rule (words (line [])) p = (if queue_test kw port mark p then Some (Queue (unat queue)) else None)"
    unfolding line_def eval_queue_base [OF kw] append_Nil eval_verdict ..
  have "eval_rule (words ((flagExpr f @ '' '') @ ''queue num '' @ show_dec (unat queue) @ '' bypass'')) p =
      (if flag_matches f (pk_flags p) then Some (Queue (unat queue)) else None)" for f
    unfolding append.assoc append_Cons append_Nil eval_flagExpr using eval_verdict [of "unat queue" p] by simp
  then have one: "eval_rule (words (line (flagExpr f @ '' ''))) p =
      (if queue_test kw port mark p \<and> flag_matches f (pk_flags p) then Some (Queue (unat queue)) else None)" for f
    unfolding line_def eval_queue_base [OF kw] by simp
  have rules: "generationQueueRules g sel kw port queue =
      (if sel_Empty sel then [] else if sel_Any sel then [line []]
       else map (\<lambda>f. line (flagExpr f @ '' '')) (sel_Flags sel))"
    by (simp add: generationQueueRules_def Let_def Inr queue_base_def line_def)
  show ?thesis
  proof (cases "sel_Any sel \<or> sel_Empty sel")
    case True
    with rules all Inr show ?thesis by (auto simp: selects_def sel_Empty_def)
  next
    case False
    then have "generationQueueRules g sel kw port queue @ rs = map (\<lambda>f. line (flagExpr f @ '' '')) (sel_Flags sel) @ rs"
      by (simp add: rules)
    also have "eval_chain \<dots> p = (if queue_test kw port mark p \<and> (\<exists>f\<in>set (sel_Flags sel). flag_matches f (pk_flags p))
        then (Queue (unat queue), p) else eval_chain rs p)"
      by (rule eval_flag_rules) (rule one)
    finally show ?thesis using False Inr by (simp add: selects_def)
  qed
qed (simp add: generationQueueRules_def)

lemma owner_iff: "(\<exists>m. Mark gid = Inr m \<and> x AND Mask = m) \<longleftrightarrow> ID x = (gid, True)"
proof
  assume "\<exists>m. Mark gid = Inr m \<and> x AND Mask = m"
  then have m: "Mark gid = Inr (x AND Mask)" by blast
  have "(x AND NOT Mask) AND Mask = 0" by (simp add: and.assoc)
  from ID_of_Mark [OF m this] have "ID ((x AND NOT Mask) OR (x AND Mask)) = (gid, True)" .
  moreover have "(x AND NOT Mask) OR (x AND Mask) = x"
    by (simp flip: bit.conj_disj_distrib)
  ultimately show "ID x = (gid, True)" by simp
next
  assume "ID x = (gid, True)"
  then show "\<exists>m. Mark gid = Inr m \<and> x AND Mask = m" using ID_sound by blast
qed

text \<open>All the queue rules of a direction.\<close>

definition queued_by :: "(Generation \<Rightarrow> Selector) \<Rightarrow> Config \<Rightarrow> nft_packet \<Rightarrow> bool" where
  "queued_by sel cfg p \<longleftrightarrow>
     (\<exists>g\<in>set (generations cfg). ID (pk_mark p) = (gn_ID g, True) \<and> selects (sel g) (pk_flags p))"

lemma eval_generations:
  assumes kw: "kw \<in> {''sport'', ''dport''}"
  defines "at \<equiv> \<lambda>p. if kw = ''sport'' then pk_sport p else pk_dport p"
  shows "eval_chain (concat (map (\<lambda>g. generationQueueRules g (sel g) kw port queue) gs)) p =
    (if at p = port \<and> (\<exists>g\<in>set gs. ID (pk_mark p) = (gn_ID g, True) \<and> selects (sel g) (pk_flags p))
     then (Queue (unat queue), p) else (Accept, p))"
proof (induction gs)
  case (Cons g gs)
  have owner: "(\<exists>m. Mark (gn_ID g) = Inr m \<and> queue_test kw port m p) \<longleftrightarrow>
      at p = port \<and> ID (pk_mark p) = (gn_ID g, True)"
    using owner_iff [of "gn_ID g" "pk_mark p"] by (auto simp: queue_test_def at_def)
  show ?case unfolding list.map concat.simps eval_generation [OF kw] owner Cons.IH by simp
qed simp

lemma chain_body_simps: "chain_body (a # b # map (\<lambda>r. tab @ tab @ r) rs @ [z]) = rs"
  by (simp add: chain_body_def butlast_append comp_def tab_def)


section \<open>The two chains\<close>

text \<open>The kernel, reading the printed output chain, queues a packet exactly when it does not come from
  the reinjection user, leaves the protected port and belongs to a generation whose outbound
  selector selects its flags; every other packet is accepted, and none is changed.\<close>

lemma output_chain_means:
  "eval_chain (chain_body (output_chain cfg)) p =
    (if pk_uid p \<noteq> nf_BypassUID cfg \<and> pk_sport p = nf_Port cfg \<and> queued_by gn_Outbound cfg p
     then (Queue (unat (nf_OutQueue cfg)), p) else (Accept, p))"
proof -
  let ?skuid = "''meta skuid '' @ show_dec (unat (nf_BypassUID cfg)) @ '' accept''"
  let ?rules = "concat (map (\<lambda>g. generationQueueRules g (gn_Outbound g) ''sport'' (nf_Port cfg) (nf_OutQueue cfg)) (generations cfg))"
  have "eval_rule (words ?skuid) p = (if pk_uid p = nf_BypassUID cfg then Some Accept else None)"
    by (auto simp: pieces_append eval_exprs eval_actions simp flip: word_unat_eq_iff)
  moreover have "chain_body (output_chain cfg) = ?skuid # ?rules"
    unfolding output_chain_def using chain_body_simps [of _ _ "?skuid # ?rules"] by simp
  ultimately show ?thesis
    using eval_generations [of "''sport''" gn_Outbound "nf_Port cfg" "nf_OutQueue cfg" "generations cfg" p]
    by (simp add: queued_by_def)
qed

definition assigns :: "Config \<Rightarrow> nft_packet \<Rightarrow> nft_packet" where
  "assigns cfg p =
     (case assigned_mark cfg of
        Some m \<Rightarrow>
          if pk_dport p = nf_Port cfg \<and> pk_new p \<and> pk_flags p AND 0x12 = 0x02 \<and> pk_mark p AND Mask = 0
          then p\<lparr>pk_mark := (pk_mark p AND NOT Mask) OR m\<rparr> else p
      | None \<Rightarrow> p)"

lemma pieces_append2: "sep \<notin> set a \<Longrightarrow> c \<noteq> sep \<Longrightarrow> pieces sep (a @ c # sep # b) = (a @ [c]) # pieces sep b"
  using pieces_append [of sep "a @ [c]" b] by simp

lemma parse_fixed: "parse_flags ''(syn|ack)'' = Some 0x12" "parse_flags ''syn'' = Some 0x02" "parse_num ''0'' = Some 0"
  by code_simp+

lemma eval_assignment:
  "eval_rule (words (assignment_rule port mark)) p =
    (if pk_dport p = port \<and> pk_new p \<and> pk_flags p AND 0x12 = 0x02 \<and> pk_mark p AND Mask = 0
     then Some (SetMark ((pk_mark p AND NOT Mask) OR mark)) else None)"
  by (auto simp: assignment_rule_def pieces_append pieces_append2 pieces_single eval_exprs eval_actions
      flags_are_def masked_is_def parse_fixed simp flip: word_unat_eq_iff)

lemma eval_jump:
  "eval_rule (words (''meta nfproto ipv4 meta l4proto tcp tcp dport '' @ show_dec (unat port) @ '' jump '' @ censorChain)) p \<in>
    {None, Some (Jump censorChain)}"
  by (simp add: pieces_append eval_exprs eval_actions censorChain_def)

lemma input_chain_eval:
  "eval_chain (chain_body (input_chain cfg)) p =
    (if pk_dport p = nf_Port cfg \<and> queued_by gn_Inbound cfg (assigns cfg p)
     then (Queue (unat (nf_InQueue cfg)), assigns cfg p) else (Accept, assigns cfg p))"
proof -
  let ?jump = "''meta nfproto ipv4 meta l4proto tcp tcp dport '' @ show_dec (unat (nf_Port cfg)) @ '' jump '' @ censorChain"
  let ?set = "case assigned_mark cfg of None \<Rightarrow> [] | Some mark \<Rightarrow> [assignment_rule (nf_Port cfg) mark]"
  let ?rules = "concat (map (\<lambda>g. generationQueueRules g (gn_Inbound g) ''dport'' (nf_Port cfg) (nf_InQueue cfg)) (generations cfg))"
  have body: "chain_body (input_chain cfg) = (if nf_Censor cfg then [?jump] else []) @ ?set @ ?rules"
    unfolding input_chain_def
    using chain_body_simps [of _ _ "(if nf_Censor cfg then [?jump] else []) @ ?set @ ?rules"]
    by (cases "assigned_mark cfg"; cases "nf_Censor cfg"; simp)
  have jump: "eval_chain ([?jump] @ rs) p = eval_chain rs p" for rs
    using eval_jump [of "nf_Port cfg" p] by auto
  have set: "eval_chain (?set @ rs) p = eval_chain rs (assigns cfg p)" for rs
    by (auto simp: assigns_def eval_assignment split: option.split)
  have dport: "pk_dport (assigns cfg p) = pk_dport p" by (simp add: assigns_def split: option.split)
  have "eval_chain (chain_body (input_chain cfg)) p = eval_chain (?set @ ?rules) p"
    unfolding body using jump by (cases "nf_Censor cfg") simp_all
  also have "\<dots> = eval_chain ?rules (assigns cfg p)" by (rule set)
  also have "\<dots> = (if pk_dport p = nf_Port cfg \<and> queued_by gn_Inbound cfg (assigns cfg p)
     then (Queue (unat (nf_InQueue cfg)), assigns cfg p) else (Accept, assigns cfg p))"
    using eval_generations [of "''dport''" gn_Inbound "nf_Port cfg" "nf_InQueue cfg" "generations cfg" "assigns cfg p"]
    by (simp add: queued_by_def dport)
  finally show ?thesis .
qed


section \<open>From the strategy's triggers to the queue\<close>

text \<open>Whether a trigger can act on a packet with these TCP flags; a trigger the code cannot read may
  act on any.\<close>

definition may_fire :: "Trigger \<Rightarrow> u8 \<Rightarrow> bool" where
  "may_fire t flags \<longleftrightarrow>
     (case flagMatchOf t of None \<Rightarrow> True
      | Some _ \<Rightarrow> (case triggerValue (t_String t) of None \<Rightarrow> True | Some v \<Rightarrow> value_fires v flags))"

lemma selects_may_fire: "selects (selectorOf f) flags \<longleftrightarrow> (\<exists>t\<in>set (triggers f). may_fire t flags)"
proof -
  have "may_fire t flags \<longleftrightarrow> flagMatchOf t = None \<or> (\<exists>m. flagMatchOf t = Some m \<and> flag_matches m flags)" for t
  proof (cases "flagMatchOf t")
    case (Some m)
    then obtain v where "triggerValue (t_String t) = Some v"
      by (auto simp: flagMatchOf_def split: if_splits option.splits)
    with Some flagMatchOf_fires [OF Some this, of flags] show ?thesis by (simp add: may_fire_def)
  qed (simp add: may_fire_def)
  then show ?thesis unfolding selectorOf_selects by blast
qed

text \<open>A packet leaving the protected port in a connection of a generation is queued for that
  generation's engine exactly when some trigger of its strategy may act on the packet's flags:
  nothing the strategy could change escapes, and nothing else costs a round trip.\<close>

theorem triggers_are_steered:
  assumes "generations cfg = gs" and "g \<in> set gs" and "distinct (map gn_ID gs)"
    and "gn_Outbound g = sc_Outbound (Of (Some st))"
    and "pk_uid p \<noteq> nf_BypassUID cfg" and "pk_sport p = nf_Port cfg" and "ID (pk_mark p) = (gn_ID g, True)"
  shows "fst (eval_chain (chain_body (output_chain cfg)) p) =
    (if \<exists>t\<in>set (triggers (s_Outbound st)). may_fire t (pk_flags p) then Queue (unat (nf_OutQueue cfg)) else Accept)"
proof -
  have "queued_by gn_Outbound cfg p \<longleftrightarrow> selects (gn_Outbound g) (pk_flags p)"
    using assms(1,2,3,7) by (auto simp: queued_by_def distinct_map inj_on_def)
  also have "\<dots> \<longleftrightarrow> (\<exists>t\<in>set (triggers (s_Outbound st)). may_fire t (pk_flags p))"
    unfolding assms(4) by (simp add: Of_def selects_may_fire)
  finally show ?thesis using assms(5,6) by (simp add: output_chain_means)
qed

definition ex_syn_strategy :: Strategy where
  "ex_syn_strategy = \<lparr>s_Outbound = [Some (Some \<lparr>t_Protocol = ''TCP'', t_Field = ''flags'', t_String = ''[TCP:flags:SA]''\<rparr>)],
     s_Inbound = [], s_Apply = \<lambda>raw _. Inr [raw]\<rparr>"

definition ex_table :: Config where
  "ex_table = \<lparr>nf_Table = ''geneva_server'', nf_Port = 443, nf_Outbound = no_selector, nf_Inbound = no_selector,
     nf_Generations = [\<lparr>gn_ID = 7, gn_Outbound = sc_Outbound (Of (Some ex_syn_strategy)), gn_Inbound = no_selector\<rparr>],
     nf_ActiveGeneration = 7, nf_NeutralizeNew = False, nf_Censor = True, nf_OutQueue = 200, nf_InQueue = 201,
     nf_BypassUID = 999, nf_NFTPath = ''nft''\<rparr>"

definition ex_synack :: nft_packet where
  "ex_synack = \<lparr>pk_sport = 443, pk_dport = 5000, pk_uid = 0, pk_mark = 0x67007abc, pk_flags = 0x12, pk_new = False, pk_length = 40\<rparr>"

theorem triggers_are_steered_witness:
  "fst (eval_chain (chain_body (output_chain ex_table)) ex_synack) = Queue 200"
proof -
  have fires: "\<exists>t\<in>set (triggers (s_Outbound ex_syn_strategy)). may_fire t (pk_flags ex_synack)"
    by code_simp
  have "fst (eval_chain (chain_body (output_chain ex_table)) ex_synack) =
    (if \<exists>t\<in>set (triggers (s_Outbound ex_syn_strategy)). may_fire t (pk_flags ex_synack)
     then Queue (unat (nf_OutQueue ex_table)) else Accept)"
  proof (rule triggers_are_steered [where g = "hd (generations ex_table)", OF refl])
    show "ID (pk_mark ex_synack) = (gn_ID (hd (generations ex_table)), True)" by code_simp
  qed (simp_all add: ex_table_def ex_synack_def generations_def)
  with fires show ?thesis by (simp add: ex_table_def)
qed

end
