(* ===== verification/Netlink_Bytes.thy ===== *)
theory Netlink_Bytes
  imports Prelude
begin

text \<open>
  Byte strings as \<open>encoding/binary\<close> and slices handle them, and the attribute framing that
  \<open>internal/nfqueue/queue_linux.go\<close> reads and writes: integers of either byte order, writing
  into a buffer, and the alignment of netlink messages.
\<close>

section \<open>Integers\<close>

fun le_put :: "nat \<Rightarrow> nat \<Rightarrow> byte list" where
  "le_put 0 n = []"
| "le_put (Suc k) n = of_nat n # le_put k (n div 256)"

fun le_get :: "byte list \<Rightarrow> nat" where
  "le_get [] = 0"
| "le_get (b # bs) = unat b + 256 * le_get bs"

definition be_put :: "nat \<Rightarrow> nat \<Rightarrow> byte list" where
  "be_put k n = rev (le_put k n)"

definition be_get :: "byte list \<Rightarrow> nat" where
  "be_get bs = le_get (rev bs)"

lemma length_le_put [simp]: "length (le_put k n) = k"
  by (induction k arbitrary: n) simp_all

lemma le_put_Nil [simp]: "le_put k n = [] \<longleftrightarrow> k = 0"
  by (cases k) simp_all

lemma length_be_put [simp]: "length (be_put k n) = k"
  by (simp add: be_put_def)

lemma le_get_put: "le_get (le_put k n) = n mod 256 ^ k"
proof (induction k arbitrary: n)
  case (Suc k)
  have "unat (of_nat n :: byte) = n mod 256" by (simp add: unsigned_of_nat take_bit_eq_mod)
  then show ?case using Suc by (simp add: mod_mult2_eq)
qed simp

lemma be_get_put: "be_get (be_put k n) = n mod 256 ^ k"
  by (simp add: be_get_def be_put_def le_get_put)

lemma le_get_word [simp]:
  "le_get (le_put 2 (unat (v :: u16))) = unat v" "le_get (le_put 4 (unat (w :: u32))) = unat w"
proof -
  have "unat v < 2 ^ LENGTH(16)" "unat w < 2 ^ LENGTH(32)" by (rule unsigned_less)+
  then show "le_get (le_put 2 (unat v)) = unat v" "le_get (le_put 4 (unat w)) = unat w"
    by (simp_all add: le_get_put)
qed

lemma be_get_word [simp]:
  "be_get (be_put 2 (unat (v :: u16))) = unat v" "be_get (be_put 4 (unat (w :: u32))) = unat w"
  by (simp_all add: be_get_def be_put_def)

section \<open>Buffers\<close>

text \<open>Writing bytes at an offset of a buffer, as \<open>copy\<close> and the \<open>Put\<close> functions do; what does not
  fit is left out.\<close>

definition put_at :: "nat \<Rightarrow> byte list \<Rightarrow> byte list \<Rightarrow> byte list" where
  "put_at off xs b = take off b @ take (length b - off) xs @ drop (off + length xs) b"

lemma length_put_at [simp]: "off \<le> length b \<Longrightarrow> length (put_at off xs b) = length b"
  by (simp add: put_at_def)

lemma put_at_append:
  "put_at (length a + k) xs (a @ b) = a @ put_at k xs b"
  by (simp add: put_at_def)

text \<open>Writing the next field of a buffer whose front is already known.\<close>

lemma put_next:
  assumes "length a = off" and "length xs \<le> length b"
  shows "put_at off xs (a @ b) = (a @ xs) @ drop (length xs) b"
  using put_at_append [of a 0 xs b] assms by (simp add: put_at_def)

section \<open>Alignment\<close>

definition nlmsgAlignTo :: nat where "nlmsgAlignTo = 4"

text \<open>\<open>(n + 3) & ^3\<close> on a length.\<close>

definition nlmsgAlign :: "nat \<Rightarrow> nat" where
  "nlmsgAlign n = (n + nlmsgAlignTo - 1) div nlmsgAlignTo * nlmsgAlignTo"

lemma nlmsgAlign_bounds: "n \<le> nlmsgAlign n" "nlmsgAlign n < n + 4"
  unfolding nlmsgAlign_def nlmsgAlignTo_def by presburger+

lemma nlmsgAlign_pos [simp]: "0 < n \<Longrightarrow> 0 < nlmsgAlign n"
  using nlmsgAlign_bounds(1) [of n] by linarith

end
