(* ===== verification/Nfqueue_Queue.thy ===== *)
theory Nfqueue_Queue
  imports Netlink_Bytes
begin

text \<open>
  \<open>internal/nfqueue/queue_linux.go\<close>: one bound NFQUEUE. Reading walks the netlink messages of
  one \<open>recvmsg\<close> in place; accepts are deferred and go out as one batch verdict; verdicts are
  marshalled into a buffer that is reused and still holds the bytes of earlier messages.
\<close>

section \<open>Constants\<close>

definition nfnlSubsysQueue :: nat where "nfnlSubsysQueue = 3"
definition nfqnlMsgPacket :: nat where "nfqnlMsgPacket = 0"
definition nfqnlMsgVerdict :: nat where "nfqnlMsgVerdict = 1"
definition nfqnlMsgConfig :: nat where "nfqnlMsgConfig = 2"
definition nfqnlMsgVerdictBatch :: nat where "nfqnlMsgVerdictBatch = 3"
definition nfqaPacketHdr :: u16 where "nfqaPacketHdr = 1"
definition nfqaMark :: u16 where "nfqaMark = 3"
definition nfqaVerdictHdr :: u16 where "nfqaVerdictHdr = 2"
definition nfqaPayload :: u16 where "nfqaPayload = 10"
definition nfqaCt :: u16 where "nfqaCt = 11"
definition nfqaCapLen :: u16 where "nfqaCapLen = 13"
definition ctaMark :: u16 where "ctaMark = 8"
definition nfqaCfgCmd :: u16 where "nfqaCfgCmd = 1"
definition nfqaCfgParams :: u16 where "nfqaCfgParams = 2"
definition nfqaCfgQueueMaxLen :: u16 where "nfqaCfgQueueMaxLen = 3"
definition nfqaCfgMask :: u16 where "nfqaCfgMask = 4"
definition nfqaCfgFlags :: u16 where "nfqaCfgFlags = 5"
definition nfqaCfgFFailOpen :: u32 where "nfqaCfgFFailOpen = 1"
definition nfqaCfgFConntrack :: u32 where "nfqaCfgFConntrack = 2"
definition nfqaCfgFGSO :: u32 where "nfqaCfgFGSO = 4"
definition nfqnlCfgCmdBind :: byte where "nfqnlCfgCmdBind = 1"
definition nfqnlCfgCmdPfBind :: byte where "nfqnlCfgCmdPfBind = 3"
definition nfqnlCfgCmdPfUnbind :: byte where "nfqnlCfgCmdPfUnbind = 4"
definition nfqnlCopyPacket :: byte where "nfqnlCopyPacket = 2"
definition nfDrop :: u32 where "nfDrop = 0"
definition nfAccept :: u32 where "nfAccept = 1"
definition nlmsgHdrLen :: nat where "nlmsgHdrLen = 16"
definition nfgenmsgLen :: nat where "nfgenmsgLen = 4"
definition nlaHdrLen :: nat where "nlaHdrLen = 4"

lemmas nfq_sizes = nlmsgHdrLen_def nfgenmsgLen_def nlaHdrLen_def

section \<open>Reading packets\<close>

record packet =
  pa_id :: u32
  pa_generationMark :: u32
  pa_routingMark :: u32
  pa_payload :: "byte list"
  pa_truncated :: bool

definition no_packet :: packet where
  "no_packet = \<lparr>pa_id = 0, pa_generationMark = 0, pa_routingMark = 0, pa_payload = [], pa_truncated = False\<rparr>"

text \<open>The header of an attribute: its length, and its type without the two flag bits.\<close>

definition attr_len :: "byte list \<Rightarrow> nat" where
  "attr_len attrs = le_get (take 2 attrs)"

definition attr_type :: "byte list \<Rightarrow> u16" where
  "attr_type attrs = of_nat (le_get (take 2 (drop 2 attrs))) AND 0x3fff"

definition attr_data :: "byte list \<Rightarrow> byte list" where
  "attr_data attrs = take (attr_len attrs - nlaHdrLen) (drop nlaHdrLen attrs)"

definition attr_next :: "byte list \<Rightarrow> byte list" where
  "attr_next attrs = drop (min (nlmsgAlign (attr_len attrs)) (length attrs)) attrs"

definition uint32 :: "byte list \<Rightarrow> u32" where
  "uint32 data = of_nat (be_get (take 4 data))"

lemma attr_next_shorter: "nlaHdrLen \<le> attr_len attrs \<Longrightarrow> nlaHdrLen \<le> length attrs \<Longrightarrow> length (attr_next attrs) < length attrs"
  using nlmsgAlign_bounds(1) [of "attr_len attrs"] by (simp add: attr_next_def nfq_sizes)

function conntrackMark :: "byte list \<Rightarrow> (u32 \<times> bool) res" where
  "conntrackMark attrs =
     (if length attrs < nlaHdrLen then Inr (0, False)
      else if attr_len attrs < nlaHdrLen \<or> attr_len attrs > length attrs
      then Inl (Msg ''malformed conntrack attribute'')
      else if attr_type attrs = ctaMark
      then if attr_len attrs < nlaHdrLen + 4 then Inl (Msg ''short CTA_MARK'')
           else Inr (uint32 (drop nlaHdrLen attrs), True)
      else conntrackMark (attr_next attrs))"
  by pat_completeness auto
termination by (relation "measure length") (auto simp: not_less attr_next_shorter)

declare conntrackMark.simps [simp del]

definition parse_attr :: "u16 \<Rightarrow> byte list \<Rightarrow> packet \<Rightarrow> u32 \<Rightarrow> (packet \<times> u32) res" where
  "parse_attr atype data p capLen =
     (if atype = nfqaPacketHdr then
        if length data < 4 then Inl (Msg ''short nfqnl_msg_packet_hdr'')
        else Inr (p\<lparr>pa_id := uint32 data\<rparr>, capLen)
      else if atype = nfqaMark then
        Inr (if length data \<ge> 4 then p\<lparr>pa_routingMark := uint32 data\<rparr> else p, capLen)
      else if atype = nfqaCt then
        (case conntrackMark data of
           Inl e \<Rightarrow> Inl e
         | Inr (mark, found) \<Rightarrow> Inr (if found then p\<lparr>pa_generationMark := mark\<rparr> else p, capLen))
      else if atype = nfqaPayload then Inr (p\<lparr>pa_payload := data\<rparr>, capLen)
      else if atype = nfqaCapLen then Inr (p, if length data \<ge> 4 then uint32 data else capLen)
      else Inr (p, capLen))"

function parse_attrs :: "byte list \<Rightarrow> packet \<Rightarrow> u32 \<Rightarrow> (packet \<times> u32) res" where
  "parse_attrs attrs p capLen =
     (if length attrs < nlaHdrLen then Inr (p, capLen)
      else if attr_len attrs < nlaHdrLen \<or> attr_len attrs > length attrs
      then Inl (Msg ''malformed netlink attribute'')
      else case parse_attr (attr_type attrs) (attr_data attrs) p capLen of
             Inl e \<Rightarrow> Inl e
           | Inr (p, capLen) \<Rightarrow> parse_attrs (attr_next attrs) p capLen)"
  by pat_completeness auto
termination by (relation "measure (length \<circ> fst)") (auto simp: not_less attr_next_shorter)

declare parse_attrs.simps [simp del]

definition parsePacket :: "byte list \<Rightarrow> packet res" where
  "parsePacket body =
     (if length body < nfgenmsgLen then Inl (Msg ''nfnetlink message shorter than its header'')
      else case parse_attrs (drop nfgenmsgLen body) no_packet 0 of
             Inl e \<Rightarrow> Inl e
           | Inr (p, capLen) \<Rightarrow>
               Inr (if capLen \<noteq> 0 \<and> unat capLen > length (pa_payload p) then p\<lparr>pa_truncated := True\<rparr> else p))"

text \<open>
  \<open>forEachPacket\<close>: \<open>fn\<close> is the callback and \<open>stopped\<close> the context check, both over a state of the
  caller.
\<close>

function forEachPacket ::
  "('s \<Rightarrow> bool \<times> 's) \<Rightarrow> (packet \<Rightarrow> 's \<Rightarrow> err option \<times> 's) \<Rightarrow> byte list \<Rightarrow> 's \<Rightarrow> err option \<times> 's" where
  "forEachPacket stopped fn b s =
     (if length b < nlmsgHdrLen then (None, s)
      else
        let msgLen = le_get (take 4 b); msgType = le_get (take 2 (drop 4 b))
        in if msgLen < nlmsgHdrLen \<or> msgLen > length b then (Some (Msg ''malformed netlink message''), s)
           else
             case (if msgType = nfnlSubsysQueue * 256 + nfqnlMsgPacket
                   then (case parsePacket (take (msgLen - nlmsgHdrLen) (drop nlmsgHdrLen b)) of
                           Inl e \<Rightarrow> (Some e, s)
                         | Inr p \<Rightarrow> fn p s)
                   else (None, s)) of
               (Some e, s) \<Rightarrow> (Some e, s)
             | (None, s) \<Rightarrow>
                 (case stopped s of
                    (True, s) \<Rightarrow> (None, s)
                  | (False, s) \<Rightarrow>
                      forEachPacket stopped fn (drop (min (nlmsgAlign msgLen) (length b)) b) s))"
  by pat_completeness auto
termination
proof (relation "measure (\<lambda>(_, _, b, _). length b)", goal_cases)
  case 1
  show ?case by simp
next
  case (2 stopped fn b s msgLen msgType)
  then show ?case using nlmsgAlign_bounds(1) [of msgLen] by (auto simp: nfq_sizes)
qed

declare forEachPacket.simps [simp del]

section \<open>The queue and its verdicts\<close>

record queue =
  q_num :: u16
  q_family :: byte
  q_vbuf :: "byte list" \<comment> \<open>the whole capacity of the reusable buffer, with what it still holds\<close>
  q_pendingAccept :: u32
  q_hasPending :: bool

text \<open>The message, written field by field over the stale bytes of the buffer.\<close>

definition verdict_total :: "byte list option \<Rightarrow> nat" where
  "verdict_total replacement =
     nlmsgHdrLen + nfgenmsgLen + nlaHdrLen + 8 +
       (case replacement of None \<Rightarrow> 0 | Some r \<Rightarrow> nlaHdrLen + nlmsgAlign (length r))"

definition put_replacement :: "nat \<Rightarrow> byte list option \<Rightarrow> byte list \<Rightarrow> byte list" where
  "put_replacement off replacement b =
     (case replacement of None \<Rightarrow> b
      | Some r \<Rightarrow>
          let b = put_at off (le_put 2 (nlaHdrLen + length r)) b;
              b = put_at (off + 2) (le_put 2 (unat nfqaPayload)) b;
              b = put_at (off + nlaHdrLen) r b
          in put_at (off + nlaHdrLen + length r) (replicate (length b - (off + nlaHdrLen + length r)) 0) b)"

definition put_fields :: "queue \<Rightarrow> nat \<Rightarrow> nat \<Rightarrow> u32 \<Rightarrow> u32 \<Rightarrow> byte list \<Rightarrow> byte list" where
  "put_fields q size_n msgType pid v b =
     (let b = put_at 8 (replicate 8 0) b;
          b = put_at 0 (le_put 4 size_n) b;
          b = put_at 4 (le_put 2 (nfnlSubsysQueue * 256 + msgType)) b;
          b = put_at 6 (le_put 2 1) b;
          off = nlmsgHdrLen;
          b = put_at off [q_family q] b;
          b = put_at (off + 1) [0] b;
          b = put_at (off + 2) (be_put 2 (unat (q_num q))) b;
          off = off + nfgenmsgLen;
          b = put_at off (le_put 2 (nlaHdrLen + 8)) b;
          b = put_at (off + 2) (le_put 2 (unat nfqaVerdictHdr)) b;
          b = put_at (off + 4) (be_put 4 (unat v)) b
      in put_at (off + 8) (be_put 4 (unat pid)) b)"

definition marshalVerdict ::
  "nat \<Rightarrow> u32 \<Rightarrow> u32 \<Rightarrow> byte list option \<Rightarrow> queue \<Rightarrow> byte list \<times> queue" where
  "marshalVerdict msgType pid v replacement q =
     (let size_n = verdict_total replacement;
          q = (if length (q_vbuf q) < size_n then q\<lparr>q_vbuf := replicate (size_n * 2) 0\<rparr> else q);
          b = put_fields q size_n msgType pid v (take size_n (q_vbuf q));
          b = put_replacement (nlmsgHdrLen + nfgenmsgLen + nlaHdrLen + 8) replacement b
      in (b, q\<lparr>q_vbuf := b @ drop size_n (q_vbuf q)\<rparr>))"

text \<open>\<open>send\<close> is the field of that name: \<open>writeRaw\<close> in the program.\<close>

type_synonym 'w sender = "byte list \<Rightarrow> 'w \<Rightarrow> err option \<times> 'w"

definition sendVerdict ::
  "'w sender \<Rightarrow> nat \<Rightarrow> u32 \<Rightarrow> u32 \<Rightarrow> byte list option \<Rightarrow> queue \<times> 'w \<Rightarrow> err option \<times> queue \<times> 'w" where
  "sendVerdict send msgType pid v replacement = (\<lambda>(q, w).
     case marshalVerdict msgType pid v replacement q of
       (b, q) \<Rightarrow> (case send b w of (e, w) \<Rightarrow> (e, q, w)))"

definition queue_accept :: "u32 \<Rightarrow> queue \<Rightarrow> queue" where
  "queue_accept pid q =
     (let q = (if \<not> q_hasPending q \<or> pid > q_pendingAccept q then q\<lparr>q_pendingAccept := pid\<rparr> else q)
      in q\<lparr>q_hasPending := True\<rparr>)"

definition flush :: "'w sender \<Rightarrow> queue \<times> 'w \<Rightarrow> err option \<times> queue \<times> 'w" where
  "flush send = (\<lambda>(q, w).
     if \<not> q_hasPending q then (None, q, w)
     else sendVerdict send nfqnlMsgVerdictBatch (q_pendingAccept q) nfAccept None (q\<lparr>q_hasPending := False\<rparr>, w))"

definition verdict ::
  "'w sender \<Rightarrow> u32 \<Rightarrow> u32 \<Rightarrow> byte list option \<Rightarrow> queue \<times> 'w \<Rightarrow> err option \<times> queue \<times> 'w" where
  "verdict send pid v replacement = (\<lambda>(q, w).
     case (if q_hasPending q \<and> q_pendingAccept q < pid then flush send (q, w) else (None, q, w)) of
       (Some e, q, w) \<Rightarrow> (Some e, q, w)
     | (None, q, w) \<Rightarrow> sendVerdict send nfqnlMsgVerdict pid v replacement (q\<lparr>q_hasPending := False\<rparr>, w))"

text \<open>
  \<open>read\<close>: \<open>recv\<close> is \<open>recvmsg\<close> and \<open>finish\<close> the flush, both over the state of the callback, which
  contains the queue and the world.
\<close>

definition read_queue ::
  "('s \<Rightarrow> byte list res \<times> 's) \<Rightarrow> ('s \<Rightarrow> bool \<times> 's) \<Rightarrow> (packet \<Rightarrow> 's \<Rightarrow> err option \<times> 's) \<Rightarrow>
     ('s \<Rightarrow> err option \<times> 's) \<Rightarrow> 's \<Rightarrow> err option \<times> 's" where
  "read_queue recv stopped fn finish s =
     (case recv s of
        (Inl e, s) \<Rightarrow> (Some e, s)
      | (Inr b, s) \<Rightarrow>
          (case forEachPacket stopped fn b s of
             (Some e, s) \<Rightarrow> (Some e, s)
           | (None, s) \<Rightarrow> finish s))"

section \<open>Opening\<close>

text \<open>One message of \<open>mdlayher/netlink\<close>; its attributes are marshalled by that library.\<close>

record configStep =
  cs_what :: string
  cs_resid :: u16
  cs_attrs :: "(u16 \<times> byte list) list"

definition cfgCmd :: "byte \<Rightarrow> byte \<Rightarrow> byte list" where
  "cfgCmd cmd family = [cmd, 0, 0, family]"

definition cfgParams :: "u32 \<Rightarrow> byte list" where
  "cfgParams maxPacketLen = be_put 4 (unat maxPacketLen) @ [nfqnlCopyPacket]"

definition be32 :: "u32 \<Rightarrow> byte list" where
  "be32 v = be_put 4 (unat v)"

definition queueConfigSteps :: "byte \<Rightarrow> u16 \<Rightarrow> u32 \<Rightarrow> u32 \<Rightarrow> configStep list" where
  "queueConfigSteps family num maxPacketLen maxQueueLen =
     [\<lparr>cs_what = ''unbind family'', cs_resid = 0, cs_attrs = [(nfqaCfgCmd, cfgCmd nfqnlCfgCmdPfUnbind family)]\<rparr>,
      \<lparr>cs_what = ''bind family'', cs_resid = 0, cs_attrs = [(nfqaCfgCmd, cfgCmd nfqnlCfgCmdPfBind family)]\<rparr>,
      \<lparr>cs_what = ''bind queue'', cs_resid = num, cs_attrs = [(nfqaCfgCmd, cfgCmd nfqnlCfgCmdBind family)]\<rparr>,
      \<lparr>cs_what = ''enable required fail-open and conntrack metadata'', cs_resid = num,
       cs_attrs = [(nfqaCfgMask, be32 (nfqaCfgFFailOpen OR nfqaCfgFConntrack OR nfqaCfgFGSO)),
                   (nfqaCfgFlags, be32 (nfqaCfgFFailOpen OR nfqaCfgFConntrack))]\<rparr>,
      \<lparr>cs_what = ''set copy mode'', cs_resid = num, cs_attrs = [(nfqaCfgParams, cfgParams maxPacketLen)]\<rparr>,
      \<lparr>cs_what = ''set queue length'', cs_resid = num, cs_attrs = [(nfqaCfgQueueMaxLen, be32 maxQueueLen)]\<rparr>]"

text \<open>What opening calls: the netlink library and the kernel behind it.\<close>

record 'w netlink =
  nl_Dial :: "'w \<Rightarrow> err option \<times> 'w"
  nl_SyscallConn :: "'w \<Rightarrow> err option \<times> 'w"
  nl_MarshalAttributes :: "(u16 \<times> byte list) list \<Rightarrow> byte list res"
  nl_Execute :: "nat \<Rightarrow> byte list \<Rightarrow> 'w \<Rightarrow> err option \<times> 'w"
  nl_Close :: "'w \<Rightarrow> err option \<times> 'w"

definition queue_config :: "'w netlink \<Rightarrow> queue \<Rightarrow> u16 \<Rightarrow> (u16 \<times> byte list) list \<Rightarrow> 'w \<Rightarrow> err option \<times> 'w" where
  "queue_config N q resid attrs w =
     (case nl_MarshalAttributes N attrs of
        Inl e \<Rightarrow> (Some e, w)
      | Inr data \<Rightarrow>
          nl_Execute N (nfnlSubsysQueue * 256 + nfqnlMsgConfig)
            ([q_family q, 0] @ be_put 2 (unat resid) @ data) w)"

fun config_steps :: "'w netlink \<Rightarrow> queue \<Rightarrow> configStep list \<Rightarrow> 'w \<Rightarrow> err option \<times> 'w" where
  "config_steps N q [] w = (None, w)"
| "config_steps N q (st # rest) w =
     (case queue_config N q (cs_resid st) (cs_attrs st) w of
        (Some e, w) \<Rightarrow> (Some (Wrap (cs_what st) [e]), snd (nl_Close N w))
      | (None, w) \<Rightarrow> config_steps N q rest w)"

definition openQueue :: "'w netlink \<Rightarrow> u16 \<Rightarrow> u32 \<Rightarrow> u32 \<Rightarrow> 'w \<Rightarrow> queue res \<times> 'w" where
  "openQueue N num maxPacketLen maxQueueLen w =
     (case nl_Dial N w of
        (Some e, w) \<Rightarrow> (Inl (Wrap ''dial netlink'' [e]), w)
      | (None, w) \<Rightarrow>
          let q = \<lparr>q_num = num, q_family = 2, q_vbuf = replicate 4096 0, q_pendingAccept = 0, q_hasPending = False\<rparr>
          in case nl_SyscallConn N w of
               (Some e, w) \<Rightarrow> (Inl (Wrap ''raw netlink conn'' [e]), snd (nl_Close N w))
             | (None, w) \<Rightarrow>
                 (case config_steps N q (queueConfigSteps (q_family q) num maxPacketLen maxQueueLen) w of
                    (Some e, w) \<Rightarrow> (Inl e, w)
                  | (None, w) \<Rightarrow> (Inr q, w)))"

definition queue_Close :: "'w netlink \<Rightarrow> 'w \<Rightarrow> err option \<times> 'w" where
  "queue_Close N = nl_Close N"

section \<open>What is written\<close>

text \<open>The verdict message as a concatenation of its fields.\<close>

definition verdict_fields :: "queue \<Rightarrow> nat \<Rightarrow> nat \<Rightarrow> u32 \<Rightarrow> u32 \<Rightarrow> byte list" where
  "verdict_fields q size_n msgType pid v =
     le_put 4 size_n @ le_put 2 (nfnlSubsysQueue * 256 + msgType) @ le_put 2 1 @
     replicate 8 0 @ [q_family q] @ [0] @ be_put 2 (unat (q_num q)) @
     le_put 2 (nlaHdrLen + 8) @ le_put 2 (unat nfqaVerdictHdr) @ be_put 4 (unat v) @ be_put 4 (unat pid)"

definition verdict_message :: "queue \<Rightarrow> nat \<Rightarrow> u32 \<Rightarrow> u32 \<Rightarrow> byte list option \<Rightarrow> byte list" where
  "verdict_message q msgType pid v replacement =
     verdict_fields q (verdict_total replacement) msgType pid v @
     (case replacement of None \<Rightarrow> []
      | Some r \<Rightarrow> le_put 2 (nlaHdrLen + length r) @ le_put 2 (unat nfqaPayload) @ r @
          replicate (nlmsgAlign (length r) - length r) 0)"

lemma chunk: "n + m \<le> length xs \<Longrightarrow> \<exists>a b. xs = a @ b \<and> length a = n \<and> m \<le> length b"
  by (rule exI [of _ "take n xs"], rule exI [of _ "drop n xs"]) simp

lemma length_verdict_fields: "length (verdict_fields q size_n msgType pid v) = 32"
  by (simp add: verdict_fields_def)

text \<open>A buffer cut into the fields of the message: writing one of them.\<close>

definition glue :: "byte list list \<Rightarrow> byte list" where
  "glue = concat"

lemma put_chunk:
  assumes "k < length cs" and "length x = length (cs ! k)" and "off = sum_list (map length (take k cs))"
  shows "put_at off x (glue cs) = glue (cs[k := x])"
proof -
  have cs: "glue cs = concat (take k cs) @ cs ! k @ concat (drop (Suc k) cs)"
    using assms(1) unfolding glue_def by (metis id_take_nth_drop concat.simps(2) concat_append)
  have "length (concat (take k cs)) = off" using assms(3) by (simp add: length_concat)
  then have "put_at off x (glue cs) = concat (take k cs) @ x @ concat (drop (Suc k) cs)"
    unfolding cs put_at_def using assms(2) by simp
  then show ?thesis using assms(1) by (simp add: glue_def upd_conv_take_nth_drop)
qed

lemma put_fields_chunks:
  assumes "length a0 = 4" "length a1 = 2" "length a2 = 2" "length a3 = 8" "length a4 = 1" "length a5 = 1"
    "length a6 = 2" "length a7 = 2" "length a8 = 2" "length a9 = 4" "length a10 = 4"
  shows "put_fields q size_n msgType pid v (glue [a0, a1, a2, a3, a4, a5, a6, a7, a8, a9, a10, r]) =
    glue [le_put 4 size_n, le_put 2 (nfnlSubsysQueue * 256 + msgType), le_put 2 1, replicate 8 0, [q_family q], [0],
      be_put 2 (unat (q_num q)), le_put 2 (nlaHdrLen + 8), le_put 2 (unat nfqaVerdictHdr), be_put 4 (unat v),
      be_put 4 (unat pid), r]"
  unfolding put_fields_def Let_def nfq_sizes
  by (simp add: assms put_chunk [where k = 3] put_chunk [where k = 0] put_chunk [where k = 1] put_chunk [where k = 2]
      put_chunk [where k = 4] put_chunk [where k = 5] put_chunk [where k = 6] put_chunk [where k = 7]
      put_chunk [where k = 8] put_chunk [where k = 9] put_chunk [where k = 10] del: le_put.simps replicate.simps)

lemma put_fields_eq:
  assumes "32 \<le> length b"
  shows "put_fields q size_n msgType pid v b = verdict_fields q size_n msgType pid v @ drop 32 b"
proof -
  obtain a0 r0 where 0: "b = a0 @ r0" "length a0 = 4" "28 \<le> length r0"
    using chunk [of 4 28 b] assms by auto
  obtain a1 r1 where 1: "r0 = a1 @ r1" "length a1 = 2" "26 \<le> length r1"
    using chunk [of 2 26 r0] 0(3) by auto
  obtain a2 r2 where 2: "r1 = a2 @ r2" "length a2 = 2" "24 \<le> length r2"
    using chunk [of 2 24 r1] 1(3) by auto
  obtain a3 r3 where 3: "r2 = a3 @ r3" "length a3 = 8" "16 \<le> length r3"
    using chunk [of 8 16 r2] 2(3) by auto
  obtain a4 r4 where 4: "r3 = a4 @ r4" "length a4 = 1" "15 \<le> length r4"
    using chunk [of 1 15 r3] 3(3) by auto
  obtain a5 r5 where 5: "r4 = a5 @ r5" "length a5 = 1" "14 \<le> length r5"
    using chunk [of 1 14 r4] 4(3) by auto
  obtain a6 r6 where 6: "r5 = a6 @ r6" "length a6 = 2" "12 \<le> length r6"
    using chunk [of 2 12 r5] 5(3) by auto
  obtain a7 r7 where 7: "r6 = a7 @ r7" "length a7 = 2" "10 \<le> length r7"
    using chunk [of 2 10 r6] 6(3) by auto
  obtain a8 r8 where 8: "r7 = a8 @ r8" "length a8 = 2" "8 \<le> length r8"
    using chunk [of 2 8 r7] 7(3) by auto
  obtain a9 r9 where 9: "r8 = a9 @ r9" "length a9 = 4" "4 \<le> length r9"
    using chunk [of 4 4 r8] 8(3) by auto
  obtain a10 r10 where 10: "r9 = a10 @ r10" "length a10 = 4" "0 \<le> length r10"
    using chunk [of 4 0 r9] 9(3) by auto
  have b: "b = glue [a0, a1, a2, a3, a4, a5, a6, a7, a8, a9, a10, r10]"
    by (simp add: glue_def 0(1) 1(1) 2(1) 3(1) 4(1) 5(1) 6(1) 7(1) 8(1) 9(1) 10(1))
  have "drop 32 b = r10"
    unfolding b glue_def by (simp add: 0(2) 1(2) 2(2) 3(2) 4(2) 5(2) 6(2) 7(2) 8(2) 9(2) 10(2))
  then show ?thesis
    unfolding b put_fields_chunks [OF 0(2) 1(2) 2(2) 3(2) 4(2) 5(2) 6(2) 7(2) 8(2) 9(2) 10(2)]
    by (simp add: glue_def verdict_fields_def)
qed

lemma put_replacement_eq:
  assumes "length a = 32" and "length b = verdict_total replacement - 32"
  shows "put_replacement 32 replacement (a @ b) = a @
     (case replacement of None \<Rightarrow> []
      | Some r \<Rightarrow> le_put 2 (nlaHdrLen + length r) @ le_put 2 (unat nfqaPayload) @ r @
          replicate (nlmsgAlign (length r) - length r) 0)"
proof (cases replacement)
  case None
  with assms show ?thesis by (simp add: put_replacement_def verdict_total_def nfq_sizes)
next
  case (Some r)
  then have n: "length b = 4 + nlmsgAlign (length r)" using assms by (simp add: verdict_total_def nfq_sizes)
  let ?x = "le_put 2 (nlaHdrLen + length r)" and ?y = "le_put 2 (unat nfqaPayload)"
  define rest where "rest = drop (length r) (drop 2 (drop 2 b))"
  have al: "length r \<le> nlmsgAlign (length r)" by (rule nlmsgAlign_bounds)
  have rest: "length rest = nlmsgAlign (length r) - length r" using n by (simp add: rest_def)
  have 1: "put_at 32 ?x (a @ b) = (a @ ?x) @ drop 2 b"
    using put_next [of a 32 ?x b] assms(1) n by simp
  have 2: "put_at 34 ?y ((a @ ?x) @ drop 2 b) = ((a @ ?x) @ ?y) @ drop 2 (drop 2 b)"
    using put_next [of "a @ ?x" 34 ?y "drop 2 b"] assms(1) n by simp
  have 3: "put_at 36 r (((a @ ?x) @ ?y) @ drop 2 (drop 2 b)) = (((a @ ?x) @ ?y) @ r) @ rest"
    unfolding rest_def using put_next [of "(a @ ?x) @ ?y" 36 r "drop 2 (drop 2 b)"] assms(1) n al by simp
  have 4: "put_at (36 + length r) (replicate (length rest) 0) ((((a @ ?x) @ ?y) @ r) @ rest) =
      ((((a @ ?x) @ ?y) @ r) @ replicate (length rest) 0) @ drop (length rest) rest"
    using put_next [of "((a @ ?x) @ ?y) @ r" "36 + length r" "replicate (length rest) 0" rest] assms(1) by simp
  have len: "length ((((a @ ?x) @ ?y) @ r) @ rest) - (36 + length r) = length rest" using assms(1) by simp
  have "put_replacement 32 (Some r) (a @ b) =
      put_at (36 + length r) (replicate (length ((((a @ ?x) @ ?y) @ r) @ rest) - (36 + length r)) 0) ((((a @ ?x) @ ?y) @ r) @ rest)"
    using 1 2 3 by (simp only: put_replacement_def Let_def option.case nlaHdrLen_def) simp
  also have "\<dots> = ((((a @ ?x) @ ?y) @ r) @ replicate (length rest) 0) @ drop (length rest) rest"
    unfolding len by (rule 4)
  finally show ?thesis using Some rest by simp
qed

lemma marshalVerdict_message:
  "fst (marshalVerdict msgType pid v replacement q) = verdict_message q msgType pid v replacement"
proof -
  let ?n = "verdict_total replacement"
  define buf where "buf = take ?n (if length (q_vbuf q) < ?n then replicate (?n * 2) 0 else q_vbuf q)"
  have len: "length buf = ?n" "32 \<le> ?n" by (simp_all add: buf_def verdict_total_def nfq_sizes)
  have fields: "put_fields (q\<lparr>q_vbuf := w\<rparr>) = put_fields q" "verdict_fields (q\<lparr>q_vbuf := w\<rparr>) = verdict_fields q" for w
    by (simp_all add: fun_eq_iff put_fields_def verdict_fields_def)
  have "fst (marshalVerdict msgType pid v replacement q) = put_replacement 32 replacement (put_fields q ?n msgType pid v buf)"
    by (simp add: marshalVerdict_def Let_def buf_def fields nfq_sizes)
  also have "\<dots> = verdict_message q msgType pid v replacement"
    using len put_replacement_eq [of "verdict_fields q ?n msgType pid v" "drop 32 buf" replacement]
    by (simp add: put_fields_eq verdict_message_def length_verdict_fields)
  finally show ?thesis .
qed

end
