(* ===== verification/Nfqueue_Wire.thy ===== *)
theory Nfqueue_Wire
  imports Nfqueue_Queue
begin

text \<open>
  What the kernel sends, as values and as bytes, and that the parser of
  \<open>internal/nfqueue/queue_linux.go\<close> reads the values back: attributes in any order, nested
  conntrack attributes, unknown ones skipped, the last attribute or message padded or not.
\<close>

section \<open>Framing\<close>

type_synonym raw_attr = "nat \<times> byte list"

definition attr_bytes :: "raw_attr \<Rightarrow> byte list" where
  "attr_bytes a = le_put 2 (nlaHdrLen + length (snd a)) @ le_put 2 (fst a) @ snd a"

definition padding :: "nat \<Rightarrow> byte list" where
  "padding n = replicate (nlmsgAlign n - n) 0"

text \<open>All attributes but the last are padded; the last when \<open>full\<close> says so.\<close>

fun attrs_bytes :: "bool \<Rightarrow> raw_attr list \<Rightarrow> byte list" where
  "attrs_bytes full [] = []"
| "attrs_bytes full [a] = attr_bytes a @ (if full then padding (length (attr_bytes a)) else [])"
| "attrs_bytes full (a # b # as) = attr_bytes a @ padding (length (attr_bytes a)) @ attrs_bytes full (b # as)"

definition fits :: "raw_attr \<Rightarrow> bool" where
  "fits a \<longleftrightarrow> nlaHdrLen + length (snd a) < 65536 \<and> fst a < 65536"

lemma length_attr_bytes [simp]: "length (attr_bytes a) = nlaHdrLen + length (snd a)"
  by (simp add: attr_bytes_def nfq_sizes)

lemma attr_fields:
  assumes "fits a"
  shows "attr_len (attr_bytes a @ rest) = nlaHdrLen + length (snd a)"
    and "attr_type (attr_bytes a @ rest) = of_nat (fst a) AND 0x3fff"
    and "attr_data (attr_bytes a @ rest) = snd a"
    and "drop nlaHdrLen (attr_bytes a @ rest) = snd a @ rest"
proof -
  show len: "attr_len (attr_bytes a @ rest) = nlaHdrLen + length (snd a)"
    using assms by (simp add: attr_len_def attr_bytes_def fits_def le_get_put nfq_sizes)
  show "attr_type (attr_bytes a @ rest) = of_nat (fst a) AND 0x3fff"
    using assms by (simp add: attr_type_def attr_bytes_def fits_def le_get_put)
  show "attr_data (attr_bytes a @ rest) = snd a"
    unfolding attr_data_def len by (simp add: attr_bytes_def nfq_sizes)
  show "drop nlaHdrLen (attr_bytes a @ rest) = snd a @ rest"
    by (simp add: attr_bytes_def nfq_sizes)
qed

lemma attrs_split:
  "attrs_bytes full (a # as) = attr_bytes a @ (if as = [] \<and> \<not> full then [] else padding (length (attr_bytes a))) @ attrs_bytes full as"
  by (cases as) simp_all

lemma attrs_next:
  assumes "fits a"
  shows "attr_next (attrs_bytes full (a # as)) = attrs_bytes full as"
proof -
  let ?n = "nlaHdrLen + length (snd a)"
  let ?p = "if as = [] \<and> \<not> full then [] else padding ?n"
  have n: "?n \<le> nlmsgAlign ?n" by (rule nlmsgAlign_bounds)
  have len: "attr_len (attrs_bytes full (a # as)) = ?n" unfolding attrs_split by (rule attr_fields [OF assms])
  show ?thesis
  proof (cases "as = [] \<and> \<not> full")
    case True
    with n show ?thesis unfolding attr_next_def len unfolding attrs_split by simp
  next
    case False
    with n have "length (attr_bytes a @ ?p) = nlmsgAlign ?n" by (auto simp: padding_def)
    then show ?thesis unfolding attr_next_def len unfolding attrs_split using False by auto
  qed
qed

lemma attrs_head:
  assumes "fits a"
  shows "attr_len (attrs_bytes full (a # as)) = nlaHdrLen + length (snd a)"
    and "attr_type (attrs_bytes full (a # as)) = of_nat (fst a) AND 0x3fff"
    and "attr_data (attrs_bytes full (a # as)) = snd a"
    and "nlaHdrLen + length (snd a) \<le> length (attrs_bytes full (a # as))"
    and "\<exists>rest. drop nlaHdrLen (attrs_bytes full (a # as)) = snd a @ rest"
  unfolding attrs_split using attr_fields [OF assms] by auto

text \<open>One step of each attribute loop.\<close>

lemma conntrackMark_Nil: "conntrackMark [] = Inr (0, False)"
  by (simp add: conntrackMark.simps nfq_sizes)

lemma conntrackMark_Cons:
  assumes "fits a"
  shows "conntrackMark (attrs_bytes full (a # as)) =
    (if of_nat (fst a) AND 0x3fff = ctaMark
     then if length (snd a) < 4 then Inl (Msg ''short CTA_MARK'') else Inr (uint32 (snd a), True)
     else conntrackMark (attrs_bytes full as))"
proof -
  have "length (snd a) \<ge> 4 \<Longrightarrow> uint32 (drop nlaHdrLen (attrs_bytes full (a # as))) = uint32 (snd a)"
    using attrs_head(5) [OF assms, of full as] by (auto simp: uint32_def)
  moreover have "\<not> length (attrs_bytes full (a # as)) < nlaHdrLen" using attrs_head(4) [OF assms, of full as] by simp
  ultimately show ?thesis
    using attrs_head(4) [OF assms, of full as]
    by (subst conntrackMark.simps) (simp add: attrs_head(1,2) [OF assms] attrs_next [OF assms] not_less nfq_sizes)
qed

lemma parse_attrs_Nil: "parse_attrs [] p capLen = Inr (p, capLen)"
  by (simp add: parse_attrs.simps nfq_sizes)

lemma parse_attrs_Cons:
  assumes "fits a"
  shows "parse_attrs (attrs_bytes full (a # as)) p capLen =
    (case parse_attr (of_nat (fst a) AND 0x3fff) (snd a) p capLen of
       Inl e \<Rightarrow> Inl e | Inr (p, capLen) \<Rightarrow> parse_attrs (attrs_bytes full as) p capLen)"
proof -
  have "\<not> length (attrs_bytes full (a # as)) < nlaHdrLen" using attrs_head(4) [OF assms, of full as] by simp
  then show ?thesis
    using attrs_head(4) [OF assms, of full as]
    unfolding parse_attrs.simps [of "attrs_bytes full (a # as)"] attrs_head(1-3) [OF assms] attrs_next [OF assms]
    by (simp add: nfq_sizes)
qed

section \<open>What the kernel says\<close>

datatype kattr =
    KHdr u32 "byte list"
  | KMark u32
  | KCt "raw_attr list" u32 "raw_attr list"
  | KPayload "byte list"
  | KCapLen u32
  | KOther nat "byte list"

definition nested :: nat where "nested = 0x8000"

fun raw_of :: "kattr \<Rightarrow> raw_attr" where
  "raw_of (KHdr pid ext) = (1, be_put 4 (unat pid) @ ext)"
| "raw_of (KMark m) = (3, be_put 4 (unat m))"
| "raw_of (KCt before m after) = (nested + 11, attrs_bytes True (before @ (8, be_put 4 (unat m)) # after))"
| "raw_of (KPayload d) = (10, d)"
| "raw_of (KCapLen n) = (13, be_put 4 (unat n))"
| "raw_of (KOther t d) = (t, d)"

definition unknown :: "u16 set \<Rightarrow> raw_attr \<Rightarrow> bool" where
  "unknown known a \<longleftrightarrow> (of_nat (fst a) :: u16) AND 0x3fff \<notin> known"

fun well_formed :: "kattr \<Rightarrow> bool" where
  "well_formed (KCt before m after) \<longleftrightarrow> fits (raw_of (KCt before m after)) \<and>
     (\<forall>a\<in>set before. fits a \<and> unknown {8} a)"
| "well_formed (KOther t d) \<longleftrightarrow> fits (t, d) \<and> unknown {1, 3, 10, 11, 13} (t, d)"
| "well_formed a \<longleftrightarrow> fits (raw_of a)"

text \<open>What each attribute means for the packet.\<close>

fun tells :: "kattr \<Rightarrow> packet \<times> u32 \<Rightarrow> packet \<times> u32" where
  "tells (KHdr pid ext) (p, n) = (p\<lparr>pa_id := pid\<rparr>, n)"
| "tells (KMark m) (p, n) = (p\<lparr>pa_routingMark := m\<rparr>, n)"
| "tells (KCt before m after) (p, n) = (p\<lparr>pa_generationMark := m\<rparr>, n)"
| "tells (KPayload d) (p, n) = (p\<lparr>pa_payload := d\<rparr>, n)"
| "tells (KCapLen c) (p, n) = (p, c)"
| "tells (KOther t d) (p, n) = (p, n)"

definition said :: "kattr list \<Rightarrow> packet" where
  "said as = (case fold tells as (no_packet, 0) of
     (p, n) \<Rightarrow> p\<lparr>pa_truncated := (unat n > length (pa_payload p))\<rparr>)"

lemma uint32_put [simp]: "uint32 (be_put 4 (unat (w :: u32)) @ ext) = w" "uint32 (be_put 4 (unat w)) = w"
  by (simp_all add: uint32_def)

lemma conntrackMark_found:
  assumes "\<forall>a\<in>set before. fits a \<and> unknown {8} a"
  shows "conntrackMark (attrs_bytes True (before @ (8, be_put 4 (unat m)) # after)) = Inr (m, True)"
  using assms
proof (induction before)
  case Nil
  have "fits (8, be_put 4 (unat m))" by (simp add: fits_def nfq_sizes)
  then show ?case by (simp add: conntrackMark_Cons ctaMark_def)
next
  case (Cons a before)
  then show ?case by (simp add: conntrackMark_Cons unknown_def ctaMark_def)
qed

lemma well_formed_fits: "well_formed a \<Longrightarrow> fits (raw_of a)"
  by (cases a) auto

lemma type_bits: "(32779 :: u16) AND 0x3fff = 11"
  by code_simp

lemma parse_attr_tells:
  assumes "well_formed a"
  shows "parse_attr (of_nat (fst (raw_of a)) AND 0x3fff) (snd (raw_of a)) p n = Inr (tells a (p, n))"
  using assms
  by (cases a) (auto simp: parse_attr_def nfqaPacketHdr_def nfqaMark_def nfqaCt_def nfqaPayload_def nfqaCapLen_def
      unknown_def nested_def conntrackMark_found type_bits)

lemma parse_attrs_said:
  "\<forall>a\<in>set as. well_formed a \<Longrightarrow> parse_attrs (attrs_bytes full (map raw_of as)) p n = Inr (fold tells as (p, n))"
proof (induction as arbitrary: p n)
  case (Cons a as)
  then have "fits (raw_of a)" by (simp add: well_formed_fits)
  with Cons show ?case by (simp add: parse_attrs_Cons parse_attr_tells split: prod.split)
qed (simp add: parse_attrs_Nil)

lemma pa_truncated_tells: "pa_truncated (fst (fold tells as (p, n))) = pa_truncated p"
proof (induction as arbitrary: p n)
  case (Cons a as)
  then show ?case by (cases a) simp_all
qed simp

lemma parsePacket_said:
  assumes "length hdr = nfgenmsgLen" and "\<forall>a\<in>set as. well_formed a"
  shows "parsePacket (hdr @ attrs_bytes full (map raw_of as)) = Inr (said as)"
proof -
  obtain p n where pn: "fold tells as (no_packet, 0) = (p, n)" by (cases "fold tells as (no_packet, 0)")
  have "pa_truncated no_packet = False" by (simp add: no_packet_def)
  then have "pa_truncated p = False"
    using pa_truncated_tells [of as no_packet 0] by (simp add: pn)
  then have "p\<lparr>pa_truncated := False\<rparr> = p" by (cases p) simp
  moreover have "n = 0 \<Longrightarrow> unat n = 0" by simp
  ultimately show ?thesis
    using assms by (auto simp: parsePacket_def parse_attrs_said pn said_def)
qed


section \<open>Messages\<close>

text \<open>
  A message is a packet notification or anything else; \<open>km_rest\<close> are the ten bytes of the header
  after the type.
\<close>

record kmsg =
  km_type :: nat
  km_rest :: "byte list"
  km_gen :: "byte list"
  km_attrs :: "kattr list"
  km_full :: bool

definition kmsg_ok :: "kmsg \<Rightarrow> bool" where
  "kmsg_ok m \<longleftrightarrow> km_type m < 65536 \<and> length (km_rest m) = 10 \<and> length (km_gen m) = nfgenmsgLen \<and>
     (\<forall>a\<in>set (km_attrs m). well_formed a)"

definition kmsg_body :: "kmsg \<Rightarrow> byte list" where
  "kmsg_body m = km_gen m @ attrs_bytes (km_full m) (map raw_of (km_attrs m))"

definition kmsg_bytes :: "kmsg \<Rightarrow> byte list" where
  "kmsg_bytes m = le_put 4 (nlmsgHdrLen + length (kmsg_body m)) @ le_put 2 (km_type m) @ km_rest m @ kmsg_body m"

fun kmsgs_bytes :: "bool \<Rightarrow> kmsg list \<Rightarrow> byte list" where
  "kmsgs_bytes full [] = []"
| "kmsgs_bytes full [m] = kmsg_bytes m @ (if full then padding (length (kmsg_bytes m)) else [])"
| "kmsgs_bytes full (m # n # ms) = kmsg_bytes m @ padding (length (kmsg_bytes m)) @ kmsgs_bytes full (n # ms)"

definition is_packet :: "kmsg \<Rightarrow> bool" where
  "is_packet m \<longleftrightarrow> km_type m = nfnlSubsysQueue * 256 + nfqnlMsgPacket"

lemma kmsgs_split:
  "kmsgs_bytes full (m # ms) = kmsg_bytes m @ (if ms = [] \<and> \<not> full then [] else padding (length (kmsg_bytes m))) @ kmsgs_bytes full ms"
  by (cases ms) simp_all

lemma kmsg_length: "kmsg_ok m \<Longrightarrow> length (kmsg_bytes m) = nlmsgHdrLen + length (kmsg_body m)"
  by (simp add: kmsg_bytes_def kmsg_ok_def nfq_sizes)

lemma kmsg_fields:
  assumes "kmsg_ok m" and "nlmsgHdrLen + length (kmsg_body m) < 2 ^ 32"
  shows "le_get (take 4 (kmsg_bytes m @ rest)) = nlmsgHdrLen + length (kmsg_body m)"
    and "le_get (take 2 (drop 4 (kmsg_bytes m @ rest))) = km_type m"
    and "take (length (kmsg_body m)) (drop nlmsgHdrLen (kmsg_bytes m @ rest)) = kmsg_body m"
  using assms by (simp_all add: kmsg_bytes_def kmsg_ok_def nfq_sizes le_get_put)

lemma kmsgs_next:
  assumes "kmsg_ok m"
  shows "drop (min (nlmsgAlign (length (kmsg_bytes m))) (length (kmsgs_bytes full (m # ms)))) (kmsgs_bytes full (m # ms)) =
    kmsgs_bytes full ms"
proof -
  have n: "length (kmsg_bytes m) \<le> nlmsgAlign (length (kmsg_bytes m))" by (rule nlmsgAlign_bounds)
  then show ?thesis by (cases "ms = [] \<and> \<not> full") (auto simp: kmsgs_split padding_def)
qed

lemma kmsgs_step:
  assumes ok: "kmsg_ok m" and big: "nlmsgHdrLen + length (kmsg_body m) < 2 ^ 32"
  shows "forEachPacket stopped fn (kmsgs_bytes full (m # ms)) s =
    (case (if is_packet m then fn (said (km_attrs m)) s else (None, s)) of
       (Some e, s) \<Rightarrow> (Some e, s)
     | (None, s) \<Rightarrow> (case stopped s of (True, s) \<Rightarrow> (None, s) | (False, s) \<Rightarrow> forEachPacket stopped fn (kmsgs_bytes full ms) s))"
proof -
  let ?b = "kmsgs_bytes full (m # ms)" and ?n = "nlmsgHdrLen + length (kmsg_body m)"
  obtain rest where b: "?b = kmsg_bytes m @ rest" by (simp add: kmsgs_split)
  have len: "?n \<le> length ?b" by (simp add: b kmsg_length [OF ok])
  note f = kmsg_fields [OF ok big, of rest, folded b]
  have parse: "parsePacket (kmsg_body m) = Inr (said (km_attrs m))"
    using ok by (simp add: kmsg_body_def kmsg_ok_def parsePacket_said)
  have body: "take (?n - nlmsgHdrLen) (drop nlmsgHdrLen ?b) = kmsg_body m" using f(3) by simp
  have rest_of: "drop (min (nlmsgAlign ?n) (length ?b)) ?b = kmsgs_bytes full ms"
    using kmsgs_next [OF ok, of full ms] by (simp add: kmsg_length [OF ok])
  have "\<not> length ?b < nlmsgHdrLen" "\<not> (?n < nlmsgHdrLen \<or> length ?b < ?n)" using len by simp_all
  then show ?thesis
    unfolding forEachPacket.simps [of stopped fn ?b] Let_def f(1,2) body rest_of parse is_packet_def by simp
qed

text \<open>C29: Whatever the kernel puts into one read - any number of messages of any type, attributes in
  any order, unknown ones among them, conntrack nested, the last ones padded or not - the walk
  hands the callback exactly the packets, in order, each with the id, marks, payload and
  truncation the kernel stated.\<close>

theorem reads_what_the_kernel_says:
  assumes "\<forall>m\<in>set ms. kmsg_ok m \<and> nlmsgHdrLen + length (kmsg_body m) < 2 ^ 32"
  shows "forEachPacket (\<lambda>s. (False, s)) (\<lambda>p seen. (None, seen @ [p])) (kmsgs_bytes full ms) seen =
    (None, seen @ map (\<lambda>m. said (km_attrs m)) (filter is_packet ms))"
  using assms
proof (induction ms arbitrary: seen)
  case Nil
  show ?case by (simp add: forEachPacket.simps nfq_sizes)
next
  case (Cons m ms)
  then show ?case by (simp add: kmsgs_step)
qed

definition ex_kmsg :: kmsg where
  "ex_kmsg = \<lparr>km_type = 0x300, km_rest = replicate 10 0, km_gen = [2, 0, 0, 200],
     km_attrs = [KHdr 17 [8, 0, 1], KOther 12 [1, 2], KCt [(3, [0, 0, 1, 0x84])] 0x67007000 [], KPayload [0x45, 0, 0], KCapLen 1500],
     km_full = False\<rparr>"

theorem reads_what_the_kernel_says_witness:
  "forEachPacket (\<lambda>s. (False, s)) (\<lambda>p seen. (None, seen @ [p])) (kmsgs_bytes False [ex_kmsg, ex_kmsg\<lparr>km_type := 2\<rparr>]) [] =
     (None, [\<lparr>pa_id = 17, pa_generationMark = 0x67007000, pa_routingMark = 0, pa_payload = [0x45, 0, 0], pa_truncated = True\<rparr>])"
proof -
  have said: "map (\<lambda>m. said (km_attrs m)) (filter is_packet [ex_kmsg, ex_kmsg\<lparr>km_type := 2\<rparr>]) =
      [\<lparr>pa_id = 17, pa_generationMark = 0x67007000, pa_routingMark = 0, pa_payload = [0x45, 0, 0], pa_truncated = True\<rparr>]"
    by code_simp
  have "kmsg_ok ex_kmsg" "kmsg_ok (ex_kmsg\<lparr>km_type := 2\<rparr>)"
    "nlmsgHdrLen + length (kmsg_body ex_kmsg) < 2 ^ 32" "nlmsgHdrLen + length (kmsg_body (ex_kmsg\<lparr>km_type := 2\<rparr>)) < 2 ^ 32"
    by (simp_all add: ex_kmsg_def kmsg_ok_def kmsg_body_def fits_def unknown_def padding_def nlmsgAlign_def nlmsgAlignTo_def
        nested_def nfq_sizes)
  then have "\<forall>m\<in>set [ex_kmsg, ex_kmsg\<lparr>km_type := 2\<rparr>]. kmsg_ok m \<and> nlmsgHdrLen + length (kmsg_body m) < 2 ^ 32" by simp
  from reads_what_the_kernel_says [OF this, of False "[]"] show ?thesis unfolding said append_Nil .
qed

section \<open>Reading always ends\<close>

text \<open>On any bytes at all, malformed ones included, the walk calls the callback at most once per
  sixteen bytes, so handling one read always ends.\<close>

theorem walk_is_bounded:
  "snd (forEachPacket (\<lambda>s. (False, s)) (\<lambda>p n. (None, Suc n)) b n) * nlmsgHdrLen \<le> n * nlmsgHdrLen + length b"
proof (induction "length b" arbitrary: b n rule: less_induct)
  case less
  show ?case
  proof (cases "length b < nlmsgHdrLen \<or> le_get (take 4 b) < nlmsgHdrLen \<or> le_get (take 4 b) > length b")
    case True
    then show ?thesis by (subst forEachPacket.simps) (auto simp: Let_def)
  next
    case False
    let ?k = "le_get (take 4 b)"
    let ?b = "drop (min (nlmsgAlign ?k) (length b)) b"
    have k: "nlmsgHdrLen \<le> ?k" "?k \<le> length b" "?k \<le> nlmsgAlign ?k" using False nlmsgAlign_bounds(1) by auto
    then have shorter: "length ?b + nlmsgHdrLen \<le> length b" "length ?b < length b" by (auto simp: nfq_sizes)
    have IH: "snd (forEachPacket (\<lambda>s. (False, s)) (\<lambda>p n. (None, Suc n)) ?b m) * nlmsgHdrLen \<le> m * nlmsgHdrLen + length ?b" for m
      by (rule less [OF shorter(2)])
    show ?thesis
      using False IH [of n] IH [of "Suc n"] shorter(1)
      by (subst forEachPacket.simps) (auto simp: Let_def split: sum.split)
  qed
qed

end
