(* ===== verification/Nfqueue_Kernel.thy ===== *)
theory Nfqueue_Kernel
  imports Nfqueue_Wire Nft_Manager
begin

text \<open>
  The other side of the verdict channel of \<open>internal/nfqueue/queue_linux.go\<close>: packets wait in
  the kernel until a message gives them a verdict; a batch message gives its verdict to every
  waiting packet up to its id. Sending may fail, with or without effect. The interface between
  the two is that deferring accepts makes no difference to any packet.
\<close>

section \<open>The kernel's queue\<close>

record knet = ext_world +
  kn_waiting :: "u32 list"
  kn_verdicts :: "(u32 \<times> u32 \<times> byte list option) list"
  kn_errno :: err \<comment> \<open>what a failing send reports\<close>

text \<open>What the kernel reads out of a verdict message: its type, the verdict, the id, the payload.\<close>

definition decode_verdict :: "byte list \<Rightarrow> nat \<times> u32 \<times> u32 \<times> byte list option" where
  "decode_verdict b =
     (le_get (take 2 (drop 4 b)) mod 256, uint32 (drop 24 b), uint32 (drop 28 b),
      if length b \<le> 32 then None else Some (take (le_get (take 2 (drop 32 b)) - 4) (drop 36 b)))"

definition kernel_verdict :: "byte list \<Rightarrow> knet \<Rightarrow> knet" where
  "kernel_verdict b k =
     (case decode_verdict b of (ty, v, pid, r) \<Rightarrow>
        if ty = nfqnlMsgVerdictBatch
        then k\<lparr>kn_verdicts := kn_verdicts k @ map (\<lambda>i. (i, v, None)) (filter (\<lambda>i. i \<le> pid) (kn_waiting k)),
               kn_waiting := filter (\<lambda>i. \<not> i \<le> pid) (kn_waiting k)\<rparr>
        else if pid \<in> set (kn_waiting k)
        then k\<lparr>kn_verdicts := kn_verdicts k @ [(pid, v, r)], kn_waiting := filter (\<lambda>i. i \<noteq> pid) (kn_waiting k)\<rparr>
        else k)"

text \<open>\<open>writeRaw\<close>: one \<open>sendmsg\<close>, retried only while the socket is not ready.\<close>

definition writeRaw :: "byte list \<Rightarrow> knet \<Rightarrow> err option \<times> knet" where
  "writeRaw b k =
     (case pop k of
        (OK, k) \<Rightarrow> (None, kernel_verdict b k)
      | (Fail, k) \<Rightarrow> (Some (kn_errno k), k)
      | (FailAfter, k) \<Rightarrow> (Some (kn_errno k), kernel_verdict b k))"

definition sendable :: "byte list option \<Rightarrow> bool" where
  "sendable r \<longleftrightarrow> (case r of None \<Rightarrow> True | Some r \<Rightarrow> nlaHdrLen + length r < 65536)"

lemma uint32_be [simp]: "uint32 (be_put 4 (unat v) @ rest) = v"
  by (simp add: uint32_def)

lemma decode_message:
  assumes "sendable r" and "ty < 256"
  shows "decode_verdict (verdict_message q ty v_id v r) = (ty, v, v_id, r)"
proof -
  define a where "a = le_put 4 (verdict_total r) @ le_put 2 (nfnlSubsysQueue * 256 + ty) @ le_put 2 1 @
     replicate 8 0 @ [q_family q] @ [0] @ be_put 2 (unat (q_num q)) @ le_put 2 (nlaHdrLen + 8) @ le_put 2 (unat nfqaVerdictHdr)"
  define t where "t = (case r of None \<Rightarrow> [] | Some r \<Rightarrow> le_put 2 (nlaHdrLen + length r) @ le_put 2 (unat nfqaPayload) @ r @
          replicate (nlmsgAlign (length r) - length r) 0)"
  have m: "verdict_message q ty v_id v r = a @ be_put 4 (unat v) @ be_put 4 (unat v_id) @ t"
    by (simp add: verdict_message_def verdict_fields_def a_def t_def)
  have la: "length a = 24" by (simp add: a_def)
  have "(ty + 3 * 256) mod 256 = ty" using assms(2) by (simp only: mod_mult_self1 mod_less)
  then have low: "(768 + ty) mod 256 = ty" by (simp add: add.commute)
  have "take 2 (drop 4 a) = le_put 2 (nfnlSubsysQueue * 256 + ty)" by (simp add: a_def)
  moreover have "le_get (le_put 2 (nfnlSubsysQueue * 256 + ty)) mod 256 = ty"
    unfolding le_get_put using low assms(2) by (simp add: nfnlSubsysQueue_def)
  ultimately have ty: "le_get (take 2 (drop 4 a)) mod 256 = ty" by simp
  have "(if length (a @ be_put 4 (unat v) @ be_put 4 (unat v_id) @ t) \<le> 32 then None
      else Some (take (le_get (take 2 t) - 4) (drop 4 t))) = r"
    using assms(1) la by (auto simp: t_def sendable_def le_get_put nfq_sizes split: option.split)
  then show ?thesis unfolding m decode_verdict_def using ty by (auto simp: la split: if_splits)
qed

lemma length_marshal_fst: "fst (marshalVerdict ty v_id v r q) = verdict_message q ty v_id v r"
  by (rule marshalVerdict_message)

lemma marshalVerdict_snd [simp]:
  "q_pendingAccept (snd (marshalVerdict ty v_id v r q)) = q_pendingAccept q"
  "q_hasPending (snd (marshalVerdict ty v_id v r q)) = q_hasPending q"
  by (simp_all add: marshalVerdict_def Let_def)

section \<open>Decisions\<close>

text \<open>What the handler decides about a packet: accept it later, or give it a verdict now.\<close>

datatype decision = Defer | Now u32 "byte list option"

definition decide :: "'w sender \<Rightarrow> u32 \<times> decision \<Rightarrow> queue \<times> 'w \<Rightarrow> queue \<times> 'w" where
  "decide send d = (\<lambda>(q, w).
     case d of (i, Defer) \<Rightarrow> (queue_accept i q, w)
     | (i, Now v r) \<Rightarrow> snd (verdict send i v r (q, w)))"

definition decide_all :: "'w sender \<Rightarrow> (u32 \<times> decision) list \<Rightarrow> queue \<times> 'w \<Rightarrow> queue \<times> 'w" where
  "decide_all send ds s = snd (flush send (fold (decide send) ds s))"

text \<open>The reference: one verdict per packet, in order.\<close>

fun decided :: "u32 \<times> decision \<Rightarrow> u32 \<times> u32 \<times> byte list option" where
  "decided (i, Defer) = (i, nfAccept, None)"
| "decided (i, Now v r) = (i, v, r)"

fun decision_ok :: "decision \<Rightarrow> bool" where
  "decision_ok Defer = True"
| "decision_ok (Now v r) = sendable r"

lemma pop_Nil: "w_script k = [] \<Longrightarrow> pop k = (OK, k)"
  by (simp add: pop_def)

lemma sendVerdict_ok:
  assumes "w_script k = []" and "sendable r" and "ty < 256"
  shows "\<exists>q'. sendVerdict writeRaw ty i v r (q, k) = (None, q', kernel_verdict (verdict_message q ty i v r) k) \<and>
    q_pendingAccept q' = q_pendingAccept q \<and> q_hasPending q' = q_hasPending q"
proof -
  obtain b q' where m: "marshalVerdict ty i v r q = (b, q')" by (cases "marshalVerdict ty i v r q")
  with marshalVerdict_message [of ty i v r q] marshalVerdict_snd [of ty i v r q]
  have "b = verdict_message q ty i v r" "q_pendingAccept q' = q_pendingAccept q" "q_hasPending q' = q_hasPending q" by simp_all
  with m assms(1) show ?thesis by (simp add: sendVerdict_def writeRaw_def pop_Nil)
qed

lemma batch_sent:
  assumes "w_script k = []"
  shows "\<exists>q'. sendVerdict writeRaw nfqnlMsgVerdictBatch i nfAccept None (q, k) =
    (None, q', kernel_verdict (verdict_message q nfqnlMsgVerdictBatch i nfAccept None) k)"
  using sendVerdict_ok [OF assms, of None nfqnlMsgVerdictBatch i nfAccept q]
  by (auto simp: sendable_def nfqnlMsgVerdictBatch_def)

lemma kernel_batch:
  assumes "\<forall>i\<in>set ps. i \<le> m" and "\<forall>i\<in>set rest. m < i"
    and "kn_waiting k = ps @ rest"
  shows "kernel_verdict (verdict_message q nfqnlMsgVerdictBatch m nfAccept None) k =
    k\<lparr>kn_verdicts := kn_verdicts k @ map (\<lambda>i. decided (i, Defer)) ps, kn_waiting := rest\<rparr>"
proof -
  have "filter (\<lambda>i. i \<le> m) ps = ps" "filter (\<lambda>i. i \<le> m) rest = []"
    "filter (\<lambda>i. \<not> i \<le> m) ps = []" "filter (\<lambda>i. \<not> i \<le> m) rest = rest"
    using assms(1,2) by (auto simp: filter_id_conv filter_empty_conv)
  then show ?thesis
    using assms(3) by (simp add: kernel_verdict_def decode_message sendable_def nfqnlMsgVerdictBatch_def)
qed

lemma kernel_one:
  assumes "sendable r" and "\<forall>j\<in>set rest. i < j" and "kn_waiting k = i # rest"
  shows "kernel_verdict (verdict_message q nfqnlMsgVerdict i v r) k =
    k\<lparr>kn_verdicts := kn_verdicts k @ [(i, v, r)], kn_waiting := rest\<rparr>"
proof -
  have "filter (\<lambda>j. j \<noteq> i) rest = rest" using assms(2) by (auto simp: filter_id_conv)
  with assms show ?thesis
    by (simp add: kernel_verdict_def decode_message nfqnlMsgVerdict_def nfqnlMsgVerdictBatch_def)
qed


lemma le_last: "sorted_wrt (<) ps \<Longrightarrow> (i :: u32) \<in> set ps \<Longrightarrow> i \<le> last ps"
  by (induction ps) (auto simp: less_imp_le)

text \<open>Decisions still to be made, after a run of deferred accepts.\<close>

lemma decide_from:
  assumes "w_script k = []" and "\<forall>d\<in>set ds. decision_ok (snd d)"
    and "sorted_wrt (<) (ps @ map fst ds @ later)" and "kn_waiting k = ps @ map fst ds @ later"
    and "q_hasPending q \<longleftrightarrow> ps \<noteq> []" and "ps \<noteq> [] \<Longrightarrow> q_pendingAccept q = last ps"
  shows "\<exists>q'. decide_all writeRaw ds (q, k) =
    (q', k\<lparr>kn_verdicts := kn_verdicts k @ map (\<lambda>i. decided (i, Defer)) ps @ map decided ds, kn_waiting := later\<rparr>)"
  using assms
proof (induction ds arbitrary: q k ps)
  case Nil
  show ?case
  proof (cases "ps = []")
    case True
    with Nil show ?thesis by (simp add: decide_all_def flush_def)
  next
    case False
    have le: "\<forall>i\<in>set ps. i \<le> last ps" and gt: "\<forall>i\<in>set later. last ps < i"
      using Nil.prems(3) False le_last [of ps] by (auto simp: sorted_wrt_append)
    obtain q' where "sendVerdict writeRaw nfqnlMsgVerdictBatch (last ps) nfAccept None (q\<lparr>q_hasPending := False\<rparr>, k) =
        (None, q', kernel_verdict (verdict_message (q\<lparr>q_hasPending := False\<rparr>) nfqnlMsgVerdictBatch (last ps) nfAccept None) k)"
      using batch_sent [OF Nil.prems(1)] by blast
    with kernel_batch [OF le gt, of k] Nil.prems False show ?thesis by (simp add: decide_all_def flush_def)
  qed
next
  case (Cons d ds)
  obtain i dec where d: "d = (i, dec)" by (cases d)
  show ?case
  proof (cases dec)
    case Defer
    have le: "\<forall>j\<in>set ps. j < i" using Cons.prems(3) d by (auto simp: sorted_wrt_append)
    have "q_pendingAccept (queue_accept i q) = i" "q_hasPending (queue_accept i q)"
      using Cons.prems(5,6) le by (auto simp: queue_accept_def Let_def)
    moreover have "sorted_wrt (<) ((ps @ [i]) @ map fst ds @ later)" "kn_waiting k = (ps @ [i]) @ map fst ds @ later"
      using Cons.prems(3,4) d by simp_all
    ultimately obtain q' where "decide_all writeRaw ds (queue_accept i q, k) =
        (q', k\<lparr>kn_verdicts := kn_verdicts k @ map (\<lambda>i. decided (i, Defer)) (ps @ [i]) @ map decided ds, kn_waiting := later\<rparr>)"
      using Cons.IH [of k "ps @ [i]" "queue_accept i q"] Cons.prems(1,2) by auto
    then show ?thesis by (simp add: d Defer decide_all_def decide_def)
  next
    case (Now v r)
    have r: "sendable r" using Cons.prems(2) d Now by simp
    define k1 where "k1 = k\<lparr>kn_verdicts := kn_verdicts k @ map (\<lambda>i. decided (i, Defer)) ps, kn_waiting := map fst (d # ds) @ later\<rparr>"
    have sw: "sorted_wrt (<) (map fst ds @ later)" and gt: "\<forall>j\<in>set (map fst ds @ later). i < j"
      and le: "ps \<noteq> [] \<Longrightarrow> \<forall>j\<in>set ps. j \<le> last ps" and lt: "ps \<noteq> [] \<Longrightarrow> \<forall>j\<in>set (map fst (d # ds) @ later). last ps < j"
      using Cons.prems(3) d le_last [of ps] by (auto simp: sorted_wrt_append)
    have flushed: "\<exists>q1. (if q_hasPending q \<and> q_pendingAccept q < i then flush writeRaw (q, k) else (None, q, k)) = (None, q1, k1)"
    proof (cases "ps = []")
      case True
      with Cons.prems(4,5) have "k1 = k" by (simp add: k1_def)
      with True Cons.prems(5) show ?thesis by simp
    next
      case False
      have "last ps < i" using lt [OF False] d by simp
      moreover obtain q1 where "sendVerdict writeRaw nfqnlMsgVerdictBatch (last ps) nfAccept None (q\<lparr>q_hasPending := False\<rparr>, k) =
          (None, q1, kernel_verdict (verdict_message (q\<lparr>q_hasPending := False\<rparr>) nfqnlMsgVerdictBatch (last ps) nfAccept None) k)"
        using batch_sent [OF Cons.prems(1)] by blast
      moreover note kernel_batch [OF le [OF False] lt [OF False] Cons.prems(4)]
      ultimately show ?thesis using Cons.prems(5,6) False by (simp add: flush_def k1_def)
    qed
    then obtain q1 where q1: "(if q_hasPending q \<and> q_pendingAccept q < i then flush writeRaw (q, k) else (None, q, k)) = (None, q1, k1)" by blast
    have k1: "w_script k1 = []" "kn_waiting k1 = i # map fst ds @ later" using Cons.prems(1) d by (simp_all add: k1_def)
    obtain q2 where q2: "sendVerdict writeRaw nfqnlMsgVerdict i v r (q1\<lparr>q_hasPending := False\<rparr>, k1) =
        (None, q2, kernel_verdict (verdict_message (q1\<lparr>q_hasPending := False\<rparr>) nfqnlMsgVerdict i v r) k1)" "\<not> q_hasPending q2"
      using sendVerdict_ok [OF k1(1) r, of nfqnlMsgVerdict i v "q1\<lparr>q_hasPending := False\<rparr>"] by (auto simp: nfqnlMsgVerdict_def)
    define k2 where "k2 = k1\<lparr>kn_verdicts := kn_verdicts k1 @ [(i, v, r)], kn_waiting := map fst ds @ later\<rparr>"
    have step: "snd (verdict writeRaw i v r (q, k)) = (q2, k2)"
      using q1 q2(1) kernel_one [OF r gt k1(2)] by (simp add: verdict_def k2_def del: split_paired_Ex)
    have "w_script k2 = []" "kn_waiting k2 = [] @ map fst ds @ later" using k1(1) by (simp_all add: k2_def)
    with Cons.IH [of k2 "[]" q2] Cons.prems(2) sw q2(2) obtain q' where "decide_all writeRaw ds (q2, k2) =
        (q', k2\<lparr>kn_verdicts := kn_verdicts k2 @ map decided ds, kn_waiting := later\<rparr>)" by auto
    then have "decide_all writeRaw (d # ds) (q, k) =
        (q', k2\<lparr>kn_verdicts := kn_verdicts k2 @ map decided ds, kn_waiting := later\<rparr>)"
      using step by (simp add: decide_all_def decide_def d Now)
    then show ?thesis by (simp add: k2_def k1_def d Now)
  qed
qed

text \<open>C30: Deferring accepts changes nothing: for packets of one read with rising ids, whatever is
  decided about each, the kernel gives every packet exactly the verdict and payload decided for
  it, in order, none is left waiting when the read returns, and later packets are untouched.\<close>

theorem batching_is_transparent:
  assumes "w_script k = []" and "\<forall>d\<in>set ds. decision_ok (snd d)"
    and "sorted_wrt (<) (map fst ds @ later)" and "kn_waiting k = map fst ds @ later" and "\<not> q_hasPending q"
  shows "snd (decide_all writeRaw ds (q, k)) =
    k\<lparr>kn_verdicts := kn_verdicts k @ map decided ds, kn_waiting := later\<rparr>"
  using decide_from [of k ds "[]" later q] assms by auto

definition ex_knet :: knet where
  "ex_knet = \<lparr>w_script = [], kn_waiting = [5, 6, 7, 8], kn_verdicts = [], kn_errno = Msg ''errno''\<rparr>"

definition ex_queue :: queue where
  "ex_queue = \<lparr>q_num = 200, q_family = 2, q_vbuf = [], q_pendingAccept = 4, q_hasPending = False\<rparr>"

theorem batching_is_transparent_witness:
  "kn_verdicts (snd (decide_all writeRaw [(5, Defer), (6, Now nfAccept (Some [0x45])), (7, Now nfDrop None)] (ex_queue, ex_knet))) =
     [(5, 1, None), (6, 1, Some [0x45]), (7, 0, None)]"
proof -
  have "snd (decide_all writeRaw [(5, Defer), (6, Now nfAccept (Some [0x45])), (7, Now nfDrop None)] (ex_queue, ex_knet)) =
    ex_knet\<lparr>kn_verdicts := kn_verdicts ex_knet @ map decided [(5, Defer), (6, Now nfAccept (Some [0x45])), (7, Now nfDrop None)],
      kn_waiting := [8]\<rparr>"
    by (rule batching_is_transparent) (simp_all add: ex_knet_def ex_queue_def sendable_def nfq_sizes)
  then show ?thesis by (simp add: ex_knet_def nfAccept_def nfDrop_def)
qed


section \<open>When sending fails\<close>

text \<open>A verdict the kernel may have given: the old ones, plain accepts, and what was decided.\<close>

definition allowed :: "(u32 \<times> decision) list \<Rightarrow> knet \<Rightarrow> knet \<Rightarrow> bool" where
  "allowed ds k k' \<longleftrightarrow> (\<forall>(i, v, r)\<in>set (kn_verdicts k').
     (i, v, r) \<in> set (kn_verdicts k) \<or> v = nfAccept \<and> r = None \<or> (i, Now v r) \<in> set ds)"

lemma pop_knet: "kn_verdicts (snd (pop k)) = kn_verdicts k"
  by (simp add: pop_def split: list.split)

lemma kernel_verdict_allowed:
  assumes "sendable r" and "ty < 256"
    and "ty = nfqnlMsgVerdictBatch \<and> v = nfAccept \<or> ty \<noteq> nfqnlMsgVerdictBatch \<and> (i, Now v r) \<in> set ds"
  shows "set (kn_verdicts (kernel_verdict (verdict_message q ty i v r) k)) \<subseteq>
    set (kn_verdicts k) \<union> {(j, w, s). w = nfAccept \<and> s = None \<or> (j, Now w s) \<in> set ds}"
  using assms by (auto simp: kernel_verdict_def decode_message)

lemma writeRaw_allowed:
  assumes "sendable r" and "ty < 256"
    and "ty = nfqnlMsgVerdictBatch \<and> v = nfAccept \<or> ty \<noteq> nfqnlMsgVerdictBatch \<and> (i, Now v r) \<in> set ds"
    and "allowed ds k0 k"
  shows "allowed ds k0 (snd (snd (sendVerdict writeRaw ty i v r (q, k))))"
proof -
  obtain o' k1 where p: "pop k = (o', k1)" by (cases "pop k")
  with pop_knet [of k] have k1: "kn_verdicts k1 = kn_verdicts k" by simp
  obtain b q' where m: "marshalVerdict ty i v r q = (b, q')" by (cases "marshalVerdict ty i v r q")
  with marshalVerdict_message [of ty i v r q] have b: "b = verdict_message q ty i v r" by simp
  have "snd (snd (sendVerdict writeRaw ty i v r (q, k))) \<in> {k1, kernel_verdict b k1}"
    using m p by (cases o') (simp_all add: sendVerdict_def writeRaw_def)
  then have "set (kn_verdicts (snd (snd (sendVerdict writeRaw ty i v r (q, k))))) \<subseteq>
      set (kn_verdicts k) \<union> {(j, w, s). w = nfAccept \<and> s = None \<or> (j, Now w s) \<in> set ds}"
    using kernel_verdict_allowed [OF assms(1-3), of q k1] k1 b by auto
  with assms(4) show ?thesis unfolding allowed_def by fast
qed

lemma flush_allowed: "allowed ds k0 k \<Longrightarrow> allowed ds k0 (snd (snd (flush writeRaw (q, k))))"
  by (simp add: flush_def writeRaw_allowed sendable_def nfqnlMsgVerdictBatch_def)

lemma decide_allowed:
  assumes "d \<in> set ds" and "decision_ok (snd d)" and "allowed ds k0 k"
  shows "allowed ds k0 (snd (decide writeRaw d (q, k)))"
proof (cases d)
  case (Pair i dec)
  show ?thesis
  proof (cases dec)
    case (Now v r)
    obtain e q1 k1 where f: "(if q_hasPending q \<and> q_pendingAccept q < i then flush writeRaw (q, k) else (None, q, k)) = (e, q1, k1)"
      by (cases "if q_hasPending q \<and> q_pendingAccept q < i then flush writeRaw (q, k) else (None, q, k)")
    then have k1: "allowed ds k0 k1"
      using flush_allowed [OF assms(3), of q] assms(3) by (auto split: if_splits dest: arg_cong [where f = "\<lambda>p. snd (snd p)"])
    have "allowed ds k0 (snd (snd (sendVerdict writeRaw nfqnlMsgVerdict i v r (q1\<lparr>q_hasPending := False\<rparr>, k1))))"
      using assms(1,2) Pair Now k1 by (intro writeRaw_allowed) (auto simp: nfqnlMsgVerdict_def nfqnlMsgVerdictBatch_def)
    then show ?thesis using f k1 by (cases e) (simp_all add: decide_def verdict_def Pair Now)
  qed (use assms(3) in \<open>simp add: decide_def Pair\<close>)
qed

text \<open>However sends fail, the channel fails open: every verdict the kernel gives is the one decided
  for that packet or a plain accept of the unmodified packet, so no packet is dropped or
  rewritten that should not have been.\<close>

theorem verdicts_fail_open:
  assumes "\<forall>d\<in>set ds. decision_ok (snd d)" and "\<forall>(i, v, r)\<in>set (kn_verdicts k). v = nfAccept \<and> r = None"
    and "(i, v, r) \<in> set (kn_verdicts (snd (decide_all writeRaw ds (q, k))))"
  shows "v = nfAccept \<and> r = None \<or> (i, Now v r) \<in> set ds"
proof -
  have "allowed ds k (snd (fold (decide writeRaw) es s))" if "set es \<subseteq> set ds" "allowed ds k (snd s)" for es s
    using that
  proof (induction es arbitrary: s)
    case (Cons e es)
    have "allowed ds k (snd (decide writeRaw e s))"
      using decide_allowed [of e ds k "snd s" "fst s"] Cons.prems assms(1) by simp
    with Cons show ?case by simp
  qed simp
  moreover have "allowed ds k k" by (auto simp: allowed_def)
  ultimately have "allowed ds k (snd (fold (decide writeRaw) ds (q, k)))" by simp
  then have "allowed ds k (snd (decide_all writeRaw ds (q, k)))"
    using flush_allowed [of ds k "snd (fold (decide writeRaw) ds (q, k))" "fst (fold (decide writeRaw) ds (q, k))"]
    by (simp add: decide_all_def)
  with assms(2,3) show ?thesis unfolding allowed_def by fastforce
qed

theorem verdicts_fail_open_witness:
  "kn_verdicts (snd (decide_all writeRaw [(5, Defer), (6, Now nfDrop None), (7, Defer)] (ex_queue, ex_knet\<lparr>w_script := [FailAfter]\<rparr>))) =
     [(5, 1, None), (6, 1, None), (7, 1, None)] \<and> nfAccept = 1"
proof -
  let ?ds = "[(5, Defer), (6, Now nfDrop None), (7, Defer)] :: (u32 \<times> decision) list" and ?k = "ex_knet\<lparr>w_script := [FailAfter]\<rparr>"
  have run: "kn_verdicts (snd (decide_all writeRaw ?ds (ex_queue, ?k))) = [(5, 1, None), (6, 1, None), (7, 1, None)]"
    by (simp add: decide_all_def decide_def flush_def verdict_def sendVerdict_def writeRaw_def pop_def case_prod_beta
        queue_accept_def Let_def marshalVerdict_message kernel_verdict_def decode_message sendable_def
        ex_knet_def ex_queue_def nfAccept_def nfqnlMsgVerdictBatch_def nfqnlMsgVerdict_def)
  have "(1 :: u32) = nfAccept \<and> (None :: byte list option) = None \<or> (6, Now 1 None) \<in> set ?ds"
    by (rule verdicts_fail_open [where k = ?k and q = ex_queue]) (simp_all only: run, simp_all add: ex_knet_def sendable_def)
  with run show ?thesis by (simp add: nfDrop_def)
qed

section \<open>Two limits of the code\<close>

text \<open>Ids are compared as numbers, so a verdict for the first id after the 32-bit wrap skips the flush
  and forgets the accept deferred just before it.\<close>

lemma wrapped_id_forgets_accept:
  "kn_waiting (snd (decide_all writeRaw [(0xffffffff, Defer), (0, Now nfAccept (Some [0x45]))]
     (ex_queue, ex_knet\<lparr>kn_waiting := [0xffffffff, 0]\<rparr>))) = [0xffffffff]"
  by (simp add: decide_all_def decide_def flush_def verdict_def sendVerdict_def writeRaw_def pop_def case_prod_beta
      queue_accept_def Let_def marshalVerdict_message kernel_verdict_def decode_message sendable_def nfq_sizes
      ex_knet_def ex_queue_def nfAccept_def nfqnlMsgVerdictBatch_def nfqnlMsgVerdict_def)

text \<open>The length of the payload attribute has sixteen bits: a replacement of 65532 bytes or more wraps.\<close>

lemma oversized_replacement_wraps:
  "le_get (take 2 (drop 32 (verdict_message q ty i v (Some r)))) = (nlaHdrLen + length r) mod 65536"
proof -
  have "drop 32 (verdict_message q ty i v (Some r)) = le_put 2 (nlaHdrLen + length r) @ le_put 2 (unat nfqaPayload) @ r @
      replicate (nlmsgAlign (length r) - length r) 0"
    by (simp add: verdict_message_def length_verdict_fields)
  then show ?thesis by (simp add: le_get_put)
qed

end
