(* ===== verification/Nfqueue_Runtime.thy ===== *)
theory Nfqueue_Runtime
  imports Nfqueue_Kernel Registry Generation_Mark
begin

text \<open>
  \<open>internal/nfqueue/runtime.go\<close>, \<open>reinject.go\<close>, \<open>observer.go\<close> and the receive path of
  \<open>queue_linux.go\<close>: a pump reads packets from its queue, an engine processes each, and the result
  becomes a verdict, packets on the raw socket, and counters.
\<close>

section \<open>The raw socket\<close>

text \<open>The socket with its current mark, and what it has put on the wire: mark, address, packet.\<close>

record rawsock = ext_world +
  rk_open :: bool
  rk_mark :: u32
  rk_wire :: "(u32 \<times> byte list \<times> byte list) list"
  rk_errno :: err

definition rawsock_call :: "(rawsock \<Rightarrow> rawsock) \<Rightarrow> rawsock \<Rightarrow> err option \<times> rawsock" where
  "rawsock_call f k =
     (case pop k of
        (OK, k) \<Rightarrow> (None, f k)
      | (Fail, k) \<Rightarrow> (Some (rk_errno k), k)
      | (FailAfter, k) \<Rightarrow> (Some (rk_errno k), f k))"

definition NewReinjector :: "rawsock \<Rightarrow> err option \<times> rawsock" where
  "NewReinjector k =
     (case rawsock_call (rk_open_update (\<lambda>_. True)) k of
        (Some e, k) \<Rightarrow> (Some (Wrap ''open raw socket (needs CAP_NET_RAW)'' [e]), k\<lparr>rk_open := False\<rparr>)
      | (None, k) \<Rightarrow>
          (case rawsock_call (\<lambda>k. k) k of
             (Some e, k) \<Rightarrow> (Some (Wrap ''set IP_HDRINCL'' [e]), k\<lparr>rk_open := False\<rparr>)
           | (None, k) \<Rightarrow>
               (case rawsock_call (rk_mark_update (\<lambda>_. 1)) k of
                  (Some e, k) \<Rightarrow> (Some (Wrap ''set SO_MARK (needs CAP_NET_ADMIN)'' [e]), k\<lparr>rk_open := False\<rparr>)
                | (None, k) \<Rightarrow> (None, k))))"

definition reinjectionMark :: "u32 \<Rightarrow> u32 res" where
  "reinjectionMark routingMark =
     (if routingMark AND Mask \<noteq> 0 then Inl (Msg ''routing mark overlaps Geneva reservation'')
      else Inr routingMark)"

definition Inject :: "byte list \<Rightarrow> u32 \<Rightarrow> rawsock \<Rightarrow> err option \<times> rawsock" where
  "Inject packet routingMark k =
     (if length packet < 20 then (Some (Msg ''packet too short to reinject''), k)
      else case reinjectionMark routingMark of
             Inl e \<Rightarrow> (Some e, k)
           | Inr mark \<Rightarrow>
               let addr = take 4 (drop 16 packet)
               in case rawsock_call (rk_mark_update (\<lambda>_. mark)) k of
                    (Some e, k) \<Rightarrow> (Some (Wrap ''set per-packet SO_MARK'' [e]), k)
                  | (None, k) \<Rightarrow>
                      (case rawsock_call (\<lambda>k. k\<lparr>rk_wire := rk_wire k @ [(rk_mark k, addr, packet)]\<rparr>) k of
                         (Some e, k) \<Rightarrow> (Some (Wrap ''sendto'' [e]), k)
                       | (None, k) \<Rightarrow> (None, k)))"

definition reinjector_Close :: "rawsock \<Rightarrow> err option \<times> rawsock" where
  "reinjector_Close k =
     (if rk_open k
      then (case rawsock_call (\<lambda>k. k) k of (e, k) \<Rightarrow> (e, k\<lparr>rk_open := False\<rparr>))
      else (None, k))"

section \<open>Observers\<close>

text \<open>An observer changes a state of its own; \<open>None\<close> is the nil observer.\<close>

type_synonym 'o observer = "byte list \<Rightarrow> Direction \<Rightarrow> 'o \<Rightarrow> 'o"

definition MultiObserver :: "'o observer list \<Rightarrow> 'o observer" where
  "MultiObserver m raw dir = fold (\<lambda>o'. o' raw dir) m"

definition Observers :: "'o observer option list \<Rightarrow> 'o observer option" where
  "Observers obs =
     (case List.map_filter (\<lambda>o'. o') obs of
        [] \<Rightarrow> None
      | [p] \<Rightarrow> Some p
      | present \<Rightarrow> Some (MultiObserver present))"

section \<open>The runtime\<close>

type_synonym 'p processor = "u32 \<Rightarrow> byte list \<Rightarrow> Direction \<Rightarrow> 'p \<Rightarrow> Result res \<times> 'p"

record 'o rt_config =
  rc_OutQueue :: u16
  rc_InQueue :: u16
  rc_MaxPacketLen :: u32
  rc_MaxQueueLen :: u32
  rc_Observer :: "'o observer option"
  rc_IntegrityFailure :: bool \<comment> \<open>the callback is present; its calls are collected in the state\<close>

record VerdictStats =
  rs_Accepted :: u64
  rs_Dropped :: u64
  rs_Modified :: u64
  rs_Reinjected :: u64
  rs_InjectFails :: u64
  rs_Overruns :: u64
  rs_Truncated :: u64

definition zero_verdicts :: VerdictStats where
  "zero_verdicts = \<lparr>rs_Accepted = 0, rs_Dropped = 0, rs_Modified = 0, rs_Reinjected = 0, rs_InjectFails = 0,
     rs_Overruns = 0, rs_Truncated = 0\<rparr>"

text \<open>
  What both pumps share: counters, engine, observer, raw socket, the errors reported to the
  controller, and whether an index was out of range, which would end the process.
\<close>

record ('p, 'o) shared =
  sh_Stats :: VerdictStats
  sh_eng :: 'p
  sh_obs :: 'o
  sh_sock :: rawsock
  sh_integrity :: "err list"
  sh_panicked :: bool

text \<open>What a handler works on: its queue with the kernel behind it, and the shared part.\<close>

type_synonym ('p, 'o) hstate = "(queue \<times> knet) \<times> ('p, 'o) shared"

definition bump :: "((u64 \<Rightarrow> u64) \<Rightarrow> VerdictStats \<Rightarrow> VerdictStats) \<Rightarrow> ('p, 'o) hstate \<Rightarrow> ('p, 'o) hstate" where
  "bump field s = apsnd (sh_Stats_update (field (\<lambda>n. n + 1))) s"

definition q_verdict :: "u32 \<Rightarrow> u32 \<Rightarrow> byte list option \<Rightarrow> ('p, 'o) hstate \<Rightarrow> err option \<times> ('p, 'o) hstate" where
  "q_verdict pid v replacement s =
     (case verdict writeRaw pid v replacement (fst s) of (e, q) \<Rightarrow> (e, q, snd s))"

definition rt_accept :: "u32 \<Rightarrow> ('p, 'o) hstate \<Rightarrow> ('p, 'o) hstate" where
  "rt_accept pid s = bump rs_Accepted_update (apfst (apfst (queue_accept pid)) s)"

definition rt_drop :: "u32 \<Rightarrow> ('p, 'o) hstate \<Rightarrow> ('p, 'o) hstate" where
  "rt_drop pid s = bump rs_Dropped_update (snd (q_verdict pid nfDrop None s))"

definition rt_inject :: "byte list \<Rightarrow> u32 \<Rightarrow> ('p, 'o) hstate \<Rightarrow> err option \<times> ('p, 'o) hstate" where
  "rt_inject p mark s =
     (case Inject p mark (sh_sock (snd s)) of (e, k) \<Rightarrow> (e, fst s, (snd s)\<lparr>sh_sock := k\<rparr>))"

text \<open>The loop over the packets that precede the last one; it counts what got out.\<close>

fun inject_extras :: "byte list list \<Rightarrow> u32 \<Rightarrow> nat \<Rightarrow> ('p, 'o) hstate \<Rightarrow> nat \<times> ('p, 'o) hstate" where
  "inject_extras [] mark injected s = (injected, s)"
| "inject_extras (p # ps) mark injected s =
     (case rt_inject p mark s of
        (Some e, s) \<Rightarrow> inject_extras ps mark injected (bump rs_InjectFails_update s)
      | (None, s) \<Rightarrow> inject_extras ps mark (Suc injected) (bump rs_Reinjected_update s))"

definition verdictOutbound :: "u32 \<Rightarrow> u32 \<Rightarrow> Result \<Rightarrow> ('p, 'o) hstate \<Rightarrow> ('p, 'o) hstate" where
  "verdictOutbound pid mark res s =
     (if r_Outcome res = OutcomeUnchanged then rt_accept pid s
      else if r_Packets res = [] then rt_drop pid s
      else
        let extras = butlast (r_Packets res); lst = last (r_Packets res)
        in case inject_extras extras mark 0 s of
             (injected, s) \<Rightarrow>
               (case q_verdict pid nfAccept (Some lst) s of
                  (None, s) \<Rightarrow> bump rs_Modified_update s
                | (Some e, s) \<Rightarrow>
                    (case rt_inject lst mark s of
                       (Some e, s) \<Rightarrow>
                         let s = bump rs_InjectFails_update s
                         in if injected = 0 then rt_accept pid s else rt_drop pid s
                     | (None, s) \<Rightarrow> rt_drop pid (bump rs_Reinjected_update s))))"

definition verdictInbound :: "u32 \<Rightarrow> Result \<Rightarrow> ('p, 'o) hstate \<Rightarrow> ('p, 'o) hstate" where
  "verdictInbound pid res s =
     (case r_Outcome res of
        OutcomeUnchanged \<Rightarrow> rt_accept pid s
      | OutcomeDropped \<Rightarrow> rt_drop pid s
      | OutcomeTampered \<Rightarrow>
          (case r_Packets res of
             [] \<Rightarrow> apsnd (sh_panicked_update (\<lambda>_. True)) s
           | p # _ \<Rightarrow>
               (case q_verdict pid nfAccept (Some p) s of
                  (Some e, s) \<Rightarrow> rt_accept pid s
                | (None, s) \<Rightarrow> bump rs_Modified_update s))
      | OutcomeExpanded \<Rightarrow> rt_accept pid s)"

definition report_integrity :: "'o rt_config \<Rightarrow> err \<Rightarrow> ('p, 'o) hstate \<Rightarrow> ('p, 'o) hstate" where
  "report_integrity cf e s =
     (if rc_IntegrityFailure cf then apsnd (sh_integrity_update (\<lambda>es. es @ [e])) s else s)"

definition observe :: "'o rt_config \<Rightarrow> byte list \<Rightarrow> Direction \<Rightarrow> ('p, 'o) hstate \<Rightarrow> ('p, 'o) hstate" where
  "observe cf raw dir s =
     (case rc_Observer cf of None \<Rightarrow> s | Some o' \<Rightarrow> apsnd (sh_obs_update (o' raw dir)) s)"

definition handle ::
  "'p processor \<Rightarrow> 'o rt_config \<Rightarrow> Direction \<Rightarrow> packet \<Rightarrow> ('p, 'o) hstate \<Rightarrow> ('p, 'o) hstate" where
  "handle P cf dir p s =
     (case ID (pa_generationMark p) of
        (gen, False) \<Rightarrow>
          report_integrity cf (Msg ''queued packet has no Geneva generation in NFQUEUE conntrack metadata'')
            (rt_accept (pa_id p) s)
      | (gen, True) \<Rightarrow>
          if pa_truncated p then rt_accept (pa_id p) (bump rs_Truncated_update s)
          else if pa_payload p = [] then rt_accept (pa_id p) s
          else
            let s = observe cf (pa_payload p) dir s
            in case P gen (pa_payload p) dir (sh_eng (snd s)) of
                 (r, eng) \<Rightarrow>
                   let s = apsnd (sh_eng_update (\<lambda>_. eng)) s
                   in case r of
                        Inl e \<Rightarrow>
                          if errors_Is e ErrGenerationNotFound
                          then report_integrity cf e (rt_accept (pa_id p) s)
                          else rt_accept (pa_id p) s
                      | Inr res \<Rightarrow>
                          if dir = DirectionOutbound then verdictOutbound (pa_id p) (pa_routingMark p) res s
                          else verdictInbound (pa_id p) res s)"

section \<open>Receiving\<close>

text \<open>One attempt at the socket: not ready, woken with an error, a failing call, or a datagram.\<close>

datatype rx = NotReady | Woken err | RecvErr err | Datagram "byte list"

definition readBufSize :: nat where "readBufSize = 262144"

text \<open>\<open>None\<close>: still waiting for readiness.\<close>

fun recvmsg :: "rx list \<Rightarrow> (byte list res \<times> rx list) option" where
  "recvmsg [] = None"
| "recvmsg (NotReady # rx) = recvmsg rx"
| "recvmsg (Woken e # rx) = Some (Inl e, rx)"
| "recvmsg (RecvErr e # rx) = Some (Inl e, rx)"
| "recvmsg (Datagram d # rx) =
     Some (if length d > readBufSize then Inl (Msg ''netlink message longer than the read buffer'') else Inr d, rx)"

lemma recvmsg_shorter: "recvmsg rx = Some (r, rx') \<Longrightarrow> length rx' < length rx"
  by (induction rx rule: recvmsg.induct) auto

section \<open>The pump\<close>

text \<open>The context, as the number of checks that still find it alive; \<open>None\<close> is never cancelled.\<close>

definition pump_ctx_Err :: "nat option \<times> 's \<Rightarrow> err option \<times> nat option \<times> 's" where
  "pump_ctx_Err = (\<lambda>(c, s).
     case c of None \<Rightarrow> (None, None, s) | Some 0 \<Rightarrow> (Some (Sent Canceled), Some 0, s) | Some (Suc n) \<Rightarrow> (None, Some n, s))"

definition ctx_stopped :: "nat option \<times> 's \<Rightarrow> bool \<times> nat option \<times> 's" where
  "ctx_stopped s = (case pump_ctx_Err s of (e, s) \<Rightarrow> (e \<noteq> None, s))"

text \<open>The callback of a pump: it never fails, unless the process is gone.\<close>

definition pump_handle ::
  "'p processor \<Rightarrow> 'o rt_config \<Rightarrow> Direction \<Rightarrow> packet \<Rightarrow> nat option \<times> ('p, 'o) hstate \<Rightarrow>
     err option \<times> nat option \<times> ('p, 'o) hstate" where
  "pump_handle P cf dir p = (\<lambda>(c, s).
     let s = handle P cf dir p s
     in (if sh_panicked (snd s) then Some (Msg ''index out of range'') else None, c, s))"

definition pump_finish :: "nat option \<times> ('p, 'o) hstate \<Rightarrow> err option \<times> nat option \<times> ('p, 'o) hstate" where
  "pump_finish = (\<lambda>(c, q, sh). case flush writeRaw q of (e, q) \<Rightarrow> (e, c, q, sh))"

definition pump_read ::
  "'p processor \<Rightarrow> 'o rt_config \<Rightarrow> Direction \<Rightarrow> byte list res \<Rightarrow> nat option \<times> ('p, 'o) hstate \<Rightarrow>
     err option \<times> nat option \<times> ('p, 'o) hstate" where
  "pump_read P cf dir r = read_queue (\<lambda>s. (r, s)) ctx_stopped (pump_handle P cf dir) pump_finish"

text \<open>\<open>None\<close>: the pump is blocked in a read.\<close>

function pump ::
  "'p processor \<Rightarrow> 'o rt_config \<Rightarrow> Direction \<Rightarrow> rx list \<Rightarrow> nat option \<times> ('p, 'o) hstate \<Rightarrow>
     err option \<times> nat option \<times> ('p, 'o) hstate" where
  "pump P cf dir rx s =
     (case pump_ctx_Err s of
        (Some e, s) \<Rightarrow> (Some e, s)
      | (None, s) \<Rightarrow>
          (case recvmsg rx of
             None \<Rightarrow> (None, s)
           | Some (r, rx) \<Rightarrow>
               (case pump_read P cf dir r s of
                  (None, s) \<Rightarrow> pump P cf dir rx s
                | (Some e, s) \<Rightarrow>
                    if errors_Is e ENOBUFS then pump P cf dir rx (apsnd (bump rs_Overruns_update) s)
                    else if errors_Is e EAGAIN \<or> errors_Is e ErrDeadlineExceeded then pump P cf dir rx s
                    else (case pump_ctx_Err s of
                            (Some e', s) \<Rightarrow> (Some e', s)
                          | (None, s) \<Rightarrow> (Some (Wrap ''read queue'' [e]), s)))))"
  by pat_completeness auto
termination by (relation "measure (\<lambda>(_, _, _, rx, _). length rx)") (auto dest: recvmsg_shorter)

declare pump.simps [simp del]

section \<open>Opening and closing\<close>

record runtime =
  rt_outQ :: "queue option"
  rt_inQ :: "queue option"

definition rt_New :: "'o rt_config \<Rightarrow> rawsock \<Rightarrow> ('o rt_config \<times> runtime) res \<times> rawsock" where
  "rt_New cf k =
     (let cf = (if rc_MaxPacketLen cf = 0 then cf\<lparr>rc_MaxPacketLen := 0xffff\<rparr> else cf);
          cf = (if rc_MaxQueueLen cf = 0 then cf\<lparr>rc_MaxQueueLen := 0xffff\<rparr> else cf)
      in case NewReinjector k of
           (Some e, k) \<Rightarrow> (Inl e, k)
         | (None, k) \<Rightarrow> (Inr (cf, \<lparr>rt_outQ = None, rt_inQ = None\<rparr>), k))"

definition rt_Open :: "'w netlink \<Rightarrow> 'o rt_config \<Rightarrow> runtime \<Rightarrow> 'w \<Rightarrow> err option \<times> runtime \<times> 'w" where
  "rt_Open N cf rt w =
     (if rt_outQ rt \<noteq> None \<or> rt_inQ rt \<noteq> None then (Some (Msg ''NFQUEUE runtime is already open''), rt, w)
      else case openQueue N (rc_OutQueue cf) (rc_MaxPacketLen cf) (rc_MaxQueueLen cf) w of
             (Inl e, w) \<Rightarrow> (Some (Wrap ''open out-queue'' [e]), rt, w)
           | (Inr outQ, w) \<Rightarrow>
               (case openQueue N (rc_InQueue cf) (rc_MaxPacketLen cf) (rc_MaxQueueLen cf) w of
                  (Inl e, w) \<Rightarrow> (Some (Wrap ''open in-queue'' [e]), rt, snd (queue_Close N w))
                | (Inr inQ, w) \<Rightarrow> (None, rt\<lparr>rt_outQ := Some outQ, rt_inQ := Some inQ\<rparr>, w)))"

definition rt_Close :: "'w netlink \<Rightarrow> runtime \<Rightarrow> 'w \<times> rawsock \<Rightarrow> err option \<times> runtime \<times> 'w \<times> rawsock" where
  "rt_Close N rt = (\<lambda>(w, k).
     let (e1, w) = (if rt_outQ rt \<noteq> None then queue_Close N w else (None, w));
         rt = rt\<lparr>rt_outQ := None\<rparr>;
         (e2, w) = (if rt_inQ rt \<noteq> None then queue_Close N w else (None, w));
         rt = rt\<lparr>rt_inQ := None\<rparr>;
         (e3, k) = reinjector_Close k
     in (errors_Join [e1, e2, e3], rt, w, k))"

end
