(* ===== verification/Nfqueue_Delivery.thy ===== *)
theory Nfqueue_Delivery
  imports Nfqueue_Runtime
begin

text \<open>
  What the runtime owes every packet: a counted verdict, and never a drop unless its engine
  dropped it or a replacement is on the wire. The interface to the engine is the shape of its
  results.
\<close>

section \<open>Counting\<close>

definition verdicts_given :: "('p, 'o) shared \<Rightarrow> u64" where
  "verdicts_given sh = rs_Accepted (sh_Stats sh) + rs_Dropped (sh_Stats sh) + rs_Modified (sh_Stats sh)"

abbreviation given :: "('p, 'o) hstate \<Rightarrow> u64" where
  "given s \<equiv> verdicts_given (snd s)"

abbreviation wire :: "('p, 'o) hstate \<Rightarrow> (u32 \<times> byte list \<times> byte list) list" where
  "wire s \<equiv> rk_wire (sh_sock (snd s))"

lemma given_frame [simp, frame_simps]:
  "verdicts_given (sh\<lparr>sh_eng := eng\<rparr>) = verdicts_given sh" "verdicts_given (sh\<lparr>sh_sock := k\<rparr>) = verdicts_given sh"
  "verdicts_given (sh\<lparr>sh_panicked := b\<rparr>) = verdicts_given sh"
  by (simp_all add: verdicts_given_def)

lemma given_bump [simp]:
  "given (bump rs_Accepted_update s) = given s + 1"
  "given (bump rs_Dropped_update s) = given s + 1"
  "given (bump rs_Modified_update s) = given s + 1"
  "given (bump rs_Reinjected_update s) = given s"
  "given (bump rs_InjectFails_update s) = given s"
  "given (bump rs_Overruns_update s) = given s"
  "given (bump rs_Truncated_update s) = given s"
  by (simp_all add: verdicts_given_def bump_def)

lemma bump_frame [simp, frame_simps]:
  "fst (bump f s) = fst s" "sh_sock (snd (bump f s)) = sh_sock (snd s)" "sh_eng (snd (bump f s)) = sh_eng (snd s)"
  "sh_panicked (snd (bump f s)) = sh_panicked (snd s)" "sh_obs (snd (bump f s)) = sh_obs (snd s)"
  "sh_integrity (snd (bump f s)) = sh_integrity (snd s)"
  by (simp_all add: bump_def)

lemma q_verdict_frame [simp, frame_simps]: "snd (snd (q_verdict pid v r s)) = snd s"
  by (simp add: q_verdict_def case_prod_beta)

lemma rt_inject_frame [simp, frame_simps]:
  "fst (snd (rt_inject p mark s)) = fst s"
  "sh_Stats (snd (snd (rt_inject p mark s))) = sh_Stats (snd s)"
  "sh_eng (snd (snd (rt_inject p mark s))) = sh_eng (snd s)"
  "sh_panicked (snd (snd (rt_inject p mark s))) = sh_panicked (snd s)"
  by (simp_all add: rt_inject_def case_prod_beta)

lemma given_calls [simp]:
  "given (snd (q_verdict pid v r s)) = given s"
  "given (snd (rt_inject p mark s)) = given s"
  "given (apfst f s) = given s"
  "given (apsnd (sh_panicked_update g) s) = given s"
  "given (apsnd (sh_eng_update h) s) = given s"
  by (simp_all add: verdicts_given_def)

text \<open>A call and what is known of the state after it.\<close>

lemma call_eq: "c = (e, s') \<Longrightarrow> P (snd c) = P s'"
  by simp

lemma inject_extras_frame [simp, frame_simps]:
  "fst (snd (inject_extras ps mark n s)) = fst s"
  "given (snd (inject_extras ps mark n s)) = given s"
  "sh_eng (snd (snd (inject_extras ps mark n s))) = sh_eng (snd s)"
  "sh_panicked (snd (snd (inject_extras ps mark n s))) = sh_panicked (snd s)"
proof -
  have "fst (snd (inject_extras ps mark n s)) = fst s \<and> given (snd (inject_extras ps mark n s)) = given s \<and>
    sh_eng (snd (snd (inject_extras ps mark n s))) = sh_eng (snd s) \<and>
    sh_panicked (snd (snd (inject_extras ps mark n s))) = sh_panicked (snd s)"
  proof (induction ps arbitrary: n s)
    case (Cons p ps)
    obtain e s1 where i: "rt_inject p mark s = (e, s1)" by (cases "rt_inject p mark s")
    note f = rt_inject_frame [of p mark s, unfolded i snd_conv] given_calls(2) [of p mark s, unfolded i snd_conv]
    show ?case using Cons.IH [of n "bump rs_InjectFails_update s1"] Cons.IH [of "Suc n" "bump rs_Reinjected_update s1"] i f
      by (cases e) simp_all
  qed simp
  then show "fst (snd (inject_extras ps mark n s)) = fst s" "given (snd (inject_extras ps mark n s)) = given s"
    "sh_eng (snd (snd (inject_extras ps mark n s))) = sh_eng (snd s)"
    "sh_panicked (snd (snd (inject_extras ps mark n s))) = sh_panicked (snd s)" by simp_all
qed

lemma accept_drop [simp]:
  "given (rt_accept pid s) = given s + 1" "given (rt_drop pid s) = given s + 1"
  "fst (rt_accept pid s) = apfst (queue_accept pid) (fst s)" "fst (rt_drop pid s) = fst (snd (q_verdict pid nfDrop None s))"
  "sh_sock (snd (rt_accept pid s)) = sh_sock (snd s)" "sh_sock (snd (rt_drop pid s)) = sh_sock (snd s)"
  "sh_eng (snd (rt_accept pid s)) = sh_eng (snd s)" "sh_eng (snd (rt_drop pid s)) = sh_eng (snd s)"
  "sh_panicked (snd (rt_accept pid s)) = sh_panicked (snd s)" "sh_panicked (snd (rt_drop pid s)) = sh_panicked (snd s)"
  by (simp_all add: rt_accept_def rt_drop_def apfst_def map_prod_def case_prod_beta verdicts_given_def bump_def)

lemma report_observe [simp, frame_simps]:
  "fst (report_integrity cf e s) = fst s" "given (report_integrity cf e s) = given s"
  "sh_sock (snd (report_integrity cf e s)) = sh_sock (snd s)" "sh_eng (snd (report_integrity cf e s)) = sh_eng (snd s)"
  "sh_panicked (snd (report_integrity cf e s)) = sh_panicked (snd s)"
  "fst (observe cf raw dir s) = fst s" "given (observe cf raw dir s) = given s"
  "sh_sock (snd (observe cf raw dir s)) = sh_sock (snd s)" "sh_eng (snd (observe cf raw dir s)) = sh_eng (snd s)"
  "sh_panicked (snd (observe cf raw dir s)) = sh_panicked (snd s)"
  by (simp_all add: report_integrity_def observe_def verdicts_given_def split: option.split)

lemma outbound_given:
  "given (verdictOutbound pid mark res s) = given s + 1 \<and>
   sh_panicked (snd (verdictOutbound pid mark res s)) = sh_panicked (snd s)"
proof -
  obtain n s1 where x: "inject_extras (butlast (r_Packets res)) mark 0 s = (n, s1)"
    by (cases "inject_extras (butlast (r_Packets res)) mark 0 s")
  note x1 = inject_extras_frame(2,4) [of "butlast (r_Packets res)" mark 0 s, unfolded x, simplified]
  obtain e s2 where v: "q_verdict pid nfAccept (Some (last (r_Packets res))) s1 = (e, s2)"
    by (cases "q_verdict pid nfAccept (Some (last (r_Packets res))) s1")
  note v1 = q_verdict_frame [of pid nfAccept "Some (last (r_Packets res))" s1, unfolded v, simplified]
    given_calls(1) [of pid nfAccept "Some (last (r_Packets res))" s1, unfolded v, simplified]
  obtain e3 s3 where i: "rt_inject (last (r_Packets res)) mark s2 = (e3, s3)"
    by (cases "rt_inject (last (r_Packets res)) mark s2")
  note i1 = rt_inject_frame(4) [of "last (r_Packets res)" mark s2, unfolded i, simplified]
    given_calls(2) [of "last (r_Packets res)" mark s2, unfolded i, simplified]
  show ?thesis
    by (auto simp: verdictOutbound_def x v i x1 v1 i1 Let_def split: option.split)
qed

text \<open>The two ways through the handler: left alone, or processed by the engine.\<close>

definition with_engine :: "'o rt_config \<Rightarrow> byte list \<Rightarrow> Direction \<Rightarrow> 'p \<Rightarrow> ('p, 'o) hstate \<Rightarrow> ('p, 'o) hstate" where
  "with_engine cf raw dir eng s = apsnd (sh_eng_update (\<lambda>_. eng)) (observe cf raw dir s)"

lemma with_engine_frame [simp, frame_simps]:
  "fst (with_engine cf raw dir eng s) = fst s" "given (with_engine cf raw dir eng s) = given s"
  "sh_sock (snd (with_engine cf raw dir eng s)) = sh_sock (snd s)" "sh_eng (snd (with_engine cf raw dir eng s)) = eng"
  "sh_panicked (snd (with_engine cf raw dir eng s)) = sh_panicked (snd s)"
  by (simp_all add: with_engine_def)

definition processed :: "packet \<Rightarrow> bool" where
  "processed p \<longleftrightarrow> snd (ID (pa_generationMark p)) \<and> \<not> pa_truncated p \<and> pa_payload p \<noteq> []"

lemma handle_unprocessed:
  assumes "\<not> processed p"
  obtains s' where "handle P cf dir p s = s'" "given s' = given s + 1" "sh_panicked (snd s') = sh_panicked (snd s)"
    "fst s' = apfst (queue_accept (pa_id p)) (fst s)" "sh_sock (snd s') = sh_sock (snd s)" "sh_eng (snd s') = sh_eng (snd s)"
proof (rule that [OF refl])
  obtain gen ok where g: "ID (pa_generationMark p) = (gen, ok)" by (cases "ID (pa_generationMark p)")
  note [simp] = g
  show "given (handle P cf dir p s) = given s + 1" "sh_panicked (snd (handle P cf dir p s)) = sh_panicked (snd s)"
    "fst (handle P cf dir p s) = apfst (queue_accept (pa_id p)) (fst s)"
    "sh_sock (snd (handle P cf dir p s)) = sh_sock (snd s)" "sh_eng (snd (handle P cf dir p s)) = sh_eng (snd s)"
    using assms by (cases ok; auto simp: handle_def processed_def)+
qed

lemma handle_processed:
  assumes "processed p" and "P (fst (ID (pa_generationMark p))) (pa_payload p) dir (sh_eng (snd s)) = (r, eng)"
  shows "handle P cf dir p s =
    (let s = with_engine cf (pa_payload p) dir eng s
     in case r of
          Inl e \<Rightarrow>
            if errors_Is e ErrGenerationNotFound then report_integrity cf e (rt_accept (pa_id p) s)
            else rt_accept (pa_id p) s
        | Inr res \<Rightarrow>
            if dir = DirectionOutbound then verdictOutbound (pa_id p) (pa_routingMark p) res s
            else verdictInbound (pa_id p) res s)"
proof -
  obtain gen ok where "ID (pa_generationMark p) = (gen, ok)" by (cases "ID (pa_generationMark p)")
  moreover have "sh_eng (snd (observe cf (pa_payload p) dir s)) = sh_eng (snd s)" by simp
  ultimately show ?thesis using assms unfolding handle_def with_engine_def processed_def by (simp add: Let_def)
qed

section \<open>The interface to the engine\<close>

locale processor =
  fixes process :: "'p processor"
  assumes classified: "process gen raw dir p = (Inr res, p') \<Longrightarrow> \<exists>out. res = classify raw out"
begin

lemma inbound_given:
  assumes "process gen raw dir p = (Inr res, p')"
  shows "given (verdictInbound pid res s) = given s + 1 \<and>
    sh_panicked (snd (verdictInbound pid res s)) = sh_panicked (snd s)"
proof -
  obtain out where res: "res = classify raw out" using classified [OF assms] by blast
  obtain e s2 where v: "q_verdict pid nfAccept (Some (hd out)) s = (e, s2)"
    by (cases "q_verdict pid nfAccept (Some (hd out)) s")
  note v1 = q_verdict_frame [of pid nfAccept "Some (hd out)" s, unfolded v, simplified]
    given_calls(1) [of pid nfAccept "Some (hd out)" s, unfolded v, simplified]
  show ?thesis using v v1 by (cases e) (auto simp: verdictInbound_def res classify_def split: list.split)
qed

lemma handle_given:
  "given (handle process cf dir p s) = given s + 1 \<and> sh_panicked (snd (handle process cf dir p s)) = sh_panicked (snd s)"
proof (cases "processed p")
  case False
  then obtain s' where "handle process cf dir p s = s'" "given s' = given s + 1" "sh_panicked (snd s') = sh_panicked (snd s)"
    by (rule handle_unprocessed)
  then show ?thesis by simp
next
  case True
  obtain r eng where r: "process (fst (ID (pa_generationMark p))) (pa_payload p) dir (sh_eng (snd s)) = (r, eng)"
    by (cases "process (fst (ID (pa_generationMark p))) (pa_payload p) dir (sh_eng (snd s))")
  show ?thesis
  proof (cases r)
    case (Inl e)
    then show ?thesis by (simp add: handle_processed [where P = process, OF True r] Let_def)
  next
    case (Inr res)
    then show ?thesis
      using inbound_given [OF r [unfolded Inr], of "pa_id p" "with_engine cf (pa_payload p) dir eng s"]
        outbound_given [of "pa_id p" "pa_routingMark p" res "with_engine cf (pa_payload p) dir eng s"]
      unfolding handle_processed [where P = process, OF True r] Let_def Inr by (auto simp del: One_nat_def)
  qed
qed

end

lemma ProcessGeneration_classified:
  "ProcessGeneration X gen raw dir g = (Inr res, g') \<Longrightarrow> \<exists>out. res = classify raw out"
  by (auto simp: ProcessGeneration_def Process_def Let_def split: option.splits sum.splits prod.splits)

interpretation reg: processor "ProcessGeneration X" for X
  by unfold_locales (rule ProcessGeneration_classified)

section \<open>Two pumps\<close>

text \<open>Packets of both queues in the order they are handled: each queue has its own part of the state.\<close>

type_synonym ('p, 'o) both = "(Direction \<Rightarrow> queue \<times> knet) \<times> ('p, 'o) shared"

definition handle_at ::
  "'p processor \<Rightarrow> 'o rt_config \<Rightarrow> Direction \<times> packet \<Rightarrow> ('p, 'o) both \<Rightarrow> ('p, 'o) both" where
  "handle_at P cf = (\<lambda>(dir, p) (qs, sh).
     case handle P cf dir p (qs dir, sh) of (q, sh) \<Rightarrow> (qs(dir := q), sh))"

text \<open>C25: However the two queues' packets interleave, every packet handled is in exactly one of the
  accepted, dropped and modified counters, whatever fails on the way, and no index is ever out
  of range.\<close>

theorem every_packet_counted:
  "verdicts_given (snd (fold (handle_at (ProcessGeneration X) cf) ps s)) =
     verdicts_given (snd s) + of_nat (length ps) \<and>
   sh_panicked (snd (fold (handle_at (ProcessGeneration X) cf) ps s)) = sh_panicked (snd s)"
proof (induction ps arbitrary: s)
  case (Cons p ps)
  obtain dir pk where p: "p = (dir, pk)" by (cases p)
  obtain q sh where h: "handle (ProcessGeneration X) cf dir pk (fst s dir, snd s) = (q, sh)"
    by (cases "handle (ProcessGeneration X) cf dir pk (fst s dir, snd s)")
  have at: "snd (handle_at (ProcessGeneration X) cf p s) = sh" by (simp add: handle_at_def p h case_prod_beta)
  have "verdicts_given sh = verdicts_given (snd s) + 1" "sh_panicked sh = sh_panicked (snd s)"
    using reg.handle_given [of X cf dir pk "(fst s dir, snd s)"] h by (simp_all add: verdicts_given_def)
  with Cons.IH [of "handle_at (ProcessGeneration X) cf p s"] at show ?case by (simp add: add.assoc)
qed simp

section \<open>Never a black hole\<close>

text \<open>A packet on the wire, as the reinjector sends it.\<close>

definition sent :: "u32 \<Rightarrow> byte list \<Rightarrow> u32 \<times> byte list \<times> byte list" where
  "sent mark d = (mark, take 4 (drop 16 d), d)"

lemma rawsock_call_wire:
  assumes "rk_wire (f (snd (pop k))) = rk_wire k"
  shows "rk_wire (snd (rawsock_call f k)) = rk_wire k"
  using assms by (auto simp: rawsock_call_def pop_def split: list.splits outcome.split)

lemma rt_inject_wire:
  assumes "rt_inject d mark s = (e, s')"
  shows "set (wire s) \<subseteq> set (wire s')" and "e = None \<Longrightarrow> sent mark d \<in> set (wire s')"
  using assms
  by (auto simp: rt_inject_def Inject_def reinjectionMark_def rawsock_call_def pop_def sent_def Let_def
      split: if_splits list.splits outcome.splits)

lemma extras_wire:
  assumes "inject_extras ps mark n s = (m, s')"
  shows "set (wire s) \<subseteq> set (wire s')" and "n < m \<Longrightarrow> \<exists>d\<in>set ps. sent mark d \<in> set (wire s')"
proof -
  have "set (wire s) \<subseteq> set (wire s') \<and> (n < m \<longrightarrow> (\<exists>d\<in>set ps. sent mark d \<in> set (wire s')))"
    using assms
  proof (induction ps arbitrary: n s)
    case (Cons p ps)
    obtain e s1 where i: "rt_inject p mark s = (e, s1)" by (cases "rt_inject p mark s")
    show ?case
    proof (cases e)
      case None
      with Cons.prems i have "inject_extras ps mark (Suc n) (bump rs_Reinjected_update s1) = (m, s')" by simp
      from Cons.IH [OF this] rt_inject_wire [OF i] None show ?thesis by auto
    next
      case (Some x)
      with Cons.prems i have "inject_extras ps mark n (bump rs_InjectFails_update s1) = (m, s')" by simp
      from Cons.IH [OF this] rt_inject_wire(1) [OF i] show ?thesis by auto
    qed
  qed simp
  then show "set (wire s) \<subseteq> set (wire s')" "n < m \<Longrightarrow> \<exists>d\<in>set ps. sent mark d \<in> set (wire s')" by auto
qed

text \<open>The kernel's verdicts after a call on the queue.\<close>

abbreviation kernel :: "('p, 'o) hstate \<Rightarrow> knet" where
  "kernel s \<equiv> snd (fst s)"

lemma allowed_refl [simp, intro]: "allowed ds k k"
  by (auto simp: allowed_def)

lemma q_verdict_allowed:
  assumes "(pid, Now v r) \<in> set ds" and "sendable r" and "allowed ds k0 (kernel s)"
  shows "allowed ds k0 (kernel (snd (q_verdict pid v r s)))"
proof -
  have "fst (snd (q_verdict pid v r s)) = decide writeRaw (pid, Now v r) (fst s)"
    by (simp add: q_verdict_def decide_def case_prod_beta)
  moreover have "allowed ds k0 (snd (decide writeRaw (pid, Now v r) (fst (fst s), snd (fst s))))"
    using assms by (intro decide_allowed) simp_all
  ultimately show ?thesis by simp
qed

lemma q_verdict_eq_allowed:
  assumes "q_verdict pid v r s = (e, s')" and "(pid, Now v r) \<in> set ds" and "sendable r" and "allowed ds k0 (kernel s)"
  shows "allowed ds k0 (kernel s')" and "snd s' = snd s"
  using q_verdict_allowed [OF assms(2-4)] q_verdict_frame [of pid v r s] assms(1) by simp_all

lemma rt_drop_allowed:
  "(pid, Now nfDrop None) \<in> set ds \<Longrightarrow> allowed ds k0 (kernel s) \<Longrightarrow> allowed ds k0 (kernel (rt_drop pid s))"
  by (simp add: q_verdict_allowed sendable_def)

text \<open>What may be asked for a packet whose engine produced \<open>out\<close>, given what is on the wire.\<close>

definition asked :: "u32 \<Rightarrow> u32 \<Rightarrow> byte list list \<Rightarrow> (u32 \<times> byte list \<times> byte list) set \<Rightarrow> (u32 \<times> decision) list" where
  "asked pid mark out on_wire =
     (if out = [] \<or> (\<exists>d\<in>set out. sent mark d \<in> on_wire) then [(pid, Now nfDrop None)] else []) @
     (if out = [] then [] else [(pid, Now nfAccept (Some (last out)))])"

lemma allowed_mono: "allowed ds k k' \<Longrightarrow> set ds \<subseteq> set ds' \<Longrightarrow> allowed ds' k k'"
  unfolding allowed_def by fast

lemma outbound_allowed:
  assumes "\<forall>d\<in>set out. sendable (Some d)"
  shows "allowed (asked pid mark out (set (wire (verdictOutbound pid mark (classify raw out) s)))) (kernel s)
    (kernel (verdictOutbound pid mark (classify raw out) s))"
proof (cases "out = [] \<or> out = [raw]")
  case True
  from True show ?thesis
  proof
    assume "out = []"
    then show ?thesis
      using rt_drop_allowed [where pid = pid and ds = "asked pid mark [] {}", OF _ allowed_refl]
      by (simp add: verdictOutbound_def classify_def asked_def del: accept_drop(4))
  qed (simp add: verdictOutbound_def classify_def)
next
  case False
  then have out: "out \<noteq> []" "r_Outcome (classify raw out) \<noteq> OutcomeUnchanged" "r_Packets (classify raw out) = out"
    by (simp_all add: classify_cases)
  let ?res = "verdictOutbound pid mark (classify raw out) s"
  let ?ds = "asked pid mark out (set (wire ?res))"
  obtain n s1 where x: "inject_extras (butlast out) mark 0 s = (n, s1)" by (cases "inject_extras (butlast out) mark 0 s")
  obtain e s2 where v: "q_verdict pid nfAccept (Some (last out)) s1 = (e, s2)" by (cases "q_verdict pid nfAccept (Some (last out)) s1")
  obtain e3 s3 where i: "rt_inject (last out) mark s2 = (e3, s3)" by (cases "rt_inject (last out) mark s2")
  have res: "?res = (case e of None \<Rightarrow> bump rs_Modified_update s2
      | Some _ \<Rightarrow> (case e3 of None \<Rightarrow> rt_drop pid (bump rs_Reinjected_update s3)
         | Some _ \<Rightarrow> if n = 0 then rt_accept pid (bump rs_InjectFails_update s3) else rt_drop pid (bump rs_InjectFails_update s3)))"
    using out by (simp add: verdictOutbound_def x v i Let_def split: option.split)
  have k1: "kernel s1 = kernel s" using inject_extras_frame(1) [of "butlast out" mark 0 s] by (simp add: x)
  have ok: "sendable (Some (last out))" using assms out(1) by simp
  have "(pid, Now nfAccept (Some (last out))) \<in> set ?ds" using out(1) by (simp add: asked_def)
  then have 2: "allowed ?ds (kernel s) (kernel s2)" "snd s2 = snd s1"
    using q_verdict_eq_allowed [OF v _ ok, of ?ds "kernel s"] by (simp_all add: k1)
  have 3: "kernel s3 = kernel s2" using rt_inject_frame(1) [of "last out" mark s2] by (simp add: i)
  show ?thesis
  proof (cases "e = None \<or> e3 \<noteq> None \<and> n = 0")
    case True
    then show ?thesis using 2(1) 3 res by (cases e; cases e3) simp_all
  next
    case False
    then have drop: "kernel ?res = kernel (rt_drop pid s3)" "wire ?res = wire s3"
      using res by (cases e; cases e3; simp add: rt_drop_def q_verdict_def bump_def case_prod_beta)+
    have "\<exists>d\<in>set out. sent mark d \<in> set (wire s3)"
    proof (cases e3)
      case None
      then show ?thesis using rt_inject_wire(2) [OF i] out(1) by (metis last_in_set)
    next
      case (Some x)
      with False have "0 < n" by simp
      then obtain d where d: "d \<in> set (butlast out)" "sent mark d \<in> set (wire s1)" using extras_wire(2) [OF x] by blast
      have "d \<in> set out" using d(1) by (rule in_set_butlastD)
      moreover have "sent mark d \<in> set (wire s3)" using rt_inject_wire(1) [OF i] 2(2) d(2) by auto
      ultimately show ?thesis by blast
    qed
    then have "(pid, Now nfDrop None) \<in> set ?ds" using drop(2) by (simp add: asked_def)
    then show ?thesis using rt_drop_allowed [of pid ?ds "kernel s" s3] 2(1) 3 drop(1) by simp
  qed
qed

lemma inbound_allowed:
  assumes "\<forall>d\<in>set out. sendable (Some d)"
  shows "allowed (asked pid mark out {}) (kernel s) (kernel (verdictInbound pid (classify raw out) s))"
proof -
  show ?thesis
  proof (cases "r_Outcome (classify raw out)")
    case OutcomeDropped
    then have "out = []" by (simp add: classify_cases)
    then show ?thesis
      using rt_drop_allowed [where pid = pid and ds = "asked pid mark [] {}", OF _ allowed_refl]
      by (simp add: verdictInbound_def classify_def asked_def del: accept_drop(4))
  next
    case OutcomeTampered
    then obtain d where out: "out = [d]" by (auto simp: classify_cases)
    obtain e s2 where v: "q_verdict pid nfAccept (Some d) s = (e, s2)" by (cases "q_verdict pid nfAccept (Some d) s")
    have "allowed (asked pid mark out {}) (kernel s) (kernel s2)"
      using q_verdict_eq_allowed [OF v _ _ allowed_refl, of "asked pid mark out {}"] assms out by (simp add: asked_def)
    then show ?thesis using v OutcomeTampered by (cases e) (simp_all add: verdictInbound_def classify_def out split: if_splits)
  qed (simp_all add: verdictInbound_def)
qed

text \<open>What the engine of a packet's generation makes of it.\<close>

definition engine_out :: "genlib \<Rightarrow> Direction \<Rightarrow> packet \<Rightarrow> Registry \<Rightarrow> byte list list option" where
  "engine_out X dir p g =
     (if processed p
      then case ProcessGeneration X (fst (ID (pa_generationMark p))) (pa_payload p) dir g of
             (Inr res, _) \<Rightarrow> Some (r_Packets res)
           | (Inl e, _) \<Rightarrow> None
      else None)"

text \<open>C24: Whatever fails on the two sockets, handling a packet makes the kernel give only these
  verdicts: plain accepts, or, for the packet itself, the replacement its own generation's
  engine produced last, or a drop - and a drop only when that engine dropped the packet or,
  outbound, one of its replacements is already on the wire under the packet's exact routing mark.\<close>

theorem never_black_holes:
  assumes "\<And>out d. engine_out X dir p (sh_eng (snd s)) = Some out \<Longrightarrow> d \<in> set out \<Longrightarrow> length d < 65532"
    and "s' = handle (ProcessGeneration X) cf dir p s"
    and "(i, v, r) \<in> set (kn_verdicts (snd (fst s')))" and "(i, v, r) \<notin> set (kn_verdicts (snd (fst s)))"
  shows "v = nfAccept \<and> r = None \<or>
    (\<exists>out. i = pa_id p \<and> engine_out X dir p (sh_eng (snd s)) = Some out \<and>
      (v = nfAccept \<and> r = Some (last out) \<and> out \<noteq> [] \<or>
       v = nfDrop \<and> r = None \<and>
         (out = [] \<or> dir = DirectionOutbound \<and> (\<exists>d\<in>set out. sent (pa_routingMark p) d \<in> set (rk_wire (sh_sock (snd s')))))))"
proof (cases "processed p")
  case False
  then obtain s1 where "handle (ProcessGeneration X) cf dir p s = s1" "fst s1 = apfst (queue_accept (pa_id p)) (fst s)"
    by (rule handle_unprocessed)
  with assms(2-4) show ?thesis by simp
next
  case True
  let ?gen = "fst (ID (pa_generationMark p))"
  obtain res eng where r: "ProcessGeneration X ?gen (pa_payload p) dir (sh_eng (snd s)) = (res, eng)"
    by (cases "ProcessGeneration X ?gen (pa_payload p) dir (sh_eng (snd s))")
  note h = handle_processed [where P = "ProcessGeneration X" and cf = cf, OF True r]
  show ?thesis
  proof (cases res)
    case (Inl e)
    then have "kernel s' = kernel s" using h assms(2) by (simp add: Let_def)
    with assms(3,4) show ?thesis by simp
  next
    case (Inr res')
    let ?s = "with_engine cf (pa_payload p) dir eng s"
    obtain out where res: "res' = classify (pa_payload p) out" using ProcessGeneration_classified r Inr by blast
    then have out: "engine_out X dir p (sh_eng (snd s)) = Some out"
      using r True Inr by (simp add: engine_out_def classify_cases)
    then have ok: "\<forall>d\<in>set out. sendable (Some d)" using assms(1) by (simp add: sendable_def nfq_sizes)
    let ?w = "if dir = DirectionOutbound then set (wire s') else {}"
    have "allowed (asked (pa_id p) (pa_routingMark p) out ?w) (kernel s) (kernel s')"
      using outbound_allowed [OF ok, of "pa_id p" "pa_routingMark p" "pa_payload p" ?s]
        inbound_allowed [OF ok, of "pa_id p" "pa_routingMark p" ?s "pa_payload p"] h assms(2)
      by (auto simp: Let_def Inr res)
    with assms(3,4) have "v = nfAccept \<and> r = None \<or> (i, Now v r) \<in> set (asked (pa_id p) (pa_routingMark p) out ?w)"
      unfolding allowed_def by fast
    with out show ?thesis by (auto simp: asked_def split: if_splits)
  qed
qed

definition ex_payload :: "byte list" where
  "ex_payload = [0x45, 0, 0, 20, 0, 0, 0, 0, 64, 6, 0, 0, 192, 0, 2, 1, 198, 51, 100, 7]"

definition ex_packet :: packet where
  "ex_packet = \<lparr>pa_id = 5, pa_generationMark = 0x67007000, pa_routingMark = 0x438, pa_payload = ex_payload, pa_truncated = False\<rparr>"

text \<open>Generation 7 sends every packet twice.\<close>

definition ex_registry :: Registry where
  "ex_registry = (NewRegistry ''e'')\<lparr>g_byID :=
     [(7, \<lparr>e_cur = Some (''dup'', \<lparr>s_Outbound = [], s_Inbound = [], s_Apply = \<lambda>raw _. Inr [raw, raw]\<rparr>),
          e_Stats = zero_stats, e_lineage = ''e-1''\<rparr>)]\<rparr>"

definition ex_decode :: genlib where
  "ex_decode = \<lparr>x_NewStrategy = \<lambda>_. Inl (Msg ''unused''), x_Validate = \<lambda>_. None, x_ErrorLayer = \<lambda>_. None\<rparr>"

definition ex_sock :: rawsock where
  "ex_sock = \<lparr>w_script = [OK, OK, Fail], rk_open = True, rk_mark = 1, rk_wire = [], rk_errno = Msg ''EPERM''\<rparr>"

definition ex_shared :: "(Registry, unit) shared" where
  "ex_shared = \<lparr>sh_Stats = zero_verdicts, sh_eng = ex_registry, sh_obs = (), sh_sock = ex_sock, sh_integrity = [], sh_panicked = False\<rparr>"

definition ex_config :: "unit rt_config" where
  "ex_config = \<lparr>rc_OutQueue = 200, rc_InQueue = 201, rc_MaxPacketLen = 0xffff, rc_MaxQueueLen = 0xffff,
     rc_Observer = None, rc_IntegrityFailure = True\<rparr>"

lemma ex_ID: "ID 0x67007000 = (7, True)" "(0x438 :: u32) AND Mask = 0"
  by code_simp+

lemma ex_processed: "processed ex_packet"
  by (simp add: processed_def ex_packet_def ex_payload_def ex_ID)

lemma ex_classify: "classify ex_payload [ex_payload, ex_payload] = \<lparr>r_Outcome = OutcomeExpanded, r_Packets = [ex_payload, ex_payload]\<rparr>"
  by (simp add: classify_def)

lemma ex_process: "\<exists>g. ProcessGeneration ex_decode 7 ex_payload dir ex_registry = (Inr (classify ex_payload [ex_payload, ex_payload]), g)"
  by (simp add: ProcessGeneration_def Process_def ex_registry_def NewRegistry_def ex_decode_def Let_def)

lemma ex_payload_length: "length ex_payload = 20"
  by (simp add: ex_payload_def)

theorem never_black_holes_witness:
  "(5, nfDrop, None) \<in> set (kn_verdicts (snd (fst (handle (ProcessGeneration ex_decode) ex_config DirectionOutbound ex_packet
     ((ex_queue, ex_knet\<lparr>w_script := [Fail]\<rparr>), ex_shared))))) \<and>
   sent 0x438 ex_payload \<in> set (rk_wire (sh_sock (snd (handle (ProcessGeneration ex_decode) ex_config DirectionOutbound ex_packet
     ((ex_queue, ex_knet\<lparr>w_script := [Fail]\<rparr>), ex_shared)))))"
proof -
  let ?s = "((ex_queue, ex_knet\<lparr>w_script := [Fail]\<rparr>), ex_shared)"
  let ?P = "ProcessGeneration ex_decode"
  let ?h = "handle ?P ex_config DirectionOutbound ex_packet ?s"
  obtain g where g: "?P 7 ex_payload DirectionOutbound ex_registry = (Inr (classify ex_payload [ex_payload, ex_payload]), g)"
    using ex_process by blast
  have h: "?h = verdictOutbound 5 0x438 (classify ex_payload [ex_payload, ex_payload]) (with_engine ex_config ex_payload DirectionOutbound g ?s)"
    using handle_processed [where P = ?P and cf = ex_config and dir = DirectionOutbound and s = ?s, OF ex_processed]
    by (simp add: ex_packet_def ex_ID ex_shared_def g)
  have out: "engine_out ex_decode DirectionOutbound ex_packet (sh_eng (snd ?s)) = Some [ex_payload, ex_payload]"
    using ex_processed g by (simp add: engine_out_def ex_packet_def ex_ID ex_shared_def ex_classify)
  have drop: "(5, nfDrop, None) \<in> set (kn_verdicts (snd (fst ?h)))"
    unfolding h
    by (simp add: verdictOutbound_def ex_classify Let_def q_verdict_def verdict_def flush_def sendVerdict_def writeRaw_def
        pop_def rt_drop_def bump_def
        rt_inject_def Inject_def reinjectionMark_def rawsock_call_def ex_payload_length case_prod_beta with_engine_def observe_def
        ex_config_def ex_queue_def ex_knet_def ex_shared_def ex_sock_def ex_ID marshalVerdict_message kernel_verdict_def decode_message
        sendable_def nfqnlMsgVerdictBatch_def nfqnlMsgVerdict_def)
  have "nfDrop \<noteq> nfAccept" by (simp add: nfDrop_def nfAccept_def)
  moreover have "(5, nfDrop, None) \<notin> set (kn_verdicts (snd (fst ?s)))" by (simp add: ex_knet_def)
  moreover have "length d < 65532"
    if "engine_out ex_decode DirectionOutbound ex_packet (sh_eng (snd ?s)) = Some out" "d \<in> set out" for out d
    using that unfolding out by (auto simp: ex_payload_length)
  ultimately show ?thesis
    using never_black_holes [OF _ refl drop] drop out
    by (auto simp: ex_packet_def)
qed

end
