(* ===== verification/Nfqueue_Service.thy ===== *)
theory Nfqueue_Service
  imports Nfqueue_Delivery
begin

text \<open>
  The promise of the packet path, as an abstract specification over packets: per packet, one
  verdict and the packets put on the wire. One read of the runtime, from the bytes of a netlink
  datagram to the kernel's verdicts, implements it.
\<close>

section \<open>The specification\<close>

text \<open>The verdict owed to a packet, from what its generation's engine makes of it.\<close>

definition owed :: "Direction \<Rightarrow> packet \<Rightarrow> byte list list option \<Rightarrow> decision" where
  "owed dir p out =
     (case out of
        None \<Rightarrow> Defer
      | Some [] \<Rightarrow> Now nfDrop None
      | Some [d] \<Rightarrow> if d = pa_payload p then Defer else Now nfAccept (Some d)
      | Some ds \<Rightarrow> if dir = DirectionOutbound then Now nfAccept (Some (last ds)) else Defer)"

text \<open>The packets put on the wire ahead of it.\<close>

definition ahead :: "Direction \<Rightarrow> packet \<Rightarrow> byte list list option \<Rightarrow> (u32 \<times> byte list \<times> byte list) list" where
  "ahead dir p out =
     (case out of
        None \<Rightarrow> []
      | Some ds \<Rightarrow>
          if dir = DirectionOutbound \<and> pa_routingMark p AND Mask = 0
          then map (sent (pa_routingMark p)) (filter (\<lambda>d. 20 \<le> length d) (butlast ds))
          else [])"

definition engine_after :: "genlib \<Rightarrow> Direction \<Rightarrow> packet \<Rightarrow> Registry \<Rightarrow> Registry" where
  "engine_after X dir p g =
     (if processed p then snd (ProcessGeneration X (fst (ID (pa_generationMark p))) (pa_payload p) dir g) else g)"

fun service ::
  "genlib \<Rightarrow> Direction \<Rightarrow> packet list \<Rightarrow> Registry \<Rightarrow>
     (u32 \<times> decision) list \<times> (u32 \<times> byte list \<times> byte list) list \<times> Registry" where
  "service X dir [] g = ([], [], g)"
| "service X dir (p # ps) g =
     (let out = engine_out X dir p g
      in case service X dir ps (engine_after X dir p g) of
           (ds, ws, g) \<Rightarrow> ((pa_id p, owed dir p out) # ds, ahead dir p out @ ws, g))"

section \<open>One packet\<close>

lemma writeRaw_ok: "w_script k = [] \<Longrightarrow> writeRaw b k = (None, kernel_verdict b k)"
  by (simp add: writeRaw_def pop_Nil)

lemma kernel_verdict_script [simp]: "w_script (kernel_verdict b k) = w_script k"
  by (simp add: kernel_verdict_def split: prod.split)

lemma sendVerdict_works:
  assumes "w_script k = []"
  obtains q' k' where "sendVerdict writeRaw ty pid v r (q, k) = (None, q', k')" "w_script k' = []"
  using assms by (cases "marshalVerdict ty pid v r q") (simp add: sendVerdict_def writeRaw_ok)

lemma flush_works:
  assumes "w_script k = []"
  obtains q' k' where "flush writeRaw (q, k) = (None, q', k')" "w_script k' = []"
proof -
  obtain q1 k1 where "sendVerdict writeRaw nfqnlMsgVerdictBatch (q_pendingAccept q) nfAccept None (q\<lparr>q_hasPending := False\<rparr>, k) =
      (None, q1, k1)" "w_script k1 = []" by (rule sendVerdict_works [OF assms])
  with assms that show thesis by (cases "q_hasPending q") (simp_all add: flush_def)
qed

lemma verdict_works:
  assumes "w_script k = []"
  obtains q' k' where "verdict writeRaw pid v r (q, k) = (None, q', k')" "w_script k' = []"
proof -
  obtain q1 k1 where f: "flush writeRaw (q, k) = (None, q1, k1)" "w_script k1 = []" by (rule flush_works [OF assms])
  obtain q2 k2 where 2: "sendVerdict writeRaw nfqnlMsgVerdict pid v r (q1\<lparr>q_hasPending := False\<rparr>, k1) = (None, q2, k2)" "w_script k2 = []"
    by (rule sendVerdict_works [OF f(2)])
  obtain q3 k3 where 3: "sendVerdict writeRaw nfqnlMsgVerdict pid v r (q\<lparr>q_hasPending := False\<rparr>, k) = (None, q3, k3)" "w_script k3 = []"
    by (rule sendVerdict_works [OF assms])
  show thesis
    using f 2 3 that by (cases "q_hasPending q \<and> q_pendingAccept q < pid") (simp_all add: verdict_def)
qed

lemma q_verdict_works:
  assumes "w_script (kernel s) = []"
  obtains s' where "q_verdict pid v r s = (None, s')" "fst s' = decide writeRaw (pid, Now v r) (fst s)"
    "snd s' = snd s" "w_script (kernel s') = []"
proof -
  obtain q' k' where v: "verdict writeRaw pid v r (fst (fst s), snd (fst s)) = (None, q', k')" "w_script k' = []"
    by (rule verdict_works [OF assms])
  show thesis
    by (rule that [of "((q', k'), snd s)"]) (use v in \<open>simp_all add: q_verdict_def decide_def case_prod_beta\<close>)
qed

lemma rawsock_call_ok: "w_script k = [] \<Longrightarrow> rawsock_call f k = (None, f k)"
  by (simp add: rawsock_call_def pop_def)

definition injectable :: "u32 \<Rightarrow> byte list \<Rightarrow> bool" where
  "injectable mark d \<longleftrightarrow> mark AND Mask = 0 \<and> 20 \<le> length d"

lemma rt_inject_ok:
  assumes "w_script (sh_sock (snd s)) = []" and "rt_inject d mark s = (e, s')"
  shows "fst s' = fst s" and "sh_eng (snd s') = sh_eng (snd s)" and "e = None \<longleftrightarrow> injectable mark d"
    and "w_script (sh_sock (snd s')) = []" and "wire s' = wire s @ (if injectable mark d then [sent mark d] else [])"
  using assms
  by (auto simp: rt_inject_def Inject_def reinjectionMark_def injectable_def rawsock_call_ok sent_def Let_def split: if_splits)

lemma extras_ok:
  assumes "w_script (sh_sock (snd s)) = []" and "inject_extras ps mark n s = (m, s')"
  shows "fst s' = fst s \<and> sh_eng (snd s') = sh_eng (snd s) \<and> w_script (sh_sock (snd s')) = [] \<and>
    wire s' = wire s @ map (sent mark) (filter (injectable mark) ps)"
  using assms
proof (induction ps arbitrary: n s)
  case (Cons p ps)
  obtain e s1 where i: "rt_inject p mark s = (e, s1)" by (cases "rt_inject p mark s")
  note i1 = rt_inject_ok [OF Cons.prems(1) i]
  show ?case
  proof (cases e)
    case None
    with Cons.prems(2) i have "inject_extras ps mark (Suc n) (bump rs_Reinjected_update s1) = (m, s')" by simp
    from Cons.IH [OF _ this] i1 None show ?thesis by simp
  next
    case (Some x)
    with Cons.prems(2) i have "inject_extras ps mark n (bump rs_InjectFails_update s1) = (m, s')" by simp
    from Cons.IH [OF _ this] i1 Some show ?thesis by simp
  qed
qed simp

lemma injectable_filter:
  "filter (injectable mark) ps = (if mark AND Mask = 0 then filter (\<lambda>d. 20 \<le> length d) ps else [])"
  by (induction ps) (simp_all add: injectable_def)

text \<open>What the handler has done to the state, when nothing fails.\<close>

definition served :: "u32 \<times> decision \<Rightarrow> (u32 \<times> byte list \<times> byte list) list \<Rightarrow> ('p, 'o) hstate \<Rightarrow> ('p, 'o) hstate \<Rightarrow> bool" where
  "served d ws s s' \<longleftrightarrow> fst s' = decide writeRaw d (fst s) \<and> wire s' = wire s @ ws \<and>
     w_script (kernel s') = [] \<and> w_script (sh_sock (snd s')) = [] \<and> sh_eng (snd s') = sh_eng (snd s)"

lemma served_accept:
  assumes "w_script (kernel s) = []" and "w_script (sh_sock (snd s)) = []"
  shows "served (pid, Defer) [] s (rt_accept pid s)"
  using assms by (cases s) (auto simp: served_def decide_def)

lemma served_verdict:
  assumes "w_script (kernel s) = []" and "w_script (sh_sock (snd s)) = []" and "q_verdict pid v r s = (e, s')"
  shows "e = None" and "served (pid, Now v r) [] s s'"
proof -
  obtain s1 where 1: "q_verdict pid v r s = (None, s1)" "fst s1 = decide writeRaw (pid, Now v r) (fst s)"
    "snd s1 = snd s" "w_script (kernel s1) = []" by (rule q_verdict_works [OF assms(1)])
  with assms(3) have "s' = s1" "e = None" by simp_all
  with 1 assms(2) show "e = None" "served (pid, Now v r) [] s s'" by (simp_all add: served_def)
qed

lemma served_bump [simp]: "served d ws s (bump f s') = served d ws s s'"
  by (simp add: served_def)

lemma served_report [simp]: "served d ws s (report_integrity cf e s') = served d ws s s'"
  by (simp add: served_def)

lemma served_drop:
  assumes "w_script (kernel s) = []" and "w_script (sh_sock (snd s)) = []"
  shows "served (pid, Now nfDrop None) [] s (rt_drop pid s)"
  using served_verdict(2) [OF assms, of pid nfDrop None] by (cases "q_verdict pid nfDrop None s") (simp add: rt_drop_def)

lemma served_outbound:
  assumes "w_script (kernel s) = []" and "w_script (sh_sock (snd s)) = []"
  shows "served (pa_id p, owed DirectionOutbound p (Some out)) (ahead DirectionOutbound p (Some out)) s
    (verdictOutbound (pa_id p) (pa_routingMark p) (classify (pa_payload p) out) s)"
proof (cases "out = [] \<or> out = [pa_payload p]")
  case True
  then show ?thesis
    using served_accept [OF assms] served_drop [OF assms] by (auto simp: verdictOutbound_def classify_def owed_def ahead_def)
next
  case False
  let ?mark = "pa_routingMark p"
  from False have out: "r_Outcome (classify (pa_payload p) out) \<noteq> OutcomeUnchanged" "r_Packets (classify (pa_payload p) out) = out"
    "owed DirectionOutbound p (Some out) = Now nfAccept (Some (last out))"
    by (auto simp: classify_cases owed_def split: list.split)
  obtain m s1 where x: "inject_extras (butlast out) ?mark 0 s = (m, s1)" by (cases "inject_extras (butlast out) ?mark 0 s")
  note x1 = extras_ok [OF assms(2) x]
  obtain e s2 where v: "q_verdict (pa_id p) nfAccept (Some (last out)) s1 = (e, s2)"
    by (cases "q_verdict (pa_id p) nfAccept (Some (last out)) s1")
  have k: "w_script (kernel s1) = []" "w_script (sh_sock (snd s1)) = []" using x1 assms(1) by simp_all
  note v1 = served_verdict [OF k v]
  have "verdictOutbound (pa_id p) ?mark (classify (pa_payload p) out) s = bump rs_Modified_update s2"
    using False out x v v1(1) by (simp add: verdictOutbound_def Let_def)
  moreover have "ahead DirectionOutbound p (Some out) = map (sent ?mark) (filter (injectable ?mark) (butlast out))"
    by (simp add: ahead_def injectable_filter)
  moreover have "served (pa_id p, Now nfAccept (Some (last out))) (map (sent ?mark) (filter (injectable ?mark) (butlast out))) s s2"
    using v1(2) x1 unfolding served_def by auto
  ultimately show ?thesis using out(3) by simp
qed

lemma served_inbound:
  assumes "w_script (kernel s) = []" and "w_script (sh_sock (snd s)) = []"
  shows "served (pa_id p, owed DirectionInbound p (Some out)) [] s (verdictInbound (pa_id p) (classify (pa_payload p) out) s)"
proof (cases "r_Outcome (classify (pa_payload p) out)")
  case OutcomeTampered
  then obtain d where d: "out = [d]" "d \<noteq> pa_payload p" by (auto simp: classify_cases)
  obtain e s2 where v: "q_verdict (pa_id p) nfAccept (Some d) s = (e, s2)" by (cases "q_verdict (pa_id p) nfAccept (Some d) s")
  note v1 = served_verdict [OF assms v]
  show ?thesis using v v1 d by (simp add: verdictInbound_def classify_def owed_def)
next
  case OutcomeExpanded
  then have "owed DirectionInbound p (Some out) = Defer" by (auto simp: classify_cases owed_def split: list.split)
  then show ?thesis using served_accept [OF assms] OutcomeExpanded by (simp add: verdictInbound_def)
next
  case OutcomeUnchanged
  then have "owed DirectionInbound p (Some out) = Defer" by (simp add: classify_cases owed_def)
  then show ?thesis using served_accept [OF assms] OutcomeUnchanged by (simp add: verdictInbound_def)
next
  case OutcomeDropped
  then have "out = []" by (simp add: classify_cases)
  then show ?thesis using served_drop [OF assms] by (simp add: verdictInbound_def classify_def owed_def)
qed

lemma handle_serves:
  assumes "w_script (kernel s) = []" and "w_script (sh_sock (snd s)) = []"
    and out_def: "out = engine_out X dir p (sh_eng (snd s))" and s'_def: "s' = handle (ProcessGeneration X) cf dir p s"
  shows "fst s' = decide writeRaw (pa_id p, owed dir p out) (fst s)" and "wire s' = wire s @ ahead dir p out"
    and "w_script (kernel s') = []" and "w_script (sh_sock (snd s')) = []" and "sh_eng (snd s') = engine_after X dir p (sh_eng (snd s))"
proof -
  have "fst s' = decide writeRaw (pa_id p, owed dir p out) (fst s) \<and> wire s' = wire s @ ahead dir p out \<and>
    w_script (kernel s') = [] \<and> w_script (sh_sock (snd s')) = [] \<and> sh_eng (snd s') = engine_after X dir p (sh_eng (snd s))"
  proof (cases "processed p")
    case False
    then obtain s1 where "s' = s1" "fst s1 = apfst (queue_accept (pa_id p)) (fst s)" "sh_sock (snd s1) = sh_sock (snd s)"
      "sh_eng (snd s1) = sh_eng (snd s)" unfolding s'_def by (rule handle_unprocessed)
    with False assms(1,2) show ?thesis
      by (simp add: out_def engine_out_def engine_after_def owed_def ahead_def decide_def apfst_def map_prod_def case_prod_beta)
  next
    case True
    let ?gen = "fst (ID (pa_generationMark p))"
    obtain res eng where r: "ProcessGeneration X ?gen (pa_payload p) dir (sh_eng (snd s)) = (res, eng)"
      by (cases "ProcessGeneration X ?gen (pa_payload p) dir (sh_eng (snd s))")
    note h = handle_processed [where P = "ProcessGeneration X" and cf = cf, OF True r, folded s'_def]
    let ?s = "with_engine cf (pa_payload p) dir eng s"
    have s: "w_script (kernel ?s) = []" "w_script (sh_sock (snd ?s)) = []" using assms(1,2) by simp_all
    have "served (pa_id p, owed dir p out) (ahead dir p out) ?s s'"
    proof (cases res)
      case (Inl e)
      then have "out = None" using r True by (simp add: out_def engine_out_def)
      then show ?thesis using h Inl served_accept [OF s] by (auto simp: Let_def owed_def ahead_def)
    next
      case (Inr res')
      then obtain o' where o': "res' = classify (pa_payload p) o'" using ProcessGeneration_classified r by blast
      then have "out = Some o'" using r True Inr by (simp add: out_def engine_out_def classify_cases)
      then show ?thesis
        using h Inr o' served_outbound [OF s, of p o'] served_inbound [OF s, of p o']
        by (cases dir) (simp_all add: Let_def ahead_def)
    qed
    then have "fst s' = decide writeRaw (pa_id p, owed dir p out) (fst s)" "wire s' = wire s @ ahead dir p out"
      "w_script (kernel s') = []" "w_script (sh_sock (snd s')) = []" "sh_eng (snd s') = eng"
      unfolding served_def with_engine_frame by blast+
    with True r show ?thesis by (auto simp: engine_after_def)
  qed
  then show "fst s' = decide writeRaw (pa_id p, owed dir p out) (fst s)" "wire s' = wire s @ ahead dir p out"
    "w_script (kernel s') = []" "w_script (sh_sock (snd s')) = []" "sh_eng (snd s') = engine_after X dir p (sh_eng (snd s))"
    by blast+
qed

section \<open>One read\<close>

lemma handled_in_order:
  assumes "w_script (kernel s) = []" and "w_script (sh_sock (snd s)) = []"
    and "service X dir ps (sh_eng (snd s)) = (ds, ws, g)" and "s' = fold (handle (ProcessGeneration X) cf dir) ps s"
  shows "fst s' = fold (decide writeRaw) ds (fst s) \<and> wire s' = wire s @ ws \<and> w_script (kernel s') = [] \<and> sh_eng (snd s') = g"
  using assms
proof (induction ps arbitrary: s ds ws)
  case (Cons p ps)
  define s1 where "s1 = handle (ProcessGeneration X) cf dir p s"
  note one = handle_serves [OF Cons.prems(1,2) refl s1_def]
  obtain ds1 ws1 where r: "service X dir ps (sh_eng (snd s1)) = (ds1, ws1, g)"
    "ds = (pa_id p, owed dir p (engine_out X dir p (sh_eng (snd s)))) # ds1"
    "ws = ahead dir p (engine_out X dir p (sh_eng (snd s))) @ ws1"
    using Cons.prems(3) one(5) by (auto simp: Let_def split: prod.splits)
  have "s' = fold (handle (ProcessGeneration X) cf dir) ps s1" using Cons.prems(4) by (simp add: s1_def)
  from Cons.IH [OF one(3,4) r(1) this] show ?case unfolding r(2,3) using one(1,2) by auto
qed simp

text \<open>The packets of a datagram.\<close>

definition packets_of :: "kmsg list \<Rightarrow> packet list" where
  "packets_of ms = map (\<lambda>m. said (km_attrs m)) (filter is_packet ms)"

context processor
begin

lemma walk_handles:
  assumes "\<forall>m\<in>set ms. kmsg_ok m \<and> nlmsgHdrLen + length (kmsg_body m) < 2 ^ 32" and "\<not> sh_panicked (snd s)"
  shows "forEachPacket ctx_stopped (pump_handle process cf dir) (kmsgs_bytes full ms) (None, s) =
    (None, None, fold (handle process cf dir) (packets_of ms) s)"
  using assms
proof (induction ms arbitrary: s)
  case Nil
  show ?case by (simp add: forEachPacket.simps nfq_sizes packets_of_def)
next
  case (Cons m ms)
  then have ok: "kmsg_ok m" "nlmsgHdrLen + length (kmsg_body m) < 2 ^ 32" by simp_all
  have "\<not> sh_panicked (snd (handle process cf dir (said (km_attrs m)) s))" using handle_given [of cf dir "said (km_attrs m)" s] Cons.prems(2) by simp
  with Cons.IH [of s] Cons.IH [of "handle process cf dir (said (km_attrs m)) s"] Cons.prems show ?case
    by (simp add: kmsgs_step [OF ok] pump_handle_def ctx_stopped_def pump_ctx_Err_def packets_of_def)
qed

end

lemma decided_fst [simp]: "fst (decided d) = fst d"
  by (cases d rule: decided.cases) simp_all

lemma service_ids: "service X dir ps g = (ds, ws, g') \<Longrightarrow> map fst ds = map pa_id ps"
  by (induction ps arbitrary: g ds ws) (auto simp: Let_def split: prod.splits)

text \<open>C23: One read implements the specification: given any datagram the kernel may send, the packets
  waiting get exactly the verdicts the specification owes them, in order, the extra packets go out
  ahead, the engines end where it says, and no other packet is touched.\<close>

theorem read_implements_service:
  assumes "\<forall>m\<in>set ms. kmsg_ok m \<and> nlmsgHdrLen + length (kmsg_body m) < 2 ^ 32"
    and "service X dir (packets_of ms) (sh_eng sh) = (ds, ws, g)" and "\<forall>d\<in>set ds. decision_ok (snd d)"
    and "sorted_wrt (<) (kn_waiting k)" and "kn_waiting k = map pa_id (packets_of ms) @ later"
    and "w_script k = []" and "w_script (sh_sock sh) = []" and "\<not> q_hasPending q" and "\<not> sh_panicked sh"
    and "pump_read (ProcessGeneration X) cf dir (Inr (kmsgs_bytes full ms)) (None, (q, k), sh) = (e, c, (q', k'), sh')"
  shows "e = None \<and> k' = k\<lparr>kn_verdicts := kn_verdicts k @ map decided ds, kn_waiting := later\<rparr> \<and>
    rk_wire (sh_sock sh') = rk_wire (sh_sock sh) @ ws \<and> sh_eng sh' = g"
proof -
  define s1 where "s1 = fold (handle (ProcessGeneration X) cf dir) (packets_of ms) ((q, k), sh)"
  have walk: "forEachPacket ctx_stopped (pump_handle (ProcessGeneration X) cf dir) (kmsgs_bytes full ms) (None, (q, k), sh) =
      (None, None, s1)"
    unfolding s1_def using assms(1,9) by (intro reg.walk_handles) simp_all
  from handled_in_order [OF _ _ _ s1_def, of ds ws g] assms(2,6,7)
  have s1: "fst s1 = fold (decide writeRaw) ds (q, k)" "wire s1 = rk_wire (sh_sock sh) @ ws" "w_script (kernel s1) = []" "sh_eng (snd s1) = g"
    by auto
  obtain q2 k2 where f: "flush writeRaw (fst (fst s1), kernel s1) = (None, q2, k2)" by (rule flush_works [OF s1(3)])
  then have "decide_all writeRaw ds (q, k) = (q2, k2)" by (simp add: decide_all_def flip: s1(1))
  moreover obtain q3 where "decide_all writeRaw ds (q, k) = (q3, k\<lparr>kn_verdicts := kn_verdicts k @ map decided ds, kn_waiting := later\<rparr>)"
    using decide_from [of k ds "[]" later q] assms(3-6,8) service_ids [OF assms(2)] by auto
  ultimately have "k2 = k\<lparr>kn_verdicts := kn_verdicts k @ map decided ds, kn_waiting := later\<rparr>" by simp
  moreover have "pump_read (ProcessGeneration X) cf dir (Inr (kmsgs_bytes full ms)) (None, (q, k), sh) = (None, None, (q2, k2), snd s1)"
    using f by (simp add: pump_read_def read_queue_def walk pump_finish_def case_prod_beta)
  ultimately show ?thesis using assms(10) s1 by simp
qed

definition ex_datagram :: "kmsg list" where
  "ex_datagram =
     [\<lparr>km_type = 0x300, km_rest = replicate 10 0, km_gen = [2, 0, 0, 200],
       km_attrs = [KHdr 5 [8, 0, 1], KMark 0x438, KCt [] 0x67007000 [], KPayload ex_payload], km_full = True\<rparr>,
      \<lparr>km_type = 0x300, km_rest = replicate 10 0, km_gen = [2, 0, 0, 200],
       km_attrs = [KHdr 6 [8, 0, 1], KPayload ex_payload], km_full = False\<rparr>]"

lemma ex_datagram_ok: "m \<in> set ex_datagram \<Longrightarrow> kmsg_ok m \<and> nlmsgHdrLen + length (kmsg_body m) < 2 ^ 32"
  by (auto simp: ex_datagram_def ex_payload_def kmsg_ok_def kmsg_body_def fits_def unknown_def padding_def nlmsgAlign_def
      nlmsgAlignTo_def nested_def nfq_sizes)

lemma ex_packets: "packets_of ex_datagram = [ex_packet, no_packet\<lparr>pa_id := 6, pa_payload := ex_payload\<rparr>]"
  by (simp add: packets_of_def ex_datagram_def is_packet_def nfnlSubsysQueue_def nfqnlMsgPacket_def said_def no_packet_def
      ex_packet_def)

theorem read_implements_service_witness:
  "(case pump_read (ProcessGeneration ex_decode) ex_config DirectionOutbound (Inr (kmsgs_bytes False ex_datagram))
        (None, (ex_queue, ex_knet\<lparr>kn_waiting := [5, 6, 8]\<rparr>), ex_shared\<lparr>sh_sock := ex_sock\<lparr>w_script := []\<rparr>\<rparr>) of
      (e, c, (q, k), sh) \<Rightarrow>
        e = None \<and> kn_verdicts k = [(5, 1, Some ex_payload), (6, 1, None)] \<and> kn_waiting k = [8] \<and>
        rk_wire (sh_sock sh) = [sent 0x438 ex_payload])"
proof -
  let ?k = "ex_knet\<lparr>kn_waiting := [5, 6, 8]\<rparr>" and ?sh = "ex_shared\<lparr>sh_sock := ex_sock\<lparr>w_script := []\<rparr>\<rparr>"
  let ?X = ex_decode
  obtain g where g: "ProcessGeneration ?X 7 ex_payload DirectionOutbound ex_registry = (Inr (classify ex_payload [ex_payload, ex_payload]), g)"
    using ex_process by blast
  have none: "\<not> processed (no_packet\<lparr>pa_id := 6, pa_payload := ex_payload\<rparr>)"
    by (simp add: processed_def no_packet_def ID_def HighByte_def Namespace_def)
  have out: "engine_out ?X DirectionOutbound ex_packet ex_registry = Some [ex_payload, ex_payload]"
    using ex_processed g by (simp add: engine_out_def ex_packet_def ex_ID ex_classify)
  have service: "service ?X DirectionOutbound (packets_of ex_datagram) (sh_eng ?sh) =
      ([(5, Now nfAccept (Some ex_payload)), (6, Defer)], [sent 0x438 ex_payload], engine_after ?X DirectionOutbound ex_packet ex_registry)"
    using none out
    by (simp add: ex_packets ex_shared_def owed_def ahead_def engine_out_def [of _ _ "no_packet\<lparr>pa_id := 6, pa_payload := ex_payload\<rparr>"]
        engine_after_def [of _ _ "no_packet\<lparr>pa_id := 6, pa_payload := ex_payload\<rparr>"])
       (simp add: ex_packet_def ex_ID ex_payload_length)
  obtain e c q' k' sh' where r: "pump_read (ProcessGeneration ?X) ex_config DirectionOutbound (Inr (kmsgs_bytes False ex_datagram))
      (None, (ex_queue, ?k), ?sh) = (e, c, (q', k'), sh')" by (metis prod.exhaust)
  have "e = None \<and> k' = ?k\<lparr>kn_verdicts := kn_verdicts ?k @ map decided [(5, Now nfAccept (Some ex_payload)), (6, Defer)], kn_waiting := [8]\<rparr> \<and>
      rk_wire (sh_sock sh') = rk_wire (sh_sock ?sh) @ [sent 0x438 ex_payload] \<and> sh_eng sh' = engine_after ?X DirectionOutbound ex_packet ex_registry"
    by (rule read_implements_service [OF ballI [OF ex_datagram_ok] service _ _ _ _ _ _ _ r])
      (simp_all add: ex_packets sendable_def nfq_sizes ex_payload_length ex_packet_def ex_knet_def ex_queue_def ex_shared_def ex_sock_def)
  then show ?thesis unfolding r prod.case by (simp add: ex_knet_def ex_shared_def ex_sock_def nfAccept_def)
qed

end
