(* ===== verification/Nfqueue_Run.thy ===== *)
theory Nfqueue_Run
  imports Nfqueue_Delivery
begin

text \<open>
  The life of the runtime: opening both queues or none, pumping until the context is cancelled,
  and \<open>Run\<close>, which supervises the two pumps, as a transition system.
\<close>

section \<open>A pump stops\<close>

text \<open>How many reads a sequence of socket results completes.\<close>

definition reads :: "rx list \<Rightarrow> nat" where
  "reads rx = length (filter (\<lambda>r. r \<noteq> NotReady) rx)"

lemma recvmsg_reads:
  "recvmsg rx = None \<Longrightarrow> reads rx = 0" "recvmsg rx = Some (r, rx') \<Longrightarrow> reads rx = Suc (reads rx')"
  by (induction rx rule: recvmsg.induct) (auto simp: reads_def)

text \<open>The errors a pump treats as ordinary.\<close>

definition ignored :: "err \<Rightarrow> bool" where
  "ignored e \<longleftrightarrow> errors_Is e ENOBUFS \<or> errors_Is e EAGAIN \<or> errors_Is e ErrDeadlineExceeded"

abbreviation budget :: "nat option \<times> 's \<Rightarrow> nat option" where
  "budget \<equiv> fst"

text \<open>The checks left never grow.\<close>

definition wanes :: "nat option \<Rightarrow> nat option \<Rightarrow> bool" where
  "wanes c c' \<longleftrightarrow> (case c of None \<Rightarrow> c' = None | Some n \<Rightarrow> \<exists>m\<le>n. c' = Some m)"

lemma wanes_refl [simp]: "wanes c c"
  by (simp add: wanes_def split: option.split)

lemma wanes_trans [trans]: "wanes a b \<Longrightarrow> wanes b c \<Longrightarrow> wanes a c"
  by (auto simp: wanes_def split: option.splits)

lemma pump_ctx_Err_wanes: "pump_ctx_Err s = (e, s') \<Longrightarrow> wanes (fst s) (fst s')"
  by (auto simp: pump_ctx_Err_def wanes_def split: option.splits nat.splits prod.splits)

lemma pump_ctx_Err_counts:
  "pump_ctx_Err s = (None, s') \<Longrightarrow> fst s = Some n \<Longrightarrow> \<exists>m. n = Suc m \<and> fst s' = Some m"
  by (auto simp: pump_ctx_Err_def split: option.splits nat.splits prod.splits)

lemma pump_ctx_Err_Canceled: "pump_ctx_Err s = (Some e, s') \<Longrightarrow> e = Sent Canceled"
  by (auto simp: pump_ctx_Err_def split: option.splits nat.splits prod.splits)

lemma walk_wanes:
  "forEachPacket ctx_stopped (pump_handle P cf dir) b s = (e, s') \<Longrightarrow> wanes (fst s) (fst s')"
proof (induction "length b" arbitrary: b s rule: less_induct)
  case less
  let ?k = "le_get (take 4 b)" and ?t = "le_get (take 2 (drop 4 b))"
  show ?case
  proof (cases "length b < nlmsgHdrLen \<or> ?k < nlmsgHdrLen \<or> ?k > length b")
    case True
    then show ?thesis using less.prems by (subst (asm) forEachPacket.simps) (auto simp: Let_def split: if_splits)
  next
    case False
    define one where "one = (if ?t = nfnlSubsysQueue * 256 + nfqnlMsgPacket
       then (case parsePacket (take (?k - nlmsgHdrLen) (drop nlmsgHdrLen b)) of
               Inl e \<Rightarrow> (Some e, s) | Inr p \<Rightarrow> pump_handle P cf dir p s) else (None, s))"
    obtain e1 s1 where o1: "one = (e1, s1)" by (cases one)
    have w1: "fst s1 = fst s"
      using o1 by (cases s) (auto simp: one_def pump_handle_def Let_def split: if_splits sum.splits)
    have step: "forEachPacket ctx_stopped (pump_handle P cf dir) b s =
        (case one of (Some e, s) \<Rightarrow> (Some e, s) | (None, s) \<Rightarrow>
           (case ctx_stopped s of (True, s) \<Rightarrow> (None, s)
            | (False, s) \<Rightarrow> forEachPacket ctx_stopped (pump_handle P cf dir) (drop (min (nlmsgAlign ?k) (length b)) b) s))"
      using False unfolding one_def by (subst forEachPacket.simps) (simp add: Let_def)
    show ?thesis
    proof (cases e1)
      case (Some x)
      then show ?thesis using less.prems step o1 w1 by simp
    next
      case None
      obtain st s2 where c: "ctx_stopped s1 = (st, s2)" by (cases "ctx_stopped s1")
      have w2: "wanes (fst s1) (fst s2)" using c pump_ctx_Err_wanes [of s1] by (auto simp: ctx_stopped_def split: prod.splits)
      have "length (drop (min (nlmsgAlign ?k) (length b)) b) < length b"
        using False nlmsgAlign_bounds(1) [of ?k] by (auto simp: nfq_sizes)
      from less.hyps [OF this, of s2] have "wanes (fst s2) (fst s')" if "\<not> st"
        using less.prems step o1 None c that by simp
      then show ?thesis using less.prems step o1 None c w1 w2 wanes_trans by (cases st) auto
    qed
  qed
qed

lemma pump_read_wanes:
  assumes "pump_read P cf dir r s = (e, s')"
  shows "wanes (fst s) (fst s')"
proof (cases r)
  case (Inl x)
  then show ?thesis using assms by (simp add: pump_read_def read_queue_def)
next
  case (Inr b)
  obtain e1 s1 where w: "forEachPacket ctx_stopped (pump_handle P cf dir) b s = (e1, s1)"
    by (cases "forEachPacket ctx_stopped (pump_handle P cf dir) b s")
  have "fst (snd (pump_finish s1)) = fst s1" by (cases s1) (auto simp: pump_finish_def split: prod.split)
  then have "fst s' = fst s1" using assms w Inr by (cases e1) (auto simp: pump_read_def read_queue_def)
  with walk_wanes [OF w] show ?thesis by simp
qed

text \<open>One turn of the loop, for the proofs.\<close>

definition turn ::
  "'p processor \<Rightarrow> 'o rt_config \<Rightarrow> Direction \<Rightarrow> byte list res \<Rightarrow> nat option \<times> ('p, 'o) hstate \<Rightarrow>
     err option \<times> nat option \<times> ('p, 'o) hstate" where
  "turn P cf dir r s =
     (case pump_read P cf dir r s of
        (None, s) \<Rightarrow> (None, s)
      | (Some e, s) \<Rightarrow>
          if errors_Is e ENOBUFS then (None, apsnd (bump rs_Overruns_update) s)
          else if errors_Is e EAGAIN \<or> errors_Is e ErrDeadlineExceeded then (None, s)
          else (case pump_ctx_Err s of (Some e', s) \<Rightarrow> (Some e', s) | (None, s) \<Rightarrow> (Some (Wrap ''read queue'' [e]), s)))"

lemma pump_turn:
  "pump P cf dir rx s =
     (case pump_ctx_Err s of
        (Some e, s) \<Rightarrow> (Some e, s)
      | (None, s) \<Rightarrow>
          (case recvmsg rx of
             None \<Rightarrow> (None, s)
           | Some (r, rx) \<Rightarrow> (case turn P cf dir r s of (Some e, s) \<Rightarrow> (Some e, s) | (None, s) \<Rightarrow> pump P cf dir rx s)))"
  by (subst pump.simps) (simp add: turn_def split: prod.split option.split)

lemma turn_wanes: "turn P cf dir r s = (e, s') \<Longrightarrow> wanes (fst s) (fst s')"
proof -
  assume t: "turn P cf dir r s = (e, s')"
  obtain e1 s1 where p: "pump_read P cf dir r s = (e1, s1)" by (cases "pump_read P cf dir r s")
  obtain e2 s2 where c: "pump_ctx_Err s1 = (e2, s2)" by (cases "pump_ctx_Err s1")
  have "fst s' = fst s1 \<or> fst s' = fst s2"
    using t p c by (auto simp: turn_def split: option.splits if_splits)
  then show ?thesis using pump_read_wanes [OF p] wanes_trans [OF pump_read_wanes [OF p] pump_ctx_Err_wanes [OF c]] by auto
qed

lemma turn_error: "turn P cf dir r s = (Some e, s') \<Longrightarrow> e = Sent Canceled \<or> (\<exists>e'. e = Wrap ''read queue'' [e'] \<and> \<not> ignored e')"
  by (auto simp: turn_def ignored_def dest: pump_ctx_Err_Canceled split: prod.splits option.splits if_splits)

text \<open>C26: A pump always stops: once its context has at most \<open>n\<close> more checks before it is cancelled,
  \<open>n\<close> further reads of any kind - packets, overruns, timeouts, garbage - are enough for it to
  return, and it returns nothing but the cancellation or a read error it may not ignore.\<close>

theorem pump_stops:
  assumes "fst s = Some n" and "n \<le> reads rx"
  shows "\<exists>e. fst (pump P cf dir rx s) = Some e \<and> (e = Sent Canceled \<or> (\<exists>e'. e = Wrap ''read queue'' [e'] \<and> \<not> ignored e'))"
  using assms
proof (induction "length rx" arbitrary: rx s n rule: less_induct)
  case less
  obtain e s1 where c: "pump_ctx_Err s = (e, s1)" by (cases "pump_ctx_Err s")
  show ?case
  proof (cases e)
    case (Some x)
    with c pump_ctx_Err_Canceled [of s x s1] show ?thesis by (subst pump_turn) simp
  next
    case None
    then obtain m where m: "n = Suc m" "fst s1 = Some m" using pump_ctx_Err_counts [of s s1 n] c less.prems(1) by auto
    then obtain r rx' where r: "recvmsg rx = Some (r, rx')" using less.prems(2) recvmsg_reads(1) [of rx] by (cases "recvmsg rx") auto
    then have m': "m \<le> reads rx'" using m(1) less.prems(2) recvmsg_reads(2) [OF r] by simp
    obtain e2 s2 where t: "turn P cf dir r s1 = (e2, s2)" by (cases "turn P cf dir r s1")
    have eq: "pump P cf dir rx s = (case e2 of Some e \<Rightarrow> (Some e, s2) | None \<Rightarrow> pump P cf dir rx' s2)"
      using c None r t by (subst pump_turn) (simp split: option.split)
    show ?thesis
    proof (cases e2)
      case (Some x)
      with t turn_error [of P cf dir r s1 x s2] eq show ?thesis by simp
    next
      case None
      obtain k where "fst s2 = Some k" "k \<le> m" using turn_wanes [OF t] m(2) by (auto simp: wanes_def)
      with less.hyps [OF recvmsg_shorter [OF r], of s2 k] m' eq None show ?thesis by simp
    qed
  qed
qed

theorem pump_stops_witness:
  "fst (pump (ProcessGeneration ex_decode) ex_config DirectionInbound
     [RecvErr (Sent ENOBUFS), NotReady, Woken (Sent ErrDeadlineExceeded), Woken (Sent ErrDeadlineExceeded)]
     (Some 2, (ex_queue, ex_knet), ex_shared)) = Some (Sent Canceled)"
proof -
  let ?rx = "[RecvErr (Sent ENOBUFS), NotReady, Woken (Sent ErrDeadlineExceeded), Woken (Sent ErrDeadlineExceeded)]"
  have "2 \<le> reads ?rx" by (simp add: reads_def)
  then obtain e where "fst (pump (ProcessGeneration ex_decode) ex_config DirectionInbound ?rx (Some 2, (ex_queue, ex_knet), ex_shared)) = Some e"
    using pump_stops [where s = "(Some 2, (ex_queue, ex_knet), ex_shared)" and n = 2 and rx = ?rx and P = "ProcessGeneration ex_decode"
      and cf = ex_config and dir = DirectionInbound] by auto
  then show ?thesis
    by (simp add: pump.simps pump_ctx_Err_def pump_read_def read_queue_def numeral_2_eq_2 split: if_splits)
qed

section \<open>Run\<close>

text \<open>
  \<open>Run\<close> starts a pump per queue, waits for the caller's context or the first pump to give up,
  cancels the pumps' own context, wakes both readers and waits for both. A pump returns at most
  once: with an error of its own at any time, or with the cancellation once it is due.
\<close>

datatype phase = Selecting | Stopping err | Returned err

record supervisor =
  su_out :: "err option" \<comment> \<open>what the outbound pump returned\<close>
  su_in :: "err option"
  su_errs :: "err list" \<comment> \<open>the channel, of capacity two\<close>
  su_cancelled :: bool \<comment> \<open>the caller's context\<close>
  su_stopped :: bool \<comment> \<open>\<open>stopPumps\<close> has been called\<close>
  su_phase :: phase

definition run_init :: supervisor where
  "run_init = \<lparr>su_out = None, su_in = None, su_errs = [], su_cancelled = False, su_stopped = False, su_phase = Selecting\<rparr>"

definition rt_Run :: "runtime \<Rightarrow> supervisor res" where
  "rt_Run rt =
     (if rt_outQ rt = None \<or> rt_inQ rt = None then Inl (Msg ''NFQUEUE runtime must be opened before Run'')
      else Inr run_init)"

inductive run_step :: "supervisor \<Rightarrow> supervisor \<Rightarrow> bool" where
  cancel: "\<not> su_cancelled s \<Longrightarrow> run_step s (s\<lparr>su_cancelled := True\<rparr>)"
| out_returns: "su_out s = None \<Longrightarrow> e \<noteq> Sent Canceled \<or> su_cancelled s \<or> su_stopped s \<Longrightarrow>
    run_step s (s\<lparr>su_out := Some e, su_errs := su_errs s @ [e]\<rparr>)"
| in_returns: "su_in s = None \<Longrightarrow> e \<noteq> Sent Canceled \<or> su_cancelled s \<or> su_stopped s \<Longrightarrow>
    run_step s (s\<lparr>su_in := Some e, su_errs := su_errs s @ [e]\<rparr>)"
| select_ctx: "su_phase s = Selecting \<Longrightarrow> su_cancelled s \<Longrightarrow>
    run_step s (s\<lparr>su_phase := Stopping (Sent Canceled), su_stopped := True\<rparr>)"
| select_errs: "su_phase s = Selecting \<Longrightarrow> su_errs s = e # es \<Longrightarrow>
    run_step s (s\<lparr>su_phase := Stopping e, su_errs := es, su_stopped := True\<rparr>)"
| wait: "su_phase s = Stopping e \<Longrightarrow> su_out s \<noteq> None \<Longrightarrow> su_in s \<noteq> None \<Longrightarrow> run_step s (s\<lparr>su_phase := Returned e\<rparr>)"

inductive reachable_run :: "supervisor \<Rightarrow> bool" where
  start: "reachable_run run_init"
| step: "reachable_run s \<Longrightarrow> run_step s s' \<Longrightarrow> reachable_run s'"

inductive_cases run_stepE: "run_step s s'"

definition steps_left :: "supervisor \<Rightarrow> nat" where
  "steps_left s = (if su_cancelled s then 0 else 1) + (if su_out s = None then 1 else 0) + (if su_in s = None then 1 else 0) +
     (case su_phase s of Selecting \<Rightarrow> 2 | Stopping _ \<Rightarrow> 1 | Returned _ \<Rightarrow> 0)"

lemma step_uses_up: "run_step s s' \<Longrightarrow> steps_left s' < steps_left s"
  by (erule run_stepE) (auto simp: steps_left_def)

definition run_inv :: "supervisor \<Rightarrow> bool" where
  "run_inv s \<longleftrightarrow>
     length (su_errs s) + (if su_out s = None then 1 else 0) + (if su_in s = None then 1 else 0) \<le> 2 \<and>
     (su_phase s = Selecting \<longrightarrow> (su_errs s = [] \<longleftrightarrow> su_out s = None \<and> su_in s = None)) \<and>
     (su_phase s \<noteq> Selecting \<longrightarrow> su_stopped s) \<and>
     (\<forall>e. su_phase s = Returned e \<longrightarrow> su_out s \<noteq> None \<and> su_in s \<noteq> None) \<and>
     set (su_errs s) \<subseteq> {e. Some e = su_out s \<or> Some e = su_in s} \<and>
     (\<forall>e. su_phase s = Stopping e \<or> su_phase s = Returned e \<longrightarrow>
        e = Sent Canceled \<and> su_cancelled s \<or> Some e = su_out s \<or> Some e = su_in s)"

lemma run_inv_step: "run_step s s' \<Longrightarrow> run_inv s \<Longrightarrow> run_inv s'"
  by (erule run_stepE) (auto simp: run_inv_def)

lemma reachable_run_inv: "reachable_run s \<Longrightarrow> run_inv s"
  by (induction rule: reachable_run.induct) (auto simp: run_inv_step, simp add: run_inv_def run_init_def)

lemma no_step_returned:
  assumes "run_inv s" and "su_cancelled s \<or> su_out s \<noteq> None \<or> su_in s \<noteq> None" and "\<And>s'. \<not> run_step s s'"
  shows "\<exists>e. su_phase s = Returned e"
proof (cases "su_phase s")
  case Selecting
  show ?thesis
  proof (cases "su_errs s")
    case Nil
    with assms(1,2) Selecting have "su_cancelled s" by (auto simp: run_inv_def)
    with run_step.select_ctx [OF Selecting] assms(3) show ?thesis by blast
  next
    case (Cons e es)
    with run_step.select_errs [OF Selecting] assms(3) show ?thesis by blast
  qed
next
  case (Stopping e)
  with assms(1) have st: "su_stopped s" by (auto simp: run_inv_def)
  then have "su_out s \<noteq> None" "su_in s \<noteq> None"
    using run_step.out_returns [of s "Sent Canceled"] run_step.in_returns [of s "Sent Canceled"] assms(3) by blast+
  with run_step.wait [OF Stopping] assms(3) show ?thesis by blast
qed blast



section \<open>Opening and closing\<close>

text \<open>The netlink library with its open sockets counted.\<close>

definition counted :: "'w netlink \<Rightarrow> (int \<times> 'w) netlink" where
  "counted N =
     \<lparr>nl_Dial = \<lambda>(n, w). case nl_Dial N w of (e, w) \<Rightarrow> (e, if e = None then n + 1 else n, w),
      nl_SyscallConn = \<lambda>(n, w). case nl_SyscallConn N w of (e, w) \<Rightarrow> (e, n, w),
      nl_MarshalAttributes = nl_MarshalAttributes N,
      nl_Execute = \<lambda>t b (n, w). case nl_Execute N t b w of (e, w) \<Rightarrow> (e, n, w),
      nl_Close = \<lambda>(n, w). case nl_Close N w of (e, w) \<Rightarrow> (e, n - 1, w)\<rparr>"

lemma queue_config_counted: "fst (snd (queue_config (counted N) q r as (n, w))) = n"
  by (simp add: queue_config_def counted_def case_prod_beta split: sum.split)

lemma config_steps_counted:
  "config_steps (counted N) q sts (n, w) = (e, n', w') \<Longrightarrow> n' = (if e = None then n else n - 1)"
proof (induction sts arbitrary: n w)
  case (Cons st sts)
  obtain e1 n1 w1 where c: "queue_config (counted N) q (cs_resid st) (cs_attrs st) (n, w) = (e1, n1, w1)" by (metis prod.exhaust)
  then have n1: "n1 = n" using queue_config_counted [of N q "cs_resid st" "cs_attrs st" n w] by simp
  show ?case
  proof (cases e1)
    case None
    with c Cons show ?thesis by (simp add: n1)
  next
    case (Some x)
    have "fst (snd (nl_Close (counted N) (n, w1))) = n - 1" by (simp add: counted_def case_prod_beta)
    with c Cons.prems n1 Some show ?thesis by (cases "nl_Close (counted N) (n, w1)") auto
  qed
qed simp

lemma openQueue_counted:
  assumes "openQueue (counted N) num a b (n, w) = (r, n', w')"
  shows "case r of Inl e \<Rightarrow> n' = n | Inr q \<Rightarrow> n' = n + 1 \<and> q_num q = num \<and> \<not> q_hasPending q"
proof -
  obtain e1 w1 where d: "nl_Dial N w = (e1, w1)" by (cases "nl_Dial N w")
  obtain e2 w2 where s: "nl_SyscallConn N w1 = (e2, w2)" by (cases "nl_SyscallConn N w1")
  define q where "q = \<lparr>q_num = num, q_family = 2, q_vbuf = replicate 4096 0, q_pendingAccept = 0, q_hasPending = False\<rparr>"
  obtain e3 n3 w3 where c: "config_steps (counted N) q (queueConfigSteps (q_family q) num a b) (n + 1, w2) = (e3, n3, w3)"
    by (metis prod.exhaust)
  note n3 = config_steps_counted [OF c]
  have q: "q_num q = num" "\<not> q_hasPending q" by (simp_all add: q_def)
  have c1: "nl_Dial (counted N) (n, w) = (e1, if e1 = None then n + 1 else n, w1)"
    "nl_SyscallConn (counted N) (n + 1, w1) = (e2, n + 1, w2)" "fst (snd (nl_Close (counted N) (n + 1, w2))) = n"
    using d s by (simp_all add: counted_def case_prod_beta)
  show ?thesis
  proof (cases e1)
    case (Some x)
    with assms c1 show ?thesis by (auto simp: openQueue_def)
  next
    case None
    show ?thesis
    proof (cases e2)
      case (Some x)
      with assms c1 None show ?thesis by (cases "nl_Close (counted N) (n + 1, w2)") (auto simp: openQueue_def Let_def)
    next
      case None
      with \<open>e1 = None\<close> have "openQueue (counted N) num a b (n, w) =
          (case config_steps (counted N) q (queueConfigSteps (q_family q) num a b) (n + 1, w2) of
             (Some e, w) \<Rightarrow> (Inl e, w) | (None, w) \<Rightarrow> (Inr q, w))"
        using c1 by (simp add: openQueue_def Let_def flip: q_def)
      with assms c n3 q show ?thesis by (cases e3) auto
    qed
  qed
qed

text \<open>C28: Opening is all or nothing: if it fails, at whatever step, both queues stay unset and every
  socket it opened is closed again; if it succeeds both queues are bound to the configured numbers;
  and closing an opened runtime gives every socket back.\<close>

theorem open_is_all_or_nothing:
  assumes "rt_Open (counted N) cf \<lparr>rt_outQ = None, rt_inQ = None\<rparr> (n, w) = (e, rt, n', w')"
  shows "if e \<noteq> None then n' = n \<and> rt = \<lparr>rt_outQ = None, rt_inQ = None\<rparr>
    else \<exists>p q. rt = \<lparr>rt_outQ = Some p, rt_inQ = Some q\<rparr> \<and> q_num p = rc_OutQueue cf \<and> q_num q = rc_InQueue cf \<and>
      fst (fst (snd (snd (rt_Close (counted N) rt ((n', w'), k))))) = n"
proof -
  obtain r1 n1 w1 where 1: "openQueue (counted N) (rc_OutQueue cf) (rc_MaxPacketLen cf) (rc_MaxQueueLen cf) (n, w) = (r1, n1, w1)"
    by (metis prod.exhaust)
  obtain r2 n2 w2 where 2: "openQueue (counted N) (rc_InQueue cf) (rc_MaxPacketLen cf) (rc_MaxQueueLen cf) (n1, w1) = (r2, n2, w2)"
    by (metis prod.exhaust)
  note o1 = openQueue_counted [OF 1] and o2 = openQueue_counted [OF 2]
  have close: "fst (snd (queue_Close (counted N) (m, v))) = m - 1" for m v
    by (simp add: queue_Close_def counted_def case_prod_beta)
  show ?thesis
  proof (cases "e = None")
    case False
    then have "n' = n \<and> rt = \<lparr>rt_outQ = None, rt_inQ = None\<rparr>"
      using assms 1 2 o1 o2 close [of n2 w2] by (cases r1; cases r2) (auto simp: rt_Open_def)
    with False show ?thesis by simp
  next
    case True
    then obtain p q where pq: "r1 = Inr p" "r2 = Inr q" "rt = \<lparr>rt_outQ = Some p, rt_inQ = Some q\<rparr>" "n' = n2"
      using assms 1 2 by (cases r1; cases r2) (auto simp: rt_Open_def)
    obtain e1 m1 v1 where c: "queue_Close (counted N) (n', w') = (e1, m1, v1)" by (metis prod.exhaust)
    have "fst (fst (snd (snd (rt_Close (counted N) rt ((n', w'), k))))) = n"
      using o1 o2 close [of "n'" w'] close [of m1 v1] c pq by (auto simp: rt_Close_def Let_def case_prod_beta)
    with pq o1 o2 True show ?thesis by auto
  qed
qed

text \<open>The in-queue cannot be bound: the third configuration step of the second queue fails.\<close>

definition ex_netlink :: "nat netlink" where
  "ex_netlink =
     \<lparr>nl_Dial = \<lambda>w. (None, w), nl_SyscallConn = \<lambda>w. (None, w), nl_MarshalAttributes = \<lambda>as. Inr [],
      nl_Execute = \<lambda>t b w. (if w = 8 then Some (Msg ''busy'') else None, Suc w), nl_Close = \<lambda>w. (None, w)\<rparr>"

theorem open_is_all_or_nothing_witness:
  "(case rt_Open (counted ex_netlink) ex_config \<lparr>rt_outQ = None, rt_inQ = None\<rparr> (0, 0) of (e, rt, n, w) \<Rightarrow> e \<noteq> None \<and> n = 0 \<and> w = 9)"
proof -
  obtain e rt n w where r: "rt_Open (counted ex_netlink) ex_config \<lparr>rt_outQ = None, rt_inQ = None\<rparr> (0, 0) = (e, rt, n, w)"
    by (metis prod.exhaust)
  have "e \<noteq> None \<and> w = 9"
    using r by (simp add: rt_Open_def openQueue_def queueConfigSteps_def queue_config_def counted_def ex_netlink_def Let_def
        queue_Close_def split: if_splits) auto
  with open_is_all_or_nothing [OF r] r show ?thesis by simp
qed

end
