(* ===== verification/Censor.thy ===== *)
theory Censor
  imports Nft_Semantics
begin

text \<open>
  \<open>internal/censor/observer.go\<close>, \<open>internal/censor/kernel.go\<close> and \<open>internal/nftables/counters.go\<close>:
  inbound packets are sorted into events, either from their bytes in userspace or by counters of
  the nftables chain, which a polling source accumulates across rebuilds of the table.
\<close>

section \<open>Events\<close>

datatype Event = EventRST | EventSYN | EventFIN | EventData | EventACKOnly | EventFragment | EventUndecodable

definition KernelEvents :: "Event list" where
  "KernelEvents = [EventRST, EventSYN, EventFIN, EventData, EventACKOnly]"

text \<open>The events by number, as the loops to \<open>eventCount\<close> visit them.\<close>

definition allEvents :: "Event list" where
  "allEvents = [EventRST, EventSYN, EventFIN, EventData, EventACKOnly, EventFragment, EventUndecodable]"

definition event_at :: "int \<Rightarrow> Event option" where
  "event_at e = (if e < 0 \<or> e \<ge> int (length allEvents) then None else Some (allEvents ! nat e))"

definition event_String :: "Event \<Rightarrow> string" where
  "event_String e =
     (case e of EventRST \<Rightarrow> ''rst'' | EventSYN \<Rightarrow> ''syn'' | EventFIN \<Rightarrow> ''fin'' | EventData \<Rightarrow> ''data''
      | EventACKOnly \<Rightarrow> ''ack_only'' | EventFragment \<Rightarrow> ''fragment'' | EventUndecodable \<Rightarrow> ''undecodable'')"

definition eventByName :: "string \<Rightarrow> Event option" where
  "eventByName name = map_of (map (\<lambda>e. (event_String e, e)) allEvents) name"

section \<open>The classifier\<close>

definition flagFIN :: byte where "flagFIN = 1"
definition flagSYN :: byte where "flagSYN = 2"
definition flagRST :: byte where "flagRST = 4"

definition censor_classify :: "byte list \<Rightarrow> Event" where
  "censor_classify raw =
     (if length raw < 20 \<or> drop_bit 4 (raw ! 0) \<noteq> 4 then EventUndecodable
      else
        let ihl = unat (raw ! 0 AND 0x0f) * 4
        in if ihl < 20 \<or> length raw < ihl then EventUndecodable
           else if raw ! 9 \<noteq> 6 then EventUndecodable
           else
             let fragOffset = (push_bit 8 (unat (raw ! 6 AND 0x1f)) OR unat (raw ! 7))
             in if fragOffset \<noteq> 0 then EventFragment
                else
                  let totalLen = (push_bit 8 (unat (raw ! 2)) OR unat (raw ! 3));
                      totalLen = (if totalLen = 0 \<or> totalLen > length raw then length raw else totalLen);
                      tcp = drop ihl raw
                  in if length tcp < 20 then EventUndecodable
                     else
                       let dataOff = unat (drop_bit 4 (tcp ! 12)) * 4
                       in if dataOff < 20 \<or> ihl + dataOff > totalLen then EventUndecodable
                          else
                            let flags = tcp ! 13
                            in if flags AND flagRST \<noteq> 0 then EventRST
                               else if flags AND flagSYN \<noteq> 0 then EventSYN
                               else if flags AND flagFIN \<noteq> 0 then EventFIN
                               else if totalLen - ihl - dataOff > 0 then EventData
                               else EventACKOnly)"

text \<open>The array of counters.\<close>

type_synonym event_counts = "Event \<Rightarrow> u64"

definition observer_New :: event_counts where
  "observer_New = (\<lambda>_. 0)"

definition observer_Observe :: "byte list \<Rightarrow> Direction \<Rightarrow> event_counts \<Rightarrow> event_counts" where
  "observer_Observe raw dir counts =
     (if dir \<noteq> DirectionInbound then counts
      else counts(censor_classify raw := counts (censor_classify raw) + 1))"

definition observer_Snapshot :: "event_counts \<Rightarrow> (string \<times> u64) list" where
  "observer_Snapshot counts = map (\<lambda>e. (event_String e, counts e)) allEvents"

definition observer_Count :: "event_counts \<Rightarrow> int \<Rightarrow> u64" where
  "observer_Count counts e = (case event_at e of None \<Rightarrow> 0 | Some e \<Rightarrow> counts e)"

section \<open>Reading the kernel's counters\<close>

text \<open>An entry of the JSON listing: a named counter, or anything else.\<close>

type_synonym counter_entry = "(string \<times> u64) option"

definition parseCounters :: "counter_entry list res \<Rightarrow> (string \<times> u64) list res" where
  "parseCounters out =
     (case out of
        Inl e \<Rightarrow> Inl (Wrap ''parse nft counter json'' [e])
      | Inr entries \<Rightarrow>
          Inr (fold (\<lambda>entry counts. case entry of None \<Rightarrow> counts | Some (name, packets) \<Rightarrow> AList.update name packets counts)
                 entries []))"

text \<open>What the command gives: its standard output, as the JSON library reads it, or the text on standard
  error.\<close>

definition missingTableMessage :: "string \<Rightarrow> bool" where
  "missingTableMessage s =
     (list_ex (\<lambda>n. HasPrefix (drop n s) ''No such file or directory'') [0..<Suc (length s)] \<or>
      list_ex (\<lambda>n. HasPrefix (drop n s) ''does not exist'') [0..<Suc (length s)])"

definition ReadCounters :: "string + counter_entry list res \<Rightarrow> (string \<times> u64) list res" where
  "ReadCounters cmd =
     (case cmd of
        Inl stderr \<Rightarrow>
          if missingTableMessage stderr then Inr []
          else Inl (Wrap ''nft -j list counters'' [Msg stderr])
      | Inr out \<Rightarrow> parseCounters out)"

section \<open>Accumulating them\<close>

record KernelSource =
  ks_ttl :: int
  ks_total :: event_counts
  ks_lastRaw :: event_counts
  ks_lastRead :: "int option" \<comment> \<open>\<open>None\<close> is the zero time\<close>
  ks_reading :: bool
  ks_reads :: u64
  ks_readErrors :: u64

definition NewKernelSource :: "int \<Rightarrow> KernelSource" where
  "NewKernelSource ttl =
     \<lparr>ks_ttl = ttl, ks_total = (\<lambda>_. 0), ks_lastRaw = (\<lambda>_. 0), ks_lastRead = None, ks_reading = False,
      ks_reads = 0, ks_readErrors = 0\<rparr>"

text \<open>\<open>refresh\<close>, in its two critical sections: whether to read, and what was read.\<close>

definition refresh_begin :: "int \<Rightarrow> KernelSource \<Rightarrow> bool \<times> KernelSource" where
  "refresh_begin now k =
     (if ks_reading k \<or>
         ks_ttl k > 0 \<and> (case ks_lastRead k of None \<Rightarrow> False | Some t \<Rightarrow> now - t < ks_ttl k)
      then (False, k)
      else (True, k\<lparr>ks_reading := True\<rparr>))"

definition add_reading :: "Event \<Rightarrow> u64 \<Rightarrow> KernelSource \<Rightarrow> KernelSource" where
  "add_reading e v k =
     k\<lparr>ks_total := (ks_total k)(e := ks_total k e + (if v \<ge> ks_lastRaw k e then v - ks_lastRaw k e else v)),
       ks_lastRaw := (ks_lastRaw k)(e := v)\<rparr>"

text \<open>The loop over the map, in any order: a name that is no event is skipped.\<close>

definition add_readings :: "(string \<times> u64) list \<Rightarrow> KernelSource \<Rightarrow> KernelSource" where
  "add_readings raw k =
     fold (\<lambda>(name, v) k. case eventByName name of None \<Rightarrow> k | Some e \<Rightarrow> add_reading e v k) raw k"

definition refresh_end :: "int \<Rightarrow> (string \<times> u64) list res \<Rightarrow> KernelSource \<Rightarrow> KernelSource" where
  "refresh_end now raw k =
     (let k = k\<lparr>ks_reading := False, ks_lastRead := Some now, ks_reads := ks_reads k + 1\<rparr>
      in case raw of
           Inl e \<Rightarrow> k\<lparr>ks_readErrors := ks_readErrors k + 1\<rparr>
         | Inr raw \<Rightarrow> add_readings raw k)"

definition kernel_Count :: "KernelSource \<Rightarrow> int \<Rightarrow> u64" where
  "kernel_Count k e = (case event_at e of None \<Rightarrow> 0 | Some e \<Rightarrow> ks_total k e)"

definition kernel_Snapshot :: "KernelSource \<Rightarrow> (string \<times> u64) list" where
  "kernel_Snapshot k = map (\<lambda>e. (event_String e, ks_total k e)) allEvents"

definition Reads :: "KernelSource \<Rightarrow> u64 \<times> u64" where
  "Reads k = (ks_reads k, ks_readErrors k)"

section \<open>The two classifications\<close>

lemma allEvents_all [simp]: "e \<in> set allEvents" "distinct allEvents"
  by (cases e) (simp_all add: allEvents_def)

lemma kernel_names: "map event_String KernelEvents = CensorCounters"
  by (simp add: KernelEvents_def CensorCounters_def event_String_def)

lemma event_String_inj: "event_String a = event_String b \<longleftrightarrow> a = b"
  by (cases a; cases b) (simp_all add: event_String_def)

lemma eventByName_String [simp]: "eventByName (event_String e) = Some e"
  by (cases e) (simp_all add: eventByName_def allEvents_def event_String_def)

text \<open>The counter a packet increments in the printed chain: every rule of it counts and returns.\<close>

fun counted_as :: "string list \<Rightarrow> nft_packet \<Rightarrow> string option" where
  "counted_as [] p = None"
| "counted_as (r # rs) p =
     (case eval_rule (words r) p of Some (Count c) \<Rightarrow> Some c | _ \<Rightarrow> counted_as rs p)"

definition censor_body :: "string list" where
  "censor_body = map (drop 2) (butlast (tl censorRules))"

text \<open>What nftables sees of the bytes of an IPv4 packet that carries TCP.\<close>

definition nft_view :: "byte list \<Rightarrow> nft_packet" where
  "nft_view raw =
     \<lparr>pk_sport = 0, pk_dport = 0, pk_uid = 0, pk_mark = 0, pk_flags = raw ! (unat (raw ! 0 AND 0x0f) * 4 + 13),
      pk_new = False, pk_length = length raw\<rparr>"

definition kernel_event :: "nft_packet \<Rightarrow> Event" where
  "kernel_event p =
     (if pk_flags p AND 4 = 4 then EventRST
      else if pk_flags p AND 0x12 = 2 then EventSYN
      else if pk_flags p AND 1 = 1 then EventFIN
      else if 80 < pk_length p then EventData
      else EventACKOnly)"

lemma censor_flags:
  "parse_flags ''rst'' = Some 4" "parse_flags ''syn'' = Some 2" "parse_flags ''fin'' = Some 1" "parse_flags ''(syn|ack)'' = Some 0x12"
  by code_simp+

lemma quoted_plain: "CHR '' '' \<notin> set s \<Longrightarrow> CHR '' '' \<notin> set (quoted s)"
  by (simp add: quoted_def)

lemma counted_event: "counted_as censor_body p = Some (quoted (event_String (kernel_event p)))"
proof -
  have body: "censor_body =
     [''tcp flags & rst == rst counter name '' @ quoted ''rst'' @ '' return'',
      ''tcp flags & (syn|ack) == syn counter name '' @ quoted ''syn'' @ '' return'',
      ''tcp flags & fin == fin counter name '' @ quoted ''fin'' @ '' return'',
      ''meta length > '' @ show_dec 80 @ '' counter name '' @ quoted ''data'' @ '' return'',
      ''counter name '' @ quoted ''ack_only'' @ '' return'']"
    by (simp add: censor_body_def censorRules_def tab_def censorDataMinLength_def)
  have q: "CHR '' '' \<notin> set (quoted ''rst'')" "CHR '' '' \<notin> set (quoted ''syn'')" "CHR '' '' \<notin> set (quoted ''fin'')"
    "CHR '' '' \<notin> set (quoted ''data'')" "CHR '' '' \<notin> set (quoted ''ack_only'')"
    by (simp_all add: quoted_def)
  have "words (''tcp flags & rst == rst counter name '' @ quoted ''rst'' @ '' return'') =
      [''tcp'', ''flags'', ''&'', ''rst'', ''=='', ''rst'', ''counter'', ''name'', quoted ''rst'', ''return'']"
    "words (''tcp flags & (syn|ack) == syn counter name '' @ quoted ''syn'' @ '' return'') =
      [''tcp'', ''flags'', ''&'', ''(syn|ack)'', ''=='', ''syn'', ''counter'', ''name'', quoted ''syn'', ''return'']"
    "words (''tcp flags & fin == fin counter name '' @ quoted ''fin'' @ '' return'') =
      [''tcp'', ''flags'', ''&'', ''fin'', ''=='', ''fin'', ''counter'', ''name'', quoted ''fin'', ''return'']"
    "words (''meta length > '' @ show_dec 80 @ '' counter name '' @ quoted ''data'' @ '' return'') =
      [''meta'', ''length'', ''>'', show_dec 80, ''counter'', ''name'', quoted ''data'', ''return'']"
    "words (''counter name '' @ quoted ''ack_only'' @ '' return'') = [''counter'', ''name'', quoted ''ack_only'', ''return'']"
    using q by (simp_all add: pieces_append pieces_single)
  then show ?thesis
    by (simp add: body eval_exprs eval_actions flags_are_def censor_flags kernel_event_def event_String_def)
qed

lemma and_u8:
  "(w :: u8) AND m = v \<longleftrightarrow> list_all (\<lambda>n. (bit w n \<and> bit m n) = bit v n) [0, 1, 2, 3, 4, 5, 6, 7]"
proof
  assume "list_all (\<lambda>n. (bit w n \<and> bit m n) = bit v n) [0, 1, 2, 3, 4, 5, 6, 7]"
  then have "(bit w n \<and> bit m n) = bit v n" if "n < 8" for n
    using that by (auto simp: less_Suc_eq numeral_eq_Suc)
  then show "w AND m = v" by (intro bit_word_eqI) (simp add: bit_and_iff)
qed (auto simp: bit_and_iff)

lemma flag_bits_read:
  "(w :: u8) AND 4 = 4 \<longleftrightarrow> bit w 2" "w AND 4 = 0 \<longleftrightarrow> \<not> bit w 2" "w AND 1 = 1 \<longleftrightarrow> bit w 0" "w AND 1 = 0 \<longleftrightarrow> \<not> bit w 0"
  "w AND 2 = 0 \<longleftrightarrow> \<not> bit w 1" "w AND 0x12 = 2 \<longleftrightarrow> bit w 1 \<and> \<not> bit w 4" "w AND 0x12 = 0x12 \<longleftrightarrow> bit w 1 \<and> bit w 4"
  by (simp_all only: and_u8) auto

lemma classified_header:
  assumes "censor_classify raw \<in> set KernelEvents"
  shows "censor_classify raw =
    (if pk_flags (nft_view raw) AND flagRST \<noteq> 0 then EventRST
     else if pk_flags (nft_view raw) AND flagSYN \<noteq> 0 then EventSYN
     else if pk_flags (nft_view raw) AND flagFIN \<noteq> 0 then EventFIN
     else if censor_classify raw = EventData then EventData else EventACKOnly)"
proof -
  define ihl where "ihl = unat (raw ! 0 AND 0x0f) * 4"
  define tl where "tl = (push_bit 8 (unat (raw ! 2)) OR unat (raw ! 3))"
  define total where "total = (if tl = 0 \<or> tl > length raw then length raw else tl)"
  define off where "off = unat (drop_bit 4 (drop ihl raw ! 12)) * 4"
  note d = censor_classify_def [of raw, unfolded Let_def, folded ihl_def, folded tl_def, folded total_def, folded off_def]
  have not: "censor_classify raw \<noteq> EventUndecodable" "censor_classify raw \<noteq> EventFragment" using assms by (auto simp: KernelEvents_def)
  have 1: "\<not> (length raw < 20 \<or> drop_bit 4 (raw ! 0) \<noteq> 4)" using not d by (auto split: if_splits)
  have 2: "\<not> (ihl < 20 \<or> length raw < ihl)" using not 1 d by (auto split: if_splits)
  have 3: "raw ! 9 = 6" using not 1 2 d by (auto split: if_splits)
  have 4: "push_bit 8 (unat (raw ! 6 AND 0x1f)) OR unat (raw ! 7) = 0" using not 1 2 3 d by (auto split: if_splits)
  have 5: "\<not> length (drop ihl raw) < 20" using not 1 2 3 4 d by (auto split: if_splits)
  have 6: "\<not> (off < 20 \<or> ihl + off > total)" using not 1 2 3 4 5 d by (auto split: if_splits)
  have "drop ihl raw ! 13 = pk_flags (nft_view raw)" using 2 by (simp add: nft_view_def ihl_def)
  with 1 2 3 4 5 6 d show ?thesis by auto
qed


text \<open>A segment with one byte of payload is data to the classifier and a bare acknowledgement to the chain.\<close>

definition ex_segment :: "byte list" where
  "ex_segment =
     [0x45, 0, 0, 41, 0, 1, 0, 0, 64, 6, 0, 0, 198, 51, 100, 7, 192, 0, 2, 1,
      0x9c, 0x40, 1, 0xbb, 0, 0, 0, 1, 0, 0, 0, 1, 0x50, 0x18, 0xff, 0xff, 0, 0, 0, 0, 7]"


end
