(* ===== verification/Censor_Source.thy ===== *)
theory Censor_Source
  imports Censor
begin

text \<open>
  The polling source of \<open>internal/censor/kernel.go\<close> as a transition system: the kernel's table, the
  packets it counts, its rebuilds, and concurrent callers.
\<close>

section \<open>The polling source\<close>

text \<open>
  The kernel's counters exist only while the table does and start over when it is rebuilt; \<open>sy_seen\<close>
  is the number of packets that really arrived, \<open>sy_reset\<close> whether the table was ever rebuilt or
  removed. Every caller of \<open>Count\<close> or \<open>Snapshot\<close> may become a reader; a reader has a sample or
  not yet.
\<close>

record ksys =
  sy_source :: KernelSource
  sy_table :: "(Event \<Rightarrow> nat) option"
  sy_seen :: "Event \<Rightarrow> nat"
  sy_reset :: bool
  sy_readers :: "(string \<times> u64) list option list"

definition nft_counters :: "(Event \<Rightarrow> nat) option \<Rightarrow> string + counter_entry list res" where
  "nft_counters t =
     (case t of
        None \<Rightarrow> Inl ''Error: No such file or directory''
      | Some f \<Rightarrow> Inr (Inr (None # map (\<lambda>e. Some (event_String e, of_nat (f e))) KernelEvents)))"

definition readings :: "(Event \<Rightarrow> nat) option \<Rightarrow> (string \<times> u64) list" where
  "readings t = (case t of None \<Rightarrow> [] | Some f \<Rightarrow> map (\<lambda>e. (event_String e, of_nat (f e))) KernelEvents)"

lemma ReadCounters_readings: "ReadCounters (nft_counters t) = Inr (readings t)"
proof (cases t)
  case None
  have "missingTableMessage ''Error: No such file or directory''" by code_simp
  with None show ?thesis by (simp add: ReadCounters_def nft_counters_def readings_def)
next
  case (Some f)
  then show ?thesis
    by (simp add: ReadCounters_def nft_counters_def readings_def parseCounters_def KernelEvents_def event_String_def)
qed

inductive source_step :: "ksys \<Rightarrow> ksys \<Rightarrow> bool" where
  arrives: "sy_table s = Some f \<Longrightarrow> e \<in> set KernelEvents \<Longrightarrow>
    source_step s (s\<lparr>sy_table := Some (f(e := Suc (f e))), sy_seen := (sy_seen s)(e := Suc (sy_seen s e))\<rparr>)"
| rebuild: "source_step s (s\<lparr>sy_table := Some (\<lambda>_. 0), sy_reset := True\<rparr>)"
| remove: "source_step s (s\<lparr>sy_table := None, sy_reset := True\<rparr>)"
| start_read: "refresh_begin now (sy_source s) = (True, k) \<Longrightarrow>
    source_step s (s\<lparr>sy_source := k, sy_readers := sy_readers s @ [None]\<rparr>)"
| sample: "sy_readers s = as @ None # bs \<Longrightarrow> ReadCounters (nft_counters (sy_table s)) = Inr raw \<Longrightarrow>
    source_step s (s\<lparr>sy_readers := as @ Some raw # bs\<rparr>)"
| finish: "sy_readers s = as @ Some raw # bs \<Longrightarrow>
    source_step s (s\<lparr>sy_source := refresh_end now (Inr raw) (sy_source s), sy_readers := as @ bs\<rparr>)"
| fail: "sy_readers s = as @ r # bs \<Longrightarrow>
    source_step s (s\<lparr>sy_source := refresh_end now (Inl e) (sy_source s), sy_readers := as @ bs\<rparr>)"

definition source_init :: "int \<Rightarrow> ksys" where
  "source_init ttl =
     \<lparr>sy_source = NewKernelSource ttl, sy_table = Some (\<lambda>_. 0), sy_seen = (\<lambda>_. 0), sy_reset = False, sy_readers = []\<rparr>"

inductive reachable_source :: "int \<Rightarrow> ksys \<Rightarrow> bool" for ttl where
  start: "reachable_source ttl (source_init ttl)"
| step: "reachable_source ttl s \<Longrightarrow> source_step s s' \<Longrightarrow> reachable_source ttl s'"

inductive_cases source_stepE: "source_step s s'"

section \<open>What a reading adds\<close>

definition delta :: "nat \<Rightarrow> nat \<Rightarrow> nat" where
  "delta l v = (if l \<le> v then v - l else v)"

lemma add_reading_fields [simp]:
  "ks_total (add_reading e v k) x = (if x = e then ks_total k e + (if v \<ge> ks_lastRaw k e then v - ks_lastRaw k e else v) else ks_total k x)"
  "ks_lastRaw (add_reading e v k) x = (if x = e then v else ks_lastRaw k x)"
  "ks_reading (add_reading e v k) = ks_reading k"
  by (simp_all add: add_reading_def)

lemma add_readings_Some:
  "ks_total (add_readings (readings (Some f)) k) e =
    (if e \<in> set KernelEvents then ks_total k e + (if of_nat (f e) \<ge> ks_lastRaw k e then of_nat (f e) - ks_lastRaw k e else of_nat (f e))
     else ks_total k e)"
  "ks_lastRaw (add_readings (readings (Some f)) k) e = (if e \<in> set KernelEvents then of_nat (f e) else ks_lastRaw k e)"
  "ks_reading (add_readings (readings (Some f)) k) = ks_reading k"
  by (simp_all add: add_readings_def readings_def KernelEvents_def)

lemma add_readings_None [simp]: "add_readings (readings None) k = k"
  by (simp add: add_readings_def readings_def)

lemma refresh_end_fields [simp]:
  "ks_total (refresh_end now (Inl e) k) = ks_total k" "ks_lastRaw (refresh_end now (Inl e) k) = ks_lastRaw k"
  "\<not> ks_reading (refresh_end now (Inl e) k)"
  by (simp_all add: refresh_end_def)

lemma add_readings_cong:
  assumes "ks_total k = ks_total k'" and "ks_lastRaw k = ks_lastRaw k'"
  shows "ks_total (add_readings raw k) = ks_total (add_readings raw k') \<and>
    ks_lastRaw (add_readings raw k) = ks_lastRaw (add_readings raw k') \<and> ks_reading (add_readings raw k) = ks_reading k"
  using assms
proof (induction raw arbitrary: k k')
  case (Cons x raw)
  obtain name v where x: "x = (name, v)" by (cases x)
  show ?case
  proof (cases "eventByName name")
    case None
    with Cons.IH [OF Cons.prems] x show ?thesis by (simp add: add_readings_def)
  next
    case (Some e)
    have "ks_total (add_reading e v k) = ks_total (add_reading e v k')" "ks_lastRaw (add_reading e v k) = ks_lastRaw (add_reading e v k')"
      using Cons.prems by (simp_all add: add_reading_def)
    from Cons.IH [OF this] Some x show ?thesis by (simp add: add_readings_def)
  qed
qed (simp add: add_readings_def)

lemma refresh_end_Inr:
  "ks_total (refresh_end now (Inr raw) k) = ks_total (add_readings raw k)"
  "ks_lastRaw (refresh_end now (Inr raw) k) = ks_lastRaw (add_readings raw k)"
  "\<not> ks_reading (refresh_end now (Inr raw) k)"
  using add_readings_cong [of "k\<lparr>ks_reading := False, ks_lastRead := Some now, ks_reads := ks_reads k + 1\<rparr>" k raw]
  by (simp_all add: refresh_end_def)

lemma word_delta:
  fixes l v :: u64
  assumes "unat c + delta (unat l) (unat v) < 2 ^ 64"
  shows "unat (c + (if v \<ge> l then v - l else v)) = unat c + delta (unat l) (unat v)"
proof -
  let ?d = "if v \<ge> l then v - l else v"
  have d: "unat ?d = delta (unat l) (unat v)" by (simp add: delta_def word_le_nat_alt unat_sub_if')
  have "unat (c + ?d) = (unat c + unat ?d) mod 2 ^ 64" by (simp add: unat_word_ariths)
  with assms d show ?thesis by simp
qed

section \<open>The invariant\<close>

text \<open>\<open>covered c l r t\<close>: with \<open>c\<close> accumulated and \<open>l\<close> read last, the kernel's counter at \<open>r\<close> can only add what
  really arrived.\<close>

definition covered :: "nat \<Rightarrow> nat \<Rightarrow> nat \<Rightarrow> nat \<Rightarrow> bool" where
  "covered c l r t \<longleftrightarrow> c + delta l r \<le> t \<and> c \<le> t \<and> l \<le> t \<and> r \<le> t"

lemma covered_arrives: "covered c l r t \<Longrightarrow> covered c l (Suc r) (Suc t)"
  by (auto simp: covered_def delta_def split: if_splits)

lemma covered_reset: "covered c l r t \<Longrightarrow> covered c l 0 t"
  by (auto simp: covered_def delta_def)

lemma covered_read: "covered c l r t \<Longrightarrow> covered (c + delta l r) r r t"
  by (auto simp: covered_def delta_def)

definition kernel_count :: "ksys \<Rightarrow> Event \<Rightarrow> nat" where
  "kernel_count s e = (case sy_table s of None \<Rightarrow> 0 | Some f \<Rightarrow> f e)"

abbreviation total_of :: "ksys \<Rightarrow> Event \<Rightarrow> nat" where
  "total_of s e \<equiv> unat (ks_total (sy_source s) e)"

abbreviation last_of :: "ksys \<Rightarrow> Event \<Rightarrow> nat" where
  "last_of s e \<equiv> unat (ks_lastRaw (sy_source s) e)"

text \<open>The totals once the reader in flight, if any, has finished.\<close>

definition pending_ok :: "ksys \<Rightarrow> Event \<Rightarrow> bool" where
  "pending_ok s e \<longleftrightarrow>
     (\<forall>raw v. sy_readers s = [Some raw] \<longrightarrow> map_of raw (event_String e) = Some v \<longrightarrow>
        covered (total_of s e + delta (last_of s e) (unat v)) (unat v) (kernel_count s e) (sy_seen s e) \<and>
        (\<not> sy_reset s \<longrightarrow> last_of s e \<le> unat v))"

definition readers_ok :: "ksys \<Rightarrow> bool" where
  "readers_ok s \<longleftrightarrow>
     sy_readers s = [] \<and> \<not> ks_reading (sy_source s) \<or>
     (\<exists>r. sy_readers s = [r] \<and> ks_reading (sy_source s) \<and> (r = None \<or> (\<exists>t. r = Some (readings t))))"

definition counts_ok :: "ksys \<Rightarrow> Event \<Rightarrow> bool" where
  "counts_ok s e \<longleftrightarrow>
     covered (total_of s e) (last_of s e) (kernel_count s e) (sy_seen s e) \<and> pending_ok s e \<and>
     (\<not> sy_reset s \<longrightarrow> total_of s e = last_of s e \<and> kernel_count s e = sy_seen s e)"

lemma seen_grows: "source_step s s' \<Longrightarrow> sy_seen s e \<le> sy_seen s' e"
  by (erule source_stepE) auto

lemma one_reader: "readers_ok s \<Longrightarrow> sy_readers s = as @ r # bs \<Longrightarrow> as = [] \<and> bs = [] \<and> (r = None \<or> (\<exists>t. r = Some (readings t)))"
  by (cases as; cases bs) (auto simp: readers_ok_def)

lemma refresh_begin_True:
  "refresh_begin now k = (True, k') \<Longrightarrow> \<not> ks_reading k \<and> ks_reading k' \<and> ks_total k' = ks_total k \<and> ks_lastRaw k' = ks_lastRaw k"
  by (auto simp: refresh_begin_def split: if_splits)

lemma readers_ok_step: "source_step s s' \<Longrightarrow> readers_ok s \<Longrightarrow> readers_ok s'"
proof (induction rule: source_step.induct)
  case (start_read now s k)
  then show ?case using refresh_begin_True [of now "sy_source s" k] by (auto simp: readers_ok_def)
next
  case (sample s as bs raw)
  then show ?case using one_reader [of s as None bs] by (auto simp: readers_ok_def ReadCounters_readings)
next
  case (finish s as raw bs now)
  then show ?case using one_reader [of s as "Some raw" bs] refresh_end_Inr(3) by (auto simp: readers_ok_def)
next
  case (fail s as r bs now e)
  then show ?case using one_reader [of s as r bs] by (auto simp: readers_ok_def)
qed (auto simp: readers_ok_def)

lemma readings_value:
  "map_of (readings t) (event_String e) =
    (case t of None \<Rightarrow> None | Some f \<Rightarrow> if e \<in> set KernelEvents then Some (of_nat (f e)) else None)"
  by (cases e) (simp_all add: readings_def KernelEvents_def event_String_def split: option.split)

lemma add_readings_value:
  "ks_total (add_readings (readings t) k) e = (case map_of (readings t) (event_String e) of None \<Rightarrow> ks_total k e
     | Some v \<Rightarrow> ks_total k e + (if v \<ge> ks_lastRaw k e then v - ks_lastRaw k e else v))"
  "ks_lastRaw (add_readings (readings t) k) e = (case map_of (readings t) (event_String e) of None \<Rightarrow> ks_lastRaw k e | Some v \<Rightarrow> v)"
  by (cases t; simp add: readings_value add_readings_Some)+

lemma counts_ok_step:
  assumes "source_step s s'" and "readers_ok s" and "counts_ok s e" and "sy_seen s' e < 2 ^ 64"
  shows "counts_ok s' e \<and> total_of s e \<le> total_of s' e"
  using assms
proof (induction rule: source_step.induct)
  case (arrives s f x)
  show ?case
  proof (cases "x = e")
    case True
    with arrives.prems(2) arrives.hyps show ?thesis
      by (auto simp: counts_ok_def pending_ok_def kernel_count_def intro: covered_arrives)
  next
    case False
    with arrives.prems(2) arrives.hyps show ?thesis by (auto simp: counts_ok_def pending_ok_def kernel_count_def)
  qed
next
  case (rebuild s)
  then show ?case by (auto simp: counts_ok_def pending_ok_def kernel_count_def intro: covered_reset)
next
  case (remove s)
  then show ?case by (auto simp: counts_ok_def pending_ok_def kernel_count_def intro: covered_reset)
next
  case (start_read now s k)
  then show ?case
    using refresh_begin_True [of now "sy_source s" k] by (auto simp: counts_ok_def pending_ok_def kernel_count_def)
next
  case (sample s as bs raw)
  have raw: "raw = readings (sy_table s)" "as = []" "bs = []"
    using sample.hyps one_reader [OF sample.prems(1) sample.hyps(1)] by (simp_all add: ReadCounters_readings)
  have cov: "covered (total_of s e) (last_of s e) (kernel_count s e) (sy_seen s e)"
    and exact: "\<not> sy_reset s \<Longrightarrow> total_of s e = last_of s e \<and> kernel_count s e = sy_seen s e"
    using sample.prems(2) by (simp_all add: counts_ok_def)
  have small: "sy_seen s e < 2 ^ 64" using sample.prems(3) by simp
  have v: "unat v = kernel_count s e" if v: "map_of raw (event_String e) = Some v" for v
  proof -
    from v obtain f where "sy_table s = Some f" "v = of_nat (f e)" by (auto simp: raw readings_value split: option.splits if_splits)
    moreover have "f e < 2 ^ 64" using calculation cov small by (simp add: kernel_count_def covered_def)
    ultimately show ?thesis by (simp add: kernel_count_def unat_of_nat)
  qed
  have le: "\<not> sy_reset s \<Longrightarrow> last_of s e \<le> kernel_count s e" using exact cov by (simp add: covered_def)
  have "pending_ok (s\<lparr>sy_readers := as @ Some raw # bs\<rparr>) e"
    using covered_read [OF cov] v le by (auto simp: pending_ok_def raw(2,3) kernel_count_def)
  then show ?case using sample.prems(2) by (simp add: counts_ok_def kernel_count_def)
next
  case (finish s as raw bs now)
  obtain t where raw: "raw = readings t" "as = []" "bs = []"
    using one_reader [OF finish.prems(1) finish.hyps] by auto
  have small: "sy_seen s e < 2 ^ 64" using finish.prems(3) by simp
  show ?case
  proof (cases "map_of raw (event_String e)")
    case None
    then show ?thesis using finish.prems(2) raw
      by (simp add: counts_ok_def pending_ok_def kernel_count_def refresh_end_Inr add_readings_value)
  next
    case (Some v)
    with finish.prems(2) finish.hyps raw have p: "covered (total_of s e + delta (last_of s e) (unat v)) (unat v) (kernel_count s e) (sy_seen s e)"
      "\<not> sy_reset s \<Longrightarrow> last_of s e \<le> unat v" by (auto simp: counts_ok_def pending_ok_def)
    have "unat (ks_total (sy_source s) e) + delta (unat (ks_lastRaw (sy_source s) e)) (unat v) < 2 ^ 64"
      using p(1) small by (simp add: covered_def)
    from word_delta [OF this] Some raw(1)
    have t: "unat (ks_total (refresh_end now (Inr raw) (sy_source s)) e) = total_of s e + delta (last_of s e) (unat v)"
      "unat (ks_lastRaw (refresh_end now (Inr raw) (sy_source s)) e) = unat v"
      by (simp_all add: refresh_end_Inr add_readings_value)
    have "delta (last_of s e) (unat v) + total_of s e = unat v"
      if "\<not> sy_reset s" using that p(2) finish.prems(2) by (simp add: counts_ok_def delta_def)
    then show ?thesis
      using p(1) finish.prems(2) raw t by (simp add: counts_ok_def pending_ok_def kernel_count_def add.commute)
  qed
next
  case (fail s as r bs now x)
  then show ?case using one_reader [OF fail.prems(1) fail.hyps]
    by (simp add: counts_ok_def pending_ok_def kernel_count_def)
qed

lemma reachable_ok:
  assumes "reachable_source ttl s"
  shows "readers_ok s" and "sy_seen s e < 2 ^ 64 \<Longrightarrow> counts_ok s e"
proof -
  have "readers_ok s \<and> (sy_seen s e < 2 ^ 64 \<longrightarrow> counts_ok s e)"
    using assms
  proof (induction rule: reachable_source.induct)
    case start
    show ?case
      by (simp add: readers_ok_def counts_ok_def pending_ok_def source_init_def NewKernelSource_def kernel_count_def covered_def delta_def)
  next
    case (step s s')
    then show ?case
      using readers_ok_step [of s s'] counts_ok_step [of s s' e] seen_grows [of s s' e] by auto
  qed
  then show "readers_ok s" "sy_seen s e < 2 ^ 64 \<Longrightarrow> counts_ok s e" by blast+
qed

text \<open>C37: However packets, reads, failures, rebuilds and concurrent callers interleave, the exported
  counts only grow and never exceed what really arrived, at most one read is in flight, and as
  long as the table was never rebuilt they are exactly what was last read.\<close>

theorem source_counts_arrivals:
  assumes "reachable_source ttl s" and "source_step s s'" and "sy_seen s' e < 2 ^ 64"
  shows "unat (ks_total (sy_source s) e) \<le> unat (ks_total (sy_source s') e) \<and>
    unat (ks_total (sy_source s') e) \<le> sy_seen s' e \<and> length (sy_readers s') \<le> 1 \<and>
    (sy_reset s' \<or> ks_total (sy_source s') e = ks_lastRaw (sy_source s') e)"
proof -
  have s: "readers_ok s" "sy_seen s e < 2 ^ 64" using reachable_ok(1) [OF assms(1)] seen_grows [OF assms(2), of e] assms(3) by simp_all
  have ok: "counts_ok s' e" "unat (ks_total (sy_source s) e) \<le> unat (ks_total (sy_source s') e)"
    using counts_ok_step [OF assms(2) s(1) reachable_ok(2) [OF assms(1) s(2)] assms(3)] by simp_all
  have "length (sy_readers s') \<le> 1" using readers_ok_step [OF assms(2) s(1)] by (auto simp: readers_ok_def)
  with ok show ?thesis by (auto simp: counts_ok_def covered_def word_unat_eq_iff)
qed

text \<open>Two resets arrive, a caller reads them, the table is rebuilt: the exported count stays at two.\<close>

theorem source_counts_arrivals_witness:
  "\<exists>s. reachable_source 10 s \<and> sy_reset s \<and> ks_total (sy_source s) EventRST = 2 \<and> sy_seen s EventRST = 2 \<and> kernel_count s EventRST = 0"
proof -
  let ?f = "(\<lambda>_. 0)(EventRST := Suc (Suc 0)) :: Event \<Rightarrow> nat"
  let ?k = "NewKernelSource 10"
  define s0 where "s0 = source_init 10"
  define s1 where "s1 = s0\<lparr>sy_table := Some ((\<lambda>_. 0)(EventRST := Suc 0)), sy_seen := (\<lambda>_. 0)(EventRST := Suc 0)\<rparr>"
  define s2 where "s2 = s1\<lparr>sy_table := Some ?f, sy_seen := ?f\<rparr>"
  define s3 where "s3 = s2\<lparr>sy_source := ?k\<lparr>ks_reading := True\<rparr>, sy_readers := [None]\<rparr>"
  define s4 where "s4 = s3\<lparr>sy_readers := [Some (readings (Some ?f))]\<rparr>"
  define s5 where "s5 = s4\<lparr>sy_source := refresh_end 5 (Inr (readings (Some ?f))) (?k\<lparr>ks_reading := True\<rparr>), sy_readers := []\<rparr>"
  define s6 where "s6 = s5\<lparr>sy_table := Some (\<lambda>_. 0), sy_reset := True\<rparr>"
  note d = s0_def s1_def s2_def s3_def s4_def s5_def s6_def
  have r0: "reachable_source 10 s0" unfolding s0_def by (rule reachable_source.start)
  have st0: "source_step s0 s1"
    using source_step.arrives [of s0 "\<lambda>_. 0" EventRST] by (simp add: d source_init_def KernelEvents_def)
  have st1: "source_step s1 s2"
    using source_step.arrives [of s1 "(\<lambda>_. 0)(EventRST := Suc 0)" EventRST] by (simp add: d source_init_def KernelEvents_def)
  have st2: "source_step s2 s3"
    using source_step.start_read [of 0 s2 "?k\<lparr>ks_reading := True\<rparr>"] by (simp add: d source_init_def refresh_begin_def NewKernelSource_def)
  have st3: "source_step s3 s4"
    using source_step.sample [of s3 "[]" "[]" "readings (Some ?f)"] by (simp add: d source_init_def ReadCounters_readings)
  have st4: "source_step s4 s5"
    using source_step.finish [of s4 "[]" "readings (Some ?f)" "[]" 5] by (simp add: d source_init_def)
  note r5 = reachable_source.step [OF reachable_source.step [OF reachable_source.step [OF reachable_source.step [OF reachable_source.step
    [OF r0 st0] st1] st2] st3] st4]
  have 6: "source_step s5 s6" unfolding s6_def by (rule source_step.rebuild)
  have t: "ks_total (sy_source s6) EventRST = 2"
    by (simp add: d refresh_end_Inr add_readings_Some KernelEvents_def NewKernelSource_def)
  have "sy_seen s6 EventRST = 2" by (simp add: d)
  with source_counts_arrivals [OF r5 6, of EventRST] have "unat (ks_total (sy_source s6) EventRST) \<le> 2" by simp
  moreover have "reachable_source 10 s6" by (rule reachable_source.step [OF r5 6])
  moreover have "sy_reset s6" "kernel_count s6 EventRST = 0" by (simp_all add: s6_def kernel_count_def)
  ultimately show ?thesis using t \<open>sy_seen s6 EventRST = 2\<close> by blast
qed

end
