(* ===== verification/Canary.thy ===== *)
theory Canary
  imports Prelude
begin

text \<open>
  \<open>internal/canary/pool.go\<close> and \<open>corpus.go\<close>: header values seen on the wire, per field a bounded list
  of distinct values, seeded with a static corpus. Decoding packets is the \<open>gopacket\<close> library, a
  parameter; its result is the part of the two headers the pool reads.
\<close>

section \<open>One field\<close>

record FieldPool =
  fp_cap :: nat
  fp_order :: "u32 list"
  fp_seen :: "(u32 \<times> u64) list"
  fp_total :: u64

definition newFieldPool :: "nat \<Rightarrow> FieldPool" where
  "newFieldPool c = \<lparr>fp_cap = c, fp_order = [], fp_seen = [], fp_total = 0\<rparr>"

definition pool_add :: "u32 \<Rightarrow> FieldPool \<Rightarrow> FieldPool" where
  "pool_add v f =
     (let f = f\<lparr>fp_total := fp_total f + 1\<rparr>
      in case map_of (fp_seen f) v of
           Some n \<Rightarrow> f\<lparr>fp_seen := AList.update v (n + 1) (fp_seen f)\<rparr>
         | None \<Rightarrow>
             if length (fp_order f) \<ge> fp_cap f then f
             else f\<lparr>fp_seen := AList.update v 1 (fp_seen f), fp_order := fp_order f @ [v]\<rparr>)"

definition pool_Values :: "FieldPool \<Rightarrow> u32 list" where
  "pool_Values f = fp_order f"

section \<open>The pool\<close>

record Pool =
  po_market :: string
  po_cap :: nat
  po_windows :: FieldPool
  po_ttls :: FieldPool
  po_ipIDs :: FieldPool
  po_mss :: FieldPool
  po_wscale :: FieldPool
  po_flags :: FieldPool
  po_options :: FieldPool
  po_captured :: u64

definition coldStart_windows :: "u32 list" where "coldStart_windows = [65535, 64240, 29200, 5840, 14600, 42780]"
definition coldStart_ttls :: "u32 list" where "coldStart_ttls = [64, 128, 255]"
definition coldStart_mss :: "u32 list" where "coldStart_mss = [1460, 1440, 1412, 1380, 1360, 536]"
definition coldStart_wscale :: "u32 list" where "coldStart_wscale = [7, 8, 6, 10, 0]"
definition coldStart_flags :: "u32 list" where "coldStart_flags = [0x02, 0x12, 0x10, 0x18, 0x11, 0x04, 0x14]"

text \<open>The option kinds of \<open>gopacket\<close>: maximum segment size 2, SACK permitted 4, timestamps 8, no-op 1, window
  scale 3.\<close>

definition coldStart_options :: "u32 list" where "coldStart_options = [2, 4, 8, 1, 3]"

definition seedColdStart :: "Pool \<Rightarrow> Pool" where
  "seedColdStart p =
     p\<lparr>po_windows := fold pool_add coldStart_windows (po_windows p),
       po_ttls := fold pool_add coldStart_ttls (po_ttls p),
       po_mss := fold pool_add coldStart_mss (po_mss p),
       po_wscale := fold pool_add coldStart_wscale (po_wscale p),
       po_flags := fold pool_add coldStart_flags (po_flags p),
       po_options := fold pool_add coldStart_options (po_options p)\<rparr>"

definition NewPool :: "string \<Rightarrow> int \<Rightarrow> Pool" where
  "NewPool market capacity =
     (let c = (if capacity \<le> 0 then 64 else nat capacity)
      in seedColdStart
           \<lparr>po_market = market, po_cap = c, po_windows = newFieldPool c, po_ttls = newFieldPool c,
            po_ipIDs = newFieldPool c, po_mss = newFieldPool c, po_wscale = newFieldPool c,
            po_flags = newFieldPool c, po_options = newFieldPool c, po_captured = 0\<rparr>)"

text \<open>What the library decodes: both layers, or nothing the pool uses.\<close>

record tcp_bits =
  tb_FIN :: bool
  tb_SYN :: bool
  tb_RST :: bool
  tb_PSH :: bool
  tb_ACK :: bool
  tb_URG :: bool
  tb_ECE :: bool
  tb_CWR :: bool

record headers =
  hd_TTL :: byte
  hd_Id :: u16
  hd_Window :: u16
  hd_bits :: tcp_bits
  hd_Options :: "(byte \<times> byte list) list"

type_synonym decoder = "byte list \<Rightarrow> headers option"

definition canary_tcpFlagBits :: "tcp_bits \<Rightarrow> u16" where
  "canary_tcpFlagBits t =
     (let set_bit = (\<lambda>b m f. if b then f OR m else f);
          f = 0;
          f = set_bit (tb_FIN t) 0x01 f;
          f = set_bit (tb_SYN t) 0x02 f;
          f = set_bit (tb_RST t) 0x04 f;
          f = set_bit (tb_PSH t) 0x08 f;
          f = set_bit (tb_ACK t) 0x10 f;
          f = set_bit (tb_URG t) 0x20 f;
          f = set_bit (tb_ECE t) 0x40 f
      in set_bit (tb_CWR t) 0x80 f)"

definition observe_option :: "byte \<times> byte list \<Rightarrow> Pool \<Rightarrow> Pool" where
  "observe_option opt p =
     (case opt of (kind, data) \<Rightarrow>
        let p = p\<lparr>po_options := pool_add (ucast kind) (po_options p)\<rparr>
        in if kind = 2 then
             (case data of
                [a, b] \<Rightarrow> p\<lparr>po_mss := pool_add (push_bit 8 (ucast a) OR ucast b) (po_mss p)\<rparr>
              | _ \<Rightarrow> p)
           else if kind = 3 then
             (case data of [a] \<Rightarrow> p\<lparr>po_wscale := pool_add (ucast a) (po_wscale p)\<rparr> | _ \<Rightarrow> p)
           else p)"

definition canary_Observe :: "decoder \<Rightarrow> byte list \<Rightarrow> Pool \<Rightarrow> Pool" where
  "canary_Observe decode raw p =
     (case decode raw of
        None \<Rightarrow> p
      | Some h \<Rightarrow>
          let p = p\<lparr>po_captured := po_captured p + 1\<rparr>;
              p = p\<lparr>po_ttls := pool_add (ucast (hd_TTL h)) (po_ttls p)\<rparr>;
              p = p\<lparr>po_ipIDs := pool_add (ucast (hd_Id h)) (po_ipIDs p)\<rparr>;
              p = p\<lparr>po_windows := pool_add (ucast (hd_Window h)) (po_windows p)\<rparr>;
              p = p\<lparr>po_flags := pool_add (ucast (canary_tcpFlagBits (hd_bits h))) (po_flags p)\<rparr>
          in fold observe_option (hd_Options h) p)"

record CanarySnapshot =
  cs_Market :: string
  cs_Captured :: u64
  cs_Windows :: "u32 list"
  cs_TTLs :: "u32 list"
  cs_IPIDs :: "u32 list"
  cs_MSS :: "u32 list"
  cs_WScale :: "u32 list"
  cs_Flags :: "u32 list"
  cs_Options :: "u32 list"

definition canary_Snapshot :: "Pool \<Rightarrow> CanarySnapshot" where
  "canary_Snapshot p =
     \<lparr>cs_Market = po_market p, cs_Captured = po_captured p, cs_Windows = pool_Values (po_windows p),
      cs_TTLs = pool_Values (po_ttls p), cs_IPIDs = pool_Values (po_ipIDs p), cs_MSS = pool_Values (po_mss p),
      cs_WScale = pool_Values (po_wscale p), cs_Flags = pool_Values (po_flags p), cs_Options = pool_Values (po_options p)\<rparr>"

section \<open>What a field keeps\<close>

text \<open>The distinct values in the order of their first occurrence.\<close>

fun firsts :: "u32 list \<Rightarrow> u32 list" where
  "firsts [] = []"
| "firsts (v # vs) = v # filter (\<lambda>x. x \<noteq> v) (firsts vs)"

lemma set_firsts [simp]: "set (firsts vs) = set vs"
  by (induction vs) auto

lemma distinct_firsts [simp]: "distinct (firsts vs)"
  by (induction vs) auto

lemma firsts_append: "firsts (us @ [v]) = (if v \<in> set us then firsts us else firsts us @ [v])"
  by (induction us) auto

definition field_ok :: "nat \<Rightarrow> u32 list \<Rightarrow> FieldPool \<Rightarrow> bool" where
  "field_ok c vs f \<longleftrightarrow>
     fp_cap f = c \<and> fp_order f = take c (firsts vs) \<and> fp_total f = of_nat (length vs) \<and>
     (\<forall>v. map_of (fp_seen f) v = (if v \<in> set (take c (firsts vs)) then Some (of_nat (count_list vs v)) else None))"

lemma count_list_append [simp]: "count_list (us @ vs) x = count_list us x + count_list vs x"
  by (induction us) simp_all

lemma take_snoc: "take c (xs @ [x]) = (if length xs < c then xs @ [x] else take c xs)"
  by simp

lemma field_ok_add:
  assumes "field_ok c vs f"
  shows "field_ok c (vs @ [v]) (pool_add v f)"
proof -
  note ok = assms [unfolded field_ok_def]
  have len: "length (fp_order f) \<ge> c \<longleftrightarrow> c \<le> length (firsts vs)" using ok by simp
  show ?thesis
  proof (cases "v \<in> set (take c (firsts vs))")
    case True
    then have "v \<in> set vs" using set_take_subset [of c "firsts vs"] by auto
    then have "firsts (vs @ [v]) = firsts vs" by (simp add: firsts_append)
    with True ok show ?thesis
      by (auto simp: field_ok_def pool_add_def Let_def map_of_update AList.update_conv)
  next
    case False
    show ?thesis
    proof (cases "c \<le> length (firsts vs)")
      case True
      then have "take c (firsts (vs @ [v])) = take c (firsts vs)" by (simp add: firsts_append)
      with True False ok len show ?thesis by (auto simp: field_ok_def pool_add_def Let_def)
    next
      case small: False
      with False have v: "v \<notin> set vs" "take c (firsts vs) = firsts vs" by simp_all
      then have "take c (firsts (vs @ [v])) = firsts vs @ [v]" using small by (simp add: firsts_append)
      moreover have "count_list vs v = 0" using v(1) by simp
      ultimately show ?thesis using small False ok v len
        by (auto simp: field_ok_def pool_add_def Let_def AList.update_conv)
    qed
  qed
qed

lemma field_ok_fold: "field_ok c us f \<Longrightarrow> field_ok c (us @ vs) (fold pool_add vs f)"
proof (induction vs arbitrary: us f)
  case (Cons v vs)
  from Cons.IH [OF field_ok_add [OF Cons.prems]] show ?case by simp
qed simp

lemma field_ok_new: "field_ok c [] (newFieldPool c)"
  by (simp add: field_ok_def newFieldPool_def)

section \<open>What the pool keeps\<close>

text \<open>The values a packet offers to each field.\<close>

definition mss_of :: "headers \<Rightarrow> u32 list" where
  "mss_of h = List.map_filter (\<lambda>(k, d). case d of [a, b] \<Rightarrow> if k = 2 then Some (push_bit 8 (ucast a) OR ucast b) else None | _ \<Rightarrow> None)
     (hd_Options h)"

definition wscale_of :: "headers \<Rightarrow> u32 list" where
  "wscale_of h = List.map_filter (\<lambda>(k, d). case d of [a] \<Rightarrow> if k = 3 then Some (ucast a) else None | _ \<Rightarrow> None) (hd_Options h)"

definition kinds_of :: "headers \<Rightarrow> u32 list" where
  "kinds_of h = map (\<lambda>(k, _). ucast k) (hd_Options h)"

text \<open>The pool after the packets \<open>hs\<close>, with the values offered to the option fields so far.\<close>

definition option_fields_ok :: "nat \<Rightarrow> u32 list \<Rightarrow> u32 list \<Rightarrow> u32 list \<Rightarrow> Pool \<Rightarrow> bool" where
  "option_fields_ok c ms ws os p \<longleftrightarrow> field_ok c ms (po_mss p) \<and> field_ok c ws (po_wscale p) \<and> field_ok c os (po_options p)"

definition other_fields :: "Pool \<Rightarrow> string \<times> u64 \<times> FieldPool \<times> FieldPool \<times> FieldPool \<times> FieldPool" where
  "other_fields p = (po_market p, po_captured p, po_windows p, po_ttls p, po_ipIDs p, po_flags p)"

lemma observe_options:
  assumes "option_fields_ok c ms ws os p"
  shows "option_fields_ok c (ms @ mss_of (h\<lparr>hd_Options := opts\<rparr>)) (ws @ wscale_of (h\<lparr>hd_Options := opts\<rparr>))
      (os @ kinds_of (h\<lparr>hd_Options := opts\<rparr>)) (fold observe_option opts p) \<and>
    other_fields (fold observe_option opts p) = other_fields p"
  using assms
proof (induction opts arbitrary: ms ws os p)
  case Nil
  then show ?case by (simp add: mss_of_def wscale_of_def kinds_of_def map_filter_simps)
next
  case (Cons opt opts)
  obtain k d where opt: "opt = (k, d)" by (cases opt)
  define m where "m = (case d of [a, b] \<Rightarrow> if k = 2 then [push_bit 8 (ucast a) OR ucast b :: u32] else [] | _ \<Rightarrow> [])"
  define w where "w = (case d of [a] \<Rightarrow> if k = 3 then [ucast a :: u32] else [] | _ \<Rightarrow> [])"
  have "option_fields_ok c (ms @ m) (ws @ w) (os @ [ucast k]) (observe_option opt p)"
    using Cons.prems
    by (auto simp: option_fields_ok_def observe_option_def opt m_def w_def Let_def intro: field_ok_add split: list.split)
  moreover have "other_fields (observe_option opt p) = other_fields p"
    by (auto simp: other_fields_def observe_option_def opt Let_def split: list.split)
  moreover have "mss_of (h\<lparr>hd_Options := opt # opts\<rparr>) = m @ mss_of (h\<lparr>hd_Options := opts\<rparr>)"
    "wscale_of (h\<lparr>hd_Options := opt # opts\<rparr>) = w @ wscale_of (h\<lparr>hd_Options := opts\<rparr>)"
    "kinds_of (h\<lparr>hd_Options := opt # opts\<rparr>) = ucast k # kinds_of (h\<lparr>hd_Options := opts\<rparr>)"
    by (auto simp: mss_of_def wscale_of_def kinds_of_def map_filter_simps opt m_def w_def split: list.split)
  ultimately show ?case using Cons.IH [of "ms @ m" "ws @ w" "os @ [ucast k]" "observe_option opt p"] by simp
qed

definition pool_ok :: "nat \<Rightarrow> string \<Rightarrow> headers list \<Rightarrow> Pool \<Rightarrow> bool" where
  "pool_ok c market hs p \<longleftrightarrow>
     po_market p = market \<and> po_captured p = of_nat (length hs) \<and>
     field_ok c (coldStart_windows @ map (\<lambda>h. ucast (hd_Window h)) hs) (po_windows p) \<and>
     field_ok c (coldStart_ttls @ map (\<lambda>h. ucast (hd_TTL h)) hs) (po_ttls p) \<and>
     field_ok c (map (\<lambda>h. ucast (hd_Id h)) hs) (po_ipIDs p) \<and>
     field_ok c (coldStart_flags @ map (\<lambda>h. ucast (canary_tcpFlagBits (hd_bits h))) hs) (po_flags p) \<and>
     option_fields_ok c (coldStart_mss @ concat (map mss_of hs)) (coldStart_wscale @ concat (map wscale_of hs))
       (coldStart_options @ concat (map kinds_of hs)) p"

lemma pool_ok_New: "pool_ok (if capacity \<le> 0 then 64 else nat capacity) market [] (NewPool market capacity)"
  using field_ok_fold [OF field_ok_new, of _ coldStart_windows] field_ok_fold [OF field_ok_new, of _ coldStart_ttls]
    field_ok_fold [OF field_ok_new, of _ coldStart_mss] field_ok_fold [OF field_ok_new, of _ coldStart_wscale]
    field_ok_fold [OF field_ok_new, of _ coldStart_flags] field_ok_fold [OF field_ok_new, of _ coldStart_options] field_ok_new
  by (simp add: NewPool_def seedColdStart_def Let_def pool_ok_def option_fields_ok_def)

lemma pool_ok_Observe:
  assumes "pool_ok c market hs p"
  shows "pool_ok c market (hs @ (case decode raw of None \<Rightarrow> [] | Some h \<Rightarrow> [h])) (canary_Observe decode raw p)"
proof (cases "decode raw")
  case (Some h)
  define q where "q = p\<lparr>po_captured := po_captured p + 1, po_ttls := pool_add (ucast (hd_TTL h)) (po_ttls p),
    po_ipIDs := pool_add (ucast (hd_Id h)) (po_ipIDs p), po_windows := pool_add (ucast (hd_Window h)) (po_windows p),
    po_flags := pool_add (ucast (canary_tcpFlagBits (hd_bits h))) (po_flags p)\<rparr>"
  have "option_fields_ok c (coldStart_mss @ concat (map mss_of hs)) (coldStart_wscale @ concat (map wscale_of hs))
       (coldStart_options @ concat (map kinds_of hs)) q"
    using assms by (simp add: pool_ok_def option_fields_ok_def q_def)
  from observe_options [OF this, where h = h and opts = "hd_Options h"] have
    "option_fields_ok c (coldStart_mss @ concat (map mss_of (hs @ [h]))) (coldStart_wscale @ concat (map wscale_of (hs @ [h])))
       (coldStart_options @ concat (map kinds_of (hs @ [h]))) (fold observe_option (hd_Options h) q)"
    "other_fields (fold observe_option (hd_Options h) q) = other_fields q" by simp_all
  moreover have "field_ok c (coldStart_windows @ map (\<lambda>h. ucast (hd_Window h)) (hs @ [h])) (po_windows q)"
    "field_ok c (coldStart_ttls @ map (\<lambda>h. ucast (hd_TTL h)) (hs @ [h])) (po_ttls q)"
    "field_ok c (map (\<lambda>h. ucast (hd_Id h)) (hs @ [h])) (po_ipIDs q)"
    "field_ok c (coldStart_flags @ map (\<lambda>h. ucast (canary_tcpFlagBits (hd_bits h))) (hs @ [h])) (po_flags q)"
    using assms field_ok_add [of c "coldStart_windows @ map (\<lambda>h. ucast (hd_Window h)) hs" "po_windows p" "ucast (hd_Window h)"]
      field_ok_add [of c "coldStart_ttls @ map (\<lambda>h. ucast (hd_TTL h)) hs" "po_ttls p" "ucast (hd_TTL h)"]
      field_ok_add [of c "map (\<lambda>h. ucast (hd_Id h)) hs" "po_ipIDs p" "ucast (hd_Id h)"]
      field_ok_add [of c "coldStart_flags @ map (\<lambda>h. ucast (canary_tcpFlagBits (hd_bits h))) hs" "po_flags p"
        "ucast (canary_tcpFlagBits (hd_bits h))"]
    by (simp_all add: pool_ok_def q_def)
  moreover have "po_market q = market" "po_captured q = of_nat (length (hs @ [h]))" using assms by (simp_all add: pool_ok_def q_def)
  moreover have "canary_Observe decode raw p = fold observe_option (hd_Options h) q"
    by (simp add: canary_Observe_def Some q_def Let_def)
  ultimately show ?thesis using Some by (simp add: pool_ok_def other_fields_def)
qed (use assms in \<open>simp add: canary_Observe_def\<close>)

lemma pool_ok_run:
  "pool_ok c market hs p \<Longrightarrow> pool_ok c market (hs @ List.map_filter decode raws) (fold (canary_Observe decode) raws p)"
proof (induction raws arbitrary: hs p)
  case (Cons raw raws)
  from Cons.IH [OF pool_ok_Observe [OF Cons.prems, of decode raw]] show ?case
    by (simp add: map_filter_simps split: option.splits)
qed (simp add: map_filter_simps)

text \<open>C39: Whatever packets a pool has observed, its snapshot is, field by field, the first distinct values
  among the static corpus and what the decodable packets carried, up to the capacity, in the
  order they first appeared, with the number of those packets.\<close>

theorem pool_keeps_first_values:
  "canary_Snapshot (fold (canary_Observe decode) raws (NewPool market capacity)) =
    (let hs = List.map_filter decode raws; keep = (\<lambda>vs. take (if capacity \<le> 0 then 64 else nat capacity) (firsts vs))
     in \<lparr>cs_Market = market, cs_Captured = of_nat (length hs),
         cs_Windows = keep (coldStart_windows @ map (\<lambda>h. ucast (hd_Window h)) hs),
         cs_TTLs = keep (coldStart_ttls @ map (\<lambda>h. ucast (hd_TTL h)) hs),
         cs_IPIDs = keep (map (\<lambda>h. ucast (hd_Id h)) hs),
         cs_MSS = keep (coldStart_mss @ concat (map mss_of hs)),
         cs_WScale = keep (coldStart_wscale @ concat (map wscale_of hs)),
         cs_Flags = keep (coldStart_flags @ map (\<lambda>h. ucast (canary_tcpFlagBits (hd_bits h))) hs),
         cs_Options = keep (coldStart_options @ concat (map kinds_of hs))\<rparr>)"
  using pool_ok_run [OF pool_ok_New, of capacity market decode raws]
  by (simp add: canary_Snapshot_def pool_Values_def pool_ok_def option_fields_ok_def field_ok_def Let_def)

text \<open>A capacity no larger than the corpus leaves no room for live traffic.\<close>

lemma small_pool_ignores_traffic:
  assumes "0 < capacity" and "capacity \<le> 6"
  shows "po_windows p = fold pool_add vs (po_windows (NewPool market capacity)) \<Longrightarrow>
    pool_Values (po_windows p) = take (nat capacity) coldStart_windows"
proof -
  assume p: "po_windows p = fold pool_add vs (po_windows (NewPool market capacity))"
  have "field_ok (nat capacity) (coldStart_windows @ vs) (po_windows p)"
    using pool_ok_New [of capacity market] assms(1) field_ok_fold [of "nat capacity" coldStart_windows _ vs]
    by (simp add: p pool_ok_def)
  moreover have "take (nat capacity) (firsts (coldStart_windows @ vs)) = take (nat capacity) coldStart_windows"
  proof -
    have "firsts (coldStart_windows @ vs) = coldStart_windows @ drop 6 (firsts (coldStart_windows @ vs))"
      by (simp add: coldStart_windows_def)
    moreover have "length coldStart_windows = 6" by (simp add: coldStart_windows_def)
    ultimately show ?thesis using assms(2) by (metis take_append take_0 append_Nil2 diff_is_0_eq' nat_le_iff of_nat_numeral)
  qed
  ultimately show ?thesis by (simp add: field_ok_def pool_Values_def)
qed

end
