(* ===== verification/Control.thy ===== *)
theory Control
  imports Ctl_Status Canary
begin

text \<open>
  \<open>internal/control/server.go\<close>: the HTTP surface. A request is decoded within bounds, becomes one call
  of the adapter interface, and its outcome becomes a status code. The JSON library is a
  parameter; the adapter is a record of its operations, over a state of its own.
\<close>

section \<open>The adapter interface\<close>

text \<open>\<open>Adapter\<close> of \<open>internal/adapter/types.go\<close>.\<close>

record 's adapter_ops =
  ao_Descriptor :: "'s \<Rightarrow> Descriptor"
  ao_Prepare :: "Artifact \<Rightarrow> 's \<Rightarrow> err option \<times> 's"
  ao_Verify :: "Artifact \<Rightarrow> 's \<Rightarrow> err option \<times> 's"
  ao_ActivateForNewConnections :: "Artifact \<Rightarrow> 's \<Rightarrow> err option \<times> 's"
  ao_DeactivateForNewConnections :: "Identity \<Rightarrow> 's \<Rightarrow> err option \<times> 's"
  ao_Status :: "'s \<Rightarrow> AdapterStatus res \<times> 's"
  ao_Drain :: "Identity \<Rightarrow> 's \<Rightarrow> DrainResult res \<times> 's"
  ao_Rollback :: "Artifact \<Rightarrow> 's \<Rightarrow> err option \<times> 's"
  ao_GarbageCollect :: "Identity list \<Rightarrow> 's \<Rightarrow> err option \<times> 's"

section \<open>Requests and responses\<close>

record request =
  rq_Method :: string
  rq_Path :: string
  rq_Body :: string
  rq_ReadErr :: "err option" \<comment> \<open>what reading the body ends with, when it is within bounds\<close>

record 'j healthResp =
  hr_Status :: string
  hr_Error :: string
  hr_Mode :: string
  hr_Version :: string
  hr_Commit :: string
  hr_Uptime :: int
  hr_Engine :: Stats
  hr_Verdicts :: "'j option"
  hr_InboundTCP :: "'j option"
  hr_Steering :: "'j option"

datatype 'j body =
    StatusBody string
  | ErrorBody string
  | DescriptorBody Descriptor
  | ReportBody AdapterStatus
  | DrainBody DrainResult
  | HealthBody "'j healthResp"
  | CanaryBody CanarySnapshot
  | NotFoundPage

type_synonym 'j response = "nat \<times> 'j body"

record ('s, 'j) providers =
  pv_Mode :: string
  pv_Version :: string
  pv_Commit :: string
  pv_Engine :: "'s \<Rightarrow> Stats"
  pv_Canary :: "('s \<Rightarrow> Pool) option"
  pv_Verdicts :: "('s \<Rightarrow> 'j) option"
  pv_InboundTCP :: "('s \<Rightarrow> 'j) option"
  pv_Health :: "('s \<Rightarrow> err option) option"
  pv_Steering :: "('s \<Rightarrow> 'j) option"
  pv_Adapter :: "'s adapter_ops option"
  pv_uptime :: "'s \<Rightarrow> int"

text \<open>\<open>json.Unmarshal\<close> for the three kinds of body.\<close>

record jsonlib =
  jl_artifact :: "string \<Rightarrow> artifactJSON res"
  jl_identity :: "string \<Rightarrow> Identity res"
  jl_keep :: "string \<Rightarrow> Identity list res"

definition writeError :: "nat \<Rightarrow> string \<Rightarrow> 'j response" where
  "writeError code msg = (code, ErrorBody msg)"

definition maxArtifactRequest :: nat where
  "maxArtifactRequest = 2 * MaxArtifactSize + 4096"

text \<open>\<open>decode\<close> unmarshals into the destination; \<open>too_big\<close> is the check that only an artifact gets.\<close>

definition decodeAdapterRequest :: "(string \<Rightarrow> 'a res) \<Rightarrow> ('a \<Rightarrow> bool) \<Rightarrow> request \<Rightarrow> 'j response + 'a" where
  "decodeAdapterRequest decode too_big r =
     (if rq_Method r \<noteq> ''POST'' then Inl (writeError 405 ''method not allowed'')
      else if length (rq_Body r) > maxArtifactRequest
      then Inl (writeError 413 ''serialized adapter request exceeds its bounded envelope'')
      else case (case rq_ReadErr r of Some e \<Rightarrow> Inl e | None \<Rightarrow> decode (rq_Body r)) of
             Inl e \<Rightarrow>
               if errors_Is e ErrPayloadTooLarge then Inl (writeError 413 (err_Error e))
               else Inl (writeError 400 (''decode request: '' @ err_Error e))
           | Inr a \<Rightarrow>
               if too_big a then Inl (writeError 413 ''artifact exceeds 256 KiB'') else Inr a)"

definition lifecycleResult :: "err option \<Rightarrow> 'j response" where
  "lifecycleResult e =
     (case e of
        None \<Rightarrow> (200, StatusBody ''ok'')
      | Some e \<Rightarrow>
          let code =
            (if errors_Is e ErrInvalidStrategy then 400
             else if errors_Is e DeadlineExceeded \<or> errors_Is e Canceled then 504
             else if errors_Is e ErrLifecycleConflict then 409
             else 500)
          in writeError code (err_Error e))"

section \<open>Handlers\<close>

definition no_adapter :: "'j response" where
  "no_adapter = writeError 503 ''adapter lifecycle is not wired up''"

text \<open>The shape the seven mutating handlers share: adapter, body, call, result.\<close>

definition lifecycle_call ::
  "'s adapter_ops option \<Rightarrow> (string \<Rightarrow> 'a res) \<Rightarrow> ('a \<Rightarrow> bool) \<Rightarrow> ('s adapter_ops \<Rightarrow> 'a \<Rightarrow> 's \<Rightarrow> err option \<times> 's) \<Rightarrow>
     request \<Rightarrow> 's \<Rightarrow> 'j response \<times> 's" where
  "lifecycle_call adapter decode too_big op r s =
     (case adapter of
        None \<Rightarrow> (no_adapter, s)
      | Some a \<Rightarrow>
          (case decodeAdapterRequest decode too_big r of
             Inl resp \<Rightarrow> (resp, s)
           | Inr x \<Rightarrow> (case op a x s of (e, s) \<Rightarrow> (lifecycleResult e, s))))"

text \<open>An artifact's body is unmarshalled by \<open>Artifact.UnmarshalJSON\<close>.\<close>

definition decode_artifact :: "(string \<Rightarrow> byte list) \<Rightarrow> jsonlib \<Rightarrow> string \<Rightarrow> Artifact res" where
  "decode_artifact sha J b = UnmarshalJSON sha (jl_artifact J b)"

definition artifact_too_big :: "Artifact \<Rightarrow> bool" where
  "artifact_too_big a \<longleftrightarrow> length (a_payload a) > MaxArtifactSize"

definition handlePrepare ::
  "(string \<Rightarrow> byte list) \<Rightarrow> jsonlib \<Rightarrow> ('s, 'j) providers \<Rightarrow> request \<Rightarrow> 's \<Rightarrow> 'j response \<times> 's" where
  "handlePrepare sha J p = lifecycle_call (pv_Adapter p) (decode_artifact sha J) artifact_too_big ao_Prepare"

definition handleVerify ::
  "(string \<Rightarrow> byte list) \<Rightarrow> jsonlib \<Rightarrow> ('s, 'j) providers \<Rightarrow> request \<Rightarrow> 's \<Rightarrow> 'j response \<times> 's" where
  "handleVerify sha J p = lifecycle_call (pv_Adapter p) (decode_artifact sha J) artifact_too_big ao_Verify"

definition handleActivateNew ::
  "(string \<Rightarrow> byte list) \<Rightarrow> jsonlib \<Rightarrow> ('s, 'j) providers \<Rightarrow> request \<Rightarrow> 's \<Rightarrow> 'j response \<times> 's" where
  "handleActivateNew sha J p =
     lifecycle_call (pv_Adapter p) (decode_artifact sha J) artifact_too_big ao_ActivateForNewConnections"

definition handleDeactivateNew ::
  "jsonlib \<Rightarrow> ('s, 'j) providers \<Rightarrow> request \<Rightarrow> 's \<Rightarrow> 'j response \<times> 's" where
  "handleDeactivateNew J p =
     lifecycle_call (pv_Adapter p) (jl_identity J) (\<lambda>_. False) ao_DeactivateForNewConnections"

definition handleRollback ::
  "(string \<Rightarrow> byte list) \<Rightarrow> jsonlib \<Rightarrow> ('s, 'j) providers \<Rightarrow> request \<Rightarrow> 's \<Rightarrow> 'j response \<times> 's" where
  "handleRollback sha J p = lifecycle_call (pv_Adapter p) (decode_artifact sha J) artifact_too_big ao_Rollback"

definition handleGC ::
  "jsonlib \<Rightarrow> ('s, 'j) providers \<Rightarrow> request \<Rightarrow> 's \<Rightarrow> 'j response \<times> 's" where
  "handleGC J p = lifecycle_call (pv_Adapter p) (jl_keep J) (\<lambda>_. False) ao_GarbageCollect"

definition handleDrain :: "jsonlib \<Rightarrow> ('s, 'j) providers \<Rightarrow> request \<Rightarrow> 's \<Rightarrow> 'j response \<times> 's" where
  "handleDrain J p r s =
     (case pv_Adapter p of
        None \<Rightarrow> (no_adapter, s)
      | Some a \<Rightarrow>
          (case decodeAdapterRequest (jl_identity J) (\<lambda>_. False) r of
             Inl resp \<Rightarrow> (resp, s)
           | Inr x \<Rightarrow>
               (case ao_Drain a x s of
                  (Inl e, s) \<Rightarrow> (lifecycleResult (Some e), s)
                | (Inr result, s) \<Rightarrow> ((200, DrainBody result), s))))"

definition handleDescriptor :: "('s, 'j) providers \<Rightarrow> request \<Rightarrow> 's \<Rightarrow> 'j response \<times> 's" where
  "handleDescriptor p r s =
     (case pv_Adapter p of
        None \<Rightarrow> (no_adapter, s)
      | Some a \<Rightarrow>
          if rq_Method r \<noteq> ''GET'' then (writeError 405 ''method not allowed'', s)
          else ((200, DescriptorBody (ao_Descriptor a s)), s))"

definition handleAdapterStatus :: "('s, 'j) providers \<Rightarrow> request \<Rightarrow> 's \<Rightarrow> 'j response \<times> 's" where
  "handleAdapterStatus p r s =
     (case pv_Adapter p of
        None \<Rightarrow> (no_adapter, s)
      | Some a \<Rightarrow>
          if rq_Method r \<noteq> ''GET'' then (writeError 405 ''method not allowed'', s)
          else (case ao_Status a s of
                  (Inl e, s) \<Rightarrow> (lifecycleResult (Some e), s)
                | (Inr status, s) \<Rightarrow> ((200, ReportBody status), s)))"

definition handleHealth :: "('s, 'j) providers \<Rightarrow> request \<Rightarrow> 's \<Rightarrow> 'j response \<times> 's" where
  "handleHealth p r s =
     (let resp =
            \<lparr>hr_Status = ''ok'', hr_Error = [], hr_Mode = pv_Mode p, hr_Version = pv_Version p, hr_Commit = pv_Commit p,
             hr_Uptime = pv_uptime p s, hr_Engine = pv_Engine p s, hr_Verdicts = None, hr_InboundTCP = None, hr_Steering = None\<rparr>;
          resp = resp\<lparr>hr_Verdicts := map_option (\<lambda>f. f s) (pv_Verdicts p)\<rparr>;
          resp = resp\<lparr>hr_InboundTCP := map_option (\<lambda>f. f s) (pv_InboundTCP p)\<rparr>;
          resp = resp\<lparr>hr_Steering := map_option (\<lambda>f. f s) (pv_Steering p)\<rparr>
      in case pv_Health p of
           None \<Rightarrow> ((200, HealthBody resp), s)
         | Some health \<Rightarrow>
             (case health s of
                None \<Rightarrow> ((200, HealthBody resp), s)
              | Some e \<Rightarrow> ((503, HealthBody (resp\<lparr>hr_Status := ''unhealthy'', hr_Error := err_Error e\<rparr>)), s)))"

definition handleCanary :: "('s, 'j) providers \<Rightarrow> request \<Rightarrow> 's \<Rightarrow> 'j response \<times> 's" where
  "handleCanary p r s =
     (case pv_Canary p of
        None \<Rightarrow> (writeError 404 ''canary capture is only available in eval mode'', s)
      | Some pool \<Rightarrow> ((200, CanaryBody (canary_Snapshot (pool s))), s))"

definition Handler ::
  "(string \<Rightarrow> byte list) \<Rightarrow> jsonlib \<Rightarrow> ('s, 'j) providers \<Rightarrow> request \<Rightarrow> 's \<Rightarrow> 'j response \<times> 's" where
  "Handler sha J p r =
     (if rq_Path r = ''/healthz'' then handleHealth p r
      else if rq_Path r = ''/canary'' then handleCanary p r
      else if rq_Path r = ''/v1/adapter/prepare'' then handlePrepare sha J p r
      else if rq_Path r = ''/v1/adapter/descriptor'' then handleDescriptor p r
      else if rq_Path r = ''/v1/adapter/verify'' then handleVerify sha J p r
      else if rq_Path r = ''/v1/adapter/activate-for-new-connections'' then handleActivateNew sha J p r
      else if rq_Path r = ''/v1/adapter/deactivate-for-new-connections'' then handleDeactivateNew J p r
      else if rq_Path r = ''/v1/adapter/status'' then handleAdapterStatus p r
      else if rq_Path r = ''/v1/adapter/drain'' then handleDrain J p r
      else if rq_Path r = ''/v1/adapter/garbage-collect'' then handleGC J p r
      else if rq_Path r = ''/v1/adapter/rollback'' then handleRollback sha J p r
      else (\<lambda>s. ((404, NotFoundPage), s)))"

end
