(* ===== verification/Control_Lifecycle.thy ===== *)
theory Control_Lifecycle
  imports Control Ctl_Operations
begin

text \<open>
  The HTTP surface in front of the controller: whatever is sent to it, the controller stays among
  its reachable states, so what holds of those holds behind HTTP. The interface between the
  two is that every operation of the adapter keeps an invariant of the adapter's state.
\<close>

section \<open>The interface\<close>

locale lifecycle =
  fixes ops :: "'s adapter_ops" and inv :: "'s \<Rightarrow> bool"
  assumes Prepare_inv: "inv s \<Longrightarrow> inv (snd (ao_Prepare ops a s))"
    and Verify_inv: "inv s \<Longrightarrow> inv (snd (ao_Verify ops a s))"
    and ActivateForNewConnections_inv: "inv s \<Longrightarrow> inv (snd (ao_ActivateForNewConnections ops a s))"
    and DeactivateForNewConnections_inv: "inv s \<Longrightarrow> inv (snd (ao_DeactivateForNewConnections ops i s))"
    and Status_inv: "inv s \<Longrightarrow> inv (snd (ao_Status ops s))"
    and Drain_inv: "inv s \<Longrightarrow> inv (snd (ao_Drain ops i s))"
    and Rollback_inv: "inv s \<Longrightarrow> inv (snd (ao_Rollback ops a s))"
    and GarbageCollect_inv: "inv s \<Longrightarrow> inv (snd (ao_GarbageCollect ops keep s))"
begin

lemma lifecycle_call_inv:
  assumes "adapter = None \<or> adapter = Some ops" and "\<And>x s. inv s \<Longrightarrow> inv (snd (op ops x s))" and "inv s"
  shows "inv (snd (lifecycle_call adapter decode too_big op r s))"
proof (cases "adapter = None")
  case False
  with assms(1) have "adapter = Some ops" by simp
  then show ?thesis using assms(2,3) by (simp add: lifecycle_call_def case_prod_beta split: sum.split)
qed (use assms(3) in \<open>simp add: lifecycle_call_def\<close>)

lemma handleDrain_inv:
  fixes p :: "('s, 'b) providers"
  assumes "pv_Adapter p = None \<or> pv_Adapter p = Some ops" and "inv s"
  shows "inv (snd (handleDrain J p r s :: 'b response \<times> 's))"
proof (cases "pv_Adapter p = None")
  case False
  with assms(1) have a: "pv_Adapter p = Some ops" by simp
  show ?thesis
  proof (cases "decodeAdapterRequest (jl_identity J) (\<lambda>_. False) r :: 'b response + Identity")
    case (Inl resp)
    with a assms(2) show ?thesis by (simp add: handleDrain_def)
  next
    case (Inr i)
    obtain res s' where dr: "ao_Drain ops i s = (res, s')" by (cases "ao_Drain ops i s")
    with Drain_inv [OF assms(2), of i] have "inv s'" by simp
    with a Inr dr show ?thesis by (simp add: handleDrain_def split: sum.split)
  qed
qed (use assms(2) in \<open>simp add: handleDrain_def\<close>)

lemma handleAdapterStatus_inv:
  assumes "pv_Adapter p = None \<or> pv_Adapter p = Some ops" and "inv s"
  shows "inv (snd (handleAdapterStatus p r s))"
proof (cases "pv_Adapter p = None")
  case False
  with assms(1) have a: "pv_Adapter p = Some ops" by simp
  obtain res s' where st: "ao_Status ops s = (res, s')" by (cases "ao_Status ops s")
  with Status_inv [OF assms(2)] have "inv s'" by simp
  with a st assms(2) show ?thesis by (simp add: handleAdapterStatus_def split: sum.split)
qed (use assms(2) in \<open>simp add: handleAdapterStatus_def\<close>)

lemma read_only: "snd (handleHealth p r s) = s" "snd (handleCanary p r s) = s" "snd (handleDescriptor p r s) = s"
  by (simp_all add: handleHealth_def handleCanary_def handleDescriptor_def Let_def split: option.split)

lemma Handler_inv:
  assumes "pv_Adapter p = None \<or> pv_Adapter p = Some ops" and "inv s"
  shows "inv (snd (Handler sha J p r s))"
proof -
  note call = lifecycle_call_inv [OF assms(1) _ assms(2)]
  have "inv (snd (handlePrepare sha J p r s))" "inv (snd (handleVerify sha J p r s))" "inv (snd (handleActivateNew sha J p r s))"
    "inv (snd (handleDeactivateNew J p r s))" "inv (snd (handleRollback sha J p r s))" "inv (snd (handleGC J p r s))"
    unfolding handlePrepare_def handleVerify_def handleActivateNew_def handleDeactivateNew_def handleRollback_def handleGC_def
    by (intro call Prepare_inv Verify_inv ActivateForNewConnections_inv DeactivateForNewConnections_inv Rollback_inv
        GarbageCollect_inv; assumption)+
  then show ?thesis
    using assms handleDrain_inv [OF assms] handleAdapterStatus_inv [OF assms] by (simp add: Handler_def read_only)
qed

lemma requests_inv:
  assumes "pv_Adapter p = None \<or> pv_Adapter p = Some ops" and "inv s"
  shows "inv (fold (\<lambda>r s. snd (Handler sha J p r s)) rs s)"
  using assms(2)
proof (induction rs arbitrary: s)
  case (Cons r rs)
  from Cons.IH [OF Handler_inv [OF assms(1) Cons.prems]] show ?case by simp
qed simp

end

section \<open>The controller as the adapter\<close>

definition controller_ops :: "ctl_config \<Rightarrow> 'h ctl_libs \<Rightarrow> ctl adapter_ops" where
  "controller_ops cf X =
     \<lparr>ao_Descriptor = (\<lambda>_. Ctl_State.Descriptor cf), ao_Prepare = ctl_Prepare cf X, ao_Verify = ctl_Verify cf X,
      ao_ActivateForNewConnections = ActivateForNewConnections cf X,
      ao_DeactivateForNewConnections = DeactivateForNewConnections cf X, ao_Status = ctl_Status cf,
      ao_Drain = Drain cf X, ao_Rollback = Rollback cf X, ao_GarbageCollect = GarbageCollect cf X\<rparr>"

lemma reach:
  assumes "reachable cf X s"
  shows "wp (ctl_Prepare cf X a s) (\<lambda>_. reachable cf X)" "wp (ctl_Verify cf X a s) (\<lambda>_. reachable cf X)"
    "wp (ActivateForNewConnections cf X a s) (\<lambda>_. reachable cf X)"
    "wp (DeactivateForNewConnections cf X i s) (\<lambda>_. reachable cf X)"
    "wp (rollback_begin cf X a s) (\<lambda>_. reachable cf X)" "wp (rollback_uncounted cf X e s) (\<lambda>_. reachable cf X)"
    "wp (rollback_finish cf X a counts s) (\<lambda>_. reachable cf X)" "wp (drain_begin gid s) (\<lambda>_. reachable cf X)"
    "wp (drain_finish cf gid i n s) (\<lambda>_. reachable cf X)" "wp (gc_begin gid s) (\<lambda>_. reachable cf X)"
    "wp (gc_finish cf X gid i n s) (\<lambda>_. reachable cf X)" "wp (connectionCount cf X gid s) (\<lambda>_. reachable cf X)"
    "wp (connectionCounts cf s) (\<lambda>_. reachable cf X)"
  using reachable.locked [OF assms, of "Prepare_s a"] reachable.locked [OF assms, of "Verify_s a"]
    reachable.locked [OF assms, of "ActivateForNewConnections_s a"] reachable.locked [OF assms, of "DeactivateForNewConnections_s i"]
    reachable.locked [OF assms, of "Rollback_begin_s a"] reachable.locked [OF assms, of "Rollback_uncounted_s e"]
    reachable.locked [OF assms, of "Rollback_finish_s a counts"] reachable.locked [OF assms, of "Drain_begin_s gid"]
    reachable.locked [OF assms, of "Drain_finish_s gid i n"] reachable.locked [OF assms, of "Gc_begin_s gid"]
    reachable.locked [OF assms, of "Gc_finish_s gid i n"] reachable.locked [OF assms, of "Count_s gid"]
    reachable.locked [OF assms, of Counts_s]
  by (simp_all add: wp_def)

lemma reach_Load:
  assumes "reachable cf X s"
  shows "wp (Load f s) (\<lambda>_. reachable cf X)"
proof -
  have "reachable cf X (tick s)"
    using reachable.outside [OF assms outside_step.signals [where sched = "at_sched (c_atom s)"]] by simp
  then show ?thesis by (simp add: wp_def Load_def Let_def)
qed

text \<open>An operation that starts with \<open>p\<close> goes on from whatever state \<open>p\<close> ends in.\<close>

lemma reach_then:
  assumes "wp p (\<lambda>_. reachable cf X)" and "\<And>r s. reachable cf X s \<Longrightarrow> wp (f r s) Q"
  shows "wp (case p of (r, s) \<Rightarrow> f r s) Q"
  using assms by (cases p) (simp add: wp_def)

lemma reach_return: "reachable cf X s \<Longrightarrow> wp (r, s) (\<lambda>_. reachable cf X)"
  by (simp add: wp_def)

lemma wp_halfway: "(\<And>e. x = Finished e \<Longrightarrow> wp (f e) Q) \<Longrightarrow> (\<And>w. x = Waiting w \<Longrightarrow> wp (g w) Q) \<Longrightarrow>
    wp (case x of Finished e \<Rightarrow> f e | Waiting w \<Rightarrow> g w) Q"
  by (cases x) simp_all

lemmas reach_cases = wp_sum wp_option wp_if wp_bool wp_tuple wp_halfway

lemma reach_Rollback: "reachable cf X s \<Longrightarrow> wp (Rollback cf X a s) (\<lambda>_. reachable cf X)"
  unfolding Rollback_def by (rule reach_then [OF reach(5)] reach_then [OF reach(13)] reach_cases reach_return reach | assumption)+

lemma reach_DrainGeneration: "reachable cf X s \<Longrightarrow> wp (DrainGeneration cf X gid s) (\<lambda>_. reachable cf X)"
  unfolding DrainGeneration_def
  by (rule reach_then [OF reach(8)] reach_then [OF reach(12)] reach_cases reach_return reach | assumption)+

lemma reach_Drain: "reachable cf X s \<Longrightarrow> wp (Drain cf X i s) (\<lambda>_. reachable cf X)"
  unfolding Drain_def
  by (rule reach_then [OF reach_DrainGeneration] reach_cases reach_return | assumption)+

lemma reach_GarbageCollectGeneration: "reachable cf X s \<Longrightarrow> wp (GarbageCollectGeneration cf X gid s) (\<lambda>_. reachable cf X)"
  unfolding GarbageCollectGeneration_def
  by (rule reach_then [OF reach(10)] reach_then [OF reach(12)] reach_cases reach_return reach | assumption)+

lemma reach_gc_loop: "reachable cf X s \<Longrightarrow> wp (gc_loop cf X ds s) (\<lambda>_. reachable cf X)"
proof (induction ds arbitrary: s)
  case (Cons d ds)
  show ?case unfolding gc_loop.simps
    by (rule reach_then [OF reach_GarbageCollectGeneration] reach_cases reach_return Cons.IH Cons.prems | assumption)+
qed (simp add: reach_return)

lemma reach_stateLocked: "reachable cf X s \<Longrightarrow> wp (stateLocked s) (\<lambda>_. reachable cf X)"
  unfolding stateLocked_def by (cases "c_unsafe s") (auto intro: reach_then [OF reach_Load] reach_return)

lemma reach_Status: "reachable cf X s \<Longrightarrow> wp (ctl_Status cf s) (\<lambda>_. reachable cf X)"
  unfolding ctl_Status_def DetailedStatus_def status_finish_def detailed_finish_def activityFor_def Let_def
  by (rule reach_then [OF reach_stateLocked] reach_then [OF reach(13)] reach_then reach_cases reach_return | assumption)+

interpretation controller: lifecycle "controller_ops cf X" "reachable cf X" for cf X
proof unfold_locales
  fix s assume s: "reachable cf X s"
  show "reachable cf X (snd (ao_Prepare (controller_ops cf X) a s))" for a
    using reach(1) [OF s] by (simp add: controller_ops_def wp_def)
  show "reachable cf X (snd (ao_Verify (controller_ops cf X) a s))" for a
    using reach(2) [OF s] by (simp add: controller_ops_def wp_def)
  show "reachable cf X (snd (ao_ActivateForNewConnections (controller_ops cf X) a s))" for a
    using reach(3) [OF s] by (simp add: controller_ops_def wp_def)
  show "reachable cf X (snd (ao_DeactivateForNewConnections (controller_ops cf X) i s))" for i
    using reach(4) [OF s] by (simp add: controller_ops_def wp_def)
  show "reachable cf X (snd (ao_Status (controller_ops cf X) s))"
    using reach_Status [OF s] by (simp add: controller_ops_def wp_def)
  show "reachable cf X (snd (ao_Drain (controller_ops cf X) i s))" for i
    using reach_Drain [OF s] by (simp add: controller_ops_def wp_def)
  show "reachable cf X (snd (ao_Rollback (controller_ops cf X) a s))" for a
    using reach_Rollback [OF s] by (simp add: controller_ops_def wp_def)
  show "reachable cf X (snd (ao_GarbageCollect (controller_ops cf X) keep s))" for keep
    using reach_gc_loop [OF s] by (simp add: controller_ops_def GarbageCollect_def wp_def)
qed

section \<open>What an activation that succeeds has done\<close>

definition active_artifact :: "Artifact \<Rightarrow> ctl \<Rightarrow> bool" where
  "active_artifact a s \<longleftrightarrow>
     (\<exists>g. gen_of s (c_activeNew s) = Some g \<and> gs_DNA g = a_payload a \<and> gs_Metadata g = a_metadata a)"

lemma moved_gen:
  assumes "moved cf X s s'" and "gen_of s gid = Some g"
  shows "\<exists>h. gen_of s' gid = Some h \<and> gs_DNA h = gs_DNA g \<and> gs_Metadata h = gs_Metadata g"
proof -
  have "map_option core (gen_of s' gid) = map_option core (gen_of s gid)"
    using assms(1) by (simp add: moved_def gen_of_def flip: map_of_cores)
  with assms(2) obtain h where "gen_of s' gid = Some h" "core h = core g" by auto
  then show ?thesis by (auto simp: core_def dest: arg_cong [where f = gs_DNA] arg_cong [where f = gs_Metadata])
qed

lemma activateLocked_holds:
  assumes "inj (xl_fp X)" and "cf_Fatal cf" and "settled cf X s"
    and "gen_of s gid = Some g" "gs_DNA g = a_payload a" "gs_Metadata g = a_metadata a"
  shows "wp (activateLocked cf X gid repair s) (\<lambda>e s'. e = None \<longrightarrow> active_artifact a s')"
  using assms(5,6) by (intro wp_activateLocked [OF assms(1,2,3)]) (auto simp: active_artifact_def dest: moved_gen [OF _ assms(4)])

lemma activate_retained_holds:
  assumes inj: "inj (xl_fp X)" and fatal: "cf_Fatal cf" and s: "settled cf X s" and f: "frame_step cf s t"
  shows "wp (case generationForIdentityLocked i t of
        Inl e \<Rightarrow> (Some e, t)
      | Inr None \<Rightarrow> (Some not_prepared, t)
      | Inr (Some (gid, gen)) \<Rightarrow>
     (if gs_DNA gen \<noteq> a_payload a \<or> gs_Metadata gen \<noteq> a_metadata a
      then (Some not_prepared, t)
      else if c_activeNew t = gid then (None, t)
      else case (if remediation then verifyCurrentProgramLocked cf X t else (None, t)) of
        (Some e, s) \<Rightarrow> (Some (Wrap w [e]), s)
      | (None, s) \<Rightarrow> activateLocked cf X gid remediation s)) (\<lambda>e s'. e = None \<longrightarrow> active_artifact a s')"
proof (rule wp_lookup; (rule wp_if)?)
  fix gid g
  assume l: "generationForIdentityLocked i t = Inr (Some (gid, g))"
    and same: "\<not> (gs_DNA g \<noteq> a_payload a \<or> gs_Metadata g \<noteq> a_metadata a)"
  have t: "settled cf X t" using settled_frame [OF f s] .
  have g: "gen_of t gid = Some g"
    using generationForIdentity_Some [OF l] settled_keys(1) [OF t] by (simp add: gen_of_def)
  show "wp (if c_activeNew t = gid then (None, t)
      else case (if remediation then verifyCurrentProgramLocked cf X t else (None, t)) of
        (Some e, s) \<Rightarrow> (Some (Wrap w [e]), s)
      | (None, s) \<Rightarrow> activateLocked cf X gid remediation s) (\<lambda>e s'. e = None \<longrightarrow> active_artifact a s')"
  proof (rule wp_if)
    show "wp (None, t) (\<lambda>e s'. e = None \<longrightarrow> active_artifact a s')" if "c_activeNew t = gid"
      using that g same by (simp add: wp_def active_artifact_def)
    have K: "wp (case r of Some e \<Rightarrow> (Some (Wrap w [e]), s) | None \<Rightarrow> activateLocked cf X gid remediation s)
        (\<lambda>e s'. e = None \<longrightarrow> active_artifact a s')" if "frame_step cf t s" for r s
    proof (rule wp_option)
      have "gen_of s gid = Some g" using g frame_step_fields [OF that] by (simp add: gen_of_def)
      then show "wp (activateLocked cf X gid remediation s) (\<lambda>e s'. e = None \<longrightarrow> active_artifact a s')"
        using same by (intro activateLocked_holds [OF inj fatal settled_frame [OF that t]]; blast)
    qed (simp add: wp_def)
    show "wp (case (if remediation then verifyCurrentProgramLocked cf X t else (None, t)) of
        (Some e, s) \<Rightarrow> (Some (Wrap w [e]), s)
      | (None, s) \<Rightarrow> activateLocked cf X gid remediation s) (\<lambda>e s'. e = None \<longrightarrow> active_artifact a s')"
      by (intro wp_prod K wp_rules wp_from [where cf = cf and ?s0.0 = t]; (assumption | rule frame_step_refl)?)
  qed
qed (simp_all add: wp_def)

lemma ActivateForNewConnections_holds:
  assumes inj: "inj (xl_fp X)" and fatal: "cf_Fatal cf" and s: "settled cf X s"
  shows "wp (ActivateForNewConnections cf X a s) (\<lambda>e s'. e = None \<longrightarrow> active_artifact a s')"
proof -
  have err: "wp (Some e, t) (\<lambda>e s. e = None \<longrightarrow> active_artifact a s)" for e t by (simp add: wp_def)
  show ?thesis
    unfolding ActivateForNewConnections_def
    by (intro activate_retained_holds [OF inj fatal s] err wp_rules wp_from [where cf = cf and ?s0.0 = s];
        (assumption | rule frame_step_refl)?)
qed

section \<open>Behind HTTP\<close>

lemma lifecycle_call_ok:
  fixes b :: "'j body" and decode :: "string \<Rightarrow> 'a res"
  assumes "lifecycle_call (Some ops) decode too_big op r s = ((200, b), s')"
  shows "\<exists>x. rq_Method r = ''POST'' \<and> length (rq_Body r) \<le> maxArtifactRequest \<and> decode (rq_Body r) = Inr x \<and>
     op ops x s = (None, s')"
proof (cases "decodeAdapterRequest decode too_big r :: 'j response + 'a")
  case (Inl resp)
  with assms show ?thesis
    by (auto simp: lifecycle_call_def decodeAdapterRequest_def writeError_def split: if_splits sum.splits option.splits)
next
  case (Inr x)
  then have x: "rq_Method r = ''POST''" "length (rq_Body r) \<le> maxArtifactRequest" "decode (rq_Body r) = Inr x"
    by (auto simp: decodeAdapterRequest_def split: if_splits sum.splits option.splits)
  obtain e t where op: "op ops x s = (e, t)" by (cases "op ops x s")
  with assms Inr have "lifecycleResult e = (200, b)" "t = s'" by (simp_all add: lifecycle_call_def)
  moreover from this(1) have "e = None"
    by (auto simp: lifecycleResult_def writeError_def Let_def split: option.splits if_splits)
  ultimately show ?thesis using x op by blast
qed



section \<open>An example\<close>

definition ex_json :: jsonlib where
  "ex_json = \<lparr>jl_artifact = (\<lambda>b. if b = ''the artifact''
       then Inr \<lparr>j_Metadata = a_metadata ex_artifact, j_Payload = a_payload ex_artifact\<rparr> else Inl (Msg ''unexpected end of JSON input'')),
     jl_identity = (\<lambda>_. Inl (Msg ''unexpected end of JSON input'')), jl_keep = (\<lambda>_. Inr [])\<rparr>"

definition ex_providers :: "(ctl, string) providers" where
  "ex_providers = \<lparr>pv_Mode = ''inject'', pv_Version = ''1'', pv_Commit = [], pv_Engine = (\<lambda>s. reg_Snapshot (c_eng s)),
     pv_Canary = None, pv_Verdicts = None, pv_InboundTCP = None, pv_Health = None, pv_Steering = None,
     pv_Adapter = Some (controller_ops ex_config ex_libs), pv_uptime = (\<lambda>_. 0)\<rparr>"

definition post :: "string \<Rightarrow> string \<Rightarrow> request" where
  "post path body = \<lparr>rq_Method = ''POST'', rq_Path = path, rq_Body = body, rq_ReadErr = None\<rparr>"

definition ex_served :: "request list \<Rightarrow> ctl" where
  "ex_served rs = fold (\<lambda>r s. snd (Handler (xl_sha ex_libs) ex_json ex_providers r s)) rs ex_started"

definition ex_requests :: "request list" where
  "ex_requests = [post ''/v1/adapter/prepare'' ''the artifact'', post ''/v1/adapter/rollback'' ''junk'',
     post ''/v1/adapter/activate-for-new-connections'' ''the artifact'']"

lemma maxArtifactRequest_code [code_unfold]: "maxArtifactRequest < n \<longleftrightarrow> 528384 < int n"
  by (simp add: maxArtifactRequest_def MaxArtifactSize_def)

lemma ex_served_evaluated: "ex_active_facts (ex_served ex_requests)"
  by code_simp

lemma ex_activation_evaluated: "fst (Handler (xl_sha ex_libs) ex_json ex_providers
    (post ''/v1/adapter/activate-for-new-connections'' ''the artifact'') ex_prepared) = (200, StatusBody ''ok'')"
  by code_simp



end
