(* ===== verification/Options.thy ===== *)
theory Options
  imports Ctl_System
begin

text \<open>
  \<open>cmd/geneva-server/main.go\<close> and \<open>steeringConfig\<close> of \<open>run_linux.go\<close>: the flags of the command, their
  validation, and the controller's configuration made of them. Reading the command line into the
  record is the \<open>go-arg\<close> library.
\<close>

section \<open>Marks\<close>

fun parse_hex :: "nat \<Rightarrow> string \<Rightarrow> nat option" where
  "parse_hex acc [] = Some acc"
| "parse_hex acc (c # cs) = (case hex_digit c of None \<Rightarrow> None | Some d \<Rightarrow> parse_hex (16 * acc + d) cs)"

definition ParseUintBase :: "nat \<Rightarrow> nat \<Rightarrow> string \<Rightarrow> nat option" where
  "ParseUintBase b bits s =
     (if b = 10 then ParseUint bits s
      else if s = [] then None
      else case parse_hex 0 s of None \<Rightarrow> None | Some n \<Rightarrow> if n < 2 ^ bits then Some n else None)"

definition UnmarshalText :: "string \<Rightarrow> u32 res" where
  "UnmarshalText s =
     (case (if length s > 2 \<and> s ! 0 = CHR ''0'' \<and> (s ! 1 = CHR ''x'' \<or> s ! 1 = CHR ''X'') then (16, drop 2 s) else (10, s)) of
        (base, t) \<Rightarrow>
          (case ParseUintBase base 32 t of
             None \<Rightarrow> Inl (Msg ''invalid mark'')
           | Some v \<Rightarrow> Inr (of_nat v)))"

section \<open>The flags of \<open>run\<close>\<close>

record runCmd =
  o_Mode :: string
  o_Port :: u16
  o_OutQueue :: u16
  o_InQueue :: u16
  o_QueueMaxLen :: u32
  o_Mark :: u32
  o_ReinjectBypassUID :: int
  o_GenerationMarkNamespace :: u32
  o_Table :: string
  o_ControlAddr :: string
  o_Market :: string
  o_CanaryCapacity :: int
  o_NFTPath :: string
  o_CensorCounters :: bool
  o_ObserveInbound :: bool
  o_Iface :: string
  o_EthtoolPath :: string
  o_PprofAddr :: string
  o_AdapterStateFile :: string
  o_MaxGenerations :: int
  o_MaxScopedGenerations :: int
  o_MaxEveryPacketGenerations :: int
  o_DrainIdleTimeout :: int

text \<open>
  \<open>validate\<close> fills in defaults and refuses in this order. \<open>euid\<close> is the process's effective user.
  The checks before and after the generation budgets are two definitions.
\<close>

definition validate_budgets :: "runCmd \<Rightarrow> err option \<times> runCmd" where
  "validate_budgets opt =
     (let opt = (if o_MaxGenerations opt = 0 then opt\<lparr>o_MaxGenerations := 3\<rparr> else opt)
      in if o_MaxGenerations opt < 1 \<or> o_MaxGenerations opt > int MaxLiveGenerationBudget
         then (Some (Msg ''--max-generations must be between 1 and the live generation budget''), opt)
         else
     (let opt = (if o_MaxScopedGenerations opt = 0
                 then opt\<lparr>o_MaxScopedGenerations := min 3 (o_MaxGenerations opt)\<rparr> else opt)
      in if o_MaxScopedGenerations opt < 1 \<or> o_MaxScopedGenerations opt > o_MaxGenerations opt
         then (Some (Msg ''--max-scoped-generations must be between 1 and --max-generations''), opt)
         else
     (let opt = (if o_MaxEveryPacketGenerations opt = 0
                 then opt\<lparr>o_MaxEveryPacketGenerations := min 2 (o_MaxGenerations opt)\<rparr> else opt)
      in if o_MaxEveryPacketGenerations opt < 1 \<or> o_MaxEveryPacketGenerations opt > o_MaxGenerations opt
         then (Some (Msg ''--max-every-packet-generations must be between 1 and --max-generations''), opt)
         else (None, opt))))"

definition validate_durability :: "runCmd \<Rightarrow> err option" where
  "validate_durability opt =
     (if o_DrainIdleTimeout opt < 0 then Some (Msg ''--drain-idle-timeout must not be negative'')
      else if o_Mode opt = ''prod'' \<and> TrimSpace (o_Iface opt) = []
      then Some (Msg ''prod mode requires --iface so NIC offload ownership is durable and restorable'')
      else if o_Mode opt = ''prod'' \<and> TrimSpace (o_AdapterStateFile opt) = []
      then Some (Msg ''authoritative prod mode requires --adapter-state-file'')
      else None)"

definition options_validate :: "int \<Rightarrow> runCmd \<Rightarrow> err option \<times> runCmd" where
  "options_validate euid opt =
     (if o_Mode opt \<noteq> ''prod'' \<and> o_Mode opt \<noteq> ''eval'' then (Some (Msg ''invalid --mode (want prod or eval)''), opt)
      else if o_ObserveInbound opt \<and> o_Mode opt = ''prod''
      then (Some (Msg ''--observe-inbound is not available in prod mode''), opt)
      else if o_OutQueue opt = o_InQueue opt then (Some (Msg ''--out-queue and --in-queue must differ''), opt)
      else
     (let opt = (if o_QueueMaxLen opt = 0 then opt\<lparr>o_QueueMaxLen := 65535\<rparr> else opt)
      in if o_ReinjectBypassUID opt < -1 \<or> o_ReinjectBypassUID opt > 2 ^ 32 - 1
         then (Some (Msg ''--reinject-bypass-uid must fit an unsigned 32-bit UID''), opt)
         else
     (let opt = (if o_ReinjectBypassUID opt = -1 then opt\<lparr>o_ReinjectBypassUID := euid\<rparr> else opt);
          opt = (if o_GenerationMarkNamespace opt = 0 then opt\<lparr>o_GenerationMarkNamespace := Namespace\<rparr> else opt)
      in if o_GenerationMarkNamespace opt \<noteq> Namespace
         then (Some (Msg ''--generation-mark-namespace must equal the reserved Geneva namespace''), opt)
         else
     (case validate_budgets opt of
        (Some e, opt) \<Rightarrow> (Some e, opt)
      | (None, opt) \<Rightarrow> (validate_durability opt, opt)))))"

text \<open>\<open>steeringConfig\<close>: a connection counter and a fatal callback are always given.\<close>

definition steeringConfig :: "runCmd \<Rightarrow> ctl_config" where
  "steeringConfig opt =
     \<lparr>cf_Mode = o_Mode opt,
      cf_NFT = \<lparr>nf_Table = o_Table opt, nf_Port = o_Port opt, nf_Outbound = no_selector, nf_Inbound = no_selector,
                nf_Generations = [], nf_ActiveGeneration = 0, nf_NeutralizeNew = False, nf_Censor = o_CensorCounters opt,
                nf_OutQueue = o_OutQueue opt, nf_InQueue = o_InQueue opt, nf_BypassUID = of_int (o_ReinjectBypassUID opt),
                nf_NFTPath = o_NFTPath opt\<rparr>,
      cf_Iface = o_Iface opt, cf_NoNFT = False, cf_ObserveInbound = o_ObserveInbound opt,
      cf_StateFile = o_AdapterStateFile opt, cf_Connections = True, cf_IdleAfter = o_DrainIdleTimeout opt,
      cf_MaxGenerations = o_MaxGenerations opt, cf_MaxScopedGenerations = o_MaxScopedGenerations opt,
      cf_MaxEveryPacketGenerations = o_MaxEveryPacketGenerations opt, cf_Fatal = True,
      cf_RuntimeVersion = RuntimeVersionGeneva\<rparr>"

section \<open>\<open>validate\<close>\<close>

text \<open>The subcommand of that name: where the strategy comes from, and whether an engine accepts it.
  \<open>file\<close> is what reading the file gives.\<close>

definition validateCommand :: "genlib \<Rightarrow> string res \<Rightarrow> string \<Rightarrow> string \<Rightarrow> err option" where
  "validateCommand X file File Strategy =
     (case (if File \<noteq> [] then (case file of Inl e \<Rightarrow> Inl (Wrap ''read strategy file'' [e]) | Inr b \<Rightarrow> Inr (TrimSpace b))
            else if Strategy \<noteq> [] then Inr (TrimSpace Strategy)
            else Inl (Msg ''provide a strategy as an argument or via --file'')) of
        Inl e \<Rightarrow> Some e
      | Inr dna \<Rightarrow> (case engine_New X dna of Inl e \<Rightarrow> Some e | Inr _ \<Rightarrow> None))"

section \<open>A validated command gives a sound configuration\<close>

lemma validate_budgets_None:
  assumes "validate_budgets opt = (None, opt')"
  shows "1 \<le> o_MaxGenerations opt' \<and> o_MaxGenerations opt' \<le> int MaxLiveGenerationBudget \<and>
    1 \<le> o_MaxScopedGenerations opt' \<and> o_MaxScopedGenerations opt' \<le> o_MaxGenerations opt' \<and>
    1 \<le> o_MaxEveryPacketGenerations opt' \<and> o_MaxEveryPacketGenerations opt' \<le> o_MaxGenerations opt'"
    and "\<exists>m n k. opt' = opt\<lparr>o_MaxGenerations := m, o_MaxScopedGenerations := n, o_MaxEveryPacketGenerations := k\<rparr>"
proof -
  show "1 \<le> o_MaxGenerations opt' \<and> o_MaxGenerations opt' \<le> int MaxLiveGenerationBudget \<and>
    1 \<le> o_MaxScopedGenerations opt' \<and> o_MaxScopedGenerations opt' \<le> o_MaxGenerations opt' \<and>
    1 \<le> o_MaxEveryPacketGenerations opt' \<and> o_MaxEveryPacketGenerations opt' \<le> o_MaxGenerations opt'"
    using assms by (auto simp: validate_budgets_def Let_def split: if_splits)
  have "opt' = opt\<lparr>o_MaxGenerations := o_MaxGenerations opt', o_MaxScopedGenerations := o_MaxScopedGenerations opt',
      o_MaxEveryPacketGenerations := o_MaxEveryPacketGenerations opt'\<rparr>"
    using assms by (auto simp: validate_budgets_def Let_def split: if_splits)
  then show "\<exists>m n k. opt' = opt\<lparr>o_MaxGenerations := m, o_MaxScopedGenerations := n, o_MaxEveryPacketGenerations := k\<rparr>" by blast
qed

lemma options_validate_None:
  assumes "options_validate euid opt = (None, opt')"
  shows "(o_Mode opt' = ''prod'' \<or> o_Mode opt' = ''eval'') \<and> o_OutQueue opt' \<noteq> o_InQueue opt' \<and>
     (o_Mode opt' = ''prod'' \<longrightarrow> \<not> o_ObserveInbound opt')"
    and "o_ReinjectBypassUID opt' = (if o_ReinjectBypassUID opt = -1 then euid else o_ReinjectBypassUID opt) \<and>
      -1 \<le> o_ReinjectBypassUID opt \<and> o_ReinjectBypassUID opt \<le> 2 ^ 32 - 1"
    and "o_QueueMaxLen opt' \<noteq> 0 \<and> o_GenerationMarkNamespace opt' = Namespace"
    and "\<exists>opt1. validate_budgets opt1 = (None, opt')" and "validate_durability opt' = None"
proof -
  define opt1 where "opt1 = (if o_QueueMaxLen opt = 0 then opt\<lparr>o_QueueMaxLen := 65535\<rparr> else opt)"
  define opt2 where "opt2 = (if o_ReinjectBypassUID opt1 = -1 then opt1\<lparr>o_ReinjectBypassUID := euid\<rparr> else opt1)"
  define opt3 where "opt3 = (if o_GenerationMarkNamespace opt2 = 0 then opt2\<lparr>o_GenerationMarkNamespace := Namespace\<rparr> else opt2)"
  have v: "options_validate euid opt =
     (if o_Mode opt \<noteq> ''prod'' \<and> o_Mode opt \<noteq> ''eval'' then (Some (Msg ''invalid --mode (want prod or eval)''), opt)
      else if o_ObserveInbound opt \<and> o_Mode opt = ''prod''
      then (Some (Msg ''--observe-inbound is not available in prod mode''), opt)
      else if o_OutQueue opt = o_InQueue opt then (Some (Msg ''--out-queue and --in-queue must differ''), opt)
      else if o_ReinjectBypassUID opt1 < -1 \<or> o_ReinjectBypassUID opt1 > 2 ^ 32 - 1
      then (Some (Msg ''--reinject-bypass-uid must fit an unsigned 32-bit UID''), opt1)
      else if o_GenerationMarkNamespace opt3 \<noteq> Namespace
      then (Some (Msg ''--generation-mark-namespace must equal the reserved Geneva namespace''), opt3)
      else (case validate_budgets opt3 of
        (Some e, opt) \<Rightarrow> (Some e, opt)
      | (None, opt) \<Rightarrow> (validate_durability opt, opt)))"
    unfolding options_validate_def Let_def opt1_def opt2_def opt3_def ..
  from assms obtain B: "validate_budgets opt3 = (None, opt')" "validate_durability opt' = None"
    unfolding v by (auto split: if_splits prod.splits option.splits)
  from validate_budgets_None(2) [OF B(1)] obtain m n k where
    o: "opt' = opt3\<lparr>o_MaxGenerations := m, o_MaxScopedGenerations := n, o_MaxEveryPacketGenerations := k\<rparr>" by blast
  have g: "o_Mode opt = ''prod'' \<or> o_Mode opt = ''eval''" "o_OutQueue opt \<noteq> o_InQueue opt"
    "\<not> (o_ObserveInbound opt \<and> o_Mode opt = ''prod'')" "-1 \<le> o_ReinjectBypassUID opt1" "o_ReinjectBypassUID opt1 \<le> 2 ^ 32 - 1"
    "o_GenerationMarkNamespace opt3 = Namespace"
    using assms unfolding v by (auto split: if_splits)
  have f: "o_Mode opt3 = o_Mode opt" "o_OutQueue opt3 = o_OutQueue opt" "o_InQueue opt3 = o_InQueue opt"
    "o_ObserveInbound opt3 = o_ObserveInbound opt" "o_ReinjectBypassUID opt1 = o_ReinjectBypassUID opt"
    "o_ReinjectBypassUID opt3 = (if o_ReinjectBypassUID opt = -1 then euid else o_ReinjectBypassUID opt)" "o_QueueMaxLen opt3 \<noteq> 0"
    by (simp_all add: opt1_def opt2_def opt3_def)
  show "(o_Mode opt' = ''prod'' \<or> o_Mode opt' = ''eval'') \<and> o_OutQueue opt' \<noteq> o_InQueue opt' \<and>
     (o_Mode opt' = ''prod'' \<longrightarrow> \<not> o_ObserveInbound opt')"
    using g(1-3) by (auto simp: o f)
  show "o_ReinjectBypassUID opt' = (if o_ReinjectBypassUID opt = -1 then euid else o_ReinjectBypassUID opt) \<and>
      -1 \<le> o_ReinjectBypassUID opt \<and> o_ReinjectBypassUID opt \<le> 2 ^ 32 - 1"
    using g(4,5) by (simp add: o f)
  show "o_QueueMaxLen opt' \<noteq> 0 \<and> o_GenerationMarkNamespace opt' = Namespace" using g(6) f(7) by (simp add: o)
  show "\<exists>opt1. validate_budgets opt1 = (None, opt')" "validate_durability opt' = None" using B by blast+
qed

text \<open>C36: Whatever flags pass validation make a configuration the controller is sound for: the budgets are
  positive and within the protocol's, the defaults have nothing left to fill in, the two queues
  differ, the user excluded from queueing is the one asked for (no wrap to 32 bits), a
  production process has an interface and a state file and never observes inbound packets; and
  validating again changes nothing.\<close>

theorem validated_options_are_sound:
  assumes "options_validate euid opt = (None, opt')" and "0 \<le> euid" and "euid < 2 ^ 32"
  shows "(sound_setup (steeringConfig opt') X \<longleftrightarrow> inj (xl_fp X)) \<and> ctl_defaults (steeringConfig opt') = steeringConfig opt' \<and>
    cf_MaxGenerations (steeringConfig opt') \<le> int MaxLiveGenerationBudget \<and> 0 \<le> cf_IdleAfter (steeringConfig opt') \<and>
    nf_OutQueue (cf_NFT (steeringConfig opt')) \<noteq> nf_InQueue (cf_NFT (steeringConfig opt')) \<and>
    uint (nf_BypassUID (cf_NFT (steeringConfig opt'))) =
      (if o_ReinjectBypassUID opt = -1 then euid else o_ReinjectBypassUID opt) \<and>
    (cf_Mode (steeringConfig opt') = ''prod'' \<longrightarrow> cf_StateFile (steeringConfig opt') \<noteq> [] \<and>
       cf_Iface (steeringConfig opt') \<noteq> [] \<and> \<not> cf_ObserveInbound (steeringConfig opt')) \<and>
    options_validate euid' opt' = (None, opt')"
proof -
  note V = options_validate_None [OF assms(1)]
  obtain opt1 where "validate_budgets opt1 = (None, opt')" using V(4) by blast
  note B = validate_budgets_None(1) [OF this]
  have uid: "0 \<le> o_ReinjectBypassUID opt' \<and> o_ReinjectBypassUID opt' < 2 ^ 32"
    using V(2) assms(2,3) by (auto split: if_splits)
  then have "uint (of_int (o_ReinjectBypassUID opt') :: u32) = o_ReinjectBypassUID opt'"
    by (simp add: word_of_int_inverse uint_word_of_int_eq take_bit_int_eq_self)
  moreover have "validate_budgets opt' = (None, opt')" using B by (simp add: validate_budgets_def Let_def)
  then have "options_validate euid' opt' = (None, opt')"
    using V(1,3,5) uid by (auto simp: options_validate_def Let_def Namespace_def)
  moreover have "TrimSpace [] = []" by code_simp
  then have "o_Mode opt' = ''prod'' \<longrightarrow> o_AdapterStateFile opt' \<noteq> [] \<and> o_Iface opt' \<noteq> []" "0 \<le> o_DrainIdleTimeout opt'"
    using V(5) by (auto simp: validate_durability_def split: if_splits)
  moreover have "sound_setup (steeringConfig opt') X \<longleftrightarrow> inj (xl_fp X)" "ctl_defaults (steeringConfig opt') = steeringConfig opt'"
    using B by (auto simp: sound_setup_def budgets_ok_def steeringConfig_def ctl_defaults_def Let_def)
  ultimately show ?thesis
    using B V(1,2) by (simp add: steeringConfig_def)
qed

definition ex_command :: runCmd where
  "ex_command = \<lparr>o_Mode = ''prod'', o_Port = 443, o_OutQueue = 200, o_InQueue = 201, o_QueueMaxLen = 0, o_Mark = 6776174,
     o_ReinjectBypassUID = -1, o_GenerationMarkNamespace = 0x67000000, o_Table = ''geneva_server'',
     o_ControlAddr = ''127.0.0.1:8092'', o_Market = ''unknown'', o_CanaryCapacity = 64, o_NFTPath = ''nft'',
     o_CensorCounters = True, o_ObserveInbound = False, o_Iface = ''eth0'', o_EthtoolPath = ''ethtool'', o_PprofAddr = [],
     o_AdapterStateFile = ''/var/lib/geneva-server/adapter-state.json'', o_MaxGenerations = 3, o_MaxScopedGenerations = 0,
     o_MaxEveryPacketGenerations = 0, o_DrainIdleTimeout = 300000000000\<rparr>"

theorem validated_options_are_sound_witness:
  "\<exists>opt'. options_validate 987 ex_command = (None, opt') \<and> uint (nf_BypassUID (cf_NFT (steeringConfig opt'))) = 987 \<and>
     ctl_defaults (steeringConfig opt') = steeringConfig opt' \<and> cf_StateFile (steeringConfig opt') \<noteq> []"
proof -
  define opt' where "opt' = snd (options_validate 987 ex_command)"
  have e: "fst (options_validate 987 ex_command) = None" "cf_Mode (steeringConfig opt') = ''prod''" "o_ReinjectBypassUID ex_command = -1"
    unfolding opt'_def by code_simp+
  then have v: "options_validate 987 ex_command = (None, opt')" by (simp add: opt'_def prod_eq_iff)
  note c = validated_options_are_sound [OF v, where X = "undefined :: unit ctl_libs" and euid' = 0, unfolded e(2,3)]
  then have "uint (nf_BypassUID (cf_NFT (steeringConfig opt'))) = 987" by simp
  moreover from c have "ctl_defaults (steeringConfig opt') = steeringConfig opt'" "cf_StateFile (steeringConfig opt') \<noteq> []" by simp_all
  ultimately show ?thesis using v by blast
qed

end
