(* ===== verification/Server_Run.thy ===== *)
theory Server_Run
  imports Options Nfqueue_Run Ctl_Example
begin

text \<open>
  \<open>runServer\<close> of \<open>cmd/geneva-server/run_linux.go\<close>: the order in which the process opens its queues,
  starts the controller, runs, removes its rules and closes the queues again. While the pumps
  run, the controller and the sockets change as the parameter \<open>run\<close> says; the queues stay the
  runtime's.
\<close>

section \<open>Leaving\<close>

definition runtimeExitError :: "err option \<Rightarrow> err option \<Rightarrow> err option \<Rightarrow> err option" where
  "runtimeExitError runErr fatalCause serveErr =
     (case fatalCause of
        Some fatalErr \<Rightarrow> Some (Wrap ''fatal steering integrity failure'' [fatalErr])
      | None \<Rightarrow>
     (case serveErr of
        Some serr \<Rightarrow> Some (Wrap ''control surface failed'' [serr])
      | None \<Rightarrow>
     (case runErr of
        None \<Rightarrow> None
      | Some e \<Rightarrow> if errors_Is e Canceled then None else Some e)))"

text \<open>The loop that closes the controller, at most \<open>n\<close> times; \<open>last\<close> is the error so far.\<close>

fun close_attempts :: "ctl_config \<Rightarrow> 'h ctl_libs \<Rightarrow> nat \<Rightarrow> err option \<Rightarrow> ctl \<Rightarrow> err option \<times> ctl" where
  "close_attempts cf X 0 prev s = (prev, s)"
| "close_attempts cf X (Suc n) prev s =
     (case Ctl_Start.Close cf X s of
        (None, s) \<Rightarrow> (None, s)
      | (Some e, s) \<Rightarrow> close_attempts cf X n (Some e) s)"

section \<open>The process\<close>

record 'w process =
  pr_ctl :: ctl
  pr_rt :: runtime
  pr_net :: 'w
  pr_sock :: rawsock

text \<open>Observers: the canary pool in eval mode, the classifier where the kernel does not count.\<close>

definition run_observers :: "runCmd \<Rightarrow> 'o observer \<Rightarrow> 'o observer \<Rightarrow> 'o observer option" where
  "run_observers opt pool classifier =
     Observers ((if o_Mode opt = ''eval'' then [Some pool] else []) @ (if o_CensorCounters opt then [] else [Some classifier]))"

definition queue_config_of :: "runCmd \<Rightarrow> 'o observer option \<Rightarrow> 'o rt_config" where
  "queue_config_of opt observer =
     \<lparr>rc_OutQueue = o_OutQueue opt, rc_InQueue = o_InQueue opt, rc_MaxPacketLen = 0, rc_MaxQueueLen = o_QueueMaxLen opt,
      rc_Observer = observer, rc_IntegrityFailure = True\<rparr>"

definition close_queues :: "'w netlink \<Rightarrow> 'w process \<Rightarrow> err option \<times> 'w process" where
  "close_queues N p =
     (case rt_Close N (pr_rt p) (pr_net p, pr_sock p) of
        (e, rt, w, k) \<Rightarrow> (e, p\<lparr>pr_rt := rt, pr_net := w, pr_sock := k\<rparr>))"

text \<open>The deferred teardown, over the result so far.\<close>

definition teardown :: "'w netlink \<Rightarrow> ctl_config \<Rightarrow> 'h ctl_libs \<Rightarrow> err option \<times> 'w process \<Rightarrow> err option \<times> 'w process" where
  "teardown N cf X = (\<lambda>(result, p).
     case close_attempts cf X 3 None (pr_ctl p) of
       (None, s) \<Rightarrow> (result, snd (close_queues N (p\<lparr>pr_ctl := s\<rparr>)))
     | (Some e, s) \<Rightarrow>
         (errors_Join [result, Some (Wrap ''shutdown steering cleanup could not be confirmed'' [e])], p\<lparr>pr_ctl := s\<rparr>))"

definition start_failed :: "'w netlink \<Rightarrow> ctl_config \<Rightarrow> 'h ctl_libs \<Rightarrow> err \<Rightarrow> 'w process \<Rightarrow> err option \<times> 'w process" where
  "start_failed N cf X startErr p =
     (case close_attempts cf X 3 None (pr_ctl p) of
        (None, s) \<Rightarrow>
          (case close_queues N (p\<lparr>pr_ctl := s\<rparr>) of (e, p) \<Rightarrow> (errors_Join [Some startErr, e], p))
      | (Some e, s) \<Rightarrow>
          (errors_Join [Some startErr, Some (Wrap ''startup steering cleanup could not be confirmed'' [e])], p\<lparr>pr_ctl := s\<rparr>))"

text \<open>
  From the pumps' start to their end. \<open>telemetry\<close> is the error of setting up the metrics, when
  they are enabled; \<open>run\<close> gives what \<open>Run\<close> returns, the first fatal cause, the listener's error, and
  what the controller, the netlink socket and the raw socket have become.
\<close>

type_synonym 'w running = "ctl \<Rightarrow> 'w \<Rightarrow> rawsock \<Rightarrow> err option \<times> err option \<times> err option \<times> ctl \<times> 'w \<times> rawsock"

definition serve :: "'w running \<Rightarrow> err option \<Rightarrow> 'w process \<Rightarrow> err option \<times> 'w process" where
  "serve run telemetry p =
     (case telemetry of
        Some e \<Rightarrow> (Some (Wrap ''telemetry'' [e]), p)
      | None \<Rightarrow>
     (case rt_Run (pr_rt p) of
        Inl e \<Rightarrow> (runtimeExitError (Some e) None None, p)
      | Inr _ \<Rightarrow>
     (case run (pr_ctl p) (pr_net p) (pr_sock p) of
        (runErr, fatalCause, serveErr, s, w, k) \<Rightarrow>
          (runtimeExitError runErr fatalCause serveErr, p\<lparr>pr_ctl := s, pr_net := w, pr_sock := k\<rparr>))))"

definition runServer ::
  "'w netlink \<Rightarrow> 'h ctl_libs \<Rightarrow> runCmd \<Rightarrow> 'o observer \<Rightarrow> 'o observer \<Rightarrow> 'w running \<Rightarrow> err option \<Rightarrow> ctl \<Rightarrow> 'w \<Rightarrow> rawsock \<Rightarrow>
     err option \<times> 'w process" where
  "runServer N X opt pool classifier run telemetry ctrl w k =
     (let cf = ctl_defaults (steeringConfig opt)
      in case rt_New (queue_config_of opt (run_observers opt pool classifier)) k of
           (Inl e, k) \<Rightarrow> (Some e, \<lparr>pr_ctl = ctrl, pr_rt = \<lparr>rt_outQ = None, rt_inQ = None\<rparr>, pr_net = w, pr_sock = k\<rparr>)
         | (Inr (rc, rt), k) \<Rightarrow>
     (case rt_Open N rc rt w of
        (Some e, rt, w) \<Rightarrow>
          (Some e, snd (close_queues N \<lparr>pr_ctl = ctrl, pr_rt = rt, pr_net = w, pr_sock = k\<rparr>))
      | (None, rt, w) \<Rightarrow>
     (case Start cf X ctrl of
        (Some e, s) \<Rightarrow> start_failed N cf X e \<lparr>pr_ctl = s, pr_rt = rt, pr_net = w, pr_sock = k\<rparr>
      | (None, s) \<Rightarrow>
          teardown N cf X (serve run telemetry \<lparr>pr_ctl = s, pr_rt = rt, pr_net = w, pr_sock = k\<rparr>))))"

section \<open>Closing the controller removes its table\<close>

lemma wp_Close:
  assumes "inj (xl_fp X)" and "\<not> cf_NoNFT cf"
  shows "wp (Ctl_Start.Close cf X s) (\<lambda>e s'. e = None \<longrightarrow> w_table (c_world s') = None)"
  unfolding Ctl_Start.Close_def removeRulesLocked_def
proof (rule wp_prod, rule wp_programLocked, rule wp_option)
  fix e :: "err option" and w n i
  let ?s = "s\<lparr>c_world := w, c_nft := n, c_steeringInstalled := i\<rparr>"
  assume "e = None" and "\<not> cf_NoNFT cf \<longrightarrow> table_step X (program_config cf [] 0 False) (e = None) (c_world s) w"
  then have "w_table w = None" using assms by (simp add: table_step_def holds_inj target_removed)
  then show "wp (restoreOffloads cf ?s) (\<lambda>e s'. e = None \<longrightarrow> w_table (c_world s') = None)"
    by (intro wp_restoreOffloads) (use frame_step_fields [of cf ?s] in force)
qed (simp add: wp_def)

lemma close_attempts_removed:
  assumes "inj (xl_fp X)" and "\<not> cf_NoNFT cf" and "0 < n"
  shows "close_attempts cf X n prev s = (None, s') \<Longrightarrow> w_table (c_world s') = None"
  using assms(3)
proof (induction n arbitrary: prev s)
  case (Suc n)
  obtain e t where c: "Ctl_Start.Close cf X s = (e, t)" by (cases "Ctl_Start.Close cf X s")
  show ?case
  proof (cases e)
    case None
    with c Suc.prems wp_D [OF wp_Close [OF assms(1,2)] c] show ?thesis by simp
  next
    case (Some f)
    with c Suc.prems(1) have "close_attempts cf X n (Some f) t = (None, s')" by simp
    moreover from this have "0 < n" by (cases n) simp_all
    ultimately show ?thesis by (rule Suc.IH)
  qed
qed simp

lemma close_queues_closes:
  "rt_outQ (pr_rt (snd (close_queues N p))) = None" "rt_inQ (pr_rt (snd (close_queues N p))) = None"
  "pr_ctl (snd (close_queues N p)) = pr_ctl p"
  by (simp_all add: close_queues_def rt_Close_def Let_def split: prod.split)

text \<open>The two ends of a process: its rules are gone and its queues closed, or it still has both queues.\<close>

definition ended_well :: "err option \<times> 'w process \<Rightarrow> bool" where
  "ended_well = (\<lambda>(e, p).
     w_table (c_world (pr_ctl p)) = None \<and> rt_outQ (pr_rt p) = None \<and> rt_inQ (pr_rt p) = None \<or>
     e \<noteq> None \<and> rt_outQ (pr_rt p) \<noteq> None \<and> rt_inQ (pr_rt p) \<noteq> None)"

lemma teardown_ends_well:
  assumes "inj (xl_fp X)" and "\<not> cf_NoNFT cf" and "rt_outQ (pr_rt p) \<noteq> None" and "rt_inQ (pr_rt p) \<noteq> None"
  shows "ended_well (teardown N cf X (e, p))"
    and "fst (teardown N cf X (e, p)) = None \<Longrightarrow> e = None \<and> w_table (c_world (pr_ctl (snd (teardown N cf X (e, p))))) = None"
proof -
  obtain f s where c: "close_attempts cf X 3 None (pr_ctl p) = (f, s)" by (cases "close_attempts cf X 3 None (pr_ctl p)")
  show "ended_well (teardown N cf X (e, p))"
    using assms c close_attempts_removed [OF assms(1,2), of 3 None "pr_ctl p" s]
    by (cases f) (simp_all add: teardown_def ended_well_def close_queues_closes case_prod_beta del: not_None_eq)
  show "fst (teardown N cf X (e, p)) = None \<Longrightarrow> e = None \<and> w_table (c_world (pr_ctl (snd (teardown N cf X (e, p))))) = None"
    using assms c close_attempts_removed [OF assms(1,2), of 3 None "pr_ctl p" s]
    by (cases f) (simp_all add: teardown_def close_queues_closes)
qed

lemma start_failed_ends_well:
  assumes "inj (xl_fp X)" and "\<not> cf_NoNFT cf" and "rt_outQ (pr_rt p) \<noteq> None" and "rt_inQ (pr_rt p) \<noteq> None"
  shows "ended_well (start_failed N cf X e p)" and "fst (start_failed N cf X e p) \<noteq> None"
proof -
  obtain f s where c: "close_attempts cf X 3 None (pr_ctl p) = (f, s)" by (cases "close_attempts cf X 3 None (pr_ctl p)")
  show "ended_well (start_failed N cf X e p)"
    using assms c close_attempts_removed [OF assms(1,2), of 3 None "pr_ctl p" s]
    by (cases f) (simp_all add: start_failed_def ended_well_def close_queues_closes case_prod_beta del: not_None_eq)
  show "fst (start_failed N cf X e p) \<noteq> None"
    using c by (cases f) (simp_all add: start_failed_def case_prod_beta)
qed

lemma serve_queues: "pr_rt (snd (serve run telemetry p)) = pr_rt p"
  by (simp add: serve_def split: option.split sum.split prod.split)

lemma runtimeExitError_None:
  "runtimeExitError r f s = None \<longleftrightarrow> f = None \<and> s = None \<and> (r = None \<or> errors_Is (the r) Canceled)"
  by (auto simp: runtimeExitError_def split: option.split)

lemma serve_clean:
  assumes "serve run telemetry p = (None, t)" and "rt_outQ (pr_rt p) \<noteq> None" and "rt_inQ (pr_rt p) \<noteq> None"
  shows "telemetry = None \<and> (\<exists>net sock r after. run (pr_ctl p) net sock = (r, None, None, after) \<and>
    (r = None \<or> errors_Is (the r) Canceled))"
proof -
  obtain r f e after where o: "run (pr_ctl p) (pr_net p) (pr_sock p) = (r, f, e, after)" by (metis prod.exhaust)
  have "telemetry = None" using assms(1) by (cases telemetry) (simp_all add: serve_def)
  moreover have "runtimeExitError r f e = None"
    using assms o by (cases telemetry; cases after) (auto simp: serve_def rt_Run_def)
  ultimately show ?thesis using o by (metis runtimeExitError_None)
qed

lemma rt_Open_both:
  assumes "rt_Open N rc rt w = (e, rt', w')" and "rt_outQ rt = None" and "rt_inQ rt = None"
  shows "if e = None then rt_outQ rt' \<noteq> None \<and> rt_inQ rt' \<noteq> None else rt' = rt"
  using assms by (auto simp: rt_Open_def split: prod.splits sum.splits)

definition queues_opened :: "'w netlink \<Rightarrow> runCmd \<Rightarrow> 'o observer option \<Rightarrow> 'w \<Rightarrow> rawsock \<Rightarrow> bool" where
  "queues_opened N opt observer w k =
     (case rt_New (queue_config_of opt observer) k of
        (Inl e, k) \<Rightarrow> False
      | (Inr (rc, rt), k) \<Rightarrow> fst (rt_Open N rc rt w) = None)"


text \<open>A run that prepares and activates a strategy and is then told to stop.\<close>

definition ex_quiet :: "unit netlink" where
  "ex_quiet =
     \<lparr>nl_Dial = (\<lambda>w. (None, w)), nl_SyscallConn = (\<lambda>w. (None, w)), nl_MarshalAttributes = (\<lambda>as. Inr []),
      nl_Execute = (\<lambda>t b w. (None, w)), nl_Close = (\<lambda>w. (None, w))\<rparr>"

definition ex_raw :: rawsock where
  "ex_raw = \<lparr>w_script = [], rk_open = False, rk_mark = 0, rk_wire = [], rk_errno = Msg ''errno''\<rparr>"

definition ex_eval :: runCmd where
  "ex_eval = ex_command\<lparr>o_Mode := ''eval'', o_Iface := [], o_ReinjectBypassUID := 0\<rparr>"

definition ex_running :: "unit running" where
  "ex_running s w k =
     (let cf = ctl_defaults (steeringConfig ex_eval)
      in (Some (Sent Canceled), None, None,
          snd (ActivateForNewConnections cf ex_libs ex_artifact (snd (ctl_Prepare cf ex_libs ex_artifact s))), w, k))"

definition ex_run :: "err option \<times> unit process" where
  "ex_run = runServer ex_quiet ex_libs ex_eval (\<lambda>_ _. id) (\<lambda>_ _ (n :: nat). n) ex_running None ex_new () ex_raw"

lemma ex_quiet_openQueue: "\<exists>q. openQueue ex_quiet num m l () = (Inr q, ())"
  by (simp add: openQueue_def queueConfigSteps_def queue_config_def ex_quiet_def Let_def)

lemma ex_quiet_rt_Open: "\<exists>p q. rt_Open ex_quiet rc \<lparr>rt_outQ = None, rt_inQ = None\<rparr> () = (None, \<lparr>rt_outQ = Some p, rt_inQ = Some q\<rparr>, ())"
proof -
  obtain p where "openQueue ex_quiet (rc_OutQueue rc) (rc_MaxPacketLen rc) (rc_MaxQueueLen rc) () = (Inr p, ())"
    using ex_quiet_openQueue by blast
  moreover obtain q where "openQueue ex_quiet (rc_InQueue rc) (rc_MaxPacketLen rc) (rc_MaxQueueLen rc) () = (Inr q, ())"
    using ex_quiet_openQueue by blast
  ultimately show ?thesis by (simp add: rt_Open_def)
qed

definition ex_cf :: ctl_config where "ex_cf = ctl_defaults (steeringConfig ex_eval)"
definition ex_up :: ctl where "ex_up = snd (Start ex_cf ex_libs ex_new)"
definition ex_served_run :: ctl where "ex_served_run = fst (snd (snd (snd (ex_running ex_up () ex_raw))))"

lemma ex_up_evaluated: "fst (Start ex_cf ex_libs ex_new) = None"
  "fst (close_attempts ex_cf ex_libs 3 None ex_served_run) = None" "table_ids (w_table (c_world ex_served_run)) = {1}"
  by code_simp+

text \<open>\<open>Close\<close> does not mark the controller closed: a request that is still being handled when the rules
  have been removed puts them back.\<close>

lemma closed_controller_programs:
  "fst (Ctl_Start.Close ex_cf ex_libs ex_served_run) = None"
  "w_table (c_world (snd (Ctl_Start.Close ex_cf ex_libs ex_served_run))) = None"
  "fst (DeactivateNew ex_cf ex_libs (snd (Ctl_Start.Close ex_cf ex_libs ex_served_run))) = None"
  "table_ids (w_table (c_world (snd (DeactivateNew ex_cf ex_libs (snd (Ctl_Start.Close ex_cf ex_libs ex_served_run)))))) = {1}"
  by code_simp+

lemma ex_New: "\<exists>rc k. rt_New (queue_config_of ex_eval observer) ex_raw = (Inr (rc, \<lparr>rt_outQ = None, rt_inQ = None\<rparr>), k)"
  by (simp add: rt_New_def NewReinjector_def rawsock_call_def ex_raw_def pop_def Let_def)

lemma ex_run_ends: "fst ex_run = None"
proof -
  obtain rc k where n: "rt_New (queue_config_of ex_eval (run_observers ex_eval (\<lambda>_ _. id) (\<lambda>_ _ (n :: nat). n))) ex_raw =
    (Inr (rc, \<lparr>rt_outQ = None, rt_inQ = None\<rparr>), k)" using ex_New by blast
  obtain p q where "rt_Open ex_quiet rc \<lparr>rt_outQ = None, rt_inQ = None\<rparr> () = (None, \<lparr>rt_outQ = Some p, rt_inQ = Some q\<rparr>, ())"
    using ex_quiet_rt_Open by blast
  moreover have "Start ex_cf ex_libs ex_new = (None, ex_up)" using ex_up_evaluated(1) by (simp add: ex_up_def prod_eq_iff)
  moreover have "ex_running ex_up () k = (Some (Sent Canceled), None, None, ex_served_run, (), k)"
    by (simp add: ex_running_def ex_served_run_def Let_def)
  moreover obtain s where "close_attempts ex_cf ex_libs 3 None ex_served_run = (None, s)"
    using ex_up_evaluated(2) by (metis prod.collapse)
  moreover have "errors_Is (Sent Canceled) Canceled" by simp
  ultimately show ?thesis
    using n by (simp add: ex_run_def runServer_def Let_def teardown_def serve_def rt_Run_def runtimeExitError_def flip: ex_cf_def)
qed


end
