(* ===== verification/Telemetry.thy ===== *)
theory Telemetry
  imports Nfqueue_Runtime Censor Registry_Lineage
begin

text \<open>
  \<open>internal/telemetry/metrics.go\<close> and \<open>otel.go\<close>: which series the process exports and what each reports.
  The OpenTelemetry library is a parameter where it can fail; the names of metrics and labels are
  the semantic-conventions package's. Floating-point division is a parameter, and the overheads of
  \<open>Stats.snapshot\<close> and \<open>Registry.Snapshot\<close>, the only floats of the program, are modelled here.
\<close>

section \<open>Counters with their overheads\<close>

record 'f snapshot =
  sn_Stats :: Stats
  sn_PacketOverhead :: 'f
  sn_ByteOverhead :: 'f

text \<open>\<open>ratio out in\<close> stands for \<open>float64(out)/float64(in) - 1\<close>.\<close>

definition stats_snapshot :: "'f \<Rightarrow> (u64 \<Rightarrow> u64 \<Rightarrow> 'f) \<Rightarrow> Stats \<Rightarrow> 'f snapshot" where
  "stats_snapshot zero ratio st =
     (let snap = \<lparr>sn_Stats = st, sn_PacketOverhead = zero, sn_ByteOverhead = zero\<rparr>;
          snap = (if st_PacketsIn st > 0 then snap\<lparr>sn_PacketOverhead := ratio (st_PacketsOut st) (st_PacketsIn st)\<rparr> else snap)
      in if st_BytesIn st > 0 then snap\<lparr>sn_ByteOverhead := ratio (st_BytesOut st) (st_BytesIn st)\<rparr> else snap)"

section \<open>Series\<close>

datatype metric =
    PacketsIn | PacketsOut | BytesIn | BytesOut | Outcomes | Errors | PacketOverhead | ByteOverhead | StrategySwaps
  | Uptime | Verdicts | Reinjections | DeliveryOverruns | InboundTCP

datatype label = GenevaMode | GeoCountryISOCode | GenevaOutcome | GenevaVerdict | GenevaReinjection | GenevaTCPEvent

type_synonym attributes = "(label \<times> string) list"

datatype 'f measurement = Int64 int | Float64 'f

type_synonym 'f observation = "metric \<times> 'f measurement \<times> attributes"

record 'f providers =
  tp_Mode :: string
  tp_Market :: string
  tp_Engine :: "'f snapshot option"
  tp_Censor :: "(Event \<Rightarrow> u64) option"
  tp_Verdicts :: "VerdictStats option"
  tp_Uptime :: "'f option" \<comment> \<open>seconds since the start; \<open>None\<close> is the zero start time\<close>

definition base_labels :: "'f providers \<Rightarrow> attributes" where
  "base_labels p =
     (let base = [(GenevaMode, tp_Mode p)]
      in if tp_Market p \<noteq> [] \<and> tp_Market p \<noteq> ''unknown'' then base @ [(GeoCountryISOCode, tp_Market p)] else base)"

definition tcpEvents :: "Event list" where
  "tcpEvents = [EventRST, EventSYN, EventFIN, EventData, EventACKOnly, EventFragment, EventUndecodable]"

definition verdictNames :: "string list" where
  "verdictNames = [''accepted'', ''dropped'', ''modified'']"

definition outcomes :: "Outcome list" where
  "outcomes = [OutcomeUnchanged, OutcomeDropped, OutcomeTampered, OutcomeExpanded]"

text \<open>\<open>int64\<close> of an unsigned counter wraps.\<close>

definition int64 :: "u64 \<Rightarrow> 'f measurement" where
  "int64 c = Int64 (sint c)"

text \<open>The parts of the callback: the engine, the uptime, the verdicts, the inbound packets.\<close>

definition observe_engine :: "attributes \<Rightarrow> 'f snapshot \<Rightarrow> 'f observation list" where
  "observe_engine base snap =
     (let st = sn_Stats snap
      in [(PacketsIn, int64 (st_PacketsIn st), base), (PacketsOut, int64 (st_PacketsOut st), base),
          (BytesIn, int64 (st_BytesIn st), base), (BytesOut, int64 (st_BytesOut st), base),
          (Errors, int64 (st_Errors st), base), (StrategySwaps, int64 (st_Swaps st), base),
          (PacketOverhead, Float64 (sn_PacketOverhead snap), base), (ByteOverhead, Float64 (sn_ByteOverhead snap), base)] @
         map (\<lambda>(oc, c). (Outcomes, int64 c, base @ [(GenevaOutcome, outcome_String oc)]))
           (zip outcomes [st_Unchanged st, st_Dropped st, st_Tampered st, st_Expanded st]))"

definition observe_verdicts :: "attributes \<Rightarrow> VerdictStats \<Rightarrow> 'f observation list" where
  "observe_verdicts base v =
     map (\<lambda>(name, c). (Verdicts, int64 c, base @ [(GenevaVerdict, name)]))
       (zip verdictNames [rs_Accepted v, rs_Dropped v, rs_Modified v]) @
     [(Reinjections, int64 (rs_Reinjected v), base @ [(GenevaReinjection, ''ok'')]),
      (Reinjections, int64 (rs_InjectFails v), base @ [(GenevaReinjection, ''failed'')]),
      (DeliveryOverruns, int64 (rs_Overruns v), base)]"

definition observe_censor :: "attributes \<Rightarrow> (Event \<Rightarrow> u64) \<Rightarrow> 'f observation list" where
  "observe_censor base count = map (\<lambda>e. (InboundTCP, int64 (count e), base @ [(GenevaTCPEvent, event_String e)])) tcpEvents"

definition collect :: "'f providers \<Rightarrow> 'f snapshot \<Rightarrow> 'f observation list" where
  "collect p snap =
     (let base = base_labels p
      in observe_engine base snap @
         (case tp_Uptime p of None \<Rightarrow> [] | Some t \<Rightarrow> [(Uptime, Float64 t, base)]) @
         (case tp_Verdicts p of None \<Rightarrow> [] | Some v \<Rightarrow> observe_verdicts base v) @
         (case tp_Censor p of None \<Rightarrow> [] | Some count \<Rightarrow> observe_censor base count))"

section \<open>Registration\<close>

definition instruments :: "metric list" where
  "instruments = [PacketsIn, PacketsOut, BytesIn, BytesOut, Outcomes, Errors, PacketOverhead, ByteOverhead, StrategySwaps,
     Uptime, Verdicts, Reinjections, DeliveryOverruns, InboundTCP]"

text \<open>\<open>create\<close> is what making an instrument gives, \<open>callback\<close> what registering the callback gives.\<close>

fun create_all :: "(metric \<Rightarrow> err option) \<Rightarrow> metric list \<Rightarrow> err option" where
  "create_all create [] = None"
| "create_all create (m # ms) = (case create m of Some e \<Rightarrow> Some e | None \<Rightarrow> create_all create ms)"

definition Register :: "(metric \<Rightarrow> err option) \<Rightarrow> err option \<Rightarrow> 'f providers \<Rightarrow> err option" where
  "Register create callback p =
     (if tp_Engine p = None then Some (Msg ''telemetry: Engine is required'')
      else case create_all create instruments of
        Some e \<Rightarrow> Some e
      | None \<Rightarrow> (case callback of Some e \<Rightarrow> Some (Wrap ''register metric callback'' [e]) | None \<Rightarrow> None))"

section \<open>Setting up the export\<close>

definition Enabled :: "(string \<Rightarrow> string) \<Rightarrow> bool" where
  "Enabled getenv \<longleftrightarrow>
     list_ex (\<lambda>key. getenv key \<noteq> []) [''OTEL_EXPORTER_OTLP_ENDPOINT'', ''OTEL_EXPORTER_OTLP_METRICS_ENDPOINT'']"

datatype instrument_kind = Counter | UpDownCounter | Histogram | ObservableCounter | ObservableUpDownCounter | ObservableGauge | Gauge
datatype temporality = DeltaTemporality | CumulativeTemporality

definition deltaForCounters :: "instrument_kind \<Rightarrow> temporality" where
  "deltaForCounters k =
     (case k of Counter \<Rightarrow> DeltaTemporality | UpDownCounter \<Rightarrow> DeltaTemporality | ObservableCounter \<Rightarrow> DeltaTemporality
      | ObservableUpDownCounter \<Rightarrow> DeltaTemporality | _ \<Rightarrow> CumulativeTemporality)"

definition vcsRevision :: "(string \<times> string) list option \<Rightarrow> string" where
  "vcsRevision build =
     (case build of
        None \<Rightarrow> ''unknown''
      | Some settings \<Rightarrow> (case map_of settings ''vcs.revision'' of Some v \<Rightarrow> v | None \<Rightarrow> ''unknown''))"

section \<open>What a collection reports\<close>

lemma sint_small: "unat (c :: u64) < 2 ^ 63 \<Longrightarrow> sint c = int (unat c)"
proof -
  assume "unat c < 2 ^ 63"
  then have "int (unat c) < int (2 ^ 63)" by (simp only: of_nat_less_iff)
  then have "uint c < 2 ^ 63" by simp
  moreover from this have "signed_take_bit 63 (uint c) = uint c"
    using uint_ge_0 [of c] by (intro signed_take_bit_int_eq_self) linarith+
  ultimately show ?thesis by (simp add: sint_uint)
qed

text \<open>The series of a collection, and the integers it reports for one metric.\<close>

definition series :: "'f observation \<Rightarrow> metric \<times> attributes" where
  "series = (\<lambda>(m, v, a). (m, a))"

definition reported :: "metric \<Rightarrow> 'f observation list \<Rightarrow> int list" where
  "reported m = List.map_filter (\<lambda>(m', v, a). if m' = m then (case v of Int64 i \<Rightarrow> Some i | Float64 f \<Rightarrow> None) else None)"

lemma distinct_engine: "distinct (map series (observe_engine base snap))"
  by (simp add: observe_engine_def series_def Let_def outcomes_def outcome_String_def)

lemma distinct_verdicts: "distinct (map series (observe_verdicts base v))"
  by (simp add: observe_verdicts_def series_def verdictNames_def)

lemma distinct_censor: "distinct (map series (observe_censor base count))"
  by (simp add: observe_censor_def series_def tcpEvents_def event_String_def)

text \<open>The four parts of a collection report different metrics.\<close>

lemma part_metrics:
  "x \<in> set (observe_engine base snap) \<Longrightarrow> fst x \<notin> {Uptime, Verdicts, Reinjections, DeliveryOverruns, InboundTCP}"
  "x \<in> set (observe_verdicts base v) \<Longrightarrow> fst x \<in> {Verdicts, Reinjections, DeliveryOverruns}"
  "x \<in> set (observe_censor base count) \<Longrightarrow> fst x = InboundTCP"
  by (auto simp: observe_engine_def observe_verdicts_def observe_censor_def Let_def outcomes_def verdictNames_def)

lemma distinct_parts:
  assumes "distinct (map series xs)" and "distinct (map series ys)" and "\<And>x y. x \<in> set xs \<Longrightarrow> y \<in> set ys \<Longrightarrow> fst x \<noteq> fst y"
  shows "distinct (map series (xs @ ys))"
  using assms by (force simp: series_def)

lemma distinct_collect: "distinct (map series (collect p snap))"
proof -
  let ?b = "base_labels p"
  let ?u = "case tp_Uptime p of None \<Rightarrow> [] | Some t \<Rightarrow> [(Uptime, Float64 t, ?b)]"
  let ?v = "case tp_Verdicts p of None \<Rightarrow> [] | Some v \<Rightarrow> observe_verdicts ?b v"
  let ?c = "case tp_Censor p of None \<Rightarrow> [] | Some count \<Rightarrow> observe_censor ?b count"
  have u: "distinct (map series ?u)" and v: "distinct (map series ?v)" and c: "distinct (map series ?c)"
    by (simp_all add: distinct_verdicts distinct_censor split: option.split)
  have mu: "fst x = Uptime" if "x \<in> set ?u" for x using that by (cases "tp_Uptime p") simp_all
  have mv: "fst x \<in> {Verdicts, Reinjections, DeliveryOverruns}" if "x \<in> set ?v" for x
    using that by (cases "tp_Verdicts p") (simp, simp only: option.case, rule part_metrics(2))
  have mc: "fst x = InboundTCP" if "x \<in> set ?c" for x using that by (cases "tp_Censor p") (simp, simp only: option.case, rule part_metrics(3))
  have vc: "distinct (map series (?v @ ?c))"
    by (intro distinct_parts v c; drule mv; drule mc; elim insertE emptyE; simp only: metric.distinct not_False_eq_True)
  have muvc: "fst x \<in> {Uptime, Verdicts, Reinjections, DeliveryOverruns, InboundTCP}" if "x \<in> set (?u @ ?v @ ?c)" for x
    using that mu [of x] mv [of x] mc [of x] by (simp only: set_append Un_iff) blast
  have uvc: "distinct (map series (?u @ ?v @ ?c))"
  proof (rule distinct_parts [OF u vc])
    fix x y assume "x \<in> set ?u" "y \<in> set (?v @ ?c)"
    then have "fst x = Uptime" "fst y \<in> {Verdicts, Reinjections, DeliveryOverruns} \<union> {InboundTCP}"
      using mu [of x] mv [of y] mc [of y] by (simp_all only: set_append Un_iff) blast
    then show "fst x \<noteq> fst y" by auto
  qed
  show ?thesis
    unfolding collect_def Let_def
  proof (rule distinct_parts [OF distinct_engine uvc])
    fix x y assume "x \<in> set (observe_engine ?b snap)" "y \<in> set (?u @ ?v @ ?c)"
    then show "fst x \<noteq> fst y" using part_metrics(1) [of x ?b snap] muvc [of y] by metis
  qed
qed

lemma reported_append [simp]: "reported m (xs @ ys) = reported m xs @ reported m ys"
  by (simp add: reported_def map_filter_def)

lemma reported_elsewhere:
  "m \<in> {PacketsIn, Errors, Outcomes} \<Longrightarrow> reported m (observe_verdicts base v) = []"
  "m \<in> {PacketsIn, Errors, Outcomes} \<Longrightarrow> reported m (observe_censor base count) = []"
  "reported m ((n, Float64 t, base) # obs) = reported m obs" "reported m [] = []"
  by (auto simp: reported_def map_filter_simps observe_verdicts_def observe_censor_def verdictNames_def tcpEvents_def)

lemma reported_collect:
  "m \<in> {PacketsIn, Errors, Outcomes} \<Longrightarrow> reported m (collect p snap) = reported m (observe_engine (base_labels p) snap)"
  by (cases "tp_Uptime p"; cases "tp_Verdicts p"; cases "tp_Censor p")
    (simp_all only: collect_def Let_def option.case append_Nil append_Nil2 append_Cons reported_append reported_elsewhere simp_thms)

lemma reported_engine:
  "reported PacketsIn (observe_engine base snap) = [sint (st_PacketsIn (sn_Stats snap))]"
  "reported Errors (observe_engine base snap) = [sint (st_Errors (sn_Stats snap))]"
  "reported Outcomes (observe_engine base snap) =
     map sint [st_Unchanged (sn_Stats snap), st_Dropped (sn_Stats snap), st_Tampered (sn_Stats snap), st_Expanded (sn_Stats snap)]"
  by (simp_all add: observe_engine_def reported_def Let_def map_filter_simps int64_def outcomes_def)

lemma fold_accounted:
  assumes "accounted out" and "\<forall>(gid, e)\<in>set es. accounted (e_Stats e)"
  shows "accounted (fold (\<lambda>(_, e) out. add_stats out (e_Stats e)) es out)"
  using assms
proof (induction es arbitrary: out)
  case (Cons x es)
  obtain gid e where x: "x = (gid, e)" by (cases x)
  have "accounted (add_stats out (e_Stats e))" using Cons.prems x by (simp add: accounted_def add_stats_def algebra_simps)
  with Cons x show ?case by simp
qed simp

lemma reg_Snapshot_accounted:
  assumes "registry_ok r"
  shows "accounted (reg_Snapshot r)"
proof -
  have "\<forall>(gid, e)\<in>set (g_byID r). accounted (e_Stats e)"
    using assms by (auto simp: registry_ok_def dest: map_of_is_SomeI)
  then show ?thesis using fold_accounted [OF zero_stats_accounted, of "g_byID r"] by (simp add: reg_Snapshot_def accounted_def)
qed

lemma sn_Stats_snapshot [simp]: "sn_Stats (stats_snapshot zero ratio st) = st"
  by (simp add: stats_snapshot_def Let_def)


definition ex_ops :: "reg_op list" where
  "ex_ops = [OpPrepare 7 ''dna'', OpPrepare 9 ''other'', OpProcess 7 [1] DirectionOutbound, OpProcess 9 [2] DirectionOutbound]"

definition ex_exported :: "(u64 \<times> u64) observation list" where
  "ex_exported = collect \<lparr>tp_Mode = ''eval'', tp_Market = ''ir'', tp_Engine = None, tp_Censor = Some (\<lambda>_. 5),
       tp_Verdicts = Some zero_verdicts, tp_Uptime = Some (3, 1)\<rparr>
     (stats_snapshot (0, 1) (\<lambda>b a. (b - a, a)) (reg_Snapshot (reg_run ex_genlib ex_ops (NewRegistry ''e''))))"


text \<open>The counters are those of the live generations: collecting one takes its packets out of every
  exported counter, which is not what a monotonic counter may do.\<close>

lemma collection_lowers_counters:
  "st_PacketsIn (reg_Snapshot (reg_run ex_genlib ex_ops (NewRegistry ''e''))) = 2"
  "st_PacketsIn (reg_Snapshot (reg_run ex_genlib (ex_ops @ [OpRemove 7]) (NewRegistry ''e''))) = 1"
  by code_simp+

end
