(* ===== verification/Server_Health.thy ===== *)
theory Server_Health
  imports Control_Lifecycle Server_Run Censor
begin

text \<open>
  What \<open>runServer\<close> of \<open>cmd/geneva-server/run_linux.go\<close> hands to the HTTP surface: the controller as the
  adapter and as the source of health and steering, next to the runtime's counters, the censor
  counts and the canary pool. \<open>CensorCounts\<close> of the controller is here as well.
\<close>

section \<open>The providers\<close>

record surroundings =
  su_verdicts :: VerdictStats
  su_inbound :: "(string \<times> u64) list"
  su_pool :: Pool
  su_uptime :: int

type_synonym served = "ctl \<times> surroundings"

datatype any = AnyVerdicts VerdictStats | AnyInbound "(string \<times> u64) list" | AnyState State

text \<open>The controller's operations leave everything around it alone.\<close>

definition on_ctl :: "(ctl \<Rightarrow> 'r \<times> ctl) \<Rightarrow> served \<Rightarrow> 'r \<times> served" where
  "on_ctl f = (\<lambda>(s, u). case f s of (r, s) \<Rightarrow> (r, (s, u)))"

definition served_ops :: "ctl adapter_ops \<Rightarrow> served adapter_ops" where
  "served_ops a =
     \<lparr>ao_Descriptor = (\<lambda>(s, u). ao_Descriptor a s), ao_Prepare = (\<lambda>x. on_ctl (ao_Prepare a x)),
      ao_Verify = (\<lambda>x. on_ctl (ao_Verify a x)), ao_ActivateForNewConnections = (\<lambda>x. on_ctl (ao_ActivateForNewConnections a x)),
      ao_DeactivateForNewConnections = (\<lambda>x. on_ctl (ao_DeactivateForNewConnections a x)), ao_Status = on_ctl (ao_Status a),
      ao_Drain = (\<lambda>x. on_ctl (ao_Drain a x)), ao_Rollback = (\<lambda>x. on_ctl (ao_Rollback a x)),
      ao_GarbageCollect = (\<lambda>x. on_ctl (ao_GarbageCollect a x))\<rparr>"

text \<open>\<open>State\<close>, and the health callback, which reads it again.\<close>

definition ctl_State :: "ctl \<Rightarrow> State" where
  "ctl_State s = fst (stateLocked s)"

definition ctl_health :: "ctl \<Rightarrow> err option" where
  "ctl_health s = (let state = ctl_State s in if sa_Unsafe state then Some (Msg (sa_IntegrityFailure state)) else None)"

definition server_providers :: "runCmd \<Rightarrow> 'h ctl_libs \<Rightarrow> string \<Rightarrow> string \<Rightarrow> (served, any) providers" where
  "server_providers opt X version commit =
     \<lparr>pv_Mode = o_Mode opt, pv_Version = version, pv_Commit = commit, pv_Engine = (\<lambda>(s, u). reg_Snapshot (c_eng s)),
      pv_Canary = (if o_Mode opt = ''eval'' then Some (\<lambda>(s, u). su_pool u) else None),
      pv_Verdicts = Some (\<lambda>(s, u). AnyVerdicts (su_verdicts u)), pv_InboundTCP = Some (\<lambda>(s, u). AnyInbound (su_inbound u)),
      pv_Health = Some (\<lambda>(s, u). ctl_health s), pv_Steering = Some (\<lambda>(s, u). AnyState (ctl_State s)),
      pv_Adapter = Some (served_ops (controller_ops (ctl_defaults (steeringConfig opt)) X)), pv_uptime = (\<lambda>(s, u). su_uptime u)\<rparr>"

text \<open>\<open>CensorCounts\<close>: with no manager there is nothing to read. \<open>cmd\<close> is what the \<open>nft\<close> command gives.\<close>

definition CensorCounts :: "string + counter_entry list res \<Rightarrow> ctl \<Rightarrow> (string \<times> u64) list res" where
  "CensorCounts cmd s = (if c_nft s = None then Inr [] else ReadCounters cmd)"

section \<open>What health means\<close>

lemma settled_reports_active:
  assumes "settled cf X s" and "c_activeNew s \<noteq> 0"
  shows "\<exists>g\<in>set (sa_Generations (ctl_State s)). ga_ID g = c_activeNew s \<and> ga_Phase g = PhaseActive"
proof -
  obtain g where g: "gen_of s (c_activeNew s) = Some g" "gs_Phase g = PhaseActive"
    using assms by (auto simp: settled_def phase_ok_def)
  then have "(c_activeNew s, g) \<in> set (c_generations s)" using settled_gen_of [OF assms(1)] by simp
  then have "generation_status (c_activeNew s, g) \<in> set (sa_Generations (ctl_State s))" by (simp add: ctl_State_def)
  moreover have "ga_ID (generation_status (c_activeNew s, g)) = c_activeNew s \<and> ga_Phase (generation_status (c_activeNew s, g)) = PhaseActive"
    using g settled_gs_ID [OF assms(1) g(1)] by (simp add: generation_status_def)
  ultimately show ?thesis by blast
qed


section \<open>An example\<close>

lemma ex_cf_sound: "sound_setup ex_cf ex_libs"
proof -
  have "cf_Fatal ex_cf \<and> budgets_ok ex_cf" by code_simp
  then show ?thesis by (simp add: sound_setup_def inj_def ex_libs_def)
qed

lemma ex_served_run_reachable: "reachable ex_cf ex_libs ex_served_run"
proof -
  have "Start ex_cf ex_libs ex_new = (None, ex_up)" using ex_up_evaluated(1) by (simp add: ex_up_def prod_eq_iff)
  with ex_new_newborn have "reachable ex_cf ex_libs ex_up" by (rule reachable.start)
  from reachable.locked [OF reachable.locked [OF this, of "Prepare_s ex_artifact"], of "ActivateForNewConnections_s ex_artifact"]
  show ?thesis by (simp add: ex_served_run_def ex_running_def Let_def ex_cf_def)
qed

definition ex_around :: surroundings where
  "ex_around = \<lparr>su_verdicts = zero_verdicts, su_inbound = [], su_pool = NewPool ''ir'' 4, su_uptime = 7\<rparr>"

definition ex_health :: "any response \<times> served" where
  "ex_health = Handler (xl_sha ex_libs) ex_json (server_providers ex_eval ex_libs ''1'' [])
     \<lparr>rq_Method = ''GET'', rq_Path = ''/healthz'', rq_Body = [], rq_ReadErr = None\<rparr> (ex_served_run, ex_around)"

definition ex_up_facts :: "ctl \<Rightarrow> bool" where
  "ex_up_facts s \<longleftrightarrow> ctl_health s = None \<and> c_activeNew s = 1 \<and> \<not> c_fatal s"

lemma ex_served_run_healthy: "ex_up_facts ex_served_run"
  by code_simp


end
