(* ===== verification/Engine_Scratch.thy ===== *)
theory Engine_Scratch
  imports Engine
begin

text \<open>
  \<open>Scratch\<close> of \<open>internal/engine/engine.go\<close>: the memory a queue's goroutine reuses from packet to packet.
  \<open>Process\<close> is here over an explicit store of arrays, with the decoded packet and the output slice in the scratch and
  the results as slices that alias it. The lemmas show that reuse cannot be observed as long as a
  result is read before the next packet: \<open>Process\<close> of \<open>Engine\<close>, which has no store, is what it computes.
\<close>

section \<open>A store of arrays\<close>

type_synonym addr = nat

text \<open>A byte slice is an array, an offset and a length. Array 0 is the empty one, which \<open>nil\<close> slices point to.\<close>

datatype slice = Slice (arr: addr) (off: nat) (len: nat)

record heap =
  h_bytes :: "addr \<Rightarrow> byte list"
  h_slices :: "addr \<Rightarrow> slice list"
  h_next :: addr

definition get_bytes :: "heap \<Rightarrow> slice \<Rightarrow> byte list" where
  "get_bytes h s = take (len s) (drop (off s) (h_bytes h (arr s)))"

text \<open>\<open>copy\<close> overwrites as much of the slice as there is to copy.\<close>

definition copy_bytes :: "slice \<Rightarrow> byte list \<Rightarrow> heap \<Rightarrow> heap" where
  "copy_bytes s bs h =
     (let xs = h_bytes h (arr s); n = min (len s) (length bs)
      in h\<lparr>h_bytes := (h_bytes h)(arr s := take (off s) xs @ take n bs @ drop (off s + n) xs)\<rparr>)"

definition make_bytes :: "byte list \<Rightarrow> heap \<Rightarrow> addr \<times> heap" where
  "make_bytes bs h = (h_next h, h\<lparr>h_bytes := (h_bytes h)(h_next h := bs), h_next := h_next h + 1\<rparr>)"

definition make_slices :: "slice list \<Rightarrow> heap \<Rightarrow> addr \<times> heap" where
  "make_slices ss h = (h_next h, h\<lparr>h_slices := (h_slices h)(h_next h := ss), h_next := h_next h + 1\<rparr>)"

definition put_slice :: "addr \<Rightarrow> nat \<Rightarrow> slice \<Rightarrow> heap \<Rightarrow> heap" where
  "put_slice a i s h = h\<lparr>h_slices := (h_slices h)(a := (h_slices h a)[i := s])\<rparr>"

section \<open>The scratch\<close>

record Scratch =
  sc_buf :: addr
  sc_pkts :: addr

definition empty_scratch :: Scratch where
  "empty_scratch = \<lparr>sc_buf = 0, sc_pkts = 0\<rparr>"

text \<open>\<open>packet\<close> and \<open>outputs\<close>: a larger array replaces the one at hand only when that is too small.\<close>

definition packet_buf :: "nat \<Rightarrow> Scratch \<Rightarrow> heap \<Rightarrow> slice \<times> Scratch \<times> heap" where
  "packet_buf n sc h =
     (let cap = length (h_bytes h (sc_buf sc));
          (sc, h) = (if cap < n
                     then (case make_bytes (replicate (max n 2048) 0) h of (a, h) \<Rightarrow> (sc\<lparr>sc_buf := a\<rparr>, h))
                     else (sc, h))
      in (Slice (sc_buf sc) 0 n, sc, h))"

definition outputs :: "nat \<Rightarrow> Scratch \<Rightarrow> heap \<Rightarrow> addr \<times> Scratch \<times> heap" where
  "outputs n sc h =
     (let cap = length (h_slices h (sc_pkts sc));
          (sc, h) = (if cap < n
                     then (case make_slices (replicate (max n 4) (Slice 0 0 0)) h of (a, h) \<Rightarrow> (sc\<lparr>sc_pkts := a\<rparr>, h))
                     else (sc, h))
      in (sc_pkts sc, sc, h))"

text \<open>A result that aliases the scratch: the array of output slices and how many of them count.\<close>

record placed =
  pl_Outcome :: Outcome
  pl_Packets :: "addr \<times> nat"

definition read_placed :: "heap \<Rightarrow> placed \<Rightarrow> Result" where
  "read_placed h p = (case pl_Packets p of (a, n) \<Rightarrow>
     \<lparr>r_Outcome = pl_Outcome p, r_Packets = map (get_bytes h) (take n (h_slices h a))\<rparr>)"

fun append_all :: "addr \<Rightarrow> nat \<Rightarrow> slice list \<Rightarrow> heap \<Rightarrow> heap" where
  "append_all a i [] h = h"
| "append_all a i (p # ps) h = append_all a (i + 1) ps (put_slice a i p h)"

definition classify_in :: "slice \<Rightarrow> slice list \<Rightarrow> Scratch \<Rightarrow> heap \<Rightarrow> placed \<times> Scratch \<times> heap" where
  "classify_in raw out sc h =
     (case out of
        [] \<Rightarrow> (\<lparr>pl_Outcome = OutcomeDropped, pl_Packets = (0, 0)\<rparr>, sc, h)
      | [d] \<Rightarrow>
          let outcome = (if get_bytes h raw = get_bytes h d then OutcomeUnchanged else OutcomeTampered)
          in (case outputs 1 sc h of (a, sc, h) \<Rightarrow>
                (\<lparr>pl_Outcome = outcome, pl_Packets = (a, 1)\<rparr>, sc, put_slice a 0 d h))
      | _ \<Rightarrow> (case outputs (length out) sc h of (a, sc, h) \<Rightarrow>
                (\<lparr>pl_Outcome = OutcomeExpanded, pl_Packets = (a, length out)\<rparr>, sc, append_all a 0 out h)))"

text \<open>
  A strategy in memory: it is given the buffer the packet was decoded into, which it may rewrite, and
  names its outputs as slices. This is the library's side, so it is a parameter.
\<close>

type_synonym applier = "slice \<Rightarrow> Direction \<Rightarrow> heap \<Rightarrow> slice list res \<times> heap"

definition Process_in ::
  "genlib \<Rightarrow> (Strategy \<Rightarrow> applier) \<Rightarrow> slice \<Rightarrow> Direction \<Rightarrow> Scratch option \<Rightarrow> heap \<Rightarrow> Engine
     \<Rightarrow> placed res \<times> Scratch option \<times> heap \<times> Engine" where
  "Process_in X A raw dir scratch h e =
     (let s = e_Stats e;
          s = s\<lparr>st_PacketsIn := st_PacketsIn s + 1\<rparr>;
          s = s\<lparr>st_BytesIn := st_BytesIn s + of_nat (len raw)\<rparr>;
          e = e\<lparr>e_Stats := s\<rparr>
      in case e_cur e of
           None \<Rightarrow> (Inl (Msg ''engine has no strategy''), scratch, h, e)
         | Some (_, strat) \<Rightarrow>
             let sc = (case scratch of Some sc \<Rightarrow> sc | None \<Rightarrow> empty_scratch)
             in (case packet_buf (len raw) sc h of (buf, sc, h) \<Rightarrow>
                 let h = copy_bytes buf (get_bytes h raw) h;
                     kept = (\<lambda>sc. map_option (\<lambda>_. sc) scratch)
                 in (case x_ErrorLayer X (get_bytes h buf) of
                       Some err \<Rightarrow>
                         (Inl (Wrap ''decode packet'' [err]), kept sc, h, e\<lparr>e_Stats := s\<lparr>st_Errors := st_Errors s + 1\<rparr>\<rparr>)
                     | None \<Rightarrow>
                         (case A strat buf dir h of
                            (Inl err, h) \<Rightarrow>
                              (Inl (Wrap ''apply strategy'' [err]), kept sc, h, e\<lparr>e_Stats := s\<lparr>st_Errors := st_Errors s + 1\<rparr>\<rparr>)
                          | (Inr out, h) \<Rightarrow>
                              (case classify_in raw out sc h of (res, sc, h) \<Rightarrow>
                                 (Inr res, kept sc, h, e\<lparr>e_Stats := record_result (read_placed h res) s\<rparr>))))))"

text \<open>A standalone engine stands for generation 1.\<close>

definition engine_ProcessGeneration :: "genlib \<Rightarrow> u32 \<Rightarrow> byte list \<Rightarrow> Direction \<Rightarrow> Engine \<Rightarrow> Result res \<times> Engine" where
  "engine_ProcessGeneration X gid raw dir e =
     (if gid \<noteq> 1 then (Inl (Wrap (show_dec (unat gid)) [Sent ErrGenerationNotFound]), e) else Process X raw dir e)"

section \<open>The contract\<close>

definition inside :: "heap \<Rightarrow> slice \<Rightarrow> bool" where
  "inside h s \<longleftrightarrow> arr s < h_next h \<and> off s + len s \<le> length (h_bytes h (arr s))"

text \<open>
  What \<open>classify\<close> says of the outputs: they are the buffer the packet was decoded into, or buffers the
  library allocated. \<open>spares\<close> is what a step may not touch: every array there was, other than the
  buffer, which keeps its size.
\<close>

definition spares :: "addr \<Rightarrow> heap \<Rightarrow> heap \<Rightarrow> bool" where
  "spares b h h' \<longleftrightarrow> h_next h \<le> h_next h' \<and> length (h_bytes h' b) = length (h_bytes h b) \<and>
     (\<forall>a<h_next h. (a \<noteq> b \<longrightarrow> h_bytes h' a = h_bytes h a) \<and> h_slices h' a = h_slices h a)"

definition applies_in_place :: "applier \<Rightarrow> (byte list \<Rightarrow> Direction \<Rightarrow> byte list list res) \<Rightarrow> bool" where
  "applies_in_place A f \<longleftrightarrow> (\<forall>buf dir h. inside h buf \<longrightarrow> 
     (case A buf dir h of (r, h') \<Rightarrow>
        spares (arr buf) h h' \<and>
        (case r of Inl err \<Rightarrow> f (get_bytes h buf) dir = Inl err
         | Inr out \<Rightarrow> f (get_bytes h buf) dir = Inr (map (get_bytes h') out) \<and>
             (\<forall>s\<in>set out. inside h' s \<and> (arr s = arr buf \<or> h_next h \<le> arr s)))))"

definition scratch_ok :: "heap \<Rightarrow> Scratch \<Rightarrow> bool" where
  "scratch_ok h sc \<longleftrightarrow> sc_buf sc < h_next h \<and> sc_pkts sc < h_next h \<and> h_bytes h 0 = [] \<and> h_slices h 0 = []"

text \<open>The calls one after another, each packet in an array of its own, its result read at once.\<close>

fun process_reusing ::
  "genlib \<Rightarrow> (Strategy \<Rightarrow> applier) \<Rightarrow> (byte list \<times> Direction) list \<Rightarrow> Scratch \<Rightarrow> heap \<Rightarrow> Engine \<Rightarrow> Result res list \<times> Engine" where
  "process_reusing X A [] sc h e = ([], e)"
| "process_reusing X A ((bs, dir) # ps) sc h e =
     (case make_bytes bs h of (a, h) \<Rightarrow>
      case Process_in X A (Slice a 0 (length bs)) dir (Some sc) h e of (r, sc', h, e) \<Rightarrow>
      case process_reusing X A ps (case sc' of Some sc \<Rightarrow> sc | None \<Rightarrow> sc) h e of (rs, e) \<Rightarrow>
        ((case r of Inl err \<Rightarrow> Inl err | Inr p \<Rightarrow> Inr (read_placed h p)) # rs, e))"

fun process_fresh :: "genlib \<Rightarrow> (byte list \<times> Direction) list \<Rightarrow> Engine \<Rightarrow> Result res list \<times> Engine" where
  "process_fresh X [] e = ([], e)"
| "process_fresh X ((bs, dir) # ps) e =
     (case Process X bs dir e of (r, e) \<Rightarrow> case process_fresh X ps e of (rs, e) \<Rightarrow> (r # rs, e))"

section \<open>Each step\<close>

definition grows :: "heap \<Rightarrow> heap \<Rightarrow> bool" where
  "grows h h' \<longleftrightarrow> h_next h \<le> h_next h' \<and> (\<forall>a<h_next h. h_bytes h' a = h_bytes h a \<and> h_slices h' a = h_slices h a)"

lemma packet_gives:
  assumes "packet_buf n sc h = (buf, sc', h')" and "scratch_ok h sc"
  shows "inside h' buf" "len buf = n" "off buf = 0" "arr buf = sc_buf sc'" "scratch_ok h' sc'" "grows h h'"
    "sc_buf sc' = sc_buf sc \<or> sc_buf sc' = h_next h"
    "length (h_bytes h' (sc_buf sc')) = scratch_packet (length (h_bytes h (sc_buf sc))) n"
  using assms
  by (auto simp: packet_buf_def make_bytes_def scratch_ok_def inside_def grows_def scratch_packet_def Let_def split: if_splits)

lemma outputs_gives:
  assumes "outputs n sc h = (a, sc', h')" and "scratch_ok h sc"
  shows "n \<le> length (h_slices h' a)" "scratch_ok h' sc'" "h_bytes h' = h_bytes h" "h_next h \<le> h_next h'"
    "sc_buf sc' = sc_buf sc" "a = sc_pkts sc'" "length (h_slices h' a) = scratch_outputs (length (h_slices h (sc_pkts sc))) n"
  using assms
  by (auto simp: outputs_def make_slices_def scratch_ok_def scratch_outputs_def Let_def split: if_splits)

lemma outputs_not_nil:
  assumes "outputs n sc h = (a, sc', h')" and "scratch_ok h sc" and "n > 0"
  shows "a \<noteq> 0"
  using outputs_gives(1,2) [OF assms(1,2)] assms(3) by (cases "a = 0") (auto simp: scratch_ok_def)

lemma copy_bytes_whole:
  assumes "inside h s" and "length bs = len s"
  shows "get_bytes (copy_bytes s bs h) s = bs" "inside (copy_bytes s bs h) s"
    "h_next (copy_bytes s bs h) = h_next h" "h_slices (copy_bytes s bs h) = h_slices h"
    "a \<noteq> arr s \<Longrightarrow> h_bytes (copy_bytes s bs h) a = h_bytes h a"
    "length (h_bytes (copy_bytes s bs h) (arr s)) = length (h_bytes h (arr s))"
  using assms by (auto simp: copy_bytes_def get_bytes_def inside_def Let_def min_def)

lemma append_all_bytes [simp]:
  "h_bytes (append_all a i ps h) = h_bytes h" "h_next (append_all a i ps h) = h_next h"
  "b \<noteq> a \<Longrightarrow> h_slices (append_all a i ps h) b = h_slices h b"
  by (induction a i ps h rule: append_all.induct) (simp_all add: put_slice_def)

lemma append_all_slices:
  "i + length ps \<le> length (h_slices h a) \<Longrightarrow>
     h_slices (append_all a i ps h) a = take i (h_slices h a) @ ps @ drop (i + length ps) (h_slices h a)"
proof (induction a i ps h rule: append_all.induct)
  case (2 a i p ps h)
  then show ?case by (simp add: put_slice_def take_Suc_conv_app_nth drop_update_cancel)
qed simp

lemma get_bytes_cong: "h_bytes h' = h_bytes h \<Longrightarrow> get_bytes h' = get_bytes h"
  by (simp add: get_bytes_def fun_eq_iff)

lemma classify_in_gives:
  assumes "classify_in raw out sc h = (p, sc', h')" and "scratch_ok h sc"
  shows "read_placed h' p = classify (get_bytes h raw) (map (get_bytes h) out)" "scratch_ok h' sc'"
    "h_bytes h' = h_bytes h" "h_next h \<le> h_next h'" "sc_buf sc' = sc_buf sc"
proof -
  consider "out = []" | d where "out = [d]" | d1 d2 ds where "out = d1 # d2 # ds" by (metis neq_Nil_conv)
  then have "read_placed h' p = classify (get_bytes h raw) (map (get_bytes h) out) \<and> scratch_ok h' sc' \<and>
    h_bytes h' = h_bytes h \<and> h_next h \<le> h_next h' \<and> sc_buf sc' = sc_buf sc"
  proof cases
    case 1
    with assms show ?thesis by (auto simp: classify_in_def classify_def read_placed_def)
  next
    case (2 d)
    obtain a sc1 h1 where o: "outputs 1 sc h = (a, sc1, h1)" by (metis prod.exhaust)
    note g = outputs_gives [OF o assms(2)]
    have "take 1 ((h_slices h1 a)[0 := d]) = [d]" using g(1) by (cases "h_slices h1 a") auto
    moreover have "get_bytes (put_slice a 0 d h1) = get_bytes h" using g(3) by (intro get_bytes_cong) (simp add: put_slice_def)
    ultimately show ?thesis using assms(1) 2 o g outputs_not_nil [OF o assms(2)]
      by (auto simp: classify_in_def classify_def read_placed_def put_slice_def scratch_ok_def Let_def)
  next
    case (3 d1 d2 ds)
    obtain a sc1 h1 where o: "outputs (length out) sc h = (a, sc1, h1)" by (metis prod.exhaust)
    note g = outputs_gives [OF o assms(2)]
    have p: "p = \<lparr>pl_Outcome = OutcomeExpanded, pl_Packets = (a, length out)\<rparr>" "sc' = sc1" "h' = append_all a 0 out h1"
      using assms(1) 3 o by (simp_all add: classify_in_def)
    have "take (length out) (h_slices h' a) = out" using g(1) p(3) by (simp add: append_all_slices)
    moreover have "get_bytes h' = get_bytes h" using g(3) p(3) by (intro get_bytes_cong) simp
    moreover have "scratch_ok h' sc'" using g(2) p(2,3) outputs_not_nil [OF o assms(2)] 3 by (simp add: scratch_ok_def put_slice_def)
    moreover have "h_bytes h' = h_bytes h" "h_next h \<le> h_next h'" using g(3,4) p(3) by simp_all
    ultimately show ?thesis using p(1,2) g(5) 3 by (simp add: read_placed_def classify_def)
  qed
  then show "read_placed h' p = classify (get_bytes h raw) (map (get_bytes h) out)" "scratch_ok h' sc'"
    "h_bytes h' = h_bytes h" "h_next h \<le> h_next h'" "sc_buf sc' = sc_buf sc" by simp_all
qed

lemma applies_in_placeD:
  assumes "applies_in_place A f" and "inside h buf" and "A buf dir h = (r, h')"
  shows "spares (arr buf) h h'" "\<And>err. r = Inl err \<Longrightarrow> f (get_bytes h buf) dir = Inl err"
    "\<And>out. r = Inr out \<Longrightarrow> f (get_bytes h buf) dir = Inr (map (get_bytes h') out)"
proof -
  have "case A buf dir h of (r, h') \<Rightarrow> spares (arr buf) h h' \<and>
      (case r of Inl err \<Rightarrow> f (get_bytes h buf) dir = Inl err
       | Inr out \<Rightarrow> f (get_bytes h buf) dir = Inr (map (get_bytes h') out) \<and>
           (\<forall>s\<in>set out. inside h' s \<and> (arr s = arr buf \<or> h_next h \<le> arr s)))"
    by (rule assms(1) [unfolded applies_in_place_def, rule_format, OF assms(2)])
  then show "spares (arr buf) h h'" "\<And>err. r = Inl err \<Longrightarrow> f (get_bytes h buf) dir = Inl err"
    "\<And>out. r = Inr out \<Longrightarrow> f (get_bytes h buf) dir = Inr (map (get_bytes h') out)"
    using assms(3) by simp_all
qed

text \<open>One packet: whatever the scratch holds from before, what is read afterwards is what \<open>Process\<close> gives.\<close>

lemma Process_in_reads:
  assumes P: "Process_in X A raw dir (Some sc) h e = (r, sc', h', e')" and ok: "scratch_ok h sc"
    and raw: "inside h raw" "arr raw \<noteq> sc_buf sc"
    and lib: "\<forall>dna s. e_cur e = Some (dna, s) \<longrightarrow> applies_in_place (A s) (s_Apply s)"
  shows "Process X (get_bytes h raw) dir e = (case r of Inl err \<Rightarrow> Inl err | Inr p \<Rightarrow> Inr (read_placed h' p), e')"
    "\<exists>s. sc' = Some s \<and> scratch_ok h' s"
proof -
  have n: "length (get_bytes h raw) = len raw" using raw(1) by (auto simp: get_bytes_def inside_def min_def)
  have "Process X (get_bytes h raw) dir e = (case r of Inl err \<Rightarrow> Inl err | Inr p \<Rightarrow> Inr (read_placed h' p), e') \<and>
    (\<exists>s. sc' = Some s \<and> scratch_ok h' s)"
  proof (cases "e_cur e")
    case None
    with P ok n show ?thesis by (auto simp: Process_in_def Process_def Let_def)
  next
    case (Some c)
    obtain dna strat where c: "e_cur e = Some (dna, strat)" using Some by (cases c) auto
    obtain buf sc1 h1 where pk: "packet_buf (len raw) sc h = (buf, sc1, h1)" by (metis prod.exhaust)
    note g = packet_gives [OF pk ok]
    define h2 where "h2 = copy_bytes buf (get_bytes h1 raw) h1"
    have keep: "get_bytes h1 raw = get_bytes h raw"
      using g(6) raw(1) by (simp add: grows_def get_bytes_def inside_def)
    have apart: "arr raw \<noteq> arr buf" using g(4,7) raw by (auto simp: inside_def)
    have n1: "length (get_bytes h1 raw) = len buf" using n keep g(2) by simp
    note w = copy_bytes_whole [OF g(1), of "get_bytes h1 raw", folded h2_def, OF n1]
    have nil2: "h_bytes h2 0 = []"
      using w(5) [of 0] w(6) g(5) by (cases "arr buf = 0") (auto simp: scratch_ok_def)
    have raw2: "h_bytes h2 (arr raw) = h_bytes h (arr raw)"
      using w(5) [OF apart] g(6) raw(1) by (simp add: grows_def inside_def)
    have w2: "get_bytes h2 buf = get_bytes h raw" "inside h2 buf" "get_bytes h2 raw = get_bytes h raw" "inside h2 raw"
      using w(1-3) n1 keep raw2 raw(1) g(6) by (simp_all add: get_bytes_def inside_def grows_def)
    have ok2: "scratch_ok h2 sc1" using w(3,4) g(5) nil2 by (simp add: scratch_ok_def)
    obtain ar h3 where A: "A strat buf dir h2 = (ar, h3)" by (metis prod.exhaust)
    have lib': "spares (arr buf) h2 h3" "\<And>err. ar = Inl err \<Longrightarrow> s_Apply strat (get_bytes h raw) dir = Inl err"
      "\<And>out. ar = Inr out \<Longrightarrow> s_Apply strat (get_bytes h raw) dir = Inr (map (get_bytes h3) out)"
      using applies_in_placeD [OF lib [rule_format, OF c] w2(2) A] w2(1) by simp_all
    have raw3: "get_bytes h3 raw = get_bytes h raw"
      using lib'(1) w2(3,4) apart by (simp add: spares_def get_bytes_def inside_def)
    have ok3: "scratch_ok h3 sc1"
      using lib'(1) ok2 g(4) by (cases "arr buf = 0") (auto simp: spares_def scratch_ok_def)
    define s where "s = e_Stats e\<lparr>st_PacketsIn := st_PacketsIn (e_Stats e) + 1, st_BytesIn := st_BytesIn (e_Stats e) + of_nat (len raw)\<rparr>"
    have ins: "Process_in X A raw dir (Some sc) h e =
        (case x_ErrorLayer X (get_bytes h raw) of
           Some err \<Rightarrow> (Inl (Wrap ''decode packet'' [err]), Some sc1, h2, e\<lparr>e_Stats := s\<lparr>st_Errors := st_Errors s + 1\<rparr>\<rparr>)
         | None \<Rightarrow> (case ar of
             Inl err \<Rightarrow> (Inl (Wrap ''apply strategy'' [err]), Some sc1, h3, e\<lparr>e_Stats := s\<lparr>st_Errors := st_Errors s + 1\<rparr>\<rparr>)
           | Inr out \<Rightarrow> (case classify_in raw out sc1 h3 of (res, sc, h) \<Rightarrow> (Inr res, Some sc, h, e\<lparr>e_Stats := record_result (read_placed h res) s\<rparr>))))"
      by (simp only: Process_in_def c pk Let_def prod.case option.case option.map h2_def [symmetric] w2(1) A s_def)
         (cases "x_ErrorLayer X (get_bytes h raw)"; cases ar; simp add: c A split: prod.split)
    have pure: "Process X (get_bytes h raw) dir e =
        (case x_ErrorLayer X (get_bytes h raw) of
           Some err \<Rightarrow> (Inl (Wrap ''decode packet'' [err]), e\<lparr>e_Stats := s\<lparr>st_Errors := st_Errors s + 1\<rparr>\<rparr>)
         | None \<Rightarrow> (case s_Apply strat (get_bytes h raw) dir of
             Inl err \<Rightarrow> (Inl (Wrap ''apply strategy'' [err]), e\<lparr>e_Stats := s\<lparr>st_Errors := st_Errors s + 1\<rparr>\<rparr>)
           | Inr out \<Rightarrow> (Inr (classify (get_bytes h raw) out), e\<lparr>e_Stats := record_result (classify (get_bytes h raw) out) s\<rparr>)))"
      by (cases "x_ErrorLayer X (get_bytes h raw)"; cases "s_Apply strat (get_bytes h raw) dir"; simp add: Process_def c n s_def Let_def)
    show ?thesis
    proof (cases "x_ErrorLayer X (get_bytes h raw)")
      case (Some err)
      then show ?thesis using P ins pure ok2 by auto
    next
      case None
      show ?thesis
      proof (cases ar)
        case (Inl err)
        then show ?thesis using P ins pure None lib'(2) ok3 by auto
      next
        case (Inr out)
        obtain p sc4 h4 where k: "classify_in raw out sc1 h3 = (p, sc4, h4)" by (metis prod.exhaust)
        show ?thesis
          using P ins pure None Inr k lib'(3) [OF Inr] classify_in_gives(1,2) [OF k ok3] raw3 by auto
      qed
    qed
  qed
  then show "Process X (get_bytes h raw) dir e = (case r of Inl err \<Rightarrow> Inl err | Inr p \<Rightarrow> Inr (read_placed h' p), e')"
    "\<exists>s. sc' = Some s \<and> scratch_ok h' s" by simp_all
qed

section \<open>Reuse is transparent\<close>

text \<open>C35: Packets processed one after another with one scratch, whatever that scratch holds from before
  and however the library rewrites the decoded buffer in place, give the results and the counters
  that \<open>Process\<close> gives to each packet on its own, as long as a result is read before the next packet.\<close>

theorem scratch_reuse_is_transparent:
  assumes "scratch_ok h sc" and "\<forall>dna s. e_cur e = Some (dna, s) \<longrightarrow> applies_in_place (A s) (s_Apply s)"
  shows "process_reusing X A ps sc h e = process_fresh X ps e"
  using assms
proof (induction ps arbitrary: sc h e)
  case (Cons p ps)
  obtain bs dir where p: "p = (bs, dir)" by (cases p)
  define h1 where "h1 = h\<lparr>h_bytes := (h_bytes h)(h_next h := bs), h_next := h_next h + 1\<rparr>"
  have mk: "make_bytes bs h = (h_next h, h1)" by (simp add: make_bytes_def h1_def)
  define raw where "raw = Slice (h_next h) 0 (length bs)"
  have raw: "inside h1 raw" "arr raw \<noteq> sc_buf sc" "scratch_ok h1 sc" "get_bytes h1 raw = bs"
    using Cons.prems(1) by (auto simp: h1_def raw_def inside_def scratch_ok_def get_bytes_def)
  obtain r sc' h' e' where P: "Process_in X A raw dir (Some sc) h1 e = (r, sc', h', e')" by (metis prod.exhaust)
  note one = Process_in_reads [OF P raw(3,1,2) Cons.prems(2), unfolded raw(4)]
  then obtain s where s: "sc' = Some s" "scratch_ok h' s" by blast
  have "e_cur e' = e_cur e" using one(1) Process_keeps(1) [of X bs dir e] by simp
  with Cons.prems(2) have lib: "\<forall>dna s. e_cur e' = Some (dna, s) \<longrightarrow> applies_in_place (A s) (s_Apply s)" by simp
  show ?case
    using P one(1) s Cons.IH [OF s(2) lib]
    by (simp add: p mk raw_def split: prod.split)
qed simp

text \<open>A strategy that rewrites the buffer and adds a copy of what came in.\<close>

definition ex_in_place :: applier where
  "ex_in_place buf dir h =
     (case make_bytes (get_bytes h buf) h of (a, h') \<Rightarrow>
        (Inr [buf, Slice a 0 (len buf)], copy_bytes buf (replicate (len buf) 7) h'))"

definition ex_rewrites :: Strategy where
  "ex_rewrites = \<lparr>s_Outbound = [], s_Inbound = [], s_Apply = (\<lambda>bs dir. Inr [replicate (length bs) 7, bs])\<rparr>"

lemma ex_in_place_applies: "applies_in_place ex_in_place (s_Apply ex_rewrites)"
  unfolding applies_in_place_def
proof (intro allI impI)
  fix buf dir h assume i: "inside h buf"
  define h1 where "h1 = h\<lparr>h_bytes := (h_bytes h)(h_next h := get_bytes h buf), h_next := h_next h + 1\<rparr>"
  define h2 where "h2 = copy_bytes buf (replicate (len buf) 7) h1"
  have n: "length (get_bytes h buf) = len buf" using i by (auto simp: get_bytes_def inside_def min_def)
  have i1: "inside h1 buf" "arr buf \<noteq> h_next h" "h_bytes h1 (arr buf) = h_bytes h (arr buf)" using i by (auto simp: inside_def h1_def)
  note w = copy_bytes_whole [OF i1(1), of "replicate (len buf) 7", folded h2_def, simplified]
  have "h_bytes h2 (h_next h) = get_bytes h buf" using w(5) [of "h_next h"] i1(2) by (simp add: h1_def)
  then have fresh: "get_bytes h2 (Slice (h_next h) 0 (len buf)) = get_bytes h buf" "inside h2 (Slice (h_next h) 0 (len buf))"
    using n w(3) by (simp_all add: get_bytes_def [of h2] inside_def h1_def)
  have "spares (arr buf) h h2" using w(3-6) i1 by (auto simp: spares_def h1_def)
  moreover have "ex_in_place buf dir h = (Inr [buf, Slice (h_next h) 0 (len buf)], h2)"
    by (simp add: ex_in_place_def make_bytes_def h2_def h1_def)
  ultimately show "case ex_in_place buf dir h of (r, h') \<Rightarrow> spares (arr buf) h h' \<and>
      (case r of Inl err \<Rightarrow> s_Apply ex_rewrites (get_bytes h buf) dir = Inl err
       | Inr out \<Rightarrow> s_Apply ex_rewrites (get_bytes h buf) dir = Inr (map (get_bytes h') out) \<and>
           (\<forall>s\<in>set out. inside h' s \<and> (arr s = arr buf \<or> h_next h \<le> arr s)))"
    using fresh w(1,2) n by (simp add: ex_rewrites_def)
qed

text \<open>Two packets through a scratch that holds the bytes of an earlier one; the first result, read late, is no longer its own.\<close>

definition ex_scratch_lib :: genlib where
  "ex_scratch_lib = \<lparr>x_NewStrategy = (\<lambda>dna. Inr ex_rewrites), x_Validate = (\<lambda>s. None), x_ErrorLayer = (\<lambda>bs. None)\<rparr>"

definition ex_scratch_engine :: Engine where
  "ex_scratch_engine = \<lparr>e_cur = Some (''x'', ex_rewrites), e_Stats = zero_stats, e_lineage = []\<rparr>"

definition ex_heap :: heap where
  "ex_heap = \<lparr>h_bytes = (\<lambda>a. [])(1 := [9, 9, 9, 9]), h_slices = (\<lambda>a. [])(2 := replicate 4 (Slice 1 0 4)), h_next = 3\<rparr>"

definition ex_scratch :: Scratch where
  "ex_scratch = \<lparr>sc_buf = 1, sc_pkts = 2\<rparr>"

theorem scratch_reuse_is_transparent_witness:
  "fst (process_reusing ex_scratch_lib (\<lambda>s. ex_in_place) [([1, 2], DirectionOutbound), ([3], DirectionInbound)] ex_scratch ex_heap
     ex_scratch_engine) =
   [Inr \<lparr>r_Outcome = OutcomeExpanded, r_Packets = [[7, 7], [1, 2]]\<rparr>, Inr \<lparr>r_Outcome = OutcomeExpanded, r_Packets = [[7], [3]]\<rparr>]"
proof -
  have "scratch_ok ex_heap ex_scratch" by (simp add: scratch_ok_def ex_heap_def ex_scratch_def)
  moreover have "\<forall>dna s. e_cur ex_scratch_engine = Some (dna, s) \<longrightarrow> applies_in_place ex_in_place (s_Apply s)"
    using ex_in_place_applies by (simp add: ex_scratch_engine_def)
  ultimately show ?thesis
    using scratch_reuse_is_transparent [of ex_heap ex_scratch ex_scratch_engine "\<lambda>s. ex_in_place" ex_scratch_lib
        "[([1, 2], DirectionOutbound), ([3], DirectionInbound)]"]
    by (simp add: Process_def ex_scratch_engine_def ex_scratch_lib_def ex_rewrites_def classify_def numeral_2_eq_2 Let_def)
qed

definition ex_late_read :: "byte list list \<times> byte list list" where
  "ex_late_read =
     (let (a, h) = make_bytes [1, 2] ex_heap;
          (r, sc, h, e) = Process_in ex_scratch_lib (\<lambda>s. ex_in_place) (Slice a 0 2) DirectionOutbound (Some ex_scratch) h ex_scratch_engine;
          now = (case r of Inr p \<Rightarrow> r_Packets (read_placed h p) | Inl _ \<Rightarrow> []);
          (b, h) = make_bytes [3, 4] h;
          (_, _, h, _) = Process_in ex_scratch_lib (\<lambda>s. ex_in_place) (Slice b 0 2) DirectionOutbound sc h e;
          late = (case r of Inr p \<Rightarrow> r_Packets (read_placed h p) | Inl _ \<Rightarrow> [])
      in (now, late))"

lemma results_expire: "ex_late_read = ([[7, 7], [1, 2]], [[7, 7], [3, 4]])"
  by (simp add: ex_late_read_def Process_in_def packet_buf_def make_bytes_def ex_heap_def ex_scratch_def ex_scratch_engine_def
      ex_scratch_lib_def copy_bytes_def get_bytes_def ex_in_place_def ex_rewrites_def classify_in_def outputs_def put_slice_def
      read_placed_def numeral_2_eq_2 numeral_3_eq_3 eval_nat_numeral Let_def)

end
