(* ===== verification/Data_Path.thy ===== *)
theory Data_Path
  imports Ctl_Properties Nft_Semantics Nfqueue_Delivery
begin

text \<open>
  A packet's way through the whole program: the kernel reads the rules the controller printed
  (\<open>internal/nftables/manager.go\<close>), the selectors in them come from the strategies of the generations in
  memory (\<open>internal/steering\<close>), and the runtime hands what is queued to the engine of the generation in
  the connection's mark (\<open>internal/nfqueue/runtime.go\<close>, \<open>internal/engine/registry.go\<close>).
\<close>

section \<open>What the table does to a packet\<close>

definition steer :: "Config \<Rightarrow> Direction \<Rightarrow> nft_packet \<Rightarrow> nft_action \<times> nft_packet" where
  "steer c dir p = eval_chain (chain_body (case dir of DirectionOutbound \<Rightarrow> output_chain c | DirectionInbound \<Rightarrow> input_chain c)) p"

definition at_port :: "Config \<Rightarrow> Direction \<Rightarrow> nft_packet \<Rightarrow> bool" where
  "at_port c dir p \<longleftrightarrow>
     (case dir of DirectionOutbound \<Rightarrow> pk_uid p \<noteq> nf_BypassUID c \<and> pk_sport p = nf_Port c
      | DirectionInbound \<Rightarrow> pk_dport p = nf_Port c)"

definition queue_of :: "Config \<Rightarrow> Direction \<Rightarrow> nat" where
  "queue_of c dir = unat (case dir of DirectionOutbound \<Rightarrow> nf_OutQueue c | DirectionInbound \<Rightarrow> nf_InQueue c)"

definition selector_of :: "Direction \<Rightarrow> Generation \<Rightarrow> Selector" where
  "selector_of dir g = (case dir of DirectionOutbound \<Rightarrow> gn_Outbound g | DirectionInbound \<Rightarrow> gn_Inbound g)"

lemma steer_eval:
  "steer c dir p = (let p' = (case dir of DirectionOutbound \<Rightarrow> p | DirectionInbound \<Rightarrow> assigns c p)
     in (if at_port c dir p \<and> queued_by (selector_of dir) c p' then Queue (queue_of c dir) else Accept, p'))"
  by (cases dir) (auto simp: steer_def at_port_def queue_of_def selector_of_def output_chain_means input_chain_eval
      queued_by_def Let_def)

lemma owned_not_assigned: "ID (pk_mark p) = (gid, True) \<Longrightarrow> assigns c p = p"
proof -
  assume o': "ID (pk_mark p) = (gid, True)"
  have "ID 0 = (0, False)" by code_simp
  moreover have "ID (pk_mark p AND Mask) = ID (pk_mark p)"
    using o' owner_iff [of gid "pk_mark p"] owner_iff [of gid "pk_mark p AND Mask"] by (simp add: and.assoc)
  ultimately have "pk_mark p AND Mask \<noteq> 0" using o' by auto
  then show ?thesis by (simp add: assigns_def split: option.split)
qed

section \<open>The strategy decides what is queued\<close>

text \<open>When the strategy may act on a packet with these flags. In \<open>eval\<close> mode every inbound packet of a
  strategy that acts at all is wanted, for the observers.\<close>

definition acts_on :: "ctl_config \<Rightarrow> Strategy \<Rightarrow> Direction \<Rightarrow> u8 \<Rightarrow> bool" where
  "acts_on cf st dir flags \<longleftrightarrow>
     (case dir of
        DirectionOutbound \<Rightarrow> list_ex (\<lambda>t. may_fire t flags) (triggers (s_Outbound st))
      | DirectionInbound \<Rightarrow>
          (if cf_ObserveInbound cf \<and> cf_Mode cf = ''eval'' \<and> \<not> sc_Idle (Of (Some st)) then True
           else list_ex (\<lambda>t. may_fire t flags) (triggers (s_Inbound st))))"

lemma widened_selects:
  "selects (case dir of DirectionOutbound \<Rightarrow> sc_Outbound (widen (cf_ObserveInbound cf) (cf_Mode cf) (Of (Some st)))
     | DirectionInbound \<Rightarrow> sc_Inbound (widen (cf_ObserveInbound cf) (cf_Mode cf) (Of (Some st)))) flags \<longleftrightarrow>
   acts_on cf st dir flags"
  using selects_may_fire by (cases dir) (auto simp: acts_on_def widen_def Of_def list_ex_iff selects_def [of any_selector])

lemma table_entry:
  assumes "settled cf X s" and "\<not> cf_NoNFT cf" and "w_table (c_world s) = Some c" and "e \<in> set (generations c)"
  obtains g parsed where "gen_of s (gn_ID e) = Some g" "parseStrategy X (gs_DNA g) = Inr parsed"
    "dna_of (c_eng s) (gn_ID e) = Some (gs_DNA g)" "\<And>dir flags. selects (selector_of dir e) flags \<longleftrightarrow> acts_on cf parsed dir flags"
proof -
  have "gn_ID e \<in> table_ids (w_table (c_world s))" using assms(3,4) by (simp add: table_ids_def)
  then obtain g where g: "gen_of s (gn_ID e) = Some g" using table_id_known [OF assms(1,2)] by blast
  have ok: "gen_ok cf X (gn_ID e) g" and dna: "dna_of (c_eng s) (gn_ID e) = Some (gs_DNA g)" using settled_gen [OF assms(1) g] by auto
  then obtain parsed where parsed: "parseStrategy X (gs_DNA g) = Inr parsed"
    "gs_Scope g = widen (cf_ObserveInbound cf) (cf_Mode cf) (Of (Some parsed))" by (auto simp: gen_ok_def)
  have "table_true cf (cores (c_generations s)) (Some c)" using assms(1-3) unfolding settled_def cinv_def by metis
  moreover have "(gn_ID e, core g) \<in> set (cores (c_generations s))" using g by (intro cores_mem gen_of_mem)
  ultimately have "gn_Outbound e = sc_Outbound (gs_Scope g)" "gn_Inbound e = sc_Inbound (gs_Scope g)"
    using assms(4) unfolding table_true_def by fastforce+
  then have "selects (selector_of dir e) flags \<longleftrightarrow> acts_on cf parsed dir flags" for dir flags
    using widened_selects [where dir = dir and cf = cf and st = parsed and flags = flags] unfolding parsed(2) by (cases dir) (simp_all add: selector_of_def)
  from that [OF g parsed(1) dna this] show thesis .
qed

lemma steered_exactly:
  assumes "reachable cf X s" and "sound_setup cf X" and "\<not> cf_NoNFT cf" and "w_table (c_world s) = Some c"
    and "gid \<in> gn_ID ` set (generations c)" and "ID (pk_mark p) = (gid, True)" and "at_port (cf_NFT cf) dir p"
  shows "\<exists>g st. gen_of s gid = Some g \<and> parseStrategy X (gs_DNA g) = Inr st \<and> dna_of (c_eng s) gid = Some (gs_DNA g) \<and>
    steer c dir p = (if acts_on cf st dir (pk_flags p) then Queue (queue_of (cf_NFT cf) dir) else Accept, p)"
proof -
  have s: "settled cf X s" using assms(1,2) by (rule reachable_settled)
  obtain e where e: "e \<in> set (generations c)" "gid = gn_ID e" using assms(5) by blast
  obtain g st where g: "gen_of s gid = Some g" "parseStrategy X (gs_DNA g) = Inr st" "dna_of (c_eng s) gid = Some (gs_DNA g)"
    "selects (selector_of dir e) (pk_flags p) \<longleftrightarrow> acts_on cf st dir (pk_flags p)"
    using table_entry [OF s assms(3,4) e(1)] e(2) by metis
  have same: "selects (selector_of dir e') (pk_flags p) \<longleftrightarrow> acts_on cf st dir (pk_flags p)"
    if "e' \<in> set (generations c)" "gn_ID e' = gid" for e'
    using table_entry [OF s assms(3,4) that(1)] that(2) g(1,2) by (metis Inr_inject option.inject)
  have "table_true cf (cores (c_generations s)) (Some c)" using s assms(3,4) unfolding settled_def cinv_def by metis
  then have params: "at_port c dir p = at_port (cf_NFT cf) dir p" "queue_of c dir = queue_of (cf_NFT cf) dir"
    by (cases dir; simp add: table_true_def at_port_def queue_of_def)+
  have "queued_by (selector_of dir) c p \<longleftrightarrow> acts_on cf st dir (pk_flags p)"
    using e same assms(6) by (auto simp: queued_by_def)
  moreover have "(case dir of DirectionOutbound \<Rightarrow> p | DirectionInbound \<Rightarrow> assigns c p) = p"
    using owned_not_assigned [OF assms(6)] by (cases dir) simp_all
  ultimately show ?thesis using g(1-3) assms(7) by (simp add: steer_eval params Let_def)
qed


section \<open>New connections\<close>

lemma active_has_rules:
  assumes "settled cf X s" and "\<not> cf_NoNFT cf" and "\<not> c_fatal s" and "c_activeNew s \<noteq> 0"
  obtains c where "w_table (c_world s) = Some c" "nf_ActiveGeneration c = c_activeNew s"
    "c_activeNew s \<in> gn_ID ` set (generations c)"
  using assms by (auto simp: settled_def agrees_def assigned_def assignment_def table_rules_def split: option.splits)


section \<open>What is queued finds its engine\<close>

lemma integrity_frame [simp, frame_simps]:
  "sh_integrity (snd (snd (q_verdict pid v r s))) = sh_integrity (snd s)"
  "sh_integrity (snd (snd (rt_inject q mark s))) = sh_integrity (snd s)"
  "sh_integrity (snd (rt_accept pid s)) = sh_integrity (snd s)"
  "sh_integrity (snd (rt_drop pid s)) = sh_integrity (snd s)"
  "sh_integrity (snd (with_engine rcf raw dir eng s)) = sh_integrity (snd s)"
  by (simp_all add: rt_accept_def rt_drop_def rt_inject_def with_engine_def observe_def case_prod_beta split: option.split)

lemma extras_integrity [simp, frame_simps]:
  "sh_integrity (snd (snd (inject_extras ps mark n s))) = sh_integrity (snd s)"
proof (induction ps arbitrary: n s)
  case (Cons p ps)
  obtain e s' where r: "rt_inject p mark s = (e, s')" by (metis prod.exhaust)
  then have "sh_integrity (snd s') = sh_integrity (snd s)" using integrity_frame(2) [of p mark s] by simp
  then show ?case using Cons.IH by (simp add: r split: option.split)
qed simp

lemma verdict_integrity:
  "sh_integrity (snd (verdictOutbound pid mark res s)) = sh_integrity (snd s)"
  "sh_integrity (snd (verdictInbound pid res s)) = sh_integrity (snd s)"
proof -
  obtain n s1 where x: "inject_extras (butlast (r_Packets res)) mark 0 s = (n, s1)" by (metis prod.exhaust)
  obtain e s2 where v: "q_verdict pid nfAccept (Some (last (r_Packets res))) s1 = (e, s2)" by (metis prod.exhaust)
  obtain e3 s3 where i: "rt_inject (last (r_Packets res)) mark s2 = (e3, s3)" by (metis prod.exhaust)
  have "sh_integrity (snd s1) = sh_integrity (snd s)" "sh_integrity (snd s2) = sh_integrity (snd s1)"
      "sh_integrity (snd s3) = sh_integrity (snd s2)"
    using extras_integrity [of "butlast (r_Packets res)" mark 0 s] integrity_frame(1) [of pid nfAccept "Some (last (r_Packets res))" s1]
      integrity_frame(2) [of "last (r_Packets res)" mark s2] by (simp_all add: x v i)
  then show "sh_integrity (snd (verdictOutbound pid mark res s)) = sh_integrity (snd s)"
    by (auto simp: verdictOutbound_def x v i Let_def split: option.split)
next
  have "sh_integrity (snd t) = sh_integrity (snd s)" if "q_verdict pid nfAccept r s = (e, t)" for r e t
    using integrity_frame(1) [of pid nfAccept r s] that by simp
  then show "sh_integrity (snd (verdictInbound pid res s)) = sh_integrity (snd s)"
    by (auto simp: verdictInbound_def split: Outcome.split list.split option.split prod.split)
qed

lemma handle_integrity:
  assumes g: "ID (pa_generationMark p) = (gid, True)" and eng: "map_of (g_byID (sh_eng (snd h))) gid = Some eng"
    and own: "\<And>err. fst (Process X (pa_payload p) dir eng) = Inl err \<Longrightarrow> \<not> errors_Is err ErrGenerationNotFound"
  shows "sh_integrity (snd (handle (ProcessGeneration X) rcf dir p h)) = sh_integrity (snd h)"
proof (cases "processed p")
  case False
  then show ?thesis using g by (auto simp: handle_def processed_def)
next
  case True
  obtain r eng' where r: "Process X (pa_payload p) dir eng = (r, eng')" by (metis prod.exhaust)
  obtain reg where P: "ProcessGeneration X (fst (ID (pa_generationMark p))) (pa_payload p) dir (sh_eng (snd h)) = (r, reg)"
    using g eng r by (simp add: ProcessGeneration_def)
  show ?thesis
    using own r unfolding handle_processed [where P = "ProcessGeneration X", OF True P]
    by (cases r) (simp_all add: Let_def verdict_integrity)
qed

lemma steer_queued:
  assumes "steer c dir p = (Queue n, p')"
  obtains e where "e \<in> set (generations c)" "ID (pk_mark p') = (gn_ID e, True)" "n = queue_of c dir"
    "selects (selector_of dir e) (pk_flags p')"
  using assms by (auto simp: steer_eval Let_def queued_by_def split: if_splits)

text \<open>C15: In every reachable state, whatever packet the kernel's table queues belongs to a generation in
  memory, arrives at the queue of its direction, and carries a mark under which the registry
  finds an engine with that generation's DNA: handling it reports an integrity failure only if
  the strategy itself gives that error, so that the rules never break the traffic they steer.\<close>

theorem queued_packets_find_their_engine:
  assumes "reachable cf X s" and "sound_setup cf X" and "\<not> cf_NoNFT cf" and "w_table (c_world s) = Some c"
    and "steer c dir k = (Queue n, k')" and "pa_generationMark p = pk_mark k'" and "sh_eng (snd h) = c_eng s"
  shows "\<exists>gid g st eng. ID (pk_mark k') = (gid, True) \<and> n = queue_of (cf_NFT cf) dir \<and> gen_of s gid = Some g \<and>
    parseStrategy X (gs_DNA g) = Inr st \<and> acts_on cf st dir (pk_flags k') \<and>
    map_of (g_byID (c_eng s)) gid = Some eng \<and> DNA eng = gs_DNA g \<and>
    (sh_integrity (snd (handle (ProcessGeneration (xl_gen X)) rcf dir p h)) = sh_integrity (snd h) \<or>
     (\<exists>err. fst (Process (xl_gen X) (pa_payload p) dir eng) = Inl err \<and> errors_Is err ErrGenerationNotFound))"
proof -
  have s: "settled cf X s" using assms(1,2) by (rule reachable_settled)
  obtain e where e: "e \<in> set (generations c)" "ID (pk_mark k') = (gn_ID e, True)" "n = queue_of c dir"
    "selects (selector_of dir e) (pk_flags k')" using assms(5) by (rule steer_queued)
  obtain g st where g: "gen_of s (gn_ID e) = Some g" "parseStrategy X (gs_DNA g) = Inr st"
    "dna_of (c_eng s) (gn_ID e) = Some (gs_DNA g)" "acts_on cf st dir (pk_flags k')"
    using table_entry [OF s assms(3,4) e(1)] e(4) by metis
  obtain eng where eng: "map_of (g_byID (c_eng s)) (gn_ID e) = Some eng" "DNA eng = gs_DNA g"
    using g(3) by (auto simp: dna_of_def)
  have "table_true cf (cores (c_generations s)) (Some c)" using s assms(3,4) unfolding settled_def cinv_def by metis
  then have "queue_of c dir = queue_of (cf_NFT cf) dir"
    by (cases dir; simp add: table_true_def queue_of_def)
  moreover have "sh_integrity (snd (handle (ProcessGeneration (xl_gen X)) rcf dir p h)) = sh_integrity (snd h)"
    if "\<nexists>err. fst (Process (xl_gen X) (pa_payload p) dir eng) = Inl err \<and> errors_Is err ErrGenerationNotFound"
    using that e(2) eng(1) assms(6,7) by (intro handle_integrity) auto
  ultimately show ?thesis using e(2,3) g(1,2,4) eng by blast
qed

section \<open>What is still queued when a generation is collected\<close>

lemma late_packet_reports:
  assumes "processed p" and "map_of (g_byID (sh_eng (snd h))) (fst (ID (pa_generationMark p))) = None" and "rc_IntegrityFailure rcf"
  shows "sh_integrity (snd (handle (ProcessGeneration X) rcf dir p h)) = sh_integrity (snd h) @ [Sent ErrGenerationNotFound]"
proof -
  have "ProcessGeneration X (fst (ID (pa_generationMark p))) (pa_payload p) dir (sh_eng (snd h)) =
      (Inl (Sent ErrGenerationNotFound), sh_eng (snd h))"
    using assms(2) by (simp add: ProcessGeneration_def)
  from handle_processed [where P = "ProcessGeneration X", OF assms(1) this] assms(3) show ?thesis
    by (simp add: report_integrity_def Let_def)
qed

section \<open>An example\<close>

definition ex_reply :: nft_packet where
  "ex_reply = \<lparr>pk_sport = 443, pk_dport = 5000, pk_uid = 1, pk_mark = 0x67001abc, pk_flags = 0x12, pk_new = False, pk_length = 40\<rparr>"

definition ex_queued :: packet where
  "ex_queued = \<lparr>pa_id = 1, pa_generationMark = 0x67001abc, pa_routingMark = 0, pa_payload = [69], pa_truncated = False\<rparr>"

definition ex_path_facts :: "ctl \<Rightarrow> bool" where
  "ex_path_facts s \<longleftrightarrow> (case w_table (c_world s) of None \<Rightarrow> False | Some c \<Rightarrow> map gn_ID (generations c) = [1]) \<and>
     (case map_of (g_byID (c_eng s)) 1 of None \<Rightarrow> False
      | Some eng \<Rightarrow> (case fst (Process (xl_gen ex_libs) [69] DirectionOutbound eng) of Inl _ \<Rightarrow> False | Inr _ \<Rightarrow> True))"

lemma ex_path_checked: "ex_path_facts ex_active" "ID (pk_mark ex_reply) = (1, True)" "at_port (cf_NFT Ctl_Example.ex_config) DirectionOutbound ex_reply"
  "acts_on Ctl_Example.ex_config ex_strategy DirectionOutbound (pk_flags ex_reply)"
  "queue_of (cf_NFT Ctl_Example.ex_config) DirectionOutbound = 100"
  by code_simp+

lemma ex_path_table: obtains c where "w_table (c_world ex_active) = Some c" "1 \<in> gn_ID ` set (generations c)"
proof -
  obtain c where c: "w_table (c_world ex_active) = Some c" "map gn_ID (generations c) = [1]"
    using ex_path_checked(1) by (auto simp: ex_path_facts_def split: option.splits)
  then have "1 \<in> set (map gn_ID (generations c))" by simp
  with that c(1) show thesis by simp
qed

lemma ex_steered:
  "\<exists>c. w_table (c_world ex_active) = Some c \<and> steer c DirectionOutbound ex_reply = (Queue 100, ex_reply)"
proof -
  obtain c where c: "w_table (c_world ex_active) = Some c" "1 \<in> gn_ID ` set (generations c)" by (rule ex_path_table)
  from steered_exactly [OF ex_active_reachable ex_setup ex_config_evaluated(1) c ex_path_checked(2,3)]
  have "steer c DirectionOutbound ex_reply = (Queue (queue_of (cf_NFT Ctl_Example.ex_config) DirectionOutbound), ex_reply)"
    using ex_path_checked(4) by (auto simp: parseStrategy_def ex_libs_def)
  then show ?thesis using c(1) ex_path_checked(5) by simp
qed


theorem queued_packets_find_their_engine_witness:
  "sh_integrity (snd (handle (ProcessGeneration (xl_gen ex_libs)) Nfqueue_Delivery.ex_config DirectionOutbound ex_queued
     ((ex_queue, ex_knet), ex_shared\<lparr>sh_eng := c_eng ex_active\<rparr>))) = []"
proof -
  let ?h = "((ex_queue, ex_knet), ex_shared\<lparr>sh_eng := c_eng ex_active\<rparr>)"
  obtain c where c: "w_table (c_world ex_active) = Some c" "steer c DirectionOutbound ex_reply = (Queue 100, ex_reply)"
    using ex_steered by blast
  have mark: "pa_generationMark ex_queued = pk_mark ex_reply" "pa_payload ex_queued = [69]" by (simp_all add: ex_queued_def ex_reply_def)
  have eng: "sh_eng (snd ?h) = c_eng ex_active" "sh_integrity (snd ?h) = []" by (simp_all add: ex_shared_def)
  note q = queued_packets_find_their_engine [OF ex_active_reachable ex_setup ex_config_evaluated(1) c mark(1) eng(1),
      of Nfqueue_Delivery.ex_config, unfolded mark(2) eng(2) ex_path_checked(2)]
  then show ?thesis using ex_path_checked(1) by (auto simp: ex_path_facts_def split: option.splits sum.splits)
qed

definition ex_syn :: nft_packet where
  "ex_syn = \<lparr>pk_sport = 5000, pk_dport = 443, pk_uid = 0, pk_mark = 0xabc, pk_flags = 0x02, pk_new = True, pk_length = 40\<rparr>"


text \<open>
  The collection of a generation removes its rules and then its engine, when no connection is counted; packets
  that already wait in the queue are not waited for. The last packet of a connection that has left
  conntrack is enough for an integrity failure, which takes the active generation out of service.
\<close>

definition collected_run :: "err option \<times> ctl" where
  "collected_run = (case DeactivateNew Ctl_Example.ex_config ex_libs ex_active of (e, s) \<Rightarrow>
     GarbageCollectGeneration Ctl_Example.ex_config ex_libs 1 s)"

definition collected_facts :: "err option \<times> ctl \<Rightarrow> bool" where
  "collected_facts r \<longleftrightarrow> fst r = None \<and> map_of (g_byID (c_eng (snd r))) 1 = None"

lemma collected_checked: "collected_facts collected_run"
  by code_simp

lemma packet_queued_before_collection:
  "sh_integrity (snd (handle (ProcessGeneration (xl_gen ex_libs)) Nfqueue_Delivery.ex_config DirectionOutbound ex_queued
     ((ex_queue, ex_knet), ex_shared\<lparr>sh_eng := c_eng (snd collected_run)\<rparr>))) = [Sent ErrGenerationNotFound]"
proof -
  have "pa_generationMark ex_queued = pk_mark ex_reply" by (simp add: ex_queued_def ex_reply_def)
  then have g: "ID (pa_generationMark ex_queued) = (1, True)" using ex_path_checked(2) by simp
  then have "processed ex_queued" by (simp add: processed_def ex_queued_def)
  from late_packet_reports [OF this, of "((ex_queue, ex_knet), ex_shared\<lparr>sh_eng := c_eng (snd collected_run)\<rparr>)"
      Nfqueue_Delivery.ex_config "xl_gen ex_libs" DirectionOutbound]
  show ?thesis using g collected_checked by (simp add: collected_facts_def Nfqueue_Delivery.ex_config_def ex_shared_def)
qed

end
