(* ===== verification/Bulk.thy ===== *)
theory Bulk
  imports Scope
begin

text \<open>
  \<open>bench/bulk/main.go\<close>: the load generator of the benchmark. The server writes as many bytes as a
  request asks for; the client prints a rate only when every stream delivered everything.
\<close>

section \<open>The server\<close>

definition chunkSize :: int where "chunkSize = 256 * 1024"

text \<open>The writes of one answer, each with whether it works; with none left they all do.\<close>

function bulk_writes :: "int \<Rightarrow> bool list \<Rightarrow> int list \<times> bool" where
  "bulk_writes n works =
     (if n > 0 then
        let c = min n chunkSize
        in (case works of
              False # _ \<Rightarrow> ([], False)
            | _ \<Rightarrow> (case bulk_writes (n - c) (tl works) of (cs, complete) \<Rightarrow> (c # cs, complete)))
      else ([], True))"
  by auto
termination
  by (relation "measure (\<lambda>(n, works). nat n)") (auto simp: chunkSize_def)

declare bulk_writes.simps [simp del]

datatype bulk_answer = BadBytes | Streamed int "int list" bool

definition handleBulk :: "string \<Rightarrow> bool list \<Rightarrow> bulk_answer" where
  "handleBulk query works =
     (case Atoi query of
        None \<Rightarrow> BadBytes
      | Some n \<Rightarrow>
          if n < 0 then BadBytes
          else (case bulk_writes n works of (cs, complete) \<Rightarrow> Streamed n cs complete))"

section \<open>The client\<close>

text \<open>What one stream met: no response, another status, or a body and how the copy of it ended.\<close>

datatype stream = NoResponse err | Response nat u64 "err option"

definition stream_result :: "nat \<Rightarrow> stream \<Rightarrow> u64 \<times> err option" where
  "stream_result i st =
     (case st of
        NoResponse e \<Rightarrow> (0, Some (Wrap (''stream '' @ show_dec i) [e]))
      | Response code c e \<Rightarrow>
          if code \<noteq> 200 then (0, Some (Msg (''stream '' @ show_dec i @ '': HTTP '' @ show_dec code)))
          else (c, map_option (\<lambda>e. Wrap (''stream '' @ show_dec i @ '': after '' @ show_dec (unat c) @ '' bytes'') [e]) e))"

fun first_error :: "err option list \<Rightarrow> err option" where
  "first_error [] = None"
| "first_error (Some e # _) = Some e"
| "first_error (None # es) = first_error es"

definition runClient :: "u64 \<Rightarrow> stream list \<Rightarrow> u64 res" where
  "runClient n sts =
     (let rs = map (\<lambda>(i, st). stream_result i st) (List.enumerate 0 sts);
          total = sum_list (map fst rs);
          want = n * of_nat (length sts)
      in case first_error (map snd rs) of
           Some e \<Rightarrow> Inl e
         | None \<Rightarrow> if total \<noteq> want then Inl (Msg ''short transfer'') else Inr total)"

section \<open>What the two promise\<close>

lemma bulk_writes_cases:
  assumes "bulk_writes n works = (cs, complete)" and "0 \<le> n"
  obtains (stop) "n = 0" "cs = []" "complete" | (failed) "0 < n" "cs = []" "\<not> complete"
    | (wrote) ds where "0 < n" "cs = min n chunkSize # ds" "bulk_writes (n - min n chunkSize) (tl works) = (ds, complete)"
proof (cases "n = 0")
  case True
  with assms(1) that(1) show thesis by (simp add: bulk_writes.simps [of 0])
next
  case False
  with assms(2) have n: "0 < n" by simp
  show thesis
  proof (cases "\<exists>ws. works = False # ws")
    case True
    with assms(1) n that(2) show thesis by (auto simp: bulk_writes.simps [of n] Let_def)
  next
    case False
    then have "works = [] \<or> (\<exists>ws. works = True # ws)" by (cases works) auto
    with assms(1) n that(3) show thesis by (auto simp: bulk_writes.simps [of n] Let_def split: prod.splits)
  qed
qed

lemma bulk_writes_sum:
  assumes "bulk_writes n works = (cs, complete)" and "0 \<le> n"
  shows "sum_list cs \<le> n \<and> (complete \<longleftrightarrow> sum_list cs = n) \<and> (\<forall>c\<in>set cs. 0 < c \<and> c \<le> chunkSize)"
  using assms
proof (induction cs arbitrary: n works)
  case Nil
  from Nil.prems show ?case by (cases rule: bulk_writes_cases) auto
next
  case (Cons c cs)
  from Cons.prems show ?case
  proof (cases rule: bulk_writes_cases)
    case (wrote ds)
    then have c: "c = min n chunkSize" "ds = cs" "0 < c" "c \<le> n" by (auto simp: chunkSize_def)
    with Cons.IH [of "n - c" "tl works"] wrote show ?thesis by auto
  qed simp_all
qed

lemma first_error_None: "first_error es = None \<longleftrightarrow> (\<forall>e\<in>set es. e = None)"
  by (induction es rule: first_error.induct) auto

lemma all_at_bound:
  fixes xs :: "nat list"
  assumes "\<forall>x\<in>set xs. x \<le> n" and "sum_list xs = n * length xs"
  shows "\<forall>x\<in>set xs. x = n"
  using assms
proof (induction xs)
  case (Cons x xs)
  have "sum_list xs \<le> n * length xs" using Cons.prems(1) by (induction xs) auto
  with Cons show ?case by auto
qed simp

lemma unat_sum_list:
  fixes ws :: "u64 list"
  assumes "sum_list (map unat ws) < 2 ^ 64"
  shows "unat (sum_list ws) = sum_list (map unat ws)"
  using assms
proof (induction ws)
  case (Cons w ws)
  then have "unat (sum_list ws) = sum_list (map unat ws)" "unat w + sum_list (map unat ws) < 2 ^ 64" by simp_all
  then show ?case using unat_add_lem [of w "sum_list ws"] by simp
qed simp

text \<open>A rate is printed only for a whole transfer: no stream delivers more than it was asked for, so
  when the sum fits, each one delivered all of it.\<close>

lemma rate_means_whole_transfer:
  assumes "runClient n sts = Inr t" and "unat n * length sts < 2 ^ 64"
    and "\<And>code c e. Response code c e \<in> set sts \<Longrightarrow> c \<le> n"
  shows "\<forall>st\<in>set sts. st = Response 200 n None"
proof -
  let ?rs = "map (\<lambda>(i, st). stream_result i st) (List.enumerate 0 sts)"
  have r: "first_error (map snd ?rs) = None" "sum_list (map fst ?rs) = n * of_nat (length sts)"
    using assms(1) by (simp_all add: runClient_def Let_def split: option.splits if_splits)
  have ok: "\<exists>c. st = Response 200 c None" if "st \<in> set sts" for st
  proof -
    from that obtain i where "i < length sts" "sts ! i = st" by (auto simp: in_set_conv_nth)
    then have "(i, st) \<in> set (List.enumerate 0 sts)" by (simp add: in_set_enumerate_eq)
    then have "snd (stream_result i st) = None" using r(1) by (force simp: first_error_None)
    then show ?thesis by (auto simp: stream_result_def split: stream.splits if_splits)
  qed
  define got where "got st = (case st of Response _ c _ \<Rightarrow> c | NoResponse _ \<Rightarrow> 0)" for st
  have "map fst ?rs = map (got \<circ> snd) (List.enumerate 0 sts)"
  proof (rule map_map [THEN trans], rule map_cong [OF refl])
    fix e assume "e \<in> set (List.enumerate 0 sts)"
    then have "snd e \<in> set sts" by (metis enumerate_eq_zip in_set_zipE prod.collapse snd_conv)
    from ok [OF this] show "(fst \<circ> (\<lambda>(i, st). stream_result i st)) e = (got \<circ> snd) e"
      by (cases e) (auto simp: stream_result_def got_def)
  qed
  then have gots: "sum_list (map got sts) = n * of_nat (length sts)" using r(2) by (simp flip: map_map)
  have le: "\<forall>x\<in>set (map (unat \<circ> got) sts). x \<le> unat n"
    using ok assms(3) by (fastforce simp: got_def word_le_nat_alt)
  then have "sum_list (map (unat \<circ> got) sts) \<le> unat n * length sts"
    by (induction sts) auto
  then have "unat (sum_list (map got sts)) = sum_list (map (unat \<circ> got) sts)"
    using assms(2) unat_sum_list [of "map got sts"] by (simp add: comp_def)
  moreover have "unat (n * of_nat (length sts)) = unat n * length sts"
    using assms(2) by (simp add: unat_word_ariths unat_of_nat mod_mult_right_eq)
  ultimately have "sum_list (map (unat \<circ> got) sts) = unat n * length (map (unat \<circ> got) sts)" using gots by simp
  from all_at_bound [OF le this] have "\<forall>st\<in>set sts. got st = n" by (simp add: word_unat_eq_iff)
  with ok show ?thesis by (fastforce simp: got_def)
qed

text \<open>The check compares sums of 64 bits: with streams that wrap around, nothing at all passes for a
  whole transfer.\<close>

lemma wrapped_total_passes: "runClient (2 ^ 62) [Response 200 0 None, Response 200 0 None, Response 200 0 None, Response 200 0 None] = Inr 0"
  by (simp add: runClient_def stream_result_def enumerate_eq_zip)

end
